(* ===== verification/Prelude.thy ===== *)
theory Prelude
  imports Main "HOL-Library.Word"
begin

text \<open>
  Shared vocabulary of the development: Rust's machine integers, checked arithmetic,
  little-endian byte strings, hexadecimal digits, and the error monad of the \<open>?\<close>
  operator.

  Sizes and addresses (\<open>usize\<close> and \<open>u64\<close>, both 64 bits wide on the target) are
  natural numbers together with the explicit overflow checks the code makes
  (\<open>checked_add\<close>, \<open>checked_mul\<close>, \<open>checked_sub\<close>); the places where the code uses an unchecked
  operator write the wrap-around out (\<open>wrapping_add\<close>, \<open>wrapping_mul\<close>). Bytes, UTF-16 units and
  bit patterns are words.
\<close>

unbundle bit_operations_syntax

type_synonym u8 = "8 word"
type_synonym u16 = "16 word"
type_synonym u32 = "32 word"
type_synonym u64 = "64 word"

text \<open>A Rust \<open>str\<close> is the list of its Unicode scalar values.\<close>
type_synonym ustr = "nat list"

named_theorems checked_simps \<open>characterisations of the checked 64-bit operations\<close>
named_theorems le_simps \<open>little-endian encoding and decoding\<close>

subsection \<open>64-bit arithmetic on natural numbers\<close>

definition checked_add :: "nat \<Rightarrow> nat \<Rightarrow> nat option" where
  "checked_add a b = (if a + b < 2 ^ 64 then Some (a + b) else None)"

definition checked_mul :: "nat \<Rightarrow> nat \<Rightarrow> nat option" where
  "checked_mul a b = (if a * b < 2 ^ 64 then Some (a * b) else None)"

definition checked_sub :: "nat \<Rightarrow> nat \<Rightarrow> nat option" where
  "checked_sub a b = (if b \<le> a then Some (a - b) else None)"

definition saturating_add :: "nat \<Rightarrow> nat \<Rightarrow> nat" where
  "saturating_add a b = min (a + b) (2 ^ 64 - 1)"

definition saturating_sub :: "nat \<Rightarrow> nat \<Rightarrow> nat" where
  "saturating_sub a b = a - b"

definition wrapping_add :: "nat \<Rightarrow> nat \<Rightarrow> nat" where
  "wrapping_add a b = (a + b) mod 2 ^ 64"

definition wrapping_mul :: "nat \<Rightarrow> nat \<Rightarrow> nat" where
  "wrapping_mul a b = (a * b) mod 2 ^ 64"

lemma checked_add_Some [checked_simps]:
  "checked_add a b = Some c \<longleftrightarrow> c = a + b \<and> a + b < 2 ^ 64"
  by (auto simp: checked_add_def)

lemma checked_add_None [checked_simps]: "checked_add a b = None \<longleftrightarrow> 2 ^ 64 \<le> a + b"
  by (auto simp: checked_add_def)

lemma checked_mul_Some [checked_simps]:
  "checked_mul a b = Some c \<longleftrightarrow> c = a * b \<and> a * b < 2 ^ 64"
  by (auto simp: checked_mul_def)

lemma checked_mul_None [checked_simps]: "checked_mul a b = None \<longleftrightarrow> 2 ^ 64 \<le> a * b"
  by (auto simp: checked_mul_def)

lemma checked_sub_Some [checked_simps]:
  "checked_sub a b = Some c \<longleftrightarrow> c = a - b \<and> b \<le> a"
  by (auto simp: checked_sub_def)

lemma checked_sub_None [checked_simps]: "checked_sub a b = None \<longleftrightarrow> a < b"
  by (auto simp: checked_sub_def)

lemma wrapping_add_exact [simp]: "a + b < 2 ^ 64 \<Longrightarrow> wrapping_add a b = a + b"
  by (simp add: wrapping_add_def)

lemma wrapping_mul_exact [simp]: "a * b < 2 ^ 64 \<Longrightarrow> wrapping_mul a b = a * b"
  by (simp add: wrapping_mul_def)

lemma saturating_add_mono: "a \<le> 2 ^ 64 - 1 \<Longrightarrow> a \<le> saturating_add a b"
  by (simp add: saturating_add_def)

lemma saturating_add_exact: "a + b < 2 ^ 64 \<Longrightarrow> saturating_add a b = a + b"
  by (simp add: saturating_add_def)

subsection \<open>The error monad of the question mark operator\<close>

definition and_then :: "'e + 'a \<Rightarrow> ('a \<Rightarrow> 'e + 'b) \<Rightarrow> 'e + 'b" where
  "and_then r f = (case r of Inl e \<Rightarrow> Inl e | Inr x \<Rightarrow> f x)"

definition ok_or :: "'a option \<Rightarrow> 'e \<Rightarrow> 'e + 'a" where
  "ok_or r e = (case r of None \<Rightarrow> Inl e | Some x \<Rightarrow> Inr x)"

definition map_err :: "('e \<Rightarrow> 'f) \<Rightarrow> 'e + 'a \<Rightarrow> 'f + 'a" where
  "map_err f r = (case r of Inl e \<Rightarrow> Inl (f e) | Inr x \<Rightarrow> Inr x)"

definition is_ok :: "'e + 'a \<Rightarrow> bool" where
  "is_ok r = (case r of Inl _ \<Rightarrow> False | Inr _ \<Rightarrow> True)"

lemma and_then_simps [simp]:
  "and_then (Inl e) f = Inl e" "and_then (Inr x) f = f x"
  by (simp_all add: and_then_def)

lemma and_then_Inr: "and_then r f = Inr y \<longleftrightarrow> (\<exists>x. r = Inr x \<and> f x = Inr y)"
  by (cases r) auto

lemma and_then_Inl: "and_then r f = Inl e \<longleftrightarrow> r = Inl e \<or> (\<exists>x. r = Inr x \<and> f x = Inl e)"
  by (cases r) auto

lemma ok_or_simps [simp]: "ok_or None e = Inl e" "ok_or (Some x) e = Inr x"
  by (simp_all add: ok_or_def)

lemma ok_or_Inr [simp]: "ok_or r e = Inr x \<longleftrightarrow> r = Some x"
  by (cases r) auto

lemma ok_or_Inl [simp]: "ok_or r e = Inl f \<longleftrightarrow> r = None \<and> e = f"
  by (cases r) auto

lemma map_err_simps [simp]: "map_err f (Inl e) = Inl (f e)" "map_err f (Inr x) = Inr x"
  by (simp_all add: map_err_def)

lemma map_err_Inr [simp]: "map_err f r = Inr x \<longleftrightarrow> r = Inr x"
  by (cases r) auto

lemma is_ok_simps [simp]: "is_ok (Inr x)" "\<not> is_ok (Inl e)"
  by (simp_all add: is_ok_def)

subsection \<open>Little-endian bytes\<close>

fun le_nat :: "u8 list \<Rightarrow> nat" where
  "le_nat [] = 0"
| "le_nat (b # bs) = unat b + 256 * le_nat bs"

fun le_bytes :: "nat \<Rightarrow> nat \<Rightarrow> u8 list" where
  "le_bytes 0 v = []"
| "le_bytes (Suc n) v = of_nat v # le_bytes n (v div 256)"

lemma length_le_bytes [simp]: "length (le_bytes n v) = n"
  by (induction n arbitrary: v) auto

lemma le_bytes_2: "le_bytes 2 v = [of_nat v, of_nat (v div 256)]"
  by (simp add: numeral_2_eq_2)

lemma unat_byte_less [simp]: "unat (b :: u8) < 256"
proof -
  have "unat b < 2 ^ LENGTH(8)" by (rule unsigned_less)
  then show ?thesis by simp
qed

lemma unat_of_nat_byte [simp]: "unat (of_nat v :: u8) = v mod 256"
  by (simp add: unat_of_nat)

lemma word_of_unat: "unat (w :: 'a::len word) = n \<Longrightarrow> w = of_nat n"
  by auto

lemma le_nat_le_bytes [le_simps]: "le_nat (le_bytes n v) = v mod 256 ^ n"
  by (induction n arbitrary: v) (simp_all add: mod_mult2_eq)

lemma le_nat_bound [le_simps]: "le_nat bs < 256 ^ length bs"
proof (induction bs)
  case Nil
  then show ?case by simp
next
  case (Cons b bs)
  then have "le_nat bs + 1 \<le> 256 ^ length bs" by simp
  then have "256 * (le_nat bs + 1) \<le> 256 * 256 ^ length bs" by (rule mult_le_mono2)
  with unat_byte_less [of b] show ?case by (simp del: unat_byte_less)
qed

lemma le_bytes_le_nat [le_simps]: "le_bytes (length bs) (le_nat bs) = bs"
proof (induction bs)
  case Nil
  then show ?case by simp
next
  case (Cons b bs)
  have "of_nat (unat b + 256 * le_nat bs) = (b :: u8)"
    by (rule word_unat_eq_iff [THEN iffD2]) (simp only: unat_of_nat_byte, simp)
  moreover have "(unat b + 256 * le_nat bs) div 256 = le_nat bs" by simp
  ultimately show ?case using Cons by simp
qed

lemma le_nat_zeros [simp]: "le_nat (replicate n 0) = 0"
  by (induction n) auto

lemma le_bytes_inject:
  assumes "v < 256 ^ n" "w < 256 ^ n" "le_bytes n v = le_bytes n w"
  shows "v = w"
  using assms by (metis le_nat_le_bytes mod_less)

subsection \<open>Slices\<close>

definition subrange :: "nat \<Rightarrow> nat \<Rightarrow> 'a list \<Rightarrow> 'a list" where
  "subrange a b xs = take (b - a) (drop a xs)"

lemma length_subrange: "b \<le> length xs \<Longrightarrow> length (subrange a b xs) = b - a"
  by (simp add: subrange_def)

lemma subrange_append_drop: "a \<le> b \<Longrightarrow> subrange a b xs @ drop b xs = drop a xs"
  unfolding subrange_def by (metis append_take_drop_id drop_drop le_add_diff_inverse2)

lemma nth_subrange:
  "b \<le> length xs \<Longrightarrow> i < b - a \<Longrightarrow> subrange a b xs ! i = xs ! (a + i)"
  by (simp add: subrange_def)

lemma drop_four:
  assumes "n + 4 = length xs"
  shows "drop n xs = [xs ! n, xs ! (n + 1), xs ! (n + 2), xs ! (n + 3)]"
proof -
  have "drop n xs = xs ! n # drop (n + 1) xs" using assms by (simp add: Cons_nth_drop_Suc)
  also have "drop (n + 1) xs = xs ! (n + 1) # drop (n + 2) xs"
    using assms by (simp add: Cons_nth_drop_Suc)
  also have "drop (n + 2) xs = xs ! (n + 2) # drop (n + 3) xs"
    using assms Cons_nth_drop_Suc [of "n + 2" xs] by (simp add: numeral_eq_Suc)
  also have "drop (n + 3) xs = [xs ! (n + 3)]"
    using assms Cons_nth_drop_Suc [of "n + 3" xs] by (simp add: numeral_eq_Suc)
  finally show ?thesis .
qed

definition overwrite :: "nat \<Rightarrow> 'a list \<Rightarrow> 'a list \<Rightarrow> 'a list" where
  "overwrite at ys xs = take at xs @ ys @ drop (at + length ys) xs"

lemma length_overwrite [simp]:
  "at + length ys \<le> length xs \<Longrightarrow> length (overwrite at ys xs) = length xs"
  by (simp add: overwrite_def)

lemma subrange_overwrite_same:
  "at + length ys \<le> length xs \<Longrightarrow> subrange at (at + length ys) (overwrite at ys xs) = ys"
  by (simp add: overwrite_def subrange_def)

lemma nth_overwrite:
  assumes "at + length ys \<le> length xs" "i < length xs"
  shows "overwrite at ys xs ! i =
    (if at \<le> i \<and> i < at + length ys then ys ! (i - at) else xs ! i)"
  using assms by (auto simp: overwrite_def nth_append min_def)

lemma subrange_nthI:
  assumes "b \<le> length xs" "b \<le> length ys" "\<And>i. a \<le> i \<Longrightarrow> i < b \<Longrightarrow> xs ! i = ys ! i"
  shows "subrange a b xs = subrange a b ys"
  by (rule nth_equalityI) (use assms in \<open>auto simp: subrange_def\<close>)

lemma subrange_overwrite_other:
  assumes "at + length ys \<le> length xs" "b \<le> length xs" "b \<le> at \<or> at + length ys \<le> a"
  shows "subrange a b (overwrite at ys xs) = subrange a b xs"
  by (rule subrange_nthI) (use assms in \<open>auto simp: nth_overwrite\<close>)

subsection \<open>Strings\<close>

text \<open>
  \<open>split_on\<close> is \<open>str::split\<close> on one character; \<open>encode_utf16\<close> is the standard
  library's UTF-16 encoder on scalar values.
\<close>

fun split_on :: "'a \<Rightarrow> 'a list \<Rightarrow> 'a list list" where
  "split_on c [] = [[]]"
| "split_on c (x # xs) =
     (if x = c then [] # split_on c xs
      else (case split_on c xs of [] \<Rightarrow> [[x]] | p # ps \<Rightarrow> (x # p) # ps))"

fun encode_utf16 :: "ustr \<Rightarrow> u16 list" where
  "encode_utf16 [] = []"
| "encode_utf16 (c # cs) =
     (if c < 0x10000 then of_nat c # encode_utf16 cs
      else of_nat (0xd800 + (c - 0x10000) div 1024) # of_nat (0xdc00 + (c - 0x10000) mod 1024)
        # encode_utf16 cs)"

definition unit_bytes :: "u16 \<Rightarrow> u8 list" where
  "unit_bytes u = le_bytes 2 (unat u)"

fun bytes_units :: "u8 list \<Rightarrow> u16 list" where
  "bytes_units (a # b # rest) = of_nat (le_nat [a, b]) # bytes_units rest"
| "bytes_units _ = []"

lemma length_unit_bytes [simp]: "length (unit_bytes u) = 2"
  by (simp add: unit_bytes_def)

lemma le_nat_unit_bytes [simp]: "le_nat (unit_bytes u) = unat u"
proof -
  have "unat u < 2 ^ LENGTH(16)" by (rule unsigned_less)
  then show ?thesis by (simp add: unit_bytes_def le_nat_le_bytes)
qed

lemma unit_bytes_cases: obtains a b where "unit_bytes u = [a, b]" "of_nat (le_nat [a, b]) = u"
proof -
  have "unit_bytes u = [of_nat (unat u), of_nat (unat u div 256)]"
    by (simp add: unit_bytes_def numeral_2_eq_2)
  moreover have "of_nat (le_nat (unit_bytes u)) = u" by simp
  ultimately show ?thesis using that by metis
qed

lemma bytes_units_unit_bytes [simp]: "bytes_units (unit_bytes u @ rest) = u # bytes_units rest"
  by (rule unit_bytes_cases [of u]) (simp del: le_nat.simps)

lemma bytes_units_concat [simp]: "bytes_units (concat (map unit_bytes us)) = us"
  by (induction us) auto

lemma length_concat_unit_bytes [simp]: "length (concat (map unit_bytes us)) = 2 * length us"
  by (induction us) auto

definition is_control :: "nat \<Rightarrow> bool" where
  "is_control c \<longleftrightarrow> c < 0x20 \<or> (0x7f \<le> c \<and> c < 0xa0)"

subsection \<open>Panics\<close>

definition wrapping_sub :: "nat \<Rightarrow> nat \<Rightarrow> nat" where
  "wrapping_sub a b = (a + (2 ^ 64 - b)) mod 2 ^ 64"

lemma wrapping_sub_exact: "b \<le> a \<Longrightarrow> a < 2 ^ 64 \<Longrightarrow> wrapping_sub a b = a - b"
  by (simp add: wrapping_sub_def le_mod_geq)

text \<open>
  Where the source indexes a slice or unwraps, running out of range is the value
  \<open>Panic\<close>; an ordinary error is \<open>Fail\<close>.
\<close>

datatype 'e fault = Panic | Fail 'e

subsection \<open>Hexadecimal digits\<close>

definition hex_digit :: "nat \<Rightarrow> char" where
  "hex_digit n = ''0123456789abcdef'' ! n"

definition hex_value :: "char \<Rightarrow> nat option" where
  "hex_value c =
    (let n = of_char c :: nat in
     if 48 \<le> n \<and> n \<le> 57 then Some (n - 48)
     else if 97 \<le> n \<and> n \<le> 102 then Some (n - 87)
     else if 65 \<le> n \<and> n \<le> 70 then Some (n - 55) else None)"

lemma hex_value_digits:
  "list_all (\<lambda>n. hex_value (hex_digit n) = Some n) [0..<16]"
  by (simp add: upt_rec [of _ 16] hex_value_def hex_digit_def Let_def)

lemma below_16: "n < 16 \<Longrightarrow> list_all P [0..<16] \<Longrightarrow> P n" for n :: nat
  by (simp add: list_all_iff)

lemma hex_value_digit [simp]: "n < 16 \<Longrightarrow> hex_value (hex_digit n) = Some n"
  by (erule below_16) (rule hex_value_digits)

lemma hex_digit_inject: "m < 16 \<Longrightarrow> n < 16 \<Longrightarrow> hex_digit m = hex_digit n \<Longrightarrow> m = n"
  by (metis hex_value_digit option.inject)

end
