(* ===== verification/Device_Paths.thy ===== *)
theory Device_Paths
  imports Prelude "HOL-Library.Sublist"
begin

text \<open>
  Bounded UEFI device paths: \<open>path_body\<close>, \<open>descendant\<close> and \<open>image_path\<close> of
  src/src/apfs\_observation.rs. A device path is a sequence of nodes, each with a type, a
  subtype, a little-endian 16-bit length that covers the header, and a payload; the end node
  has type 0x7f. The scanner is related to an independent description of well-formed paths
  (a list of nodes followed by the end node).
\<close>

definition MAX_PATH :: nat where "MAX_PATH = 2048"
definition MAX_NODES :: nat where "MAX_NODES = 64"
definition MAX_RECORD :: nat where "MAX_RECORD = 4096"
definition MAX_NAME :: nat where "MAX_NAME = 255"
definition MAX_ENTRIES :: nat where "MAX_ENTRIES = 128"
definition MAX_TOTAL_ENTRIES :: nat where "MAX_TOTAL_ENTRIES = 512"
definition MAX_METADATA :: nat where "MAX_METADATA = 1024 * 1024"

lemmas limit_defs = MAX_PATH_def MAX_NODES_def MAX_RECORD_def MAX_NAME_def MAX_ENTRIES_def
  MAX_TOTAL_ENTRIES_def MAX_METADATA_def

datatype invalid = InvPath | InvSize | InvName | InvAttributes | InvGeometry | InvLimit

subsection \<open>The scanner\<close>

text \<open>
  The \<open>while\<close> loop of \<open>path_body\<close>: \<open>offset\<close> and \<open>nodes\<close> are its two variables. Every
  indexed byte lies below \<open>offset + 4\<close>, which the loop condition bounds by the length.
\<close>

function path_scan :: "u8 list \<Rightarrow> nat \<Rightarrow> nat \<Rightarrow> invalid + u8 list" where
  "path_scan path offset nodes =
     (if offset + 4 \<le> length path then
        (let len = le_nat [path ! (offset + 2), path ! (offset + 3)] in
         if len < 4 \<or> len > length path - offset \<or> nodes \<ge> MAX_NODES then Inl InvPath
         else if path ! offset = 0x7f then
           (if path ! (offset + 1) = 0xff \<and> len = 4 \<and> offset + 4 = length path \<and> offset > 0
            then Inr (take offset path) else Inl InvPath)
         else path_scan path (offset + len) (nodes + 1))
      else Inl InvPath)"
  by pat_completeness auto
termination
  by (relation "measure (\<lambda>(path, offset, nodes). length path - offset)") auto

declare path_scan.simps [simp del]

definition path_body :: "u8 list \<Rightarrow> invalid + u8 list" where
  "path_body path = (if length path > MAX_PATH then Inl InvPath else path_scan path 0 0)"

definition descendant :: "u8 list \<Rightarrow> u8 list \<Rightarrow> invalid + bool" where
  "descendant parent child =
     and_then (path_body parent) (\<lambda>parent.
     and_then (path_body child) (\<lambda>child.
       Inr (length child > length parent \<and> prefix parent child)))"

subsection \<open>Well-formed paths\<close>

definition node_ok :: "u8 list \<Rightarrow> bool" where
  "node_ok n \<longleftrightarrow> 4 \<le> length n \<and> n ! 0 \<noteq> 0x7f \<and> le_nat [n ! 2, n ! 3] = length n"

definition end_node :: "u8 list" where
  "end_node = [0x7f, 0xff, 4, 0]"

lemma length_end_node [simp]: "length end_node = 4"
  by (simp add: end_node_def)

lemma node_ok_nonempty: "node_ok n \<Longrightarrow> n \<noteq> []"
  by (auto simp: node_ok_def)

lemma length_concat_nodes: "\<forall>n \<in> set ns. node_ok n \<Longrightarrow> 4 * length ns \<le> length (concat ns)"
  by (induction ns) (auto simp: node_ok_def)

lemma path_scan_complete:
  assumes "\<forall>n \<in> set ns. node_ok n" and "nodes + length ns < MAX_NODES"
    and "pre \<noteq> [] \<or> ns \<noteq> []"
  shows "path_scan (pre @ concat ns @ end_node) (length pre) nodes = Inr (pre @ concat ns)"
  using assms
proof (induction ns arbitrary: pre nodes)
  case Nil
  then show ?case
    by (subst path_scan.simps) (auto simp: end_node_def nth_append)
next
  case (Cons n ns)
  from Cons.prems(1) have n: "node_ok n" by simp
  let ?p = "pre @ concat (n # ns) @ end_node"
  have at: "?p ! (length pre + i) = n ! i" if "i < length n" for i
    using that by (simp add: nth_append)
  from n have len: "4 \<le> length n" by (simp add: node_ok_def)
  have len2: "le_nat [?p ! (length pre + 2), ?p ! (length pre + 3)] = length n"
    using at [of 2] at [of 3] n len by (simp add: node_ok_def)
  have ty: "?p ! length pre \<noteq> 0x7f"
    using at [of 0] n len by (cases n) (auto simp: node_ok_def)
  have "path_scan ?p (length pre) nodes = path_scan ?p (length pre + length n) (nodes + 1)"
    using len len2 ty Cons.prems(2)
    by (subst path_scan.simps) (simp add: Let_def del: le_nat.simps)
  also have "\<dots> = path_scan ((pre @ n) @ concat ns @ end_node) (length (pre @ n)) (nodes + 1)"
    by simp
  also have "\<dots> = Inr ((pre @ n) @ concat ns)"
    by (rule Cons.IH) (use Cons.prems n in \<open>auto dest: node_ok_nonempty\<close>)
  finally show ?case by simp
qed

lemma four_bytes: "(x::nat) + 256 * y = 4 \<Longrightarrow> x = 4 \<and> y = 0"
  by arith

lemma path_scan_sound:
  "path_scan path offset nodes = Inr b \<Longrightarrow> offset \<le> length path \<Longrightarrow>
   \<exists>ns. (\<forall>n \<in> set ns. node_ok n) \<and> nodes + length ns < MAX_NODES
      \<and> path = take offset path @ concat ns @ end_node \<and> b = take offset path @ concat ns
      \<and> (offset > 0 \<or> ns \<noteq> [])"
proof (induction path offset nodes rule: path_scan.induct)
  case (1 path offset nodes)
  define len where "len = le_nat [path ! (offset + 2), path ! (offset + 3)]"
  from "1.prems"(1) have four: "offset + 4 \<le> length path"
    and len: "4 \<le> len" "len \<le> length path - offset" "nodes < MAX_NODES"
    by (subst (asm) path_scan.simps; auto simp: Let_def len_def simp del: le_nat.simps
        split: if_splits)+
  show ?case
  proof (cases "path ! offset = 0x7f")
    case True
    with "1.prems"(1) four len have e: "path ! (offset + 1) = 0xff" "len = 4"
      "offset + 4 = length path" "offset > 0" "b = take offset path"
      by (subst (asm) path_scan.simps; auto simp: Let_def len_def simp del: le_nat.simps
          split: if_splits)+
    have two: "path ! (offset + 2) = 4 \<and> path ! (offset + 3) = 0"
    proof -
      from e(2) have "unat (path ! (offset + 2)) + 256 * unat (path ! (offset + 3)) = 4"
        by (simp add: len_def)
      then have "unat (path ! (offset + 2)) = 4 \<and> unat (path ! (offset + 3)) = 0"
        by (rule four_bytes)
      then show ?thesis by (auto dest!: word_of_unat)
    qed
    have "drop offset path = end_node"
      using drop_four [OF e(3)] True e(1) two by (simp add: end_node_def)
    then have "path = take offset path @ end_node"
      by (metis append_take_drop_id)
    then show ?thesis
      using e len by (intro exI [of _ "[]"]) auto
  next
    case False
    have step: "path_scan path (offset + len) (nodes + 1) = Inr b"
      using "1.prems"(1) False four len
      by (subst (asm) path_scan.simps) (auto simp: Let_def len_def simp del: le_nat.simps
          split: if_splits)
    let ?n = "subrange offset (offset + len) path"
    have at: "?n ! i = path ! (offset + i)" if "i < len" for i
      using that len four by (simp add: nth_subrange)
    have at3: "?n ! 0 = path ! offset" "?n ! 2 = path ! (offset + 2)" "?n ! 3 = path ! (offset + 3)"
      using at [of 0] at [of 2] at [of 3] len by auto
    have "length ?n = len"
      using len four by (simp add: length_subrange)
    then have n: "node_ok ?n"
      unfolding node_ok_def at3 using len False by (simp add: len_def del: le_nat.simps)
    have tk: "take (offset + len) path = take offset path @ ?n"
      by (simp add: subrange_def take_add)
    from "1.IH" [OF four len_def] step len False
    obtain ns where ns: "\<forall>n \<in> set ns. node_ok n" "nodes + 1 + length ns < MAX_NODES"
      "path = take (offset + len) path @ concat ns @ end_node"
      "b = take (offset + len) path @ concat ns"
      by fastforce
    show ?thesis
      using ns n tk by (intro exI [of _ "?n # ns"]) auto
  qed
qed

text \<open>
  What \<open>path_body\<close> accepts, stated without the scanner.
\<close>

definition wf_path :: "u8 list list \<Rightarrow> u8 list \<Rightarrow> bool" where
  "wf_path ns path \<longleftrightarrow> path = concat ns @ end_node \<and> ns \<noteq> [] \<and> length ns < MAX_NODES
     \<and> (\<forall>n \<in> set ns. node_ok n) \<and> length path \<le> MAX_PATH"

lemma path_body_exact:
  "path_body path = Inr b \<longleftrightarrow> (\<exists>ns. wf_path ns path \<and> b = concat ns)"
proof
  assume "path_body path = Inr b"
  then have "length path \<le> MAX_PATH" and s: "path_scan path 0 0 = Inr b"
    by (auto simp: path_body_def split: if_splits)
  with path_scan_sound [OF s] show "\<exists>ns. wf_path ns path \<and> b = concat ns"
    by (auto simp: wf_path_def)
next
  assume "\<exists>ns. wf_path ns path \<and> b = concat ns"
  then show "path_body path = Inr b"
    using path_scan_complete [where pre = "[]" and nodes = 0]
    by (auto simp: wf_path_def path_body_def)
qed

lemma wf_path_body: "wf_path ns path \<Longrightarrow> path_body path = Inr (concat ns)"
  using path_body_exact by blast

lemma path_body_InrE:
  assumes "path_body path = Inr b"
  obtains ns where "wf_path ns path" "b = concat ns" "path = b @ end_node"
  using assms path_body_exact by (metis wf_path_def)

subsection \<open>Nodes are found again from the bytes\<close>

lemma node_prefix_unique:
  assumes "node_ok m" "node_ok n" "m @ xs = n @ ys"
  shows "m = n \<and> xs = ys"
proof -
  have eq: "(m @ xs) ! 2 = (n @ ys) ! 2" "(m @ xs) ! 3 = (n @ ys) ! 3"
    using assms(3) by simp_all
  have "length m = length n"
    using assms(1,2) eq by (simp add: node_ok_def nth_append)
  with assms(3) show ?thesis by simp
qed

lemma prefix_concat_nodes:
  assumes "\<forall>n \<in> set ms. node_ok n" "\<forall>n \<in> set ns. node_ok n"
  shows "prefix (concat ms) (concat ns) \<longleftrightarrow> prefix ms ns"
  using assms
proof (induction ms arbitrary: ns)
  case Nil
  then show ?case by simp
next
  case (Cons m ms)
  show ?case
  proof (cases ns)
    case Nil
    then show ?thesis using Cons.prems by (auto dest: node_ok_nonempty)
  next
    case (Cons n ns')
    have mn: "node_ok m" "node_ok n" using Cons.prems \<open>ns = n # ns'\<close> by auto
    show ?thesis
    proof
      assume "prefix (concat (m # ms)) (concat ns)"
      then obtain zs where zs: "m @ (concat ms @ zs) = n @ concat ns'"
        using Cons by (auto simp: prefix_def)
      have "m = n" "concat ns' = concat ms @ zs"
        using node_prefix_unique [OF mn zs] by auto
      then show "prefix (m # ms) ns"
        using Cons.IH [of ns'] Cons.prems Cons by (auto simp: prefix_def)
    next
      assume "prefix (m # ms) ns"
      then show "prefix (concat (m # ms)) (concat ns)"
        by (auto simp: prefix_def)
    qed
  qed
qed

lemma descendant_nodes:
  assumes "wf_path ms parent" "wf_path ns child"
  shows "descendant parent child = Inr (strict_prefix ms ns)"
proof -
  have nodes: "\<forall>n \<in> set ms. node_ok n" "\<forall>n \<in> set ns. node_ok n"
    using assms by (auto simp: wf_path_def)
  have "length (concat ms) < length (concat ns)" if "strict_prefix ms ns"
  proof -
    from that obtain z zs where "ns = ms @ z # zs" by (rule strict_prefixE')
    with nodes show ?thesis by (auto simp: node_ok_def)
  qed
  then show ?thesis
    using wf_path_body [OF assms(1)] wf_path_body [OF assms(2)] prefix_concat_nodes [OF nodes]
    by (auto simp: descendant_def strict_prefix_def)
qed

subsection \<open>Appending a file path node\<close>

text \<open>
  \<open>image_path\<close>. \<open>reserve\<close> says whether the global allocator grants a reservation of that
  many bytes (\<open>try_reserve_exact\<close>). Code points: 92 is the backslash, 47 the slash, 46 the dot.
\<close>

definition bad_part :: "ustr \<Rightarrow> bool" where
  "bad_part part \<longleftrightarrow> part = [] \<or> part = [46] \<or> part = [46, 46]"

definition image_path_rejects :: "ustr \<Rightarrow> bool" where
  "image_path_rejects path \<longleftrightarrow>
     (case path of [] \<Rightarrow> True | c # _ \<Rightarrow> c \<noteq> 92)
     \<or> length (encode_utf16 path) > 1024
     \<or> list_ex (\<lambda>c. is_control c \<or> c > 0xffff \<or> c = 47) path
     \<or> list_ex bad_part (drop 1 (split_on 92 path))"

definition image_path :: "(nat \<Rightarrow> bool) \<Rightarrow> u8 list \<Rightarrow> ustr \<Rightarrow> invalid + u8 list" where
  "image_path reserve volume path =
     and_then (path_body volume) (\<lambda>body.
       if image_path_rejects path then Inl InvPath
       else let units = encode_utf16 path @ [0] in
         and_then (ok_or (Option.bind (checked_mul (length units) 2) (\<lambda>v. checked_add v 4)) InvSize) (\<lambda>len.
         and_then (ok_or (Option.bind (checked_add (length body) len) (\<lambda>v. checked_add v 4)) InvSize) (\<lambda>total.
           if len > 0xffff \<or> total > 8192 then Inl InvSize
           else if \<not> reserve total then Inl InvLimit
           else Inr (body @ [4, 4] @ le_bytes 2 len @ concat (map unit_bytes units)
                      @ [0x7f, 0xff, 4, 0]))))"

definition file_node :: "ustr \<Rightarrow> u8 list" where
  "file_node path = [4, 4] @ le_bytes 2 (2 * length (encode_utf16 path) + 6)
     @ concat (map unit_bytes (encode_utf16 path @ [0]))"

lemma node_ok_file_node:
  assumes "length (encode_utf16 path) \<le> 1024"
  shows "node_ok (file_node path)"
proof -
  define l where "l = 2 * length (encode_utf16 path) + 6"
  from assms have "l < 256 ^ 2" by (simp add: l_def)
  then have "le_nat (le_bytes 2 l) = l"
    by (simp only: le_nat_le_bytes mod_less)
  then have l: "le_nat [of_nat l, of_nat (l div 256)] = l"
    by (simp only: le_bytes_2)
  have node: "file_node path = [4, 4, of_nat l, of_nat (l div 256)]
      @ concat (map unit_bytes (encode_utf16 path @ [0]))"
    by (simp add: file_node_def l_def le_bytes_2)
  have "length (file_node path) = l"
    unfolding node by (simp add: l_def)
  moreover have "file_node path ! 0 = 4" "file_node path ! 2 = of_nat l"
    "file_node path ! 3 = of_nat (l div 256)"
    unfolding node by simp_all
  ultimately show ?thesis
    unfolding node_ok_def using l by (simp add: l_def del: le_nat.simps)
qed

lemma image_path_eq:
  assumes "path_body volume = Inr body" "\<not> image_path_rejects path"
  shows "image_path reserve volume path =
    (if reserve (length body + 2 * length (encode_utf16 path) + 10)
     then Inr (body @ file_node path @ end_node) else Inl InvLimit)"
proof -
  from assms(2) have "length (encode_utf16 path) \<le> 1024"
    by (simp add: image_path_rejects_def)
  moreover from assms(1) have "length body \<le> 2048"
    by (auto elim!: path_body_InrE simp: wf_path_def MAX_PATH_def)
  ultimately show ?thesis
    using assms
    by (simp add: image_path_def checked_mul_def checked_add_def file_node_def end_node_def
        add.commute mult.commute)
qed

lemma image_path_Inr:
  assumes "image_path reserve volume path = Inr q"
  obtains body where "path_body volume = Inr body" "\<not> image_path_rejects path"
    "q = body @ file_node path @ end_node" "node_ok (file_node path)"
proof -
  from assms obtain body where body: "path_body volume = Inr body"
    and ok: "\<not> image_path_rejects path"
    by (auto simp: image_path_def and_then_Inr split: if_splits)
  then have "q = body @ file_node path @ end_node"
    using assms image_path_eq [OF body ok, of reserve] by (auto split: if_splits)
  moreover from ok have "node_ok (file_node path)"
    by (intro node_ok_file_node) (simp add: image_path_rejects_def)
  ultimately show ?thesis using body ok that by blast
qed

lemma path_body_error: "path_body path = Inl e \<Longrightarrow> e = InvPath"
proof -
  have "path_scan path offset nodes = Inl e \<Longrightarrow> e = InvPath" for offset nodes
    by (induction path offset nodes rule: path_scan.induct)
      (subst (asm) (2) path_scan.simps, auto simp: Let_def split: if_splits)
  then show "path_body path = Inl e \<Longrightarrow> e = InvPath"
    by (auto simp: path_body_def split: if_splits)
qed

subsection \<open>Properties\<close>

text \<open>Property C1: the scanner accepts exactly the sequences of at most 63 well-formed nodes
  followed by one end node, within 2048 bytes, and then returns the nodes' bytes; anything
  else is the path error.\<close>
theorem path_body_accepts_exactly:
  "path_body path = (if \<exists>ns. wf_path ns path then Inr (take (length path - 4) path) else Inl InvPath)"
proof (cases "\<exists>ns. wf_path ns path")
  case True
  then obtain ns where ns: "wf_path ns path" by blast
  then have "take (length path - 4) path = concat ns" by (auto simp: wf_path_def)
  with ns wf_path_body show ?thesis by auto
next
  case False
  then have "path_body path \<noteq> Inr b" for b using path_body_exact by blast
  with False show ?thesis by (cases "path_body path") (auto dest: path_body_error)
qed

text \<open>\<open>descendant\<close> compares whole nodes. It answers only on two well-formed
  paths, and the answer is whether the parent's node list is a strict prefix of the child's:
  a byte prefix that ends inside a node cannot make it true.\<close>
theorem descendant_is_node_prefix:
  "descendant parent child = Inr b \<longleftrightarrow>
     (\<exists>ms ns. wf_path ms parent \<and> wf_path ns child \<and> b = strict_prefix ms ns)"
proof
  assume d: "descendant parent child = Inr b"
  then obtain p c where "path_body parent = Inr p" "path_body child = Inr c"
    by (auto simp: descendant_def and_then_Inr)
  then obtain ms ns where "wf_path ms parent" "wf_path ns child"
    by (auto elim!: path_body_InrE)
  with d descendant_nodes show "\<exists>ms ns. wf_path ms parent \<and> wf_path ns child \<and> b = strict_prefix ms ns"
    by fastforce
qed (auto simp: descendant_nodes)

text \<open>An image path is the volume's nodes and one file path node that carries
  the path's UTF-16 units and a terminator, in at most 4102 bytes. Whenever the scanner accepts
  it, it is a strict descendant of the volume. Neither length check can fail.\<close>
theorem image_path_is_file_below_volume:
  assumes "image_path reserve volume path = Inr q"
  shows "length q \<le> 4102 \<and>
    (\<exists>ns node. wf_path ns volume \<and> node_ok node \<and> q = concat (ns @ [node]) @ end_node
       \<and> bytes_units (drop 4 node) = encode_utf16 path @ [0]
       \<and> (path_body q = Inr b \<longrightarrow> descendant volume q = Inr True))"
proof -
  from assms obtain body where body: "path_body volume = Inr body" "\<not> image_path_rejects path"
    "q = body @ file_node path @ end_node" "node_ok (file_node path)"
    by (rule image_path_Inr)
  then obtain ns where ns: "wf_path ns volume" "body = concat ns" by (auto elim!: path_body_InrE)
  have "length body \<le> 2044" using ns by (auto simp: wf_path_def MAX_PATH_def)
  moreover have "length (file_node path) \<le> 2054" using body(2)
    by (simp add: file_node_def image_path_rejects_def)
  moreover have "bytes_units (drop 4 (file_node path)) = encode_utf16 path @ [0]"
  proof -
    have "drop 4 (file_node path) = concat (map unit_bytes (encode_utf16 path @ [0]))"
      by (simp add: file_node_def le_bytes_2)
    then show ?thesis by (simp only: bytes_units_concat)
  qed
  moreover have "descendant volume q = Inr True" if "path_body q = Inr b"
  proof -
    from that obtain ms where ms: "wf_path ms q" by (auto elim!: path_body_InrE)
    have eq: "concat ms = concat (ns @ [file_node path])"
      using ms body(3) ns(2) by (auto simp: wf_path_def)
    have nodes: "\<forall>n \<in> set ms. node_ok n" "\<forall>n \<in> set (ns @ [file_node path]). node_ok n"
      using ms ns body(4) by (auto simp: wf_path_def)
    have "ms = ns @ [file_node path]"
    proof (rule prefix_order.antisym)
      show "prefix ms (ns @ [file_node path])"
        using prefix_concat_nodes [OF nodes] unfolding eq by blast
      show "prefix (ns @ [file_node path]) ms"
        using prefix_concat_nodes [OF nodes(2,1)] unfolding eq by blast
    qed
    with descendant_nodes [OF ns(1) ms] show ?thesis by (simp add: strict_prefix_def)
  qed
  ultimately show ?thesis
    using ns body by (intro conjI exI [of _ ns] exI [of _ "file_node path"]) auto
qed

text \<open>The hypothesis holds for the path \<open>\\a\<close> below a volume of one node.\<close>
theorem image_path_is_file_below_volume_witness:
  "\<exists>q. image_path (\<lambda>_. True) [1, 0, 4, 0, 0x7f, 0xff, 4, 0] [92, 97] = Inr q \<and> length q \<le> 4102"
proof -
  have "wf_path [[1, 0, 4, 0]] [1, 0, 4, 0, 0x7f, 0xff, 4, 0]"
    by (simp add: wf_path_def node_ok_def end_node_def MAX_NODES_def MAX_PATH_def)
  from wf_path_body [OF this] have body: "path_body [1, 0, 4, 0, 0x7f, 0xff, 4, 0] = Inr [1, 0, 4, 0]"
    by simp
  have "image_path (\<lambda>_. True) [1, 0, 4, 0, 0x7f, 0xff, 4, 0] [92, 97] =
    Inr ([1, 0, 4, 0] @ file_node [92, 97] @ end_node)"
    by (subst image_path_eq [OF body]) (simp_all add: image_path_rejects_def bad_part_def is_control_def)
  with image_path_is_file_below_volume [OF this, of "[]"] show ?thesis by blast
qed

end
