(* ===== verification/Apfs_Records.thy ===== *)
theory Apfs_Records
  imports Device_Paths "HOL-Library.Char_ord"
begin

text \<open>
  The record parsers of src/src/apfs\_observation.rs: sized records, UTF-16 names and their
  printable rendering, directory entries, volume information, and the metadata budget.
  Slices that the source takes by range are taken by \<open>le64\<close> and \<open>byte_range\<close>, which are
  \<open>Panic\<close> out of range; the parsers are shown never to panic.
\<close>

definition byte_range :: "u8 list \<Rightarrow> nat \<Rightarrow> nat \<Rightarrow> 'e fault + u8 list" where
  "byte_range bytes a b = (if a \<le> b \<and> b \<le> length bytes then Inr (subrange a b bytes) else Inl Panic)"

definition le64 :: "u8 list \<Rightarrow> nat \<Rightarrow> 'e fault + nat" where
  "le64 bytes offset = and_then (byte_range bytes offset (offset + 8)) (\<lambda>b. Inr (le_nat b))"

definition byte_at :: "u8 list \<Rightarrow> nat \<Rightarrow> 'e fault + u8" where
  "byte_at bytes i = (if i < length bytes then Inr (bytes ! i) else Inl Panic)"

definition sized :: "u8 list \<Rightarrow> nat \<Rightarrow> invalid fault + u8 list" where
  "sized bytes name_offset =
     (if length bytes < name_offset + 2 \<or> length bytes > MAX_RECORD then Inl (Fail InvSize)
      else and_then (le64 bytes 0) (\<lambda>size.
        if size < name_offset + 2 \<or> size > length bytes then Inl (Fail InvSize)
        else byte_range bytes 0 size))"

subsection \<open>Names\<close>

text \<open>The loop of \<open>name_units\<close>: the units read so far, and whether a terminator was met.\<close>

fun name_scan :: "bool \<Rightarrow> u16 list \<Rightarrow> u8 list \<Rightarrow> invalid fault + u16 list \<times> bool" where
  "name_scan component units (a # b # rest) =
     (let u = of_nat (le_nat [a, b]) :: u16 in
      if u = 0 then Inr (units, True)
      else if length units = MAX_NAME
           \<or> (component \<and> (u < 0x20 \<or> u = 0x7f \<or> u = 0x2f \<or> u = 0x5c)) then Inl (Fail InvName)
      else name_scan component (units @ [u]) rest)"
| "name_scan component units _ = Inr (units, False)"

text \<open>\<open>char::decode_utf16\<close> yields no error: every surrogate is a high one followed by a low one.\<close>

fun utf16_ok :: "u16 list \<Rightarrow> bool" where
  "utf16_ok [] = True"
| "utf16_ok (u # us) =
     (if u < 0xd800 \<or> 0xdfff < u then utf16_ok us
      else if 0xdbff < u then False
      else (case us of [] \<Rightarrow> False
            | v # vs \<Rightarrow> 0xdc00 \<le> v \<and> v \<le> 0xdfff \<and> utf16_ok vs))"

definition name_units :: "u8 list \<Rightarrow> bool \<Rightarrow> invalid fault + u16 list" where
  "name_units bytes component =
     and_then (name_scan component [] bytes) (\<lambda>(units, ended).
       if \<not> ended \<or> (component \<and> units = []) \<or> \<not> utf16_ok units then Inl (Fail InvName)
       else Inr units)"

definition backslash :: char where "backslash = CHR 0x5C"
definition dquote :: char where "dquote = CHR 0x22"

text \<open>\<open>{unit:04x}\<close> on a 16-bit value.\<close>

definition hex4 :: "nat \<Rightarrow> string" where
  "hex4 n = [hex_digit (n div 4096 mod 16), hex_digit (n div 256 mod 16),
             hex_digit (n div 16 mod 16), hex_digit (n mod 16)]"

definition escape_unit :: "u16 \<Rightarrow> string" where
  "escape_unit u =
     (if u = 0x22 then [backslash, dquote]
      else if u = 0x5c then [backslash, backslash]
      else if 0x20 \<le> u \<and> u \<le> 0x7e then [char_of (unat u)]
      else [backslash, CHR ''u''] @ hex4 (unat u))"

definition escape_units :: "u16 list \<Rightarrow> string" where
  "escape_units units = concat (map escape_unit units)"

definition render_name :: "u8 list \<Rightarrow> bool \<Rightarrow> invalid fault + string" where
  "render_name bytes component = and_then (name_units bytes component) (\<lambda>units. Inr (escape_units units))"

subsection \<open>Directory entries and volume information\<close>

record dir_entry =
  ent_name :: string
  file_size :: nat
  physical_size :: nat
  attributes :: u64
  directory :: bool
  dot :: bool

definition entry :: "u8 list \<Rightarrow> bool \<Rightarrow> invalid fault + dir_entry" where
  "entry raw root =
     and_then (sized raw 80) (\<lambda>bytes.
     and_then (le64 bytes 72) (\<lambda>attr.
     let attrs = of_nat attr :: u64 in
     if attrs AND NOT 0x37 \<noteq> 0 \<or> (root \<and> attrs AND 0x10 = 0) then Inl (Fail InvAttributes)
     else
     and_then (byte_range bytes 80 (length bytes)) (\<lambda>tail.
     and_then (render_name tail (\<not> root)) (\<lambda>nm.
     if root \<and> nm \<noteq> [] then Inl (Fail InvName)
     else
     and_then (le64 bytes 8) (\<lambda>fsize.
     and_then (le64 bytes 16) (\<lambda>psize.
       Inr \<lparr>ent_name = nm, file_size = fsize, physical_size = psize, attributes = attrs,
            directory = (attrs AND 0x10 \<noteq> 0), dot = (nm = ''.'' \<or> nm = ''..'')\<rparr>))))))"

record volume_data =
  label :: string
  label_utf16 :: "u16 list"
  read_only :: bool
  vol_size :: nat
  free_space :: nat
  block_size :: nat

definition volume_info :: "u8 list \<Rightarrow> invalid fault + volume_data" where
  "volume_info raw =
     and_then (sized raw 36) (\<lambda>bytes.
     and_then (le64 bytes 16) (\<lambda>size.
     and_then (le64 bytes 24) (\<lambda>free.
     and_then (byte_range bytes 32 36) (\<lambda>bs.
     let block = le_nat bs in
     and_then (byte_at bytes 8) (\<lambda>flag.
     if flag > 1 \<or> free > size \<or> size = 0 \<or> block = 0 then Inl (Fail InvGeometry)
     else
     and_then (byte_range bytes 36 (length bytes)) (\<lambda>tail.
     and_then (render_name tail False) (\<lambda>nm.
     and_then (name_units tail False) (\<lambda>units.
       Inr \<lparr>label = nm, label_utf16 = units, read_only = (flag \<noteq> 0), vol_size = size,
            free_space = free, block_size = block\<rparr>))))))))"

subsection \<open>The metadata budget\<close>

record budget =
  used_bytes :: nat
  used_entries :: nat

definition budget_default :: budget where
  "budget_default = \<lparr>used_bytes = 0, used_entries = 0\<rparr>"

definition capacity :: "budget \<Rightarrow> invalid + nat" where
  "capacity b =
     and_then (ok_or (checked_sub MAX_METADATA (used_bytes b)) InvLimit) (\<lambda>remaining.
       if remaining < 82 then Inl InvLimit else Inr (min remaining MAX_RECORD))"

definition response :: "nat \<Rightarrow> nat \<Rightarrow> budget \<Rightarrow> invalid + budget" where
  "response bytes cap b =
     (if bytes > cap \<or> cap > MAX_RECORD then Inl InvSize
      else and_then (ok_or (Option.bind (checked_add (used_bytes b) bytes)
               (\<lambda>v. if v \<le> MAX_METADATA then Some v else None)) InvLimit)
        (\<lambda>v. Inr (b\<lparr>used_bytes := v\<rparr>)))"

definition budget_record :: "nat \<Rightarrow> budget \<Rightarrow> invalid + budget" where
  "budget_record volume_entries b =
     (if volume_entries \<ge> MAX_ENTRIES \<or> used_entries b \<ge> MAX_TOTAL_ENTRIES then Inl InvLimit
      else Inr (b\<lparr>used_entries := used_entries b + 1\<rparr>))"

subsection \<open>The parsers stay inside their slices\<close>

lemma byte_range_in [simp]:
  "a \<le> b \<Longrightarrow> b \<le> length bytes \<Longrightarrow> byte_range bytes a b = Inr (subrange a b bytes)"
  by (simp add: byte_range_def)

lemma le64_in [simp]:
  "offset + 8 \<le> length bytes \<Longrightarrow> le64 bytes offset = Inr (le_nat (subrange offset (offset + 8) bytes))"
  by (simp add: le64_def)

lemma byte_at_in [simp]: "i < length bytes \<Longrightarrow> byte_at bytes i = Inr (bytes ! i)"
  by (simp add: byte_at_def)

lemma sized_no_panic: "6 \<le> name_offset \<Longrightarrow> sized bytes name_offset \<noteq> Inl Panic"
  by (auto simp: sized_def)

lemma sized_Inr:
  assumes "sized raw name_offset = Inr bytes" "6 \<le> name_offset"
  shows "name_offset + 2 \<le> length bytes \<and> length bytes \<le> 4096
    \<and> bytes = take (le_nat (take 8 raw)) raw \<and> length bytes = le_nat (take 8 raw)"
  using assms
  by (auto simp: sized_def MAX_RECORD_def subrange_def min_def split: if_splits)

lemma sized_length: "sized raw n = Inr bytes \<Longrightarrow> 6 \<le> n \<Longrightarrow> n + 2 \<le> length bytes"
  using sized_Inr by blast

definition component_unit :: "u16 \<Rightarrow> bool" where
  "component_unit u \<longleftrightarrow> 0x20 \<le> u \<and> u \<noteq> 0x7f \<and> u \<noteq> 0x2f \<and> u \<noteq> 0x5c"

lemma name_scan_no_panic: "name_scan component units bytes \<noteq> Inl Panic"
  by (induction component units bytes rule: name_scan.induct) (auto simp: Let_def)

lemma name_scan_Inr:
  "name_scan component units bytes = Inr (us, ended) \<Longrightarrow> length units \<le> MAX_NAME \<Longrightarrow>
   (component \<longrightarrow> (\<forall>u \<in> set units. component_unit u)) \<Longrightarrow>
   length us \<le> MAX_NAME \<and> (component \<longrightarrow> (\<forall>u \<in> set us. component_unit u))"
proof (induction component units bytes rule: name_scan.induct)
  case (1 component units a b rest)
  define u where "u = (of_nat (le_nat [a, b]) :: u16)"
  define bad where "bad \<longleftrightarrow> length units = MAX_NAME
    \<or> (component \<and> (u < 0x20 \<or> u = 0x7f \<or> u = 0x2f \<or> u = 0x5c))"
  have step: "name_scan component units (a # b # rest) =
      (if u = 0 then Inr (units, True) else if bad then Inl (Fail InvName)
       else name_scan component (units @ [u]) rest)"
    by (auto simp: Let_def u_def bad_def simp del: le_nat.simps)
  show ?case
  proof (cases "u = 0 \<or> bad")
    case True
    with "1.prems" step show ?thesis by (auto split: if_splits)
  next
    case False
    then have ok: "length units < MAX_NAME" "component \<longrightarrow> component_unit u"
      using "1.prems"(2) by (auto simp: bad_def component_unit_def not_less)
    from False step "1.prems"(1) have "name_scan component (units @ [u]) rest = Inr (us, ended)"
      by simp
    with "1.IH" [OF u_def] False ok "1.prems"(2,3) show ?thesis
      by (simp add: bad_def del: le_nat.simps)
  qed
qed auto

lemma name_units_no_panic: "name_units bytes component \<noteq> Inl Panic"
  using name_scan_no_panic
  by (auto simp: name_units_def and_then_Inl split: if_splits prod.splits)

lemma name_units_Inr:
  assumes "name_units bytes component = Inr us"
  shows "length us \<le> 255 \<and> utf16_ok us \<and> (component \<longrightarrow> us \<noteq> [] \<and> (\<forall>u \<in> set us. component_unit u))"
proof -
  from assms obtain e where "name_scan component [] bytes = Inr (us, e)" "utf16_ok us"
    "component \<longrightarrow> us \<noteq> []"
    by (auto simp: name_units_def and_then_Inr split: if_splits prod.splits)
  with name_scan_Inr [of component "[]" bytes us e] show ?thesis by (simp add: MAX_NAME_def)
qed

lemma render_name_no_panic: "render_name bytes component \<noteq> Inl Panic"
  using name_units_no_panic by (auto simp: render_name_def and_then_Inl)

lemma render_name_Inr: "render_name bytes component = Inr s \<longleftrightarrow>
    (\<exists>us. name_units bytes component = Inr us \<and> s = escape_units us)"
  by (auto simp: render_name_def and_then_Inr)

lemma name_scan_units:
  assumes "\<forall>u \<in> set us. u \<noteq> 0 \<and> (component \<longrightarrow> component_unit u)"
    and "length acc + length us \<le> MAX_NAME"
  shows "name_scan component acc (concat (map unit_bytes us) @ [0, 0] @ rest) = Inr (acc @ us, True)"
  using assms
proof (induction us arbitrary: acc)
  case Nil
  then show ?case by simp
next
  case (Cons u us)
  obtain a b where ab: "unit_bytes u = [a, b]" "of_nat (le_nat [a, b]) = u"
    by (rule unit_bytes_cases)
  from Cons.prems have "length acc \<noteq> MAX_NAME" "u \<noteq> 0" "component \<longrightarrow> component_unit u" by auto
  then have "name_scan component acc ((a # b # concat (map unit_bytes us)) @ [0, 0] @ rest)
      = name_scan component (acc @ [u]) (concat (map unit_bytes us) @ [0, 0] @ rest)"
    using ab(2) by (auto simp: Let_def component_unit_def not_less simp del: le_nat.simps)
  also have "\<dots> = Inr ((acc @ [u]) @ us, True)"
    by (rule Cons.IH) (use Cons.prems in auto)
  finally show ?case using ab(1) by simp
qed

lemma name_units_roundtrip:
  assumes "\<forall>u \<in> set us. u \<noteq> 0 \<and> (component \<longrightarrow> component_unit u)" "length us \<le> 255"
    and "utf16_ok us" "component \<longrightarrow> us \<noteq> []"
  shows "name_units (concat (map unit_bytes us) @ [0, 0] @ rest) component = Inr us"
  using assms name_scan_units [of us component "[]" rest]
  by (simp add: name_units_def MAX_NAME_def)

subsection \<open>The escaped rendering is injective and printable\<close>

lemma nibbles:
  fixes n :: nat
  assumes "n < 65536"
  shows "n = 4096 * (n div 4096 mod 16) + 256 * (n div 256 mod 16) + 16 * (n div 16 mod 16) + n mod 16"
proof -
  have "n = 16 * (n div 16) + n mod 16" by simp
  moreover have "n div 16 = 16 * (n div 256) + n div 16 mod 16"
    using div_mult2_eq [of n 16 16] by simp
  moreover have "n div 256 = 16 * (n div 4096) + n div 256 mod 16"
    using div_mult2_eq [of n 256 16] by simp
  moreover have "n div 4096 mod 16 = n div 4096" using assms by simp
  ultimately show ?thesis by linarith
qed

lemma hex4_inject:
  assumes "m < 65536" "n < 65536" "hex4 m = hex4 n"
  shows "m = n"
proof -
  have "m div 4096 mod 16 = n div 4096 mod 16" "m div 256 mod 16 = n div 256 mod 16"
    "m div 16 mod 16 = n div 16 mod 16" "m mod 16 = n mod 16"
    using assms(3) by (auto simp: hex4_def intro: hex_digit_inject)
  then show ?thesis using nibbles [OF assms(1)] nibbles [OF assms(2)] by presburger
qed

lemma unat_u16_less [simp]: "unat (u :: u16) < 65536"
proof -
  have "unat u < 2 ^ LENGTH(16)" by (rule unsigned_less)
  then show ?thesis by simp
qed

lemma length_hex4 [simp]: "length (hex4 n) = 4"
  by (simp add: hex4_def)

definition plain_unit :: "u16 \<Rightarrow> bool" where
  "plain_unit u \<longleftrightarrow> 0x20 \<le> u \<and> u \<le> 0x7e \<and> u \<noteq> 0x22 \<and> u \<noteq> 0x5c"

lemma plain_unit_range: "plain_unit u \<Longrightarrow> 32 \<le> unat u \<and> unat u \<le> 126"
  by (simp add: plain_unit_def word_le_nat_alt)

lemma escape_plain: "plain_unit u \<Longrightarrow> escape_unit u = [char_of (unat u)]"
  by (simp add: plain_unit_def escape_unit_def)

lemma escape_cases:
  obtains "plain_unit u" "escape_unit u = [char_of (unat u)]"
  | "u = 0x22" "escape_unit u = [backslash, dquote]"
  | "u = 0x5c" "escape_unit u = [backslash, backslash]"
  | "\<not> plain_unit u" "u \<noteq> 0x22" "u \<noteq> 0x5c" "escape_unit u = backslash # CHR ''u'' # hex4 (unat u)"
proof -
  consider "plain_unit u" | "u = 0x22" | "u = 0x5c"
    | "\<not> (0x20 \<le> u \<and> u \<le> 0x7e)" "u \<noteq> 0x22" "u \<noteq> 0x5c"
    by (auto simp: plain_unit_def)
  then show ?thesis
  proof cases
    case 1
    then show ?thesis using that(1) escape_plain by blast
  next
    case 2
    then show ?thesis using that(2) by (simp add: escape_unit_def)
  next
    case 3
    then show ?thesis using that(3) by (simp add: escape_unit_def)
  next
    case 4
    have "escape_unit u = backslash # CHR ''u'' # hex4 (unat u)"
      using 4 by (simp only: escape_unit_def if_False append_Cons append_Nil)
    then show ?thesis using that(4) 4 by (auto simp: plain_unit_def)
  qed
qed

lemma plain_not_backslash: "plain_unit u \<Longrightarrow> char_of (unat u) \<noteq> backslash"
proof
  assume u: "plain_unit u" and "char_of (unat u) = backslash"
  then have "of_char (char_of (unat u) :: char) = (92 :: nat)" by (simp add: backslash_def)
  with plain_unit_range [OF u] have "unat u = 92" by simp
  then have "u = 0x5c" by (auto dest: word_of_unat)
  with u show False by (simp add: plain_unit_def)
qed

lemma char_of_inject: "m < 256 \<Longrightarrow> n < 256 \<Longrightarrow> char_of m = (char_of n :: char) \<longleftrightarrow> m = (n :: nat)"
  by (metis mod_less of_char_of)

lemma escape_unit_prefix:
  assumes "escape_unit u @ s = escape_unit v @ t"
  shows "u = v \<and> s = t"
proof -
  have ne: "backslash \<noteq> dquote" "CHR ''u'' \<noteq> dquote" "CHR ''u'' \<noteq> backslash"
    by (simp_all add: backslash_def dquote_def)
  show ?thesis
  proof (rule escape_cases [of u]; rule escape_cases [of v])
    assume p: "plain_unit u" "plain_unit v"
      and e: "escape_unit u = [char_of (unat u)]" "escape_unit v = [char_of (unat v)]"
    have "unat u = unat v"
      using assms e plain_unit_range [OF p(1)] plain_unit_range [OF p(2)]
      by (simp add: char_of_inject)
    with assms e show ?thesis by (simp add: word_unat_eq_iff)
  next
    assume e: "escape_unit u = backslash # CHR ''u'' # hex4 (unat u)"
      "escape_unit v = backslash # CHR ''u'' # hex4 (unat v)"
    then have h: "hex4 (unat u) = hex4 (unat v) \<and> s = t"
      using assms by simp
    then have "unat u = unat v" using hex4_inject unat_u16_less by blast
    with h show ?thesis by (simp add: word_unat_eq_iff)
  qed (use assms ne plain_not_backslash [of u] plain_not_backslash [of v] in auto)
qed

lemma escape_unit_nonempty: "escape_unit u \<noteq> []"
  by (simp add: escape_unit_def)

lemma escape_units_inject: "escape_units us = escape_units vs \<Longrightarrow> us = vs"
proof (induction us arbitrary: vs)
  case Nil
  then show ?case using escape_unit_nonempty by (cases vs) (auto simp: escape_units_def)
next
  case (Cons u us)
  then obtain v vs' where vs: "vs = v # vs'"
    using escape_unit_nonempty by (cases vs) (auto simp: escape_units_def)
  with Cons.prems have "escape_unit u @ escape_units us = escape_unit v @ escape_units vs'"
    by (simp add: escape_units_def)
  with Cons.IH vs escape_unit_prefix show ?case by blast
qed

definition printable :: "char \<Rightarrow> bool" where
  "printable c \<longleftrightarrow> (0x20 :: nat) \<le> of_char c \<and> of_char c \<le> (0x7e :: nat)"

lemma hex_digit_printable: "n < 16 \<Longrightarrow> printable (hex_digit n)"
  by (erule below_16 [of _ "\<lambda>n. printable (hex_digit n)"])
    (simp add: upt_rec [of _ 16] printable_def hex_digit_def)

lemma hex4_printable: "list_all printable (hex4 n)"
  by (simp add: hex4_def hex_digit_printable)

lemma escape_unit_printable: "list_all printable (escape_unit u)"
proof (rule escape_cases [of u])
  assume "plain_unit u" "escape_unit u = [char_of (unat u)]"
  with plain_unit_range show ?thesis by (fastforce simp: printable_def)
next
  assume "escape_unit u = backslash # CHR ''u'' # hex4 (unat u)"
  with hex4_printable show ?thesis by (simp add: printable_def backslash_def)
qed (simp_all add: printable_def backslash_def dquote_def)

lemma escape_units_printable: "list_all printable (escape_units us)"
  using escape_unit_printable by (induction us) (auto simp: escape_units_def)

subsection \<open>Records are parsed without leaving their bytes\<close>

lemma entry_no_panic: "entry raw root \<noteq> Inl Panic"
proof
  assume "entry raw root = Inl Panic"
  moreover have "sized raw 80 \<noteq> Inl Panic" by (rule sized_no_panic) simp
  ultimately obtain bytes where bytes: "sized raw 80 = Inr bytes"
    and rest: "entry raw root = Inl Panic"
    by (cases "sized raw 80") (auto simp: entry_def)
  have len: "82 \<le> length bytes" using sized_length [OF bytes] by simp
  show False
    using rest bytes len render_name_no_panic
    by (auto simp: entry_def Let_def and_then_Inl split: if_splits)
qed

lemma volume_info_no_panic: "volume_info raw \<noteq> Inl Panic"
proof
  assume "volume_info raw = Inl Panic"
  moreover have "sized raw 36 \<noteq> Inl Panic" by (rule sized_no_panic) simp
  ultimately obtain bytes where bytes: "sized raw 36 = Inr bytes"
    and rest: "volume_info raw = Inl Panic"
    by (cases "sized raw 36") (auto simp: volume_info_def)
  have len: "38 \<le> length bytes" using sized_length [OF bytes] by simp
  show False
    using rest bytes len render_name_no_panic name_units_no_panic
    by (auto simp: volume_info_def Let_def and_then_Inl split: if_splits)
qed

lemma entry_Inr:
  assumes "entry raw root = Inr e"
  shows "\<exists>bytes units. sized raw 80 = Inr bytes \<and> name_units (drop 80 bytes) (\<not> root) = Inr units
    \<and> ent_name e = escape_units units \<and> attributes e AND NOT 0x37 = 0
    \<and> (root \<longrightarrow> attributes e AND 0x10 \<noteq> 0 \<and> units = [])"
proof -
  from assms obtain bytes where bytes: "sized raw 80 = Inr bytes"
    by (auto simp: entry_def and_then_Inr)
  have len: "82 \<le> length bytes" using sized_length [OF bytes] by simp
  have empty: "escape_units us = [] \<longleftrightarrow> us = []" for us
    using escape_units_inject [of us "[]"] by (auto simp: escape_units_def)
  show ?thesis
    using assms bytes len
    by (auto simp: entry_def Let_def and_then_Inr render_name_Inr subrange_def empty split: if_splits)
qed

lemma volume_info_Inr:
  assumes "volume_info raw = Inr v"
  shows "free_space v \<le> vol_size v \<and> vol_size v \<noteq> 0 \<and> block_size v \<noteq> 0
    \<and> length (label_utf16 v) \<le> 255 \<and> utf16_ok (label_utf16 v)
    \<and> label v = escape_units (label_utf16 v)"
proof -
  from assms obtain bytes where bytes: "sized raw 36 = Inr bytes"
    by (auto simp: volume_info_def and_then_Inr)
  have len: "38 \<le> length bytes" using sized_length [OF bytes] by simp
  show ?thesis
    using assms bytes len name_units_Inr
    by (auto simp: volume_info_def Let_def and_then_Inr render_name_Inr not_less split: if_splits)
qed

text \<open>An entry record as a firmware driver lays it out.\<close>

definition encode_entry :: "u16 list \<Rightarrow> nat \<Rightarrow> nat \<Rightarrow> nat \<Rightarrow> u8 list" where
  "encode_entry units fsize psize attrs =
     le_bytes 8 (82 + 2 * length units) @ le_bytes 8 fsize @ le_bytes 8 psize @ replicate 48 0
     @ le_bytes 8 attrs @ concat (map unit_bytes units) @ [0, 0]"

lemma encode_entry_fields:
  fixes units :: "u16 list" and fsize psize attrs :: nat
  defines "r \<equiv> encode_entry units fsize psize attrs"
  shows "length r = 82 + 2 * length units"
    and "subrange 0 8 r = le_bytes 8 (82 + 2 * length units)"
    and "subrange 8 16 r = le_bytes 8 fsize"
    and "subrange 16 24 r = le_bytes 8 psize"
    and "subrange 72 80 r = le_bytes 8 attrs"
    and "drop 80 r = concat (map unit_bytes units) @ [0, 0]"
  by (simp_all add: r_def encode_entry_def subrange_def)

lemma sized_encode_entry:
  assumes "length units \<le> 255"
  shows "sized (encode_entry units fsize psize attrs) 80 = Inr (encode_entry units fsize psize attrs)"
proof -
  let ?r = "encode_entry units fsize psize attrs"
  note f = encode_entry_fields [of units fsize psize attrs]
  have "le_nat (subrange 0 8 ?r) = 82 + 2 * length units"
    unfolding f(2) using assms by (simp add: le_nat_le_bytes)
  then show ?thesis using f(1) assms by (simp add: sized_def MAX_RECORD_def subrange_def)
qed

lemma entry_encode_entry:
  assumes "units \<noteq> []" "length units \<le> 255" "utf16_ok units"
    and "\<forall>u \<in> set units. component_unit u"
    and "fsize < 2 ^ 64" "psize < 2 ^ 64" "attrs < 2 ^ 64" "(of_nat attrs :: u64) AND NOT 0x37 = 0"
  shows "entry (encode_entry units fsize psize attrs) False =
    Inr \<lparr>ent_name = escape_units units, file_size = fsize, physical_size = psize,
         attributes = of_nat attrs, directory = ((of_nat attrs :: u64) AND 0x10 \<noteq> 0),
         dot = (escape_units units = ''.'' \<or> escape_units units = ''..'')\<rparr>"
proof -
  let ?r = "encode_entry units fsize psize attrs"
  note f = encode_entry_fields [of units fsize psize attrs]
  have "\<forall>u \<in> set units. u \<noteq> 0 \<and> (True \<longrightarrow> component_unit u)"
    using assms(4) by (auto simp: component_unit_def)
  from name_units_roundtrip [OF this assms(2,3), of "[]"] assms(1)
  have "name_units (subrange 80 (length ?r) ?r) True = Inr units"
    by (simp add: subrange_def f(1) f(6) [unfolded f(1)])
  then have nm: "render_name (subrange 80 (length ?r) ?r) True = Inr (escape_units units)"
    by (simp add: render_name_def)
  have vals: "le_nat (subrange 8 16 ?r) = fsize" "le_nat (subrange 16 24 ?r) = psize"
    "le_nat (subrange 72 80 ?r) = attrs"
    using assms(5-7) by (simp_all add: f le_nat_le_bytes)
  show ?thesis
    using sized_encode_entry [OF assms(2)] nm vals f(1) assms(8)
    by (simp add: entry_def Let_def)
qed

subsection \<open>Properties\<close>

text \<open>Property C2: the escaped rendering of a name determines its UTF-16 units and consists of
  printable ASCII characters only.\<close>
theorem name_rendering_injective:
  "inj escape_units \<and> (\<forall>us. list_all printable (escape_units us))"
  by (auto intro!: injI escape_units_inject escape_units_printable)

text \<open>Parsing a directory entry never indexes outside the record, and an accepted
  entry has only the defined attribute bits and a name of at most 255 well-formed units; a child
  entry's name is not empty and has no control character, slash or backslash, and the root's
  name is empty.\<close>
theorem entry_accepts_only_safe_records:
  "entry raw root \<noteq> Inl Panic \<and>
   (\<forall>e. entry raw root = Inr e \<longrightarrow>
      attributes e AND NOT 0x37 = 0 \<and>
      (\<exists>units. ent_name e = escape_units units \<and> length units \<le> 255 \<and> utf16_ok units \<and>
         (if root then units = [] \<and> attributes e AND 0x10 \<noteq> 0
          else units \<noteq> [] \<and> (\<forall>u \<in> set units. component_unit u))))"
  using entry_no_panic by (auto dest!: entry_Inr name_units_Inr)

theorem entry_accepts_only_safe_records_witness:
  "\<exists>e. entry (encode_entry [65, 66] 5 6 0x10) False = Inr e \<and> attributes e AND NOT 0x37 = 0"
proof -
  have "\<exists>e. entry (encode_entry [65, 66] 5 6 0x10) False = Inr e"
    by (subst entry_encode_entry) (simp_all add: component_unit_def)
  with entry_accepts_only_safe_records [of "encode_entry [65, 66] 5 6 0x10" False]
  show ?thesis by blast
qed

text \<open>Property C3: an entry laid out by the record format is parsed back to exactly its fields.\<close>
theorem entry_roundtrip:
  assumes "units \<noteq> []" "length units \<le> 255" "utf16_ok units"
    and "\<forall>u \<in> set units. component_unit u"
    and "fsize < 2 ^ 64" "psize < 2 ^ 64" "attrs < 2 ^ 64" "(of_nat attrs :: u64) AND NOT 0x37 = 0"
  shows "entry (encode_entry units fsize psize attrs) False =
    Inr \<lparr>ent_name = escape_units units, file_size = fsize, physical_size = psize,
         attributes = of_nat attrs, directory = ((of_nat attrs :: u64) AND 0x10 \<noteq> 0),
         dot = (escape_units units = ''.'' \<or> escape_units units = ''..'')\<rparr>"
  using assms by (rule entry_encode_entry)

theorem entry_roundtrip_witness:
  "is_ok (entry (encode_entry [65, 66] 5 6 0x10) False)"
  by (subst entry_roundtrip) (simp_all add: component_unit_def)

text \<open>Parsing volume information never indexes outside the record, and accepted
  information has consistent geometry and a label whose log rendering is the escape of its
  original UTF-16 units.\<close>
theorem volume_info_is_consistent:
  "volume_info raw \<noteq> Inl Panic \<and>
   (\<forall>v. volume_info raw = Inr v \<longrightarrow>
      free_space v \<le> vol_size v \<and> vol_size v \<noteq> 0 \<and> block_size v \<noteq> 0
      \<and> length (label_utf16 v) \<le> 255 \<and> utf16_ok (label_utf16 v)
      \<and> label v = escape_units (label_utf16 v))"
  using volume_info_no_panic volume_info_Inr by blast

theorem volume_info_is_consistent_witness:
  "\<exists>v. volume_info [40, 0, 0, 0, 0, 0, 0, 0, 0, 0, 0, 0, 0, 0, 0, 0, 100, 0, 0, 0, 0, 0, 0, 0,
      20, 0, 0, 0, 0, 0, 0, 0, 1, 0, 0, 0, 10, 0, 0, 0] = Inr v \<and> free_space v \<le> vol_size v"
proof -
  have "\<exists>v. volume_info [40, 0, 0, 0, 0, 0, 0, 0, 0, 0, 0, 0, 0, 0, 0, 0, 100, 0, 0, 0, 0, 0, 0, 0,
      20, 0, 0, 0, 0, 0, 0, 0, 1, 0, 0, 0, 10, 0, 0, 0] = Inr v"
    by (simp add: volume_info_def sized_def MAX_RECORD_def subrange_def render_name_def
        name_units_def MAX_NAME_def)
  with volume_info_is_consistent show ?thesis by blast
qed

subsection \<open>The budget as a state machine\<close>

text \<open>
  A scan asks for a capacity, accounts for a response that fits it, and counts a record; the
  operations may be called in any order and their errors leave the budget as it was.
\<close>

inductive budget_step :: "budget \<Rightarrow> budget \<Rightarrow> bool" where
  respond: "capacity b = Inr cap \<Longrightarrow> response n cap b = Inr b' \<Longrightarrow> budget_step b b'"
| count: "budget_record k b = Inr b' \<Longrightarrow> budget_step b b'"

inductive budget_reachable :: "budget \<Rightarrow> bool" where
  initial: "budget_reachable budget_default"
| step: "budget_reachable b \<Longrightarrow> budget_step b b' \<Longrightarrow> budget_reachable b'"

definition budget_ok :: "budget \<Rightarrow> bool" where
  "budget_ok b \<longleftrightarrow> used_bytes b \<le> MAX_METADATA \<and> used_entries b \<le> MAX_TOTAL_ENTRIES"

lemma response_Inr:
  assumes "response n cap b = Inr b'"
  shows "b' = b\<lparr>used_bytes := used_bytes b + n\<rparr> \<and> used_bytes b + n \<le> MAX_METADATA \<and> n \<le> cap \<and> cap \<le> 4096"
  using assms
  by (auto simp: response_def MAX_RECORD_def and_then_Inr Option.bind_eq_Some_conv checked_simps
      split: if_splits)

lemma budget_record_Inr:
  assumes "budget_record k b = Inr b'"
  shows "b' = b\<lparr>used_entries := used_entries b + 1\<rparr> \<and> used_entries b < MAX_TOTAL_ENTRIES \<and> k < MAX_ENTRIES"
  using assms by (auto simp: budget_record_def split: if_splits)

lemma capacity_Inr:
  assumes "capacity b = Inr cap"
  shows "82 \<le> cap \<and> cap \<le> 4096 \<and> used_bytes b + cap \<le> MAX_METADATA"
  using assms
  by (auto simp: capacity_def and_then_Inr checked_simps MAX_RECORD_def split: if_splits)

lemma budget_step_ok: "budget_step b b' \<Longrightarrow> budget_ok b \<Longrightarrow> budget_ok b'"
  by (induction rule: budget_step.induct)
    (auto simp: budget_ok_def dest!: response_Inr budget_record_Inr)

lemma budget_ok_default: "budget_ok budget_default"
  by (simp add: budget_ok_def budget_default_def)

lemma budget_reachable_ok: "budget_reachable b \<Longrightarrow> budget_ok b"
  by (induction rule: budget_reachable.induct)
    (auto intro: budget_step_ok budget_ok_default)

text \<open>Whatever the order of responses and records, the accounted bytes stay within
  1 MiB and the records within 512, and a granted capacity always fits what is left, so a
  response within it cannot be refused.\<close>
theorem budget_never_exceeds_limits:
  assumes "budget_reachable b"
  shows "used_bytes b \<le> MAX_METADATA \<and> used_entries b \<le> MAX_TOTAL_ENTRIES
    \<and> (\<forall>cap n. capacity b = Inr cap \<and> n \<le> cap \<longrightarrow> is_ok (response n cap b))"
proof -
  have "is_ok (response n cap b)" if "capacity b = Inr cap" "n \<le> cap" for cap n
    using capacity_Inr [OF that(1)] that(2)
    by (simp add: response_def MAX_RECORD_def MAX_METADATA_def checked_add_def)
  with budget_reachable_ok [OF assms] show ?thesis by (auto simp: budget_ok_def)
qed

theorem budget_never_exceeds_limits_witness:
  "used_bytes (budget_default\<lparr>used_bytes := 100\<rparr>) \<le> MAX_METADATA"
proof -
  have "budget_step budget_default (budget_default\<lparr>used_bytes := 100\<rparr>)"
    by (rule budget_step.respond [where cap = 4096 and n = 100])
      (simp_all add: capacity_def response_def budget_default_def MAX_METADATA_def MAX_RECORD_def
        checked_sub_def checked_add_def)
  then have "budget_reachable (budget_default\<lparr>used_bytes := 100\<rparr>)"
    by (rule budget_reachable.step [OF budget_reachable.initial])
  with budget_never_exceeds_limits show ?thesis by blast
qed

end
