(* ===== verification/UEFI.thy ===== *)
theory UEFI
  imports Prelude "HOL-Library.Multiset"
begin

text \<open>
  The firmware interface the programs run against, and the shape of an effectful operation.

  The UEFI firmware is not part of the repository: it is the parameter \<open>fw\<close> of type
  \<open>'w firmware\<close>, a record with one function per boot service or protocol call that the sources
  make. Each function takes the firmware's own state (of arbitrary type \<open>'w\<close>) and returns the
  call's result and the next firmware state, so the model assumes nothing about what the
  firmware answers. The programs' side of the world is the record \<open>'w sys\<close>: the firmware
  state and the trace of calls and reports made so far, in order. Every wrapper below makes one
  firmware call and appends it, with its answer, to the trace.
\<close>

subsection \<open>Status codes and handles\<close>

datatype status =
  SUCCESS | LOAD_ERROR | INVALID_PARAMETER | UNSUPPORTED | BAD_BUFFER_SIZE | NOT_READY
| DEVICE_ERROR | OUT_OF_RESOURCES | VOLUME_CORRUPTED | NO_MEDIA | MEDIA_CHANGED | NOT_FOUND
| ACCESS_DENIED | NO_MAPPING | ALREADY_STARTED | ABORTED | COMPROMISED_DATA | END_OF_FILE
| CRC_ERROR | WARNING nat | OTHER_ERROR nat

text \<open>\<open>Status::is_error\<close>: the high bit of the code, clear for success and for warnings.\<close>

definition is_error :: "status \<Rightarrow> bool" where
  "is_error s = (case s of SUCCESS \<Rightarrow> False | WARNING _ \<Rightarrow> False | _ \<Rightarrow> True)"

type_synonym handle = nat

datatype memory_type = LOADER_CODE | LOADER_DATA | BOOT_SERVICES_CODE | BOOT_SERVICES_DATA
  | RUNTIME_SERVICES_CODE | RUNTIME_SERVICES_DATA | CONVENTIONAL | UNUSABLE | ACPI_RECLAIM
  | ACPI_NON_VOLATILE | PERSISTENT_MEMORY | MEMORY_OTHER nat

datatype alloc_type = AnyPages | MaxAddress nat | Address nat

record descriptor =
  ty :: memory_type
  phys_start :: nat
  page_count :: nat

text \<open>What one \<open>get_memory_map\<close> call reports: by the \<open>uefi\<close> crate, and by the raw table.\<close>

record map_meta =
  desc_version :: nat
  desc_size :: nat
  map_size :: nat

record map_reply =
  reply_status :: status
  reply_bytes :: nat
  reply_stride :: nat
  reply_version :: nat
  reply_content :: "u8 list"

text \<open>
  Protocols by their interface identifier. \<open>Path\<close> is the device path protocol.
\<close>

datatype guid = SimpleFS | FsInfo | FileInfoG | Path | LoadedImageG | PartitionInfoG | BlockIoG | DiskIoG | GopG | UgaG
  | ConsoleControlG | SerialG | DriverBindingG

text \<open>Keys as \<open>Simple Text Input\<close> reports them: a printable UTF-16 unit or a scan code.\<close>

datatype scan_code = SC_UP | SC_DOWN | SC_RIGHT | SC_LEFT | SC_HOME | SC_END | SC_ESCAPE | SC_OTHER nat
datatype key = Printable nat | Special scan_code

text \<open>A report's values; the static text of the message is its tag.\<close>

datatype rvalue = RNat nat | RStat status | RStr ustr | RText string | RBool bool

subsection \<open>Effects\<close>

datatype event =
    EReport string "rvalue list"
  | EAllocPages alloc_type memory_type nat "status + nat"
  | EFreePages nat nat status
  | EMemoryMap "status + map_meta \<times> descriptor list"
  | EGetMap status
  | EOpenProtocol handle guid status nat
  | ECloseProtocol handle guid status
  | EOpenVolume nat status nat
  | EFileInfo nat guid status nat
  | EFileRead nat status nat
  | EFileClose nat status
  | ELoadImage "u8 list" "status \<times> handle option"
  | EUnloadImage handle status
  | EStartImage handle status "nat option"
  | ESetOptions handle "u16 list option"
  | EConnect handle handle status
  | EInstall guid nat "status + handle"
  | EUninstall handle guid nat status
  | ELocate guid "status \<times> nat option"
  | EFreePool nat status
  | EKeyEvent status
  | EWaitKey status
  | EBlt status
  | EReadKey "status + key option"
  | EOutput string status
  | ECall string "rvalue list" status
  | EFindHandles guid "status + handle list"

record 'w sys =
  world :: 'w
  trace :: "event list"

type_synonym ('w, 'a) op = "'w sys \<Rightarrow> 'a \<times> 'w sys"
type_synonym ('w, 'a) res = "('w, status + 'a) op"

definition emit :: "event \<Rightarrow> 'w sys \<Rightarrow> 'w sys" where
  "emit e s = s\<lparr>trace := trace s @ [e]\<rparr>"

definition call :: "('w \<Rightarrow> 'a \<times> 'w) \<Rightarrow> ('a \<Rightarrow> event) \<Rightarrow> ('w, 'a) op" where
  "call f ev s = (case f (world s) of (a, w) \<Rightarrow> (a, s\<lparr>world := w, trace := trace s @ [ev a]\<rparr>))"

text \<open>Sequencing: \<open>ret\<close>, \<open>bind\<close> and, for results, \<open>bindE\<close> (the question mark operator).\<close>

definition ret :: "'a \<Rightarrow> ('w, 'a) op" where
  "ret a s = (a, s)"

definition bindS :: "('w, 'a) op \<Rightarrow> ('a \<Rightarrow> ('w, 'b) op) \<Rightarrow> ('w, 'b) op" where
  "bindS m k s = (case m s of (a, t) \<Rightarrow> k a t)"

definition bindE :: "('w, 'e + 'a) op \<Rightarrow> ('a \<Rightarrow> ('w, 'e + 'b) op) \<Rightarrow> ('w, 'e + 'b) op" where
  "bindE m k s = (case m s of (Inl e, t) \<Rightarrow> (Inl e, t) | (Inr a, t) \<Rightarrow> k a t)"

definition fail :: "'e \<Rightarrow> ('w, 'e + 'a) op" where
  "fail e = ret (Inl e)"

definition ok :: "'a \<Rightarrow> ('w, 'e + 'a) op" where
  "ok a = ret (Inr a)"

definition lift :: "'e + 'a \<Rightarrow> ('w, 'e + 'a) op" where
  "lift r = ret r"

text \<open>
  \<open>with_drop m d\<close> runs \<open>m\<close> and then the destructor \<open>d\<close>, whatever \<open>m\<close> returned: a value whose
  \<open>Drop\<close> runs at the end of its scope.
\<close>

definition with_drop :: "('w, 'a) op \<Rightarrow> ('w sys \<Rightarrow> 'w sys) \<Rightarrow> ('w, 'a) op" where
  "with_drop m d s = (case m s of (a, t) \<Rightarrow> (a, d t))"

text \<open>A destructor that runs only when the operation fails; a panic aborts without it.\<close>

definition on_error :: "('w, status fault + 'a) op \<Rightarrow> ('w sys \<Rightarrow> 'w sys) \<Rightarrow> ('w, status fault + 'a) op" where
  "on_error m d s = (case m s of (Inl (Fail e), t) \<Rightarrow> (Inl (Fail e), d t) | (r, t) \<Rightarrow> (r, t))"

definition failing :: "('w, status + 'a) op \<Rightarrow> ('w, status fault + 'a) op" where
  "failing m = bindS m (\<lambda>r. ret (map_err Fail r))"

definition fails :: "status \<Rightarrow> ('w, status fault + 'a) op" where
  "fails e = fail (Fail e)"

text \<open>A value that lives until the end of its scope, in an operation that can panic.\<close>

definition scope :: "('w, status fault + 'a) op \<Rightarrow> ('w sys \<Rightarrow> 'w sys) \<Rightarrow> ('w, status fault + 'a) op" where
  "scope m d s = (case m s of (Inl Panic, t) \<Rightarrow> (Inl Panic, t) | (r, t) \<Rightarrow> (r, d t))"

definition status_of :: "status + 'a \<Rightarrow> status" where
  "status_of r = (case r of Inl e \<Rightarrow> e | Inr _ \<Rightarrow> SUCCESS)"

named_theorems op_simps \<open>evaluation of sequenced operations\<close>

lemma ret_eval [op_simps]: "ret a s = (a, s)"
  by (simp add: ret_def)

lemma bindS_eval [op_simps]: "bindS m k s = (case m s of (a, t) \<Rightarrow> k a t)"
  by (simp add: bindS_def)

lemma bindE_eval [op_simps]:
  "bindE m k s = (case m s of (r, t) \<Rightarrow> (case r of Inl e \<Rightarrow> (Inl e, t) | Inr a \<Rightarrow> k a t))"
  by (auto simp: bindE_def split: prod.splits sum.splits)

lemma fail_eval [op_simps]: "fail e s = (Inl e, s)"
  by (simp add: fail_def ret_def)

lemma ok_eval [op_simps]: "ok a s = (Inr a, s)"
  by (simp add: ok_def ret_def)

lemma lift_eval [op_simps]: "lift r s = (r, s)"
  by (simp add: lift_def ret_def)

lemma with_drop_eval [op_simps]: "with_drop m d s = (case m s of (a, t) \<Rightarrow> (a, d t))"
  by (simp add: with_drop_def)

lemma call_eval: "call f ev s = (case f (world s) of (a, w) \<Rightarrow> (a, s\<lparr>world := w, trace := trace s @ [ev a]\<rparr>))"
  by (simp add: call_def)

lemma status_of_simps [simp]: "status_of (Inl e) = e" "status_of (Inr a) = SUCCESS"
  by (simp_all add: status_of_def)

subsection \<open>The firmware\<close>

record 'w firmware =
  fw_report :: "string \<Rightarrow> rvalue list \<Rightarrow> 'w \<Rightarrow> 'w"
  fw_allocate_pages :: "alloc_type \<Rightarrow> memory_type \<Rightarrow> nat \<Rightarrow> 'w \<Rightarrow> (status + nat) \<times> 'w"
  fw_free_pages :: "nat \<Rightarrow> nat \<Rightarrow> 'w \<Rightarrow> status \<times> 'w"
  fw_memory_map :: "'w \<Rightarrow> (status + map_meta \<times> descriptor list) \<times> 'w"
  fw_services :: bool
  fw_reserve :: "'w \<Rightarrow> nat \<Rightarrow> bool"
  fw_bytes :: "'w \<Rightarrow> nat \<Rightarrow> u8"
  fw_get_map :: "'w \<Rightarrow> map_reply \<times> 'w"
  fw_find_handles :: "guid \<Rightarrow> 'w \<Rightarrow> (status + handle list) \<times> 'w"
  fw_open_protocol :: "handle \<Rightarrow> guid \<Rightarrow> 'w \<Rightarrow> (status \<times> nat) \<times> 'w"
  fw_close_protocol :: "handle \<Rightarrow> guid \<Rightarrow> 'w \<Rightarrow> status \<times> 'w"
  fw_open_volume :: "nat \<Rightarrow> 'w \<Rightarrow> (status \<times> nat) \<times> 'w"
  fw_get_info :: "nat \<Rightarrow> guid \<Rightarrow> nat \<Rightarrow> 'w \<Rightarrow> (status \<times> nat \<times> u8 list) \<times> 'w"
  fw_read :: "nat \<Rightarrow> nat \<Rightarrow> 'w \<Rightarrow> (status \<times> nat \<times> u8 list) \<times> 'w"
  fw_file_close :: "nat \<Rightarrow> 'w \<Rightarrow> status \<times> 'w"
  fw_load_image :: "u8 list \<Rightarrow> u8 list option \<Rightarrow> 'w \<Rightarrow> (status \<times> handle option) \<times> 'w"
  fw_unload_image :: "handle \<Rightarrow> 'w \<Rightarrow> status \<times> 'w"
  fw_start_image :: "handle \<Rightarrow> 'w \<Rightarrow> (status \<times> nat \<times> nat option) \<times> 'w"
  fw_free_pool :: "nat \<Rightarrow> 'w \<Rightarrow> status \<times> 'w"
  fw_image_types :: "nat \<Rightarrow> 'w \<Rightarrow> memory_type \<times> memory_type"
  fw_set_options :: "handle \<Rightarrow> u16 list option \<Rightarrow> 'w \<Rightarrow> 'w"
  fw_connect :: "handle \<Rightarrow> handle \<Rightarrow> 'w \<Rightarrow> status \<times> 'w"
  fw_install :: "guid \<Rightarrow> nat \<Rightarrow> 'w \<Rightarrow> (status + handle) \<times> 'w"
  fw_uninstall :: "handle \<Rightarrow> guid \<Rightarrow> nat \<Rightarrow> 'w \<Rightarrow> status \<times> 'w"
  fw_locate :: "guid \<Rightarrow> 'w \<Rightarrow> (status \<times> nat option) \<times> 'w"
  fw_wait_key :: "'w \<Rightarrow> status \<times> 'w"
  fw_read_key :: "'w \<Rightarrow> (status + key option) \<times> 'w"
  fw_output :: "string \<Rightarrow> rvalue list \<Rightarrow> 'w \<Rightarrow> status \<times> 'w"
  fw_key_event :: "'w \<Rightarrow> status \<times> 'w"
  fw_cursor :: "'w \<Rightarrow> bool"
  fw_text_mode :: "'w \<Rightarrow> (nat \<times> nat) option"
  fw_resolution :: "'w \<Rightarrow> nat \<times> nat"
  fw_blt :: "(u8 \<times> u8 \<times> u8) list \<Rightarrow> 'w \<Rightarrow> status \<times> 'w"
  fw_read_pixels :: "nat \<Rightarrow> 'w \<Rightarrow> (status \<times> (u8 \<times> u8 \<times> u8) list) \<times> 'w"
  fw_image_fs :: "'w \<Rightarrow> (status + handle \<times> nat) \<times> 'w"
  fw_fs_label :: "nat \<Rightarrow> nat \<Rightarrow> 'w \<Rightarrow> (status + ustr) \<times> 'w"

text \<open>
  The \<open>report\<close> functions write a line to the console and to the serial port and ignore what the
  firmware answers: their effect on the firmware is \<open>fw_report\<close>.
\<close>

definition report :: "'w firmware \<Rightarrow> string \<Rightarrow> rvalue list \<Rightarrow> ('w, unit) op" where
  "report fw tag vals = call (\<lambda>w. ((), fw_report fw tag vals w)) (\<lambda>_. EReport tag vals)"

text \<open>A parser's error is reported before it is mapped to a status.\<close>

definition or_report :: "'w firmware \<Rightarrow> string \<Rightarrow> status \<Rightarrow> string + 'a \<Rightarrow> ('w, 'a) res" where
  "or_report fw tag st r = (case r of Inl e \<Rightarrow> bindS (report fw tag [RText e]) (\<lambda>_. fail st) | Inr a \<Rightarrow> ok a)"

definition allocate_pages :: "'w firmware \<Rightarrow> alloc_type \<Rightarrow> memory_type \<Rightarrow> nat \<Rightarrow> ('w, nat) res" where
  "allocate_pages fw at mt n = call (fw_allocate_pages fw at mt n) (EAllocPages at mt n)"

definition free_pages :: "'w firmware \<Rightarrow> nat \<Rightarrow> nat \<Rightarrow> ('w, status) op" where
  "free_pages fw p n = call (fw_free_pages fw p n) (EFreePages p n)"

definition memory_map :: "'w firmware \<Rightarrow> ('w, map_meta \<times> descriptor list) res" where
  "memory_map fw = call (fw_memory_map fw) EMemoryMap"

definition get_map :: "'w firmware \<Rightarrow> ('w, map_reply) op" where
  "get_map fw = call (fw_get_map fw) (\<lambda>r. EGetMap (reply_status r))"

text \<open>Interface pointers are addresses; 0 is the null pointer.\<close>

definition open_protocol :: "'w firmware \<Rightarrow> handle \<Rightarrow> guid \<Rightarrow> ('w, status \<times> nat) op" where
  "open_protocol fw h g = call (fw_open_protocol fw h g) (\<lambda>(st, i). EOpenProtocol h g st i)"

definition close_protocol :: "'w firmware \<Rightarrow> handle \<Rightarrow> guid \<Rightarrow> ('w, status) op" where
  "close_protocol fw h g = call (fw_close_protocol fw h g) (ECloseProtocol h g)"

definition find_handles :: "'w firmware \<Rightarrow> guid \<Rightarrow> ('w, handle list) res" where
  "find_handles fw g = call (fw_find_handles fw g) (EFindHandles g)"

text \<open>A query of the firmware's state: the heap, or memory, without a call.\<close>

definition query :: "('w \<Rightarrow> 'a) \<Rightarrow> ('w, 'a) op" where
  "query f s = (f (world s), s)"

definition reserve_heap :: "'w firmware \<Rightarrow> nat \<Rightarrow> ('w, unit) res" where
  "reserve_heap fw n = query (\<lambda>w. if fw_reserve fw w n then Inr () else Inl OUT_OF_RESOURCES)"

definition con_output :: "'w firmware \<Rightarrow> string \<Rightarrow> rvalue list \<Rightarrow> ('w, status) op" where
  "con_output fw tag vals = call (fw_output fw tag vals) (EOutput tag)"

definition unload_image :: "'w firmware \<Rightarrow> handle \<Rightarrow> ('w, status) op" where
  "unload_image fw h = call (fw_unload_image fw h) (EUnloadImage h)"

definition locate_protocol :: "'w firmware \<Rightarrow> guid \<Rightarrow> ('w, status \<times> nat option) op" where
  "locate_protocol fw g = call (fw_locate fw g) (ELocate g)"

text \<open>
  A concrete firmware, for evaluating examples: every service succeeds with a fixed answer, or
  reports that there is nothing to find.
\<close>

definition example_firmware :: "'w firmware" where
  "example_firmware = \<lparr>
     fw_report = (\<lambda>_ _ w. w),
     fw_allocate_pages = (\<lambda>_ _ _ w. (Inr 0x100000, w)),
     fw_free_pages = (\<lambda>_ _ w. (SUCCESS, w)),
     fw_memory_map = (\<lambda>w. (Inl NOT_READY, w)),
     fw_services = True,
     fw_reserve = (\<lambda>_ _. True),
     fw_bytes = (\<lambda>_ _. 0),
     fw_get_map = (\<lambda>w. (\<lparr>reply_status = NOT_READY, reply_bytes = 0, reply_stride = 0,
       reply_version = 0, reply_content = []\<rparr>, w)),
     fw_find_handles = (\<lambda>_ w. (Inl NOT_FOUND, w)),
     fw_open_protocol = (\<lambda>h _ w. ((SUCCESS, h), w)),
     fw_close_protocol = (\<lambda>_ _ w. (SUCCESS, w)),
     fw_open_volume = (\<lambda>v w. ((SUCCESS, v), w)),
     fw_get_info = (\<lambda>_ _ _ w. ((NOT_FOUND, 0, []), w)),
     fw_read = (\<lambda>_ _ w. ((SUCCESS, 0, []), w)),
     fw_file_close = (\<lambda>_ w. (SUCCESS, w)),
     fw_load_image = (\<lambda>_ _ w. ((SUCCESS, Some 1), w)),
     fw_unload_image = (\<lambda>_ w. (SUCCESS, w)),
     fw_start_image = (\<lambda>_ w. ((SUCCESS, 0, None), w)),
     fw_free_pool = (\<lambda>_ w. (SUCCESS, w)),
     fw_image_types = (\<lambda>_ _. (LOADER_CODE, LOADER_DATA)),
     fw_set_options = (\<lambda>_ _ w. w),
     fw_connect = (\<lambda>_ _ w. (NOT_FOUND, w)),
     fw_install = (\<lambda>_ p w. (Inr p, w)),
     fw_uninstall = (\<lambda>_ _ _ w. (SUCCESS, w)),
     fw_locate = (\<lambda>_ w. ((NOT_FOUND, None), w)),
     fw_wait_key = (\<lambda>w. (SUCCESS, w)),
     fw_read_key = (\<lambda>w. (Inr None, w)),
     fw_output = (\<lambda>_ _ w. (SUCCESS, w)),
     fw_key_event = (\<lambda>w. (SUCCESS, w)),
     fw_cursor = (\<lambda>_. True),
     fw_text_mode = (\<lambda>_. Some (80, 25)),
     fw_resolution = (\<lambda>_. (800, 600)),
     fw_blt = (\<lambda>_ w. (SUCCESS, w)),
     fw_read_pixels = (\<lambda>n w. ((SUCCESS, replicate n (0, 0, 0)), w)),
     fw_image_fs = (\<lambda>w. (Inr (2, 2), w)),
     fw_fs_label = (\<lambda>_ _ w. (Inl NOT_FOUND, w))\<rparr>"

subsection \<open>Traces only grow\<close>

text \<open>
  \<open>extends m P\<close>: whatever the state, \<open>m\<close> appends events to the trace, and the events and the
  result satisfy \<open>P\<close>. Trace properties of an operation are assembled from those of its parts.
\<close>

definition extends :: "('w, 'a) op \<Rightarrow> ('a \<Rightarrow> event list \<Rightarrow> bool) \<Rightarrow> bool" where
  "extends m P \<longleftrightarrow> (\<forall>s. \<exists>evs. trace (snd (m s)) = trace s @ evs \<and> P (fst (m s)) evs)"

lemma extendsD:
  assumes "extends m P" "m s = (a, t)"
  obtains evs where "trace t = trace s @ evs" "P a evs"
  using assms unfolding extends_def by (metis fst_conv snd_conv)

lemma extends_mono: "extends m P \<Longrightarrow> (\<And>a evs. P a evs \<Longrightarrow> Q a evs) \<Longrightarrow> extends m Q"
  unfolding extends_def by blast

lemma extends_ret: "P a [] \<Longrightarrow> extends (ret a) P"
  by (simp add: extends_def ret_def)

lemma extends_call: "(\<And>a. P a [ev a]) \<Longrightarrow> extends (call f ev) P"
  by (auto simp: extends_def call_def split: prod.splits)

lemma extends_bindS:
  assumes "extends m P" and "\<And>a evs. P a evs \<Longrightarrow> extends (k a) (\<lambda>b evs'. Q b (evs @ evs'))"
  shows "extends (bindS m k) Q"
  unfolding extends_def
proof
  fix s
  obtain a t where m: "m s = (a, t)" by fastforce
  from assms(1) m obtain evs where t: "trace t = trace s @ evs" and P: "P a evs"
    by (rule extendsD)
  obtain b u where k: "k a t = (b, u)" by fastforce
  from assms(2) [OF P] k obtain evs' where u: "trace u = trace t @ evs'" "Q b (evs @ evs')"
    by (rule extendsD)
  from m k t u show "\<exists>evs. trace (snd (bindS m k s)) = trace s @ evs \<and> Q (fst (bindS m k s)) evs"
    by (simp add: bindS_def)
qed

lemma extends_bindE:
  assumes "extends m P" and "\<And>e evs. P (Inl e) evs \<Longrightarrow> Q (Inl e) evs"
    and "\<And>a evs. P (Inr a) evs \<Longrightarrow> extends (k a) (\<lambda>b evs'. Q b (evs @ evs'))"
  shows "extends (bindE m k) Q"
proof -
  have "bindE m k = bindS m (\<lambda>r. case r of Inl e \<Rightarrow> ret (Inl e) | Inr a \<Rightarrow> k a)"
    by (rule ext) (auto simp: bindE_def bindS_def ret_def split: prod.splits sum.splits)
  moreover have "extends (case r of Inl e \<Rightarrow> ret (Inl e) | Inr a \<Rightarrow> k a) (\<lambda>b evs'. Q b (evs @ evs'))"
    if "P r evs" for r evs
    using that assms(2,3) by (cases r) (auto intro: extends_ret)
  then have "extends (bindS m (\<lambda>r. case r of Inl e \<Rightarrow> ret (Inl e) | Inr a \<Rightarrow> k a)) Q"
    by (rule extends_bindS [OF assms(1)])
  ultimately show ?thesis by simp
qed

lemma extends_ok: "P (Inr a) [] \<Longrightarrow> extends (ok a) P"
  by (simp add: ok_def extends_ret)

lemma extends_fail: "P (Inl e) [] \<Longrightarrow> extends (fail e) P"
  by (simp add: fail_def extends_ret)

lemma extends_lift: "P r [] \<Longrightarrow> extends (lift r) P"
  by (simp add: lift_def extends_ret)

lemma extends_conj: "extends m P \<Longrightarrow> extends m Q \<Longrightarrow> extends m (\<lambda>a evs. P a evs \<and> Q a evs)"
  unfolding extends_def by (metis same_append_eq)

text \<open>\<open>post m P\<close>: whatever the state and the firmware, the result of \<open>m\<close> satisfies \<open>P\<close>.\<close>

definition post :: "('w, 'a) op \<Rightarrow> ('a \<Rightarrow> bool) \<Rightarrow> bool" where
  "post m P \<longleftrightarrow> (\<forall>s. P (fst (m s)))"

lemma postI: "(\<And>s r t. m s = (r, t) \<Longrightarrow> P r) \<Longrightarrow> post m P"
  unfolding post_def by (metis prod.collapse)

lemma postD: "post m P \<Longrightarrow> m s = (r, t) \<Longrightarrow> P r"
  unfolding post_def by (metis fst_conv)

lemma post_mono: "post m P \<Longrightarrow> (\<And>r. P r \<Longrightarrow> Q r) \<Longrightarrow> post m Q"
  unfolding post_def by blast

lemma post_true: "post m (\<lambda>_. True)"
  by (simp add: post_def)

lemma post_ret: "P a \<Longrightarrow> post (ret a) P"
  by (simp add: post_def ret_def)

lemma post_lift: "P a \<Longrightarrow> post (lift a) P"
  by (simp add: lift_def post_ret)

lemma post_ok: "P (Inr a) \<Longrightarrow> post (ok a) P"
  by (simp add: ok_def post_ret)

lemma post_fail: "P (Inl e) \<Longrightarrow> post (fail e) P"
  by (simp add: fail_def post_ret)

lemma post_bindS: "post m P \<Longrightarrow> (\<And>a. P a \<Longrightarrow> post (k a) Q) \<Longrightarrow> post (bindS m k) Q"
  unfolding post_def bindS_def by (simp add: case_prod_beta)

lemma post_after: "(\<And>a. post (k a) Q) \<Longrightarrow> post (bindS m k) Q"
  by (rule post_bindS [OF post_true])

lemma post_bindE:
  assumes "post m P" "\<And>e. P (Inl e) \<Longrightarrow> Q (Inl e)" "\<And>a. P (Inr a) \<Longrightarrow> post (k a) Q"
  shows "post (bindE m k) Q"
  unfolding post_def
proof
  fix s
  show "Q (fst (bindE m k s))"
    using assms by (cases "m s"; cases "fst (m s)") (auto simp: bindE_eval post_def, (metis fst_conv)+)
qed

lemma post_with_drop: "post m P \<Longrightarrow> post (with_drop m d) P"
  by (simp add: post_def with_drop_def case_prod_beta)

lemma post_case_sum:
  "(\<And>e. r = Inl e \<Longrightarrow> post (f e) P) \<Longrightarrow> (\<And>x. r = Inr x \<Longrightarrow> post (g x) P) \<Longrightarrow>
   post (case r of Inl e \<Rightarrow> f e | Inr x \<Rightarrow> g x) P"
  by (cases r) simp_all

lemma post_case_option:
  "(r = None \<Longrightarrow> post f P) \<Longrightarrow> (\<And>x. r = Some x \<Longrightarrow> post (g x) P) \<Longrightarrow>
   post (case r of None \<Rightarrow> f | Some x \<Rightarrow> g x) P"
  by (cases r) simp_all

lemma post_case_prod:
  "(\<And>x y. p = (x, y) \<Longrightarrow> post (f x y) P) \<Longrightarrow> post (case p of (x, y) \<Rightarrow> f x y) P"
  by (cases p) simp

lemma post_case_prod_app:
  "(\<And>x y. p = (x, y) \<Longrightarrow> post (f x y z) P) \<Longrightarrow> post ((case p of (x, y) \<Rightarrow> f x y) z) P"
  by (cases p) simp

lemma post_if:
  "(b \<Longrightarrow> post m P) \<Longrightarrow> (\<not> b \<Longrightarrow> post n P) \<Longrightarrow> post (if b then m else n) P"
  by simp

lemmas post_cases = post_case_sum post_case_option post_case_prod_app post_case_prod post_if

subsection \<open>Protocols of events\<close>

text \<open>
  An automaton over events describes an order that a trace must respect: \<open>run d q evs\<close> is the
  state after the events, or \<open>None\<close> when one is not allowed. \<open>moves d m q f\<close>: from state \<open>q\<close>,
  operation \<open>m\<close> is allowed and ends in state \<open>f r\<close>, where \<open>r\<close> is its result.
\<close>

fun run :: "('q \<Rightarrow> event \<Rightarrow> 'q option) \<Rightarrow> 'q \<Rightarrow> event list \<Rightarrow> 'q option" where
  "run d q [] = Some q"
| "run d q (e # es) = (case d q e of None \<Rightarrow> None | Some q' \<Rightarrow> run d q' es)"

lemma run_append: "run d q (xs @ ys) = (case run d q xs of None \<Rightarrow> None | Some q' \<Rightarrow> run d q' ys)"
  by (induction xs arbitrary: q) (auto split: option.splits)

definition moves :: "('q \<Rightarrow> event \<Rightarrow> 'q option) \<Rightarrow> ('w, 'a) op \<Rightarrow> 'q \<Rightarrow> ('a \<Rightarrow> 'q \<Rightarrow> bool) \<Rightarrow> bool" where
  "moves d m q P \<longleftrightarrow> extends m (\<lambda>r evs. \<exists>q'. run d q evs = Some q' \<and> P r q')"

lemma moves_ret: "P a q \<Longrightarrow> moves d (ret a) q P"
  by (simp add: moves_def extends_ret)

lemma moves_ok: "P (Inr a) q \<Longrightarrow> moves d (ok a) q P"
  by (simp add: ok_def moves_ret)

lemma moves_fail: "P (Inl e) q \<Longrightarrow> moves d (fail e) q P"
  by (simp add: fail_def moves_ret)

lemma moves_call: "(\<And>a. \<exists>q'. d q (ev a) = Some q' \<and> P a q') \<Longrightarrow> moves d (call g ev) q P"
  unfolding moves_def
proof (rule extends_call)
  fix a
  assume "\<And>a. \<exists>q'. d q (ev a) = Some q' \<and> P a q'"
  then obtain q' where "d q (ev a) = Some q'" "P a q'" by blast
  then show "\<exists>q'. run d q [ev a] = Some q' \<and> P a q'" by simp
qed

lemma moves_mono: "moves d m q P \<Longrightarrow> (\<And>r q'. P r q' \<Longrightarrow> Q r q') \<Longrightarrow> moves d m q Q"
  unfolding moves_def by (erule extends_mono) blast

lemma moves_bindS:
  assumes "moves d m q mid" "\<And>a q'. mid a q' \<Longrightarrow> moves d (k a) q' P"
  shows "moves d (bindS m k) q P"
  unfolding moves_def
proof (rule extends_bindS [OF assms(1) [unfolded moves_def]])
  fix a evs
  assume "\<exists>q'. run d q evs = Some q' \<and> mid a q'"
  then obtain q' where q': "run d q evs = Some q'" "mid a q'" by blast
  show "extends (k a) (\<lambda>b evs'. \<exists>q''. run d q (evs @ evs') = Some q'' \<and> P b q'')"
    using assms(2) [OF q'(2)] unfolding moves_def by (rule extends_mono) (simp add: run_append q'(1))
qed

text \<open>Sequencing after an operation that leaves the state as it was.\<close>

lemma moves_then:
  assumes "moves d m q (\<lambda>_ q'. q' = q)" "\<And>a. moves d (k a) q P"
  shows "moves d (bindS m k) q P"
  by (rule moves_bindS [OF assms(1)]) (simp add: assms(2))

lemma moves_bindE:
  assumes "moves d m q mid" "\<And>e q'. mid (Inl e) q' \<Longrightarrow> P (Inl e) q'"
    "\<And>a q'. mid (Inr a) q' \<Longrightarrow> moves d (k a) q' P"
  shows "moves d (bindE m k) q P"
proof -
  have "bindE m k = bindS m (\<lambda>r. case r of Inl e \<Rightarrow> ret (Inl e) | Inr a \<Rightarrow> k a)"
    by (rule ext) (auto simp: bindE_def bindS_def ret_def split: prod.splits sum.splits)
  then show ?thesis using assms(2,3) by (auto intro!: moves_bindS [OF assms(1)] moves_ret split: sum.split)
qed

lemma moves_query: "moves d (query g) q (\<lambda>_ q'. q' = q)"
  by (simp add: moves_def extends_def query_def)

lemma moves_stay_call: "(\<And>a. d q (ev a) = Some q) \<Longrightarrow> moves d (call f ev) q (\<lambda>_ q'. q' = q)"
  by (rule moves_call) simp

lemma moves_stay_report: "(\<And>tag vs. d q (EReport tag vs) = Some q) \<Longrightarrow> moves d (report fw m vs) q (\<lambda>_ q'. q' = q)"
  unfolding report_def by (rule moves_stay_call)

lemma moves_case_option:
  "(r = None \<Longrightarrow> moves d m q P) \<Longrightarrow> (\<And>x. r = Some x \<Longrightarrow> moves d (n x) q P) \<Longrightarrow>
   moves d (case r of None \<Rightarrow> m | Some x \<Rightarrow> n x) q P"
  by (cases r) simp_all

lemma moves_case_sum:
  "(\<And>e. r = Inl e \<Longrightarrow> moves d (m e) q P) \<Longrightarrow> (\<And>x. r = Inr x \<Longrightarrow> moves d (n x) q P) \<Longrightarrow>
   moves d (case r of Inl e \<Rightarrow> m e | Inr x \<Rightarrow> n x) q P"
  by (cases r) simp_all

lemma moves_case_prod:
  "(\<And>x y. p = (x, y) \<Longrightarrow> moves d (m x y) q P) \<Longrightarrow> moves d (case p of (x, y) \<Rightarrow> m x y) q P"
  by (cases p) simp

lemma moves_if:
  "(b \<Longrightarrow> moves d m q P) \<Longrightarrow> (\<not> b \<Longrightarrow> moves d n q P) \<Longrightarrow> moves d (if b then m else n) q P"
  by simp

lemmas moves_cases = moves_case_option moves_case_sum moves_case_prod moves_if

subsection \<open>Resources that are acquired and released\<close>

text \<open>
  \<open>balance acq rel evs held\<close> replays a trace against the multiset of resources held before it.
  It fails (\<open>None\<close>) when something is released that is not held, and otherwise returns what is
  held after.
\<close>

fun balance :: "(event \<Rightarrow> 'k option) \<Rightarrow> (event \<Rightarrow> 'k option) \<Rightarrow> event list \<Rightarrow> 'k multiset \<Rightarrow> 'k multiset option" where
  "balance acq rel [] held = Some held"
| "balance acq rel (e # es) held =
     (case rel e of
        Some k \<Rightarrow> if k \<in># held then balance acq rel es (held - {#k#}) else None
      | None \<Rightarrow> (case acq e of
          Some k \<Rightarrow> balance acq rel es (add_mset k held)
        | None \<Rightarrow> balance acq rel es held))"

lemma balance_append:
  "balance acq rel (xs @ ys) held =
     (case balance acq rel xs held of None \<Rightarrow> None | Some mid \<Rightarrow> balance acq rel ys mid)"
  by (induction xs arbitrary: held) (auto split: option.splits)

text \<open>
  \<open>shifts acq rel m before after\<close>: \<open>m\<close> takes the resources \<open>before\<close> to \<open>after r\<close>, where \<open>r\<close> is its
  result, whatever else is held. A \<open>neutral\<close> operation leaves what is held as it was.
\<close>

definition shifts :: "(event \<Rightarrow> 'k option) \<Rightarrow> (event \<Rightarrow> 'k option) \<Rightarrow> ('w, 'a) op
    \<Rightarrow> 'k multiset \<Rightarrow> ('a \<Rightarrow> 'k multiset) \<Rightarrow> bool" where
  "shifts acq rel m before after \<longleftrightarrow>
     extends m (\<lambda>r evs. \<forall>held. balance acq rel evs (before + held) = Some (after r + held))"

definition neutral :: "(event \<Rightarrow> 'k option) \<Rightarrow> (event \<Rightarrow> 'k option) \<Rightarrow> ('w, 'a) op \<Rightarrow> bool" where
  "neutral acq rel m \<longleftrightarrow> shifts acq rel m {#} (\<lambda>_. {#})"

lemma shifts_ret: "after a = before \<Longrightarrow> shifts acq rel (ret a) before after"
  by (simp add: shifts_def extends_ret)

lemma shifts_ok: "after (Inr a) = before \<Longrightarrow> shifts acq rel (ok a) before after"
  by (simp add: shifts_def extends_ok)

lemma shifts_fail: "after (Inl e) = before \<Longrightarrow> shifts acq rel (fail e) before after"
  by (simp add: shifts_def extends_fail)

lemma shifts_bindS:
  assumes "shifts acq rel m before mid" "\<And>a. shifts acq rel (k a) (mid a) after"
  shows "shifts acq rel (bindS m k) before after"
  unfolding shifts_def
  by (rule extends_bindS [OF assms(1) [unfolded shifts_def]])
    (auto intro!: extends_mono [OF assms(2) [unfolded shifts_def]] simp: balance_append)

lemma shifts_bindE:
  assumes "shifts acq rel m before mid" "\<And>e. mid (Inl e) = after (Inl e)"
    "\<And>a. shifts acq rel (k a) (mid (Inr a)) after"
  shows "shifts acq rel (bindE m k) before after"
  unfolding shifts_def
  by (rule extends_bindE [OF assms(1) [unfolded shifts_def]])
    (auto intro!: extends_mono [OF assms(3) [unfolded shifts_def]] simp: balance_append assms(2))

lemma shifts_neutral: "neutral acq rel m \<Longrightarrow> shifts acq rel m held (\<lambda>_. held)"
  unfolding neutral_def shifts_def by (erule extends_mono) simp

lemma shifts_bindS_neutral:
  assumes "neutral acq rel m" "\<And>a. shifts acq rel (k a) before after"
  shows "shifts acq rel (bindS m k) before after"
  by (rule shifts_bindS [OF shifts_neutral [OF assms(1)] assms(2)])

lemma shifts_bindE_neutral:
  assumes "neutral acq rel m" "\<And>e. after (Inl e) = before" "\<And>a. shifts acq rel (k a) before after"
  shows "shifts acq rel (bindE m k) before after"
  by (rule shifts_bindE [OF shifts_neutral [OF assms(1)] _ assms(3)]) (simp add: assms(2))

lemma with_drop_bindS: "with_drop m d = bindS m (\<lambda>a. bindS (\<lambda>s. ((), d s)) (\<lambda>_. ret a))"
  by (rule ext) (simp add: op_simps split: prod.splits)

text \<open>A destructor that gives up exactly \<open>before\<close>.\<close>

abbreviation gives_up :: "(event \<Rightarrow> 'k option) \<Rightarrow> (event \<Rightarrow> 'k option) \<Rightarrow> ('w sys \<Rightarrow> 'w sys)
    \<Rightarrow> 'k multiset \<Rightarrow> bool" where
  "gives_up acq rel d before \<equiv> shifts acq rel (\<lambda>s. ((), d s)) before (\<lambda>_. {#})"

lemma gives_upI:
  assumes "shifts acq rel m before after" "\<And>s. d s = snd (m s)" "\<And>s. after (fst (m s)) = {#}"
  shows "gives_up acq rel d before"
  unfolding shifts_def extends_def
proof
  fix s
  from assms(1) obtain evs where "trace (snd (m s)) = trace s @ evs"
    "\<forall>held. balance acq rel evs (before + held) = Some (after (fst (m s)) + held)"
    unfolding shifts_def extends_def by blast
  with assms(2,3) show "\<exists>evs. trace (snd ((), d s)) = trace s @ evs
      \<and> (\<forall>held. balance acq rel evs (before + held) = Some ({#} + held))"
    by auto
qed

lemma shifts_with_drop:
  assumes "shifts acq rel m before (\<lambda>r. owned + after r)" "gives_up acq rel d owned"
  shows "shifts acq rel (with_drop m d) before after"
proof -
  have "shifts acq rel (\<lambda>s. ((), d s)) (owned + x) (\<lambda>_. x)" for x
    using assms(2) unfolding shifts_def by (simp add: add.assoc) (erule extends_mono; simp)
  then show ?thesis
    unfolding with_drop_bindS
    by (auto intro!: shifts_bindS [OF assms(1)] shifts_ret intro: shifts_bindS)
qed

lemma shifts_drop_only:
  "gives_up acq rel d before \<Longrightarrow> after e = {#} \<Longrightarrow> shifts acq rel (with_drop (ret e) d) before after"
  by (rule shifts_with_drop [of _ _ _ _ before]) (simp_all add: shifts_ret)

lemma shifts_drop_fail:
  "gives_up acq rel d before \<Longrightarrow> after (Inl e) = {#} \<Longrightarrow> shifts acq rel (with_drop (fail e) d) before after"
  unfolding fail_def by (rule shifts_drop_only)

named_theorems neutral_intros \<open>operations that acquire and release nothing on balance\<close>

lemma neutral_ret [neutral_intros]: "neutral acq rel (ret a)"
  by (simp add: neutral_def shifts_ret)

lemma neutral_ok [neutral_intros]: "neutral acq rel (ok a)"
  by (simp add: neutral_def shifts_ok)

lemma neutral_fail [neutral_intros]: "neutral acq rel (fail a)"
  by (simp add: neutral_def shifts_fail)

lemma neutral_lift [neutral_intros]: "neutral acq rel (lift a)"
  unfolding lift_def by (rule neutral_ret)

lemma neutral_call:
  assumes "\<And>a. acq (ev a) = None" "\<And>a. rel (ev a) = None"
  shows "neutral acq rel (call f ev)"
  unfolding neutral_def shifts_def by (rule extends_call) (simp add: assms)

lemma neutral_query [neutral_intros]: "neutral acq rel (query f)"
  by (simp add: neutral_def shifts_def extends_def query_def)

lemma neutral_reserve_heap [neutral_intros]: "neutral acq rel (reserve_heap fw n)"
  unfolding reserve_heap_def by (rule neutral_query)

lemma neutral_bindS [neutral_intros]:
  "neutral acq rel m \<Longrightarrow> (\<And>a. neutral acq rel (k a)) \<Longrightarrow> neutral acq rel (bindS m k)"
  unfolding neutral_def by (rule shifts_bindS)

lemma neutral_bindE [neutral_intros]:
  "neutral acq rel m \<Longrightarrow> (\<And>a. neutral acq rel (k a)) \<Longrightarrow> neutral acq rel (bindE m k)"
  unfolding neutral_def by (rule shifts_bindE) auto

lemma neutral_if [neutral_intros]:
  "(b \<Longrightarrow> neutral acq rel m) \<Longrightarrow> (\<not> b \<Longrightarrow> neutral acq rel n) \<Longrightarrow> neutral acq rel (if b then m else n)"
  by simp

lemma neutral_case_sum [neutral_intros]:
  "(\<And>e. neutral acq rel (f e)) \<Longrightarrow> (\<And>x. neutral acq rel (g x)) \<Longrightarrow>
   neutral acq rel (case r of Inl e \<Rightarrow> f e | Inr x \<Rightarrow> g x)"
  by (cases r) simp_all

lemma neutral_case_option [neutral_intros]:
  "neutral acq rel f \<Longrightarrow> (\<And>x. neutral acq rel (g x)) \<Longrightarrow>
   neutral acq rel (case r of None \<Rightarrow> f | Some x \<Rightarrow> g x)"
  by (cases r) simp_all

lemma neutral_case_prod [neutral_intros]:
  "(\<And>x y. neutral acq rel (f x y)) \<Longrightarrow> neutral acq rel (case p of (x, y) \<Rightarrow> f x y)"
  by (cases p) simp

lemma neutral_case_prod_app [neutral_intros]:
  "(\<And>x y. neutral acq rel (f x y z)) \<Longrightarrow> neutral acq rel ((case p of (x, y) \<Rightarrow> f x y) z)"
  by (cases p) simp

lemma neutral_case_list [neutral_intros]:
  "neutral acq rel f \<Longrightarrow> (\<And>x xs. neutral acq rel (g x xs)) \<Longrightarrow>
   neutral acq rel (case l of [] \<Rightarrow> f | x # xs \<Rightarrow> g x xs)"
  by (cases l) simp_all

text \<open>
  Reports, treated as releases of something that is never held: an operation is neutral for them
  when it makes none.
\<close>

definition is_report :: "event \<Rightarrow> bool" where
  "is_report e = (case e of EReport _ _ \<Rightarrow> True | _ \<Rightarrow> False)"

definition no_acq :: "event \<Rightarrow> unit option" where "no_acq e = None"

definition report_rel :: "event \<Rightarrow> unit option" where
  "report_rel e = (if is_report e then Some () else None)"

abbreviation silent :: "('w, 'a) op \<Rightarrow> bool" where
  "silent m \<equiv> neutral no_acq report_rel m"

lemma balance_no_reports:
  "balance no_acq report_rel evs {#} = Some {#} \<longleftrightarrow> list_all (\<lambda>e. \<not> is_report e) evs"
  by (induction evs) (auto simp: no_acq_def report_rel_def)

lemma silent_events: "silent m \<Longrightarrow> extends m (\<lambda>_ evs. list_all (\<lambda>e. \<not> is_report e) evs)"
  unfolding neutral_def shifts_def
  by (erule extends_mono) (auto simp: balance_no_reports [symmetric])

lemma silent_call: "(\<And>a. \<not> is_report (ev a)) \<Longrightarrow> silent (call f ev)"
  by (rule neutral_call) (simp_all add: no_acq_def report_rel_def)

definition reports_only :: "('w, 'a) op \<Rightarrow> bool" where
  "reports_only m \<longleftrightarrow> extends m (\<lambda>_ evs. list_all is_report evs)"

lemma reports_only_ret: "reports_only (ret a)" "reports_only (lift r)"
  by (simp_all add: reports_only_def extends_ret extends_lift)

lemma reports_only_report: "reports_only (report fw m vs)"
  unfolding reports_only_def report_def by (rule extends_call) (simp add: is_report_def)

lemma reports_only_bindS: "reports_only m \<Longrightarrow> (\<And>a. reports_only (k a)) \<Longrightarrow> reports_only (bindS m k)"
  unfolding reports_only_def by (erule extends_bindS) (auto elim!: extends_mono)

lemma reports_only_case_option:
  "reports_only f \<Longrightarrow> (\<And>x. reports_only (g x)) \<Longrightarrow> reports_only (case r of None \<Rightarrow> f | Some x \<Rightarrow> g x)"
  by (cases r) simp_all

lemma reports_only_case_prod:
  "(\<And>x y. reports_only (f x y)) \<Longrightarrow> reports_only (case p of (x, y) \<Rightarrow> f x y)"
  by (cases p) simp

lemma reports_only_case_prod_app:
  "(\<And>x y. reports_only (f x y z)) \<Longrightarrow> reports_only ((case p of (x, y) \<Rightarrow> f x y) z)"
  by (cases p) simp

lemmas reports_only_intros = reports_only_case_prod_app reports_only_ret reports_only_report reports_only_bindS
  reports_only_case_option reports_only_case_prod

text \<open>
  The contract of an owning value: creating it acquires exactly its tokens, or nothing when
  creation fails; dropping it releases exactly them.
\<close>

definition owned :: "('o \<Rightarrow> 'k multiset) \<Rightarrow> 'e + 'o \<Rightarrow> 'k multiset" where
  "owned tokens r = (case r of Inl _ \<Rightarrow> {#} | Inr x \<Rightarrow> tokens x)"

lemma owned_simps [simp]: "owned tokens (Inl e) = {#}" "owned tokens (Inr x) = tokens x"
  by (simp_all add: owned_def)

locale owner =
  fixes acq rel :: "event \<Rightarrow> 'k option"
    and create :: "('w, status + 'o) op"
    and destroy :: "'o \<Rightarrow> 'w sys \<Rightarrow> 'w sys"
    and tokens :: "'o \<Rightarrow> 'k multiset"
  assumes create_acquires: "shifts acq rel create {#} (owned tokens)"
    and destroy_releases: "gives_up acq rel (destroy x) (tokens x)"
begin

text \<open>A scope that creates the value, uses it and drops it is balanced on every path.\<close>

lemma scoped_neutral:
  assumes "\<And>x. neutral acq rel (body x)"
  shows "neutral acq rel (bindE create (\<lambda>x. with_drop (body x) (destroy x)))"
  unfolding neutral_def
  by (intro shifts_bindE [OF create_acquires] shifts_with_drop [OF _ destroy_releases])
    (auto intro: shifts_neutral assms)

end

end
