(* ===== verification/Memory_Map.thy ===== *)
theory Memory_Map
  imports UEFI
begin

text \<open>
  Checking that a page allocation is described by the firmware memory map:
  \<open>MapBuffer::coverage\<close> of src/src/loaded\_kernel\_collection.rs and \<open>ArmPages::validate\_map\<close> of
  src/src/arm\_pages.rs. Both add up the overlaps of all descriptors with the allocation and then
  walk a cursor over it. They are related to one abstract statement: every address of the
  allocation lies in exactly one descriptor, and that descriptor has the expected type.
\<close>

definition STAGING_PAGE_SIZE :: nat where "STAGING_PAGE_SIZE = 4096"

text \<open>The address after a descriptor's last byte, and the bytes it describes.\<close>

definition limit_of :: "descriptor \<Rightarrow> nat" where
  "limit_of d = phys_start d + page_count d * 4096"

definition covers :: "descriptor \<Rightarrow> nat \<Rightarrow> bool" where
  "covers d a \<longleftrightarrow> phys_start d \<le> a \<and> a < limit_of d"

definition meets :: "nat \<Rightarrow> nat \<Rightarrow> descriptor \<Rightarrow> bool" where
  "meets base end d \<longleftrightarrow> max base (phys_start d) < min end (limit_of d)"

definition overlap :: "nat \<Rightarrow> nat \<Rightarrow> descriptor \<Rightarrow> nat" where
  "overlap base end d = min end (limit_of d) - max base (phys_start d)"

subsection \<open>The bounded map buffer\<close>

text \<open>
  \<open>MapBuffer\<close>: 128 KiB of storage that \<open>get_memory_map\<close> fills, with the map's size and the stride
  of its descriptors. The firmware call's result is the parameter of \<open>refresh\<close>: its status, the
  four output values, and the buffer's content.
\<close>

definition MAP_BYTES :: nat where "MAP_BYTES = 128 * 1024"
definition MAX_DESCRIPTORS :: nat where "MAX_DESCRIPTORS = 4096"
definition DESCRIPTOR_BYTES :: nat where "DESCRIPTOR_BYTES = 40"

record map_buffer =
  buf_words :: "u8 list"
  buf_bytes :: nat
  buf_stride :: nat

text \<open>\<open>reserve n\<close> says whether the allocator grants \<open>n\<close> elements (\<open>try_reserve_exact\<close>).\<close>

definition new_map_buffer :: "(nat \<Rightarrow> bool) \<Rightarrow> status + map_buffer" where
  "new_map_buffer reserve =
     (if reserve (MAP_BYTES div 8)
      then Inr \<lparr>buf_words = replicate MAP_BYTES 0, buf_bytes = 0, buf_stride = 0\<rparr>
      else Inl OUT_OF_RESOURCES)"

definition refresh :: "map_reply \<Rightarrow> map_buffer \<Rightarrow> (status + unit) \<times> map_buffer" where
  "refresh r b =
     (let b = b\<lparr>buf_words := reply_content r\<rparr> in
      if reply_status r \<noteq> SUCCESS then (Inl (reply_status r), b)
      else if reply_version r \<noteq> 1 \<or> reply_stride r < DESCRIPTOR_BYTES \<or> reply_bytes r > MAP_BYTES
        \<or> reply_bytes r = 0 \<or> reply_bytes r mod reply_stride r \<noteq> 0
        \<or> reply_bytes r div reply_stride r > MAX_DESCRIPTORS
      then (Inl COMPROMISED_DATA, b)
      else (Inr (), b\<lparr>buf_bytes := reply_bytes r, buf_stride := reply_stride r\<rparr>))"

text \<open>The prefix of a descriptor, by the layout of the UEFI specification.\<close>

definition memory_type_code :: "nat \<Rightarrow> memory_type" where
  "memory_type_code n =
     (if n = 1 then LOADER_CODE else if n = 2 then LOADER_DATA else if n = 3 then BOOT_SERVICES_CODE
      else if n = 4 then BOOT_SERVICES_DATA else if n = 5 then RUNTIME_SERVICES_CODE
      else if n = 6 then RUNTIME_SERVICES_DATA else if n = 7 then CONVENTIONAL
      else if n = 8 then UNUSABLE else if n = 9 then ACPI_RECLAIM
      else if n = 10 then ACPI_NON_VOLATILE else if n = 14 then PERSISTENT_MEMORY
      else MEMORY_OTHER n)"

definition map_entry :: "map_buffer \<Rightarrow> nat \<Rightarrow> descriptor" where
  "map_entry b i =
     (let at = i * buf_stride b; field = (\<lambda>off n. le_nat (subrange (at + off) (at + off + n) (buf_words b))) in
      \<lparr>ty = memory_type_code (field 0 4), phys_start = field 8 8, page_count = field 24 8\<rparr>)"

definition map_entries :: "map_buffer \<Rightarrow> descriptor list" where
  "map_entries b = map (map_entry b) [0..<buf_bytes b div buf_stride b]"

lemma refresh_entries_inside:
  assumes "refresh r b = (Inr (), b')" "i < buf_bytes b' div buf_stride b'"
  shows "i * buf_stride b' + DESCRIPTOR_BYTES \<le> MAP_BYTES"
proof -
  have g: "DESCRIPTOR_BYTES \<le> buf_stride b'" "buf_bytes b' \<le> MAP_BYTES"
    using assms(1) by (auto simp: refresh_def Let_def split: if_splits)
  have "(i + 1) * buf_stride b' \<le> buf_bytes b' div buf_stride b' * buf_stride b'"
    using assms(2) by (intro mult_le_mono1) simp
  also have "\<dots> \<le> buf_bytes b'" by simp
  finally show ?thesis using g by simp
qed

subsection \<open>Coverage of a staging allocation\<close>

text \<open>
  The first loop of \<open>coverage\<close>: running total of overlapping bytes and number of
  intersecting descriptors.
\<close>

fun cover_scan :: "nat \<Rightarrow> nat \<Rightarrow> memory_type \<Rightarrow> descriptor list \<Rightarrow> nat \<Rightarrow> nat \<Rightarrow> status + nat \<times> nat" where
  "cover_scan base end expected [] tot n = Inr (tot, n)"
| "cover_scan base end expected (d # ds) tot n =
     and_then (ok_or (checked_mul (page_count d) STAGING_PAGE_SIZE) COMPROMISED_DATA) (\<lambda>len.
     and_then (ok_or (checked_add (phys_start d) len) COMPROMISED_DATA) (\<lambda>limit.
     if phys_start d mod STAGING_PAGE_SIZE \<noteq> 0 then Inl COMPROMISED_DATA
     else let lo = max base (phys_start d); hi = min end limit in
       if lo < hi then
         (if ty d \<noteq> expected then Inl COMPROMISED_DATA
          else and_then (ok_or (checked_add tot (hi - lo)) COMPROMISED_DATA) (\<lambda>tot.
            cover_scan base end expected ds tot (n + 1)))
       else cover_scan base end expected ds tot n))"

text \<open>The inner loop of the cursor walk, with the unchecked arithmetic of the source.\<close>

fun next_cursor :: "nat \<Rightarrow> nat \<Rightarrow> descriptor list \<Rightarrow> nat \<Rightarrow> nat" where
  "next_cursor cursor end [] next = next"
| "next_cursor cursor end (d # ds) next =
     (let limit = wrapping_add (phys_start d) (wrapping_mul (page_count d) STAGING_PAGE_SIZE) in
      next_cursor cursor end ds
        (if phys_start d \<le> cursor \<and> cursor < limit then max next (min limit end) else next))"

text \<open>The outer loop runs at most \<open>intersecting\<close> times.\<close>

fun cover_walk :: "nat \<Rightarrow> descriptor list \<Rightarrow> nat \<Rightarrow> nat \<Rightarrow> status + unit" where
  "cover_walk 0 ds end cursor = (if cursor = end then Inr () else Inl COMPROMISED_DATA)"
| "cover_walk (Suc n) ds end cursor =
     (if cursor = end then Inr ()
      else let next = next_cursor cursor end ds cursor in
        if next = cursor then Inl COMPROMISED_DATA else cover_walk n ds end next)"

definition coverage :: "descriptor list \<Rightarrow> nat \<Rightarrow> nat \<Rightarrow> memory_type \<Rightarrow> status + nat" where
  "coverage ds base bytes expected =
     and_then (ok_or (checked_add base bytes) COMPROMISED_DATA) (\<lambda>end.
     and_then (cover_scan base end expected ds 0 0) (\<lambda>(tot, intersecting).
       if tot \<noteq> bytes then Inl COMPROMISED_DATA
       else and_then (cover_walk intersecting ds end base) (\<lambda>_. Inr intersecting)))"

subsection \<open>Validation of an ARM page owner\<close>

fun validate_scan :: "nat \<Rightarrow> nat \<Rightarrow> memory_type \<Rightarrow> descriptor list \<Rightarrow> nat \<Rightarrow> status + nat" where
  "validate_scan base end mtype [] tot = Inr tot"
| "validate_scan base end mtype (d # ds) tot =
     and_then (ok_or (checked_mul (page_count d) 4096) COMPROMISED_DATA) (\<lambda>len.
     and_then (ok_or (checked_add (phys_start d) len) COMPROMISED_DATA) (\<lambda>limit.
     let lo = max base (phys_start d); hi = min end limit in
       if lo < hi then
         (if ty d \<noteq> mtype \<or> phys_start d mod 4096 \<noteq> 0 then Inl COMPROMISED_DATA
          else and_then (ok_or (checked_add tot (hi - lo)) COMPROMISED_DATA) (\<lambda>tot.
            validate_scan base end mtype ds tot))
       else validate_scan base end mtype ds tot))"

text \<open>The outer loop runs 4096 times; falling out of it is an error even at the end.\<close>

fun validate_walk :: "nat \<Rightarrow> descriptor list \<Rightarrow> nat \<Rightarrow> nat \<Rightarrow> status + unit" where
  "validate_walk 0 ds end cursor = Inl COMPROMISED_DATA"
| "validate_walk (Suc n) ds end cursor =
     (if cursor = end then Inr ()
      else let next = next_cursor cursor end ds cursor in
        if next = cursor then Inl COMPROMISED_DATA else validate_walk n ds end next)"

text \<open>\<open>desc_bytes\<close> is the size of the library's descriptor type.\<close>

definition validate_map :: "nat \<Rightarrow> nat \<Rightarrow> nat \<Rightarrow> memory_type \<Rightarrow> map_meta \<Rightarrow> descriptor list \<Rightarrow> status + unit" where
  "validate_map desc_bytes base bytes mtype meta ds =
     (if desc_version meta \<noteq> 1 \<or> desc_size meta < desc_bytes \<or> map_size meta = 0
         \<or> map_size meta mod desc_size meta \<noteq> 0 \<or> map_size meta div desc_size meta > 4096
      then Inl COMPROMISED_DATA
      else and_then (ok_or (checked_add base bytes) COMPROMISED_DATA) (\<lambda>end.
        and_then (validate_scan base end mtype ds 0) (\<lambda>tot.
          if tot \<noteq> bytes then Inl COMPROMISED_DATA
          else validate_walk 4096 ds end base)))"

subsection \<open>The abstract statement\<close>

definition in_range :: "descriptor \<Rightarrow> bool" where
  "in_range d \<longleftrightarrow> page_count d * 4096 < 2 ^ 64 \<and> limit_of d < 2 ^ 64"

text \<open>Number of descriptors (by position) that cover an address.\<close>

definition cover_count :: "descriptor list \<Rightarrow> nat \<Rightarrow> nat" where
  "cover_count ds a = length (filter (\<lambda>d. covers d a) ds)"

definition tiled :: "descriptor list \<Rightarrow> nat \<Rightarrow> nat \<Rightarrow> memory_type \<Rightarrow> bool" where
  "tiled ds base end expected \<longleftrightarrow>
     (\<forall>a. base \<le> a \<and> a < end \<longrightarrow> cover_count ds a = 1)
     \<and> (\<forall>d \<in> set ds. meets base end d \<longrightarrow> ty d = expected \<and> phys_start d mod 4096 = 0)"

definition meeting :: "nat \<Rightarrow> nat \<Rightarrow> descriptor list \<Rightarrow> nat" where
  "meeting base end ds = length (filter (meets base end) ds)"

lemma overlap_card: "overlap base end d = card {a \<in> {base..<end}. covers d a}"
proof -
  have "{a \<in> {base..<end}. covers d a} = {max base (phys_start d)..<min end (limit_of d)}"
    by (auto simp: covers_def)
  then show ?thesis by (simp add: overlap_def)
qed

lemma sum_overlap_count:
  "(\<Sum>d\<leftarrow>ds. overlap base end d) = (\<Sum>a\<in>{base..<end}. cover_count ds a)"
proof (induction ds)
  case Nil
  then show ?case by (simp add: cover_count_def)
next
  case (Cons d ds)
  have "overlap base end d = (\<Sum>a\<in>{base..<end}. if covers d a then 1 else 0)"
    by (simp add: overlap_card sum.If_cases Int_def)
  moreover have "cover_count (d # ds) a = (if covers d a then 1 else 0) + cover_count ds a" for a
    by (simp add: cover_count_def)
  ultimately show ?case using Cons by (simp add: sum.distrib)
qed

lemma sum_one_each:
  fixes f :: "nat \<Rightarrow> nat"
  assumes "finite A" "\<forall>a \<in> A. 1 \<le> f a" "sum f A = card A"
  shows "\<forall>a \<in> A. f a = 1"
proof (rule ccontr)
  assume "\<not> (\<forall>a \<in> A. f a = 1)"
  then obtain a where a: "a \<in> A" "f a \<noteq> 1" by blast
  have "sum (\<lambda>_. 1) A < sum f A"
    by (rule sum_strict_mono_ex1) (use assms(1,2) a in \<open>auto simp: le_neq_implies_less intro!: bexI [of _ a]\<close>)
  with assms(3) show False by simp
qed

subsection \<open>The scans compute the abstract totals\<close>

lemma in_range_ops:
  assumes "in_range d"
  shows "checked_mul (page_count d) 4096 = Some (page_count d * 4096)"
    "checked_add (phys_start d) (page_count d * 4096) = Some (limit_of d)"
  using assms by (simp_all add: checked_simps in_range_def limit_of_def)

lemma cover_scan_step:
  assumes "in_range d" "phys_start d mod 4096 = 0"
  shows "cover_scan base end expected (d # ds) tot n =
    (if meets base end d then
       (if ty d = expected \<and> tot + overlap base end d < 2 ^ 64
        then cover_scan base end expected ds (tot + overlap base end d) (n + 1)
        else Inl COMPROMISED_DATA)
     else cover_scan base end expected ds tot n)"
  using assms(2)
  by (simp only: cover_scan.simps in_range_ops [OF assms(1)] ok_or_simps and_then_simps Let_def
      meets_def overlap_def STAGING_PAGE_SIZE_def)
    (simp add: checked_add_def del: min_less_iff_conj max_less_iff_conj)

lemma cover_scan_bad:
  "\<not> (in_range d \<and> phys_start d mod 4096 = 0) \<Longrightarrow> cover_scan base end expected (d # ds) tot n \<noteq> Inr r"
  by (auto simp: in_range_def limit_of_def STAGING_PAGE_SIZE_def and_then_Inr checked_simps)

lemma overlap_apart: "\<not> meets base end d \<Longrightarrow> overlap base end d = 0"
  unfolding meets_def overlap_def by linarith

lemma meeting_Cons:
  "meeting base end (d # ds) = (if meets base end d then 1 else 0) + meeting base end ds"
  by (simp add: meeting_def)

lemma cover_scan_Inr:
  "cover_scan base end expected ds tot n = Inr (t, k) \<longleftrightarrow>
     (\<forall>d \<in> set ds. in_range d \<and> phys_start d mod 4096 = 0 \<and> (meets base end d \<longrightarrow> ty d = expected))
     \<and> t = tot + (\<Sum>d\<leftarrow>ds. overlap base end d) \<and> k = n + meeting base end ds \<and> t < 2 ^ 64"
  if "tot < 2 ^ 64"
  using that
proof (induction ds arbitrary: tot n)
  case Nil
  then show ?case by (auto simp: meeting_def)
next
  case (Cons d ds)
  show ?case
  proof (cases "in_range d \<and> phys_start d mod 4096 = 0")
    case False
    with cover_scan_bad [OF this] show ?thesis by auto
  next
    case True
    with Cons show ?thesis
      by (auto simp: cover_scan_step overlap_apart meeting_Cons simp del: cover_scan.simps)
  qed
qed

text \<open>The scan of the ARM owner checks alignment only where a descriptor meets the range.\<close>

lemma validate_scan_step:
  assumes "in_range d"
  shows "validate_scan base end mtype (d # ds) tot =
    (if meets base end d then
       (if ty d = mtype \<and> phys_start d mod 4096 = 0 \<and> tot + overlap base end d < 2 ^ 64
        then validate_scan base end mtype ds (tot + overlap base end d)
        else Inl COMPROMISED_DATA)
     else validate_scan base end mtype ds tot)"
  by (simp only: validate_scan.simps in_range_ops [OF assms] ok_or_simps and_then_simps Let_def
      meets_def overlap_def)
    (simp add: checked_add_def del: min_less_iff_conj max_less_iff_conj)

lemma validate_scan_bad:
  "\<not> in_range d \<Longrightarrow> validate_scan base end mtype (d # ds) tot \<noteq> Inr r"
  by (auto simp: in_range_def limit_of_def and_then_Inr checked_simps)

lemma validate_scan_Inr:
  "validate_scan base end mtype ds tot = Inr t \<longleftrightarrow>
     (\<forall>d \<in> set ds. in_range d \<and> (meets base end d \<longrightarrow> ty d = mtype \<and> phys_start d mod 4096 = 0))
     \<and> t = tot + (\<Sum>d\<leftarrow>ds. overlap base end d) \<and> t < 2 ^ 64"
  if "tot < 2 ^ 64"
  using that
proof (induction ds arbitrary: tot)
  case Nil
  then show ?case by auto
next
  case (Cons d ds)
  show ?case
  proof (cases "in_range d")
    case False
    with validate_scan_bad [OF this] show ?thesis by auto
  next
    case True
    with Cons show ?thesis
      by (auto simp: validate_scan_step overlap_apart simp del: validate_scan.simps)
  qed
qed

subsection \<open>The cursor walk\<close>

abbreviation reach :: "nat \<Rightarrow> descriptor \<Rightarrow> nat" where
  "reach end d \<equiv> min end (limit_of d)"

lemma next_cursor_in_range:
  assumes "\<forall>d \<in> set ds. in_range d"
  shows "next_cursor c end ds n = fold max (map (reach end) (filter (\<lambda>d. covers d c) ds)) n"
  using assms
proof (induction ds arbitrary: n)
  case Nil
  then show ?case by simp
next
  case (Cons d ds)
  then have "wrapping_add (phys_start d) (wrapping_mul (page_count d) STAGING_PAGE_SIZE) = limit_of d"
    by (simp add: in_range_def limit_of_def STAGING_PAGE_SIZE_def)
  with Cons show ?case by (simp add: covers_def max.commute min.commute Let_def)
qed

lemma fold_max_in: "fold max xs n = n \<or> fold max xs n \<in> set xs" for n :: nat
  by (induction xs arbitrary: n) (auto simp: max_def split: if_splits)

lemma fold_max_ge: "n \<le> fold max xs n \<and> (\<forall>x \<in> set xs. x \<le> fold max xs n)" for n :: nat
proof (induction xs arbitrary: n)
  case Nil
  then show ?case by simp
next
  case (Cons x xs)
  have "max x n \<le> fold max xs (max x n)" using Cons by blast
  moreover have "\<forall>y \<in> set xs. y \<le> fold max xs (max x n)" using Cons by blast
  ultimately show ?case by simp
qed

lemma next_cursor_facts:
  assumes "\<forall>d \<in> set ds. in_range d" "c' = next_cursor c end ds c"
  shows "c \<le> c'" "d \<in> set ds \<Longrightarrow> covers d c \<Longrightarrow> reach end d \<le> c'"
    "c' \<noteq> c \<Longrightarrow> \<exists>d \<in> set ds. covers d c \<and> c' = reach end d"
  using assms next_cursor_in_range [OF assms(1), of c "end" c]
    fold_max_ge [of c "map (reach end) (filter (\<lambda>d. covers d c) ds)"]
    fold_max_in [of "map (reach end) (filter (\<lambda>d. covers d c) ds)" c]
  by auto

lemma walk_step_covers:
  assumes "covers d c" "c' = reach end d" "c \<le> a" "a < c'"
  shows "covers d a"
  using assms by (auto simp: covers_def)

lemma cover_walk_covers:
  assumes "\<forall>d \<in> set ds. in_range d" "cover_walk n ds end c = Inr ()" "c \<le> a" "a < end"
  shows "\<exists>d \<in> set ds. covers d a"
  using assms(2,3)
proof (induction n arbitrary: c)
  case 0
  with \<open>a < end\<close> show ?case by (auto split: if_splits)
next
  case (Suc n)
  define c' where "c' = next_cursor c end ds c"
  from Suc.prems \<open>a < end\<close> have ne: "c' \<noteq> c" and w: "cover_walk n ds end c' = Inr ()"
    by (auto simp: c'_def Let_def split: if_splits)
  from next_cursor_facts(3) [OF assms(1) c'_def ne] obtain d where
    d: "d \<in> set ds" "covers d c" "c' = reach end d" by blast
  show ?case
  proof (cases "a < c'")
    case True
    with walk_step_covers [OF d(2,3) Suc.prems(2)] d(1) show ?thesis by blast
  next
    case False
    with Suc.IH [OF w] show ?thesis by simp
  qed
qed

lemma validate_walk_cover_walk:
  "validate_walk n ds end c = Inr () \<Longrightarrow> cover_walk n ds end c = Inr ()"
  by (induction n arbitrary: c) (auto simp: Let_def split: if_splits)

text \<open>The descriptors the walk still has to pass; the measure of its termination.\<close>

definition ahead :: "nat \<Rightarrow> nat \<Rightarrow> descriptor list \<Rightarrow> nat \<Rightarrow> nat" where
  "ahead base end ds c = length (filter (\<lambda>d. meets base end d \<and> c < reach end d) ds)"

lemma ahead_decreases:
  assumes "c < c'" "d \<in> set ds" "meets base end d" "c < reach end d" "reach end d \<le> c'"
  shows "ahead base end ds c' < ahead base end ds c"
proof -
  have le: "ahead base end xs c' \<le> ahead base end xs c" for xs
    unfolding ahead_def using \<open>c < c'\<close> by (induction xs) auto
  have "ahead base end (xs @ ys) x = ahead base end xs x + ahead base end ys x" for xs ys x
    by (simp add: ahead_def)
  moreover obtain xs ys where "ds = xs @ [d] @ ys" using split_list [OF assms(2)] by auto
  moreover have "ahead base end [d] c = 1" "ahead base end [d] c' = 0"
    using assms by (auto simp: ahead_def)
  ultimately show ?thesis using le [of xs] le [of ys] by (simp del: append_Cons append_Nil)
qed

lemma walk_advances:
  assumes "\<forall>d \<in> set ds. in_range d" "\<forall>a. base \<le> a \<and> a < end \<longrightarrow> (\<exists>d \<in> set ds. covers d a)"
    and "base \<le> c" "c < end" "c' = next_cursor c end ds c"
  shows "c < c'" "c' \<le> end" "ahead base end ds c' < ahead base end ds c"
proof -
  obtain d where d: "d \<in> set ds" "covers d c" using assms(2-4) by blast
  then have r: "c < reach end d" "meets base end d"
    using assms(3,4) by (auto simp: covers_def meets_def)
  have le: "reach end d \<le> c'" using next_cursor_facts(2) [OF assms(1,5) d] .
  from less_le_trans [OF r(1) le] show lt: "c < c'" .
  with next_cursor_facts(3) [OF assms(1,5)] show "c' \<le> end" by auto
  show "ahead base end ds c' < ahead base end ds c"
    by (rule ahead_decreases [OF lt d(1) r(2,1) le])
qed

lemma cover_walk_complete:
  assumes "\<forall>d \<in> set ds. in_range d" "\<forall>a. base \<le> a \<and> a < end \<longrightarrow> (\<exists>d \<in> set ds. covers d a)"
  shows "base \<le> c \<Longrightarrow> c \<le> end \<Longrightarrow> ahead base end ds c \<le> n \<Longrightarrow> cover_walk n ds end c = Inr ()"
proof (induction n arbitrary: c)
  case 0
  with walk_advances(3) [OF assms 0(1) _ refl] show ?case by (cases "c = end") auto
next
  case (Suc n)
  show ?case
  proof (cases "c = end")
    case False
    with Suc.prems have "c < end" by simp
    from walk_advances [OF assms Suc.prems(1) this refl] Suc show ?thesis by (simp add: Let_def)
  qed simp
qed

lemma validate_walk_complete:
  assumes "\<forall>d \<in> set ds. in_range d" "\<forall>a. base \<le> a \<and> a < end \<longrightarrow> (\<exists>d \<in> set ds. covers d a)"
  shows "base \<le> c \<Longrightarrow> c \<le> end \<Longrightarrow> ahead base end ds c < n \<Longrightarrow> validate_walk n ds end c = Inr ()"
proof (induction n arbitrary: c)
  case 0
  then show ?case by simp
next
  case (Suc n)
  show ?case
  proof (cases "c = end")
    case False
    with Suc.prems have "c < end" by simp
    from walk_advances [OF assms Suc.prems(1) this refl] Suc show ?thesis by (simp add: Let_def)
  qed simp
qed

lemma ahead_le_meeting: "ahead base end ds c \<le> meeting base end ds"
  unfolding ahead_def meeting_def by (induction ds) auto

subsection \<open>Both routines decide the tiling\<close>

lemma cover_count_pos: "(1 \<le> cover_count ds a) \<longleftrightarrow> (\<exists>d \<in> set ds. covers d a)"
  by (auto simp: cover_count_def Suc_le_eq filter_empty_conv)

lemma covered_and_summed:
  "(\<forall>a. base \<le> a \<and> a < end \<longrightarrow> cover_count ds a = 1) \<longleftrightarrow>
   (\<forall>a. base \<le> a \<and> a < end \<longrightarrow> (\<exists>d \<in> set ds. covers d a)) \<and> (\<Sum>d\<leftarrow>ds. overlap base end d) = end - base"
  (is "?one \<longleftrightarrow> ?cov \<and> ?sum")
proof
  assume ?one
  then have "?cov" by (metis cover_count_pos order_refl)
  moreover from \<open>?one\<close> have "(\<Sum>a\<in>{base..<end}. cover_count ds a) = (\<Sum>a\<in>{base..<end}. 1)"
    by (intro sum.cong) auto
  ultimately show "?cov \<and> ?sum" by (simp add: sum_overlap_count)
next
  assume r: "?cov \<and> ?sum"
  then have "\<forall>a \<in> {base..<end}. 1 \<le> cover_count ds a" by (simp only: cover_count_pos) simp
  with r have "\<forall>a \<in> {base..<end}. cover_count ds a = 1"
    by (intro sum_one_each) (auto simp: sum_overlap_count [symmetric])
  then show ?one by simp
qed

definition scannable :: "descriptor list \<Rightarrow> bool" where
  "scannable ds \<longleftrightarrow> (\<forall>d \<in> set ds. in_range d \<and> phys_start d mod 4096 = 0)"

text \<open>\<open>buffer_coverage\<close> is the method on the buffer: the loops read entry by entry.\<close>

definition buffer_coverage :: "map_buffer \<Rightarrow> nat \<Rightarrow> nat \<Rightarrow> memory_type \<Rightarrow> status + nat" where
  "buffer_coverage b = coverage (map_entries b)"

lemma cover_walk_iff:
  assumes "\<forall>d \<in> set ds. in_range d"
  shows "cover_walk (meeting base (base + bytes) ds) ds (base + bytes) base = Inr () \<longleftrightarrow>
    (\<forall>a. base \<le> a \<and> a < base + bytes \<longrightarrow> (\<exists>d \<in> set ds. covers d a))"
  using cover_walk_covers [OF assms]
    cover_walk_complete [OF assms _ order_refl _ ahead_le_meeting, of base "base + bytes"]
  by (metis le_add1)

lemma tiled_iff:
  "tiled ds base (base + bytes) expected \<longleftrightarrow>
     (\<forall>a. base \<le> a \<and> a < base + bytes \<longrightarrow> (\<exists>d \<in> set ds. covers d a))
     \<and> (\<Sum>d\<leftarrow>ds. overlap base (base + bytes) d) = bytes
     \<and> (\<forall>d \<in> set ds. meets base (base + bytes) d \<longrightarrow> ty d = expected \<and> phys_start d mod 4096 = 0)"
  unfolding tiled_def covered_and_summed by simp

lemma coverage_iff:
  "coverage ds base bytes expected = Inr n \<longleftrightarrow>
     base + bytes < 2 ^ 64 \<and> scannable ds \<and> tiled ds base (base + bytes) expected
     \<and> n = meeting base (base + bytes) ds" (is "?l \<longleftrightarrow> ?r")
proof -
  let ?e = "base + bytes"
  have "?l \<longleftrightarrow> ?e < 2 ^ 64 \<and> (\<exists>t k. cover_scan base ?e expected ds 0 0 = Inr (t, k) \<and> t = bytes
      \<and> cover_walk k ds ?e base = Inr () \<and> n = k)"
    by (auto simp: coverage_def and_then_Inr checked_simps split: prod.splits if_splits)
  also have "\<dots> \<longleftrightarrow> ?e < 2 ^ 64 \<and> (\<forall>d \<in> set ds. in_range d)
      \<and> cover_scan base ?e expected ds 0 0 = Inr (bytes, meeting base ?e ds)
      \<and> cover_walk (meeting base ?e ds) ds ?e base = Inr () \<and> n = meeting base ?e ds"
    by (auto simp: cover_scan_Inr)
  also have "\<dots> \<longleftrightarrow> ?r"
    using cover_walk_iff [of ds base bytes]
    by (auto simp: cover_scan_Inr scannable_def tiled_iff)
  finally show ?thesis .
qed

lemma cover_walk_error: "cover_walk n ds end c = Inl e \<Longrightarrow> e = COMPROMISED_DATA"
  by (induction n arbitrary: c) (auto simp: Let_def split: if_splits)

lemma cover_scan_error: "cover_scan base end expected ds tot n = Inl e \<Longrightarrow> e = COMPROMISED_DATA"
  by (induction ds arbitrary: tot n) (auto simp: Let_def and_then_Inl split: if_splits)

lemma coverage_error: "coverage ds base bytes expected = Inl e \<Longrightarrow> e = COMPROMISED_DATA"
  by (auto simp: coverage_def and_then_Inl dest: cover_scan_error cover_walk_error
      split: if_splits prod.splits)

definition meta_ok :: "nat \<Rightarrow> map_meta \<Rightarrow> bool" where
  "meta_ok desc_bytes meta \<longleftrightarrow> desc_version meta = 1 \<and> desc_bytes \<le> desc_size meta
     \<and> map_size meta \<noteq> 0 \<and> map_size meta mod desc_size meta = 0
     \<and> map_size meta div desc_size meta \<le> 4096"

lemma validate_map_Inr:
  "validate_map desc_bytes base bytes mtype meta ds = Inr () \<longleftrightarrow>
     meta_ok desc_bytes meta \<and> base + bytes < 2 ^ 64
     \<and> validate_scan base (base + bytes) mtype ds 0 = Inr bytes
     \<and> validate_walk 4096 ds (base + bytes) base = Inr ()"
  by (auto simp: validate_map_def meta_ok_def and_then_Inr checked_simps not_less not_le
      simp del: validate_walk.simps)

lemma validate_map_sound:
  assumes "validate_map desc_bytes base bytes mtype meta ds = Inr ()"
  shows "base + bytes < 2 ^ 64 \<and> tiled ds base (base + bytes) mtype"
proof -
  let ?e = "base + bytes"
  from assms have s: "?e < 2 ^ 64" "validate_scan base ?e mtype ds 0 = Inr bytes"
    and w: "cover_walk 4096 ds ?e base = Inr ()"
    by (simp_all only: validate_map_Inr) (blast intro: validate_walk_cover_walk)
  from s(2) have i: "\<forall>d \<in> set ds. in_range d" by (simp add: validate_scan_Inr)
  with s cover_walk_covers [OF i w] show ?thesis
    by (auto simp: validate_scan_Inr tiled_iff)
qed

lemma validate_map_complete:
  assumes "meta_ok desc_bytes meta" "base + bytes < 2 ^ 64" "\<forall>d \<in> set ds. in_range d"
    "tiled ds base (base + bytes) mtype" "meeting base (base + bytes) ds < 4096"
  shows "validate_map desc_bytes base bytes mtype meta ds = Inr ()"
proof -
  let ?e = "base + bytes"
  have "ahead base ?e ds base < 4096"
    using ahead_le_meeting [of base ?e ds base] assms(5) by simp
  with assms(4) have "validate_walk 4096 ds ?e base = Inr ()"
    by (intro validate_walk_complete [OF assms(3)]) (auto simp: tiled_iff)
  moreover have "validate_scan base ?e mtype ds 0 = Inr bytes"
    using assms by (auto simp: validate_scan_Inr tiled_iff)
  ultimately show ?thesis using assms(1,2) by (simp only: validate_map_Inr)
qed

subsection \<open>Properties\<close>

text \<open>\<open>coverage\<close> accepts an allocation exactly when it does not wrap, every descriptor
  of the map is in range and aligned, every address of the allocation lies in exactly one
  descriptor, and the descriptors that meet it have the expected type; and it returns their
  number. In particular the bounded cursor walk always has enough steps.\<close>

theorem coverage_decides_tiling:
  "coverage ds base bytes expected = Inr n \<longleftrightarrow>
     base + bytes < 2 ^ 64 \<and> scannable ds \<and> tiled ds base (base + bytes) expected
     \<and> n = meeting base (base + bytes) ds"
  by (rule coverage_iff)

text \<open>Property C4: below 4096 descriptors meeting the range, \<open>validate_map\<close> accepts exactly the page
  owners whose range is tiled by descriptors of the owner's memory type.\<close>

theorem validate_map_decides_tiling:
  assumes "meeting base (base + bytes) ds < 4096"
  shows "validate_map desc_bytes base bytes mtype meta ds = Inr () \<longleftrightarrow>
    meta_ok desc_bytes meta \<and> base + bytes < 2 ^ 64 \<and> (\<forall>d \<in> set ds. in_range d)
    \<and> tiled ds base (base + bytes) mtype"
proof -
  have "\<forall>d \<in> set ds. in_range d" if "validate_map desc_bytes base bytes mtype meta ds = Inr ()"
    using that by (simp add: validate_map_Inr validate_scan_Inr del: validate_walk.simps)
  then show ?thesis
    using validate_map_sound validate_map_complete assms validate_map_Inr by blast
qed

lemma two_descriptors_tile:
  assumes "ds = [\<lparr>ty = LOADER_CODE, phys_start = 0x100000, page_count = 4\<rparr>,
    \<lparr>ty = CONVENTIONAL, phys_start = 0x200000, page_count = 9\<rparr>,
    \<lparr>ty = LOADER_CODE, phys_start = 0x104000, page_count = 4\<rparr>]"
  shows "tiled ds 0x100000 0x108000 LOADER_CODE" "\<forall>d \<in> set ds. in_range d"
    "meeting 0x100000 0x108000 ds = 2"
  unfolding assms
  by (auto simp: tiled_def cover_count_def covers_def limit_of_def meets_def in_range_def meeting_def)

theorem validate_map_decides_tiling_witness:
  "validate_map 40 0x100000 0x8000 LOADER_CODE \<lparr>desc_version = 1, desc_size = 48, map_size = 144\<rparr>
     [\<lparr>ty = LOADER_CODE, phys_start = 0x100000, page_count = 4\<rparr>,
      \<lparr>ty = CONVENTIONAL, phys_start = 0x200000, page_count = 9\<rparr>,
      \<lparr>ty = LOADER_CODE, phys_start = 0x104000, page_count = 4\<rparr>] = Inr ()"
  using two_descriptors_tile [OF refl]
  by (subst validate_map_decides_tiling) (simp_all add: meta_ok_def)

end
