(* ===== verification/Page_Owner.thy ===== *)
theory Page_Owner
  imports Memory_Map
begin

text \<open>
  Owned firmware pages. \<open>Pages\<close> and \<open>LoadedKernelCollection\<close> of
  src/src/loaded\_kernel\_collection.rs own a staging arena below 4 GiB; \<open>ArmPages\<close> of
  src/src/arm\_pages.rs owns pages with a 16 KiB aligned usable range. The staging plan of the
  core library is a parameter, as is the firmware. All three owners satisfy the \<open>owner\<close>
  contract for page allocations, so every scope that uses one frees exactly what it allocated.
\<close>

subsection \<open>Page allocations in a trace\<close>

definition page_acq :: "event \<Rightarrow> (nat \<times> nat) option" where
  "page_acq e = (case e of EAllocPages at mt n (Inr p) \<Rightarrow> Some (p, n) | _ \<Rightarrow> None)"

definition page_rel :: "event \<Rightarrow> (nat \<times> nat) option" where
  "page_rel e = (case e of EFreePages p n st \<Rightarrow> Some (p, n) | _ \<Rightarrow> None)"

lemma page_events [simp]:
  "page_acq (EAllocPages at mt n (Inr p)) = Some (p, n)" "page_acq (EAllocPages at mt n (Inl e)) = None"
  "page_acq (EFreePages p n st) = None" "page_acq (EReport m vs) = None" "page_acq (EGetMap st) = None"
  "page_acq (EMemoryMap r) = None" "page_acq (EOpenProtocol h g st i) = None" "page_acq (ECloseProtocol h g st) = None"
  "page_rel (EAllocPages at mt n x) = None" "page_rel (EFreePages p n st) = Some (p, n)"
  "page_rel (EReport m vs) = None" "page_rel (EGetMap st) = None" "page_rel (EMemoryMap r) = None"
  "page_rel (EOpenProtocol h g st i) = None" "page_rel (ECloseProtocol h g st) = None"
  by (simp_all add: page_acq_def page_rel_def)

lemma page_neutral_report [neutral_intros]: "neutral page_acq page_rel (report fw m vs)"
  unfolding report_def by (rule neutral_call) simp_all

lemma page_neutral_map [neutral_intros]:
  "neutral page_acq page_rel (get_map fw)" "neutral page_acq page_rel (memory_map fw)"
  unfolding get_map_def memory_map_def by (rule neutral_call; simp)+

subsection \<open>Staging pages\<close>

definition FOUR_GIB :: nat where "FOUR_GIB = 2 ^ 32"

definition ISIZE_MAX :: nat where "ISIZE_MAX = 2 ^ 63 - 1"

record pages =
  pg_pointer :: "nat option"
  pg_count :: nat
  pg_bytes :: nat
  pg_map :: map_buffer

definition refresh_map :: "'w firmware \<Rightarrow> map_buffer \<Rightarrow> ('w, (status + unit) \<times> map_buffer) op" where
  "refresh_map fw b =
     (if \<not> fw_services fw then ret (Inl NOT_READY, b)
      else bindS (get_map fw) (\<lambda>r. ret (refresh r b)))"

text \<open>\<open>release_inner\<close>: the pointer is taken first, so a second call finds nothing to free.\<close>

definition release_inner :: "'w firmware \<Rightarrow> string \<Rightarrow> pages \<Rightarrow> ('w, (status + unit) \<times> pages) op" where
  "release_inner fw mode p =
     (case pg_pointer p of
        None \<Rightarrow> ret (Inr (), p)
      | Some base \<Rightarrow>
          bindS (free_pages fw base (pg_count p)) (\<lambda>st.
          bindS (if st = SUCCESS then
                   bindS (refresh_map fw (pg_map p)) (\<lambda>(r, b).
                     ret (and_then r (\<lambda>_. buffer_coverage b base (pg_bytes p) CONVENTIONAL), b))
                 else ret (Inl st, pg_map p)) (\<lambda>(cover, b).
          bindS (report fw (''NXKC: RELEASE mode='' @ mode)
                   [RNat base, RNat (pg_count p), RStat st, RStat (status_of cover),
                    RNat (case cover of Inl _ \<Rightarrow> 0 | Inr n \<Rightarrow> n)]) (\<lambda>_.
          ret (if st = SUCCESS \<and> status_of cover = SUCCESS then Inr () else Inl DEVICE_ERROR,
               p\<lparr>pg_pointer := None, pg_map := b\<rparr>)))))"

definition pages_drop :: "'w firmware \<Rightarrow> pages \<Rightarrow> 'w sys \<Rightarrow> 'w sys" where
  "pages_drop fw p s = snd (release_inner fw ''drop'' p s)"

text \<open>\<open>reserve\<close> is the allocator's answer to the map buffer's reservation.\<close>

definition pages_new :: "'w firmware \<Rightarrow> (nat \<Rightarrow> bool) \<Rightarrow> nat \<Rightarrow> ('w, pages) res" where
  "pages_new fw reserve bytes =
     (if bytes = 0 \<or> bytes mod STAGING_PAGE_SIZE \<noteq> 0 \<or> bytes > ISIZE_MAX then fail INVALID_PARAMETER
      else bindE (lift (new_map_buffer reserve)) (\<lambda>buffer.
        let n = bytes div STAGING_PAGE_SIZE in
        bindE (allocate_pages fw (MaxAddress (FOUR_GIB - 1)) LOADER_DATA n) (\<lambda>base.
        let p = \<lparr>pg_pointer = Some base, pg_count = n, pg_bytes = bytes, pg_map = buffer\<rparr> in
        if base = 0 \<or> base mod STAGING_PAGE_SIZE \<noteq> 0
           \<or> (case checked_add base bytes of None \<Rightarrow> True | Some end \<Rightarrow> end > FOUR_GIB)
        then with_drop (fail COMPROMISED_DATA) (pages_drop fw p)
        else ok p)))"

subsection \<open>The loaded kernel collection\<close>

text \<open>
  The staging plan of the core library: its construction from the source bytes, the arena size,
  staging into a destination (which may fail half way, hence the destination is returned in any
  case), and verification.
\<close>

datatype stage_check = Verified | ReadbackMismatch | OtherStagingError

record ('p, 'v) staging =
  st_plan :: "u8 list \<Rightarrow> 'p option"
  st_arena :: "'p \<Rightarrow> nat"
  st_stage :: "'p \<Rightarrow> u8 list \<Rightarrow> 'v option \<times> u8 list"
  st_verify :: "'p \<Rightarrow> u8 list \<Rightarrow> stage_check"

text \<open>\<open>kc_memory\<close> is the content of the owned pages.\<close>

record ('p, 'v) loaded_kc =
  kc_pages :: pages
  kc_plan :: 'p
  kc_verification :: 'v
  kc_descriptors :: nat
  kc_memory :: "u8 list"

text \<open>The body of \<open>load\<close> after the pages exist; an error leaves the pages to be dropped.\<close>

definition kc_fill :: "'w firmware \<Rightarrow> ('p, 'v) staging \<Rightarrow> nat \<Rightarrow> u8 list \<Rightarrow> 'p \<Rightarrow> pages
    \<Rightarrow> ('w, (status + ('p, 'v) loaded_kc) \<times> pages) op" where
  "kc_fill fw st source_base source plan p =
     (let base = the (pg_pointer p) in
      case checked_add source_base (length source) of
        None \<Rightarrow> ret (Inl INVALID_PARAMETER, p)
      | Some source_end \<Rightarrow>
          if base < source_end \<and> source_base < base + pg_bytes p then ret (Inl INVALID_PARAMETER, p)
          else bindS (refresh_map fw (pg_map p)) (\<lambda>(r, b).
            let p = p\<lparr>pg_map := b\<rparr> in
            case and_then r (\<lambda>_. buffer_coverage b base (pg_bytes p) LOADER_DATA) of
              Inl e \<Rightarrow> ret (Inl e, p)
            | Inr n \<Rightarrow>
                bindS (report fw ''NXKC: ALLOCATED source_disjoint=true''
                         [RNat base, RNat (pg_count p), RNat (pg_bytes p), RNat n]) (\<lambda>_.
                case st_stage st plan (replicate (pg_bytes p) 0) of
                  (None, _) \<Rightarrow> ret (Inl COMPROMISED_DATA, p)
                | (Some v, memory) \<Rightarrow>
                    ret (Inr \<lparr>kc_pages = p, kc_plan = plan, kc_verification = v,
                              kc_descriptors = n, kc_memory = memory\<rparr>, p))))"

definition kc_load :: "'w firmware \<Rightarrow> ('p, 'v) staging \<Rightarrow> (nat \<Rightarrow> bool) \<Rightarrow> nat \<Rightarrow> u8 list
    \<Rightarrow> ('w, ('p, 'v) loaded_kc) res" where
  "kc_load fw st reserve source_base source =
     (case st_plan st source of
        None \<Rightarrow> fail LOAD_ERROR
      | Some plan \<Rightarrow>
          bindE (pages_new fw reserve (st_arena st plan)) (\<lambda>p.
          bindS (kc_fill fw st source_base source plan p) (\<lambda>(r, p).
            case r of
              Inl e \<Rightarrow> with_drop (fail e) (pages_drop fw p)
            | Inr k \<Rightarrow> ok k)))"

definition physical_base :: "('p, 'v) loaded_kc \<Rightarrow> nat" where
  "physical_base k = the (pg_pointer (kc_pages k))"

definition kc_drop :: "'w firmware \<Rightarrow> ('p, 'v) loaded_kc \<Rightarrow> 'w sys \<Rightarrow> 'w sys" where
  "kc_drop fw k = pages_drop fw (kc_pages k)"

text \<open>Explicit release, followed by the destructor of the released owner.\<close>

definition kc_release :: "'w firmware \<Rightarrow> ('p, 'v) loaded_kc \<Rightarrow> ('w, unit) res" where
  "kc_release fw k =
     bindS (release_inner fw ''explicit'' (kc_pages k)) (\<lambda>(r, p).
       with_drop (ret r) (pages_drop fw p))"

definition probe_readback_failure :: "'w firmware \<Rightarrow> ('p, 'v) staging \<Rightarrow> ('p, 'v) loaded_kc \<Rightarrow> ('w, unit) res" where
  "probe_readback_failure fw st k =
     (let memory = (case kc_memory k of [] \<Rightarrow> [] | b # bs \<Rightarrow> (b XOR 0xff) # bs) in
      with_drop
        (if st_verify st (kc_plan k) memory \<noteq> ReadbackMismatch then fail DEVICE_ERROR
         else bindS (report fw ''NXKC: READBACK_REJECTION_OK'' []) (\<lambda>_. ok ()))
        (kc_drop fw k))"

subsection \<open>ARM pages\<close>

record arm_pages =
  ap_original :: nat
  ap_count :: nat
  ap_base :: nat
  ap_bytes :: nat
  ap_type :: memory_type
  ap_memory :: "u8 list"

definition arm_drop :: "'w firmware \<Rightarrow> arm_pages \<Rightarrow> 'w sys \<Rightarrow> 'w sys" where
  "arm_drop fw p s = snd (free_pages fw (ap_original p) (ap_count p) s)"

text \<open>Placement of the usable range in the allocation of \<open>n\<close> pages at \<open>start\<close>.\<close>

definition place :: "nat \<Rightarrow> nat \<Rightarrow> nat \<Rightarrow> nat option \<Rightarrow> status + nat" where
  "place start n bytes fixed =
     and_then (ok_or (checked_add start 16383) OUT_OF_RESOURCES) (\<lambda>up.
       let base = up div 16384 * 16384 in
     and_then (ok_or (checked_add start (n * 4096)) COMPROMISED_DATA) (\<lambda>allocation_end.
       if (case fixed of None \<Rightarrow> False | Some expected \<Rightarrow> expected \<noteq> base)
          \<or> (case checked_add base bytes of None \<Rightarrow> True | Some end \<Rightarrow> end > allocation_end)
       then Inl COMPROMISED_DATA else Inr base))"

definition allocate_kind :: "'w firmware \<Rightarrow> nat \<Rightarrow> nat option \<Rightarrow> memory_type \<Rightarrow> ('w, arm_pages) res" where
  "allocate_kind fw bytes fixed kind =
     (if bytes = 0 \<or> bytes mod 16384 \<noteq> 0 \<or> bytes > ISIZE_MAX
         \<or> (case fixed of None \<Rightarrow> False | Some base \<Rightarrow> base = 0 \<or> base mod 16384 \<noteq> 0)
      then fail INVALID_PARAMETER
      else bindE (lift (ok_or (checked_add (bytes div 4096) (if fixed \<noteq> None then 0 else 3))
             OUT_OF_RESOURCES)) (\<lambda>n.
        bindE (allocate_pages fw (case fixed of None \<Rightarrow> AnyPages | Some a \<Rightarrow> Address a) kind n) (\<lambda>start.
        let own = (\<lambda>base. \<lparr>ap_original = start, ap_count = n, ap_base = base, ap_bytes = bytes,
              ap_type = kind, ap_memory = replicate bytes 0\<rparr>);
            reject = (\<lambda>e. with_drop (fail e) (arm_drop fw (own start)))
        in case place start n bytes fixed of
             Inl e \<Rightarrow> reject e
           | Inr base \<Rightarrow>
               bindS (memory_map fw) (\<lambda>m.
                 case and_then m (\<lambda>(meta, ds). validate_map DESCRIPTOR_BYTES base bytes kind meta ds) of
                   Inl e \<Rightarrow> reject e
                 | Inr _ \<Rightarrow> ok (own base)))))"

definition allocate :: "'w firmware \<Rightarrow> nat \<Rightarrow> nat option \<Rightarrow> ('w, arm_pages) res" where
  "allocate fw bytes fixed = allocate_kind fw bytes fixed LOADER_CODE"

definition allocate_data :: "'w firmware \<Rightarrow> nat \<Rightarrow> ('w, arm_pages) res" where
  "allocate_data fw bytes = allocate_kind fw bytes None LOADER_DATA"

subsection \<open>Ownership\<close>

definition page_tokens :: "pages \<Rightarrow> (nat \<times> nat) multiset" where
  "page_tokens p = (case pg_pointer p of None \<Rightarrow> {#} | Some base \<Rightarrow> {#(base, pg_count p)#})"

definition kc_tokens :: "('p, 'v) loaded_kc \<Rightarrow> (nat \<times> nat) multiset" where
  "kc_tokens k = page_tokens (kc_pages k)"

definition arm_tokens :: "arm_pages \<Rightarrow> (nat \<times> nat) multiset" where
  "arm_tokens p = {#(ap_original p, ap_count p)#}"

lemma shifts_free_pages:
  "shifts page_acq page_rel (free_pages fw b n) {#(b, n)#} (\<lambda>_. {#})"
  unfolding shifts_def free_pages_def by (rule extends_call) simp

lemma shifts_allocate_pages:
  "shifts page_acq page_rel (allocate_pages fw at mt n) {#}
     (owned (\<lambda>p. {#(p, n)#}))"
  unfolding shifts_def allocate_pages_def
  by (rule extends_call) (auto simp: page_acq_def owned_def split: sum.split)

lemma neutral_refresh_map [neutral_intros]: "neutral page_acq page_rel (refresh_map fw b)"
  unfolding refresh_map_def by (intro neutral_intros)

lemma shifts_release_inner:
  "shifts page_acq page_rel (release_inner fw mode p) (page_tokens p) (\<lambda>(r, p). page_tokens p)"
proof (cases "pg_pointer p")
  case None
  then show ?thesis by (simp add: release_inner_def page_tokens_def shifts_ret)
next
  case (Some base)
  show ?thesis
    unfolding release_inner_def Some option.case
    by (rule shifts_bindS [of _ _ _ _ "\<lambda>_. {#}"], simp add: page_tokens_def Some shifts_free_pages)
      (auto intro!: shifts_bindS_neutral neutral_intros shifts_ret simp: page_tokens_def split: prod.split)
qed

lemma release_inner_takes: "pg_pointer (snd (fst (release_inner fw mode p s))) = None"
  by (auto simp: release_inner_def op_simps split: option.splits prod.splits)

lemma pages_drop_gives_up:
  assumes "page_tokens p = held"
  shows "gives_up page_acq page_rel (pages_drop fw p) held"
proof (rule gives_upI [OF shifts_release_inner [of fw "''drop''" p, unfolded assms]])
  show "pages_drop fw p s = snd (release_inner fw ''drop'' p s)" for s
    by (simp add: pages_drop_def)
  show "(case fst (release_inner fw ''drop'' p s) of (r, q) \<Rightarrow> page_tokens q) = {#}" for s
    using release_inner_takes [of fw "''drop''" p s] by (simp add: page_tokens_def case_prod_beta)
qed

lemma shifts_pages_new: "shifts page_acq page_rel (pages_new fw reserve bytes) {#} (owned page_tokens)"
proof -
  have new: "shifts page_acq page_rel (if bad then with_drop (fail COMPROMISED_DATA) (pages_drop fw p) else ok p)
      held (owned page_tokens)" if "page_tokens p = held" for bad p held
    using that by (auto intro!: shifts_ok shifts_drop_fail pages_drop_gives_up)
  show ?thesis
    unfolding pages_new_def Let_def
    by (auto intro!: shifts_fail shifts_bindE_neutral neutral_lift shifts_bindE [OF shifts_allocate_pages] new
        simp: page_tokens_def)
qed

lemma shifts_kc_fill:
  assumes "page_tokens p = held"
  shows "shifts page_acq page_rel (kc_fill fw st source_base source plan p) held
    (\<lambda>(r, q). case r of Inl _ \<Rightarrow> page_tokens q | Inr k \<Rightarrow> kc_tokens k)"
proof -
  have "page_tokens (p\<lparr>pg_map := b\<rparr>) = held" for b
    using assms by (cases "pg_pointer p") (simp_all add: page_tokens_def)
  with assms show ?thesis
    unfolding kc_fill_def Let_def
    by (auto simp: kc_tokens_def split: option.split sum.split prod.split
        intro!: shifts_ret shifts_bindS_neutral neutral_refresh_map page_neutral_report)
qed

lemma shifts_kc_load:
  "shifts page_acq page_rel (kc_load fw st reserve source_base source) {#} (owned kc_tokens)"
proof (cases "st_plan st source")
  case None
  then show ?thesis by (simp add: kc_load_def shifts_fail)
next
  case (Some plan)
  have rest: "shifts page_acq page_rel (case r of Inl e \<Rightarrow> with_drop (fail e) (pages_drop fw p) | Inr k \<Rightarrow> ok k)
      (case r of Inl _ \<Rightarrow> page_tokens p | Inr k \<Rightarrow> kc_tokens k) (owned kc_tokens)" for r p
    by (cases r) (auto intro!: shifts_ok shifts_drop_fail pages_drop_gives_up)
  show ?thesis
    unfolding kc_load_def Some option.case
    by (rule shifts_bindE [OF shifts_pages_new])
      (auto intro!: shifts_bindS [OF shifts_kc_fill [OF refl]] rest split: prod.split)
qed

lemma kc_drop_gives_up: "gives_up page_acq page_rel (kc_drop fw k) (kc_tokens k)"
  unfolding kc_drop_def kc_tokens_def by (rule pages_drop_gives_up) simp

lemma shifts_kc_release: "shifts page_acq page_rel (kc_release fw k) (kc_tokens k) (\<lambda>_. {#})"
  unfolding kc_release_def kc_tokens_def
  by (rule shifts_bindS [OF shifts_release_inner])
    (auto intro: shifts_drop_only pages_drop_gives_up split: prod.split)

lemma arm_drop_gives_up:
  "n = ap_count p \<Longrightarrow> b = ap_original p \<Longrightarrow> gives_up page_acq page_rel (arm_drop fw p) {#(b, n)#}"
  by (rule gives_upI [OF shifts_free_pages]) (simp_all add: arm_drop_def)

lemma shifts_allocate_kind:
  "shifts page_acq page_rel (allocate_kind fw bytes fixed kind) {#} (owned arm_tokens)"
  unfolding allocate_kind_def Let_def
  by (auto split: sum.split simp: arm_tokens_def intro!: shifts_fail shifts_ok shifts_drop_fail
      arm_drop_gives_up neutral_lift shifts_bindE_neutral shifts_bindE [OF shifts_allocate_pages]
      shifts_bindS_neutral page_neutral_map)

interpretation staging_pages: owner page_acq page_rel "pages_new fw reserve bytes" "pages_drop fw" page_tokens
  for fw reserve bytes
  by unfold_locales (simp_all add: shifts_pages_new pages_drop_gives_up)

interpretation loaded_collection: owner page_acq page_rel "kc_load fw st reserve source_base source"
  "kc_drop fw" kc_tokens for fw st reserve source_base source
  by unfold_locales (simp_all add: shifts_kc_load kc_drop_gives_up)

interpretation arm_memory: owner page_acq page_rel "allocate_kind fw bytes fixed kind" "arm_drop fw" arm_tokens
  for fw bytes fixed kind
  by unfold_locales (simp_all add: shifts_allocate_kind arm_drop_gives_up arm_tokens_def)

subsection \<open>What a successful allocation guarantees\<close>

lemma place_Inr:
  "place start n bytes fixed = Inr base \<longleftrightarrow>
     base = (start + 16383) div 16384 * 16384 \<and> start + 16383 < 2 ^ 64 \<and> start + n * 4096 < 2 ^ 64
     \<and> base + bytes \<le> start + n * 4096 \<and> fixed \<in> {None, Some base}"
  by (auto simp: place_def Let_def and_then_Inr checked_simps checked_add_def split: option.splits if_splits)

lemma round_up_16k:
  fixes start :: nat
  shows "start \<le> (start + 16383) div 16384 * 16384" "(start + 16383) div 16384 * 16384 \<le> start + 16383"
    "start mod 4096 = 0 \<Longrightarrow> (start + 16383) div 16384 * 16384 \<le> start + 12288"
proof -
  let ?x = "start + 16383"
  have split: "?x div 16384 * 16384 + ?x mod 16384 = ?x" by (rule div_mult_mod_eq)
  have "?x mod 16384 < 16384" by simp
  with split show "start \<le> ?x div 16384 * 16384" "?x div 16384 * 16384 \<le> ?x" by linarith+
  assume "start mod 4096 = 0"
  with mod_add_eq [of start 4096 16383] have "?x mod 4096 = 4095" by simp
  moreover have "?x mod 16384 mod 4096 = ?x mod 4096" by (rule mod_mod_cancel) simp
  ultimately have "?x mod 16384 mod 4096 = 4095" by simp
  then have "4095 \<le> ?x mod 16384" by (metis mod_less_eq_dividend)
  with split show "?x div 16384 * 16384 \<le> start + 12288" by linarith
qed

text \<open>An event in which the firmware's memory map confirmed the pages.\<close>

definition map_confirms :: "arm_pages \<Rightarrow> event \<Rightarrow> bool" where
  "map_confirms p e = (case e of
     EMemoryMap (Inr (meta, ds)) \<Rightarrow>
       validate_map DESCRIPTOR_BYTES (ap_base p) (ap_bytes p) (ap_type p) meta ds = Inr ()
   | _ \<Rightarrow> False)"

lemma allocate_kind_Inr:
  assumes "allocate_kind fw bytes fixed kind s = (Inr p, t)"
  shows "0 < bytes \<and> bytes mod 16384 = 0
    \<and> place (ap_original p) (ap_count p) bytes fixed = Inr (ap_base p)
    \<and> (\<exists>e \<in> set (trace t). map_confirms p e)
    \<and> ap_bytes p = bytes \<and> ap_type p = kind \<and> ap_memory p = replicate bytes 0
    \<and> ap_count p = bytes div 4096 + (if fixed = None then 3 else 0)"
  using assms
  by (auto simp: allocate_kind_def op_simps Let_def and_then_Inr allocate_pages_def memory_map_def
      call_def checked_simps map_confirms_def split: if_splits prod.splits sum.splits)

lemma map_confirms_tiled:
  "map_confirms p e \<Longrightarrow> \<exists>meta ds. e = EMemoryMap (Inr (meta, ds))
     \<and> tiled ds (ap_base p) (ap_base p + ap_bytes p) (ap_type p)"
  by (auto simp: map_confirms_def dest: validate_map_sound split: event.splits sum.splits)

lemma place_fits:
  assumes "start mod 4096 = 0" "bytes mod 4096 = 0" "start + (bytes div 4096 + 3) * 4096 < 2 ^ 64"
  shows "is_ok (place start (bytes div 4096 + 3) bytes None)"
proof -
  have b: "bytes div 4096 * 4096 = bytes" using assms(2) by auto
  with assms(3) have small: "start + bytes + 12288 < 2 ^ 64" by (simp add: algebra_simps)
  have aligned_room: "start + 16383 < 2 ^ 64"
  proof -
    from assms(1) obtain q where q: "start = 4096 * q" by auto
    with small have "4096 * q + 12288 < 4096 * 2 ^ 52" by simp
    then have "q + 3 < 2 ^ 52" by simp
    then have "4096 * (q + 4) \<le> 4096 * 2 ^ 52" by (intro mult_le_mono2) simp
    with q show ?thesis by simp
  qed
  have "(start + 16383) div 16384 * 16384 + bytes \<le> start + (bytes div 4096 + 3) * 4096"
    using round_up_16k(3) [OF assms(1)] b by (simp add: algebra_simps)
  with assms(3) aligned_room
  have "place start (bytes div 4096 + 3) bytes None = Inr ((start + 16383) div 16384 * 16384)"
    by (simp add: place_Inr)
  then show ?thesis by simp
qed

lemma pages_new_Inr:
  assumes "pages_new fw reserve bytes s = (Inr p, t)"
  obtains base where "pg_pointer p = Some base" "pg_bytes p = bytes" "base mod 4096 = 0"
    "base + bytes \<le> 2 ^ 32" "pg_count p = bytes div 4096" "0 < bytes" "bytes mod 4096 = 0"
  using assms
  by (auto simp: pages_new_def op_simps Let_def STAGING_PAGE_SIZE_def FOUR_GIB_def checked_simps
      split: if_splits prod.splits sum.splits option.splits)

lemma kc_fill_Inr:
  assumes "kc_fill fw st source_base source plan p s = ((Inr k, q), t)" "pg_pointer p = Some base"
  shows "kc_plan k = plan \<and> (\<exists>b. kc_pages k = p\<lparr>pg_map := b\<rparr>
      \<and> coverage (map_entries b) base (pg_bytes p) LOADER_DATA = Inr (kc_descriptors k))
    \<and> \<not> (base < source_base + length source \<and> source_base < base + pg_bytes p)
    \<and> source_base + length source < 2 ^ 64
    \<and> st_stage st plan (replicate (pg_bytes p) 0) = (Some (kc_verification k), kc_memory k)"
  using assms
  by (auto simp: kc_fill_def op_simps Let_def and_then_Inr and_then_Inl buffer_coverage_def checked_simps
      split: if_splits prod.splits sum.splits option.splits)

definition kc_sound :: "('p, 'v) staging \<Rightarrow> nat \<Rightarrow> u8 list \<Rightarrow> ('p, 'v) loaded_kc \<Rightarrow> bool" where
  "kc_sound st source_base source k \<longleftrightarrow>
     (let p = kc_pages k; base = physical_base k; end = base + pg_bytes p in
      pg_pointer p = Some base \<and> base mod 4096 = 0 \<and> end \<le> 2 ^ 32 \<and> pg_count p * 4096 = pg_bytes p
      \<and> (end \<le> source_base \<or> source_base + length source \<le> base)
      \<and> tiled (map_entries (pg_map p)) base end LOADER_DATA
      \<and> kc_descriptors k = meeting base end (map_entries (pg_map p))
      \<and> st_plan st source = Some (kc_plan k) \<and> pg_bytes p = st_arena st (kc_plan k)
      \<and> st_stage st (kc_plan k) (replicate (pg_bytes p) 0) = (Some (kc_verification k), kc_memory k))"

lemma kc_load_sound:
  assumes "kc_load fw st reserve source_base source s = (Inr k, t)"
  shows "kc_sound st source_base source k"
proof -
  from assms obtain plan p u q where plan: "st_plan st source = Some plan"
    and new: "pages_new fw reserve (st_arena st plan) s = (Inr p, u)"
    and fill: "kc_fill fw st source_base source plan p u = ((Inr k, q), t)"
    by (auto simp: kc_load_def op_simps split: option.splits prod.splits sum.splits)
  from new obtain base where b: "pg_pointer p = Some base" "pg_bytes p = st_arena st plan"
    "base mod 4096 = 0" "base + st_arena st plan \<le> 2 ^ 32" "pg_count p = st_arena st plan div 4096"
    "st_arena st plan mod 4096 = 0"
    by (rule pages_new_Inr)
  from kc_fill_Inr [OF fill b(1)] b plan show ?thesis
    by (auto simp: kc_sound_def Let_def physical_base_def coverage_iff not_less)
qed

lemma observation_error:
  assumes "refresh r b = (x, b')" "and_then x (\<lambda>_. coverage ds base bytes mt) = Inl e"
  shows "e \<noteq> SUCCESS"
  using assms by (auto simp: refresh_def Let_def and_then_Inl split: if_splits dest: coverage_error)

lemma release_inner_events:
  assumes "pg_pointer p = Some base"
  shows "extends (release_inner fw mode p) (\<lambda>(r, q) evs. \<exists>st rest.
    evs = EFreePages base (pg_count p) st # rest \<and> pg_pointer q = None
    \<and> (\<forall>e \<in> set rest. page_rel e = None \<and> page_acq e = None)
    \<and> (is_ok r \<longrightarrow> st = SUCCESS \<and> tiled (map_entries (pg_map q)) base (base + pg_bytes p) CONVENTIONAL))"
  unfolding extends_def
  by (auto simp: release_inner_def assms op_simps free_pages_def call_def refresh_map_def get_map_def
      report_def is_ok_def status_of_def buffer_coverage_def and_then_Inr coverage_iff
      dest: observation_error split: if_splits prod.splits sum.splits)

subsection \<open>Properties\<close>

text \<open>Property C5: loading a kernel collection and then releasing it, or running the readback probe
  on it, frees exactly the pages that were allocated, once, on every path: also when loading
  fails half way, when \<open>FreePages\<close> reports an error, and when the destructor runs after an
  explicit release.\<close>

theorem collection_pages_freed_exactly_once:
  "neutral page_acq page_rel (bindE (kc_load fw st reserve source_base source) (kc_release fw))
   \<and> neutral page_acq page_rel (bindE (kc_load fw st reserve source_base source) (probe_readback_failure fw st))"
proof
  show "neutral page_acq page_rel (bindE (kc_load fw st reserve source_base source) (kc_release fw))"
    unfolding neutral_def
    by (rule shifts_bindE [OF loaded_collection.create_acquires]) (simp_all add: shifts_kc_release)
  show "neutral page_acq page_rel (bindE (kc_load fw st reserve source_base source) (probe_readback_failure fw st))"
    unfolding probe_readback_failure_def Let_def
    by (rule loaded_collection.scoped_neutral) (auto intro!: neutral_intros)
qed

text \<open>Property C6: a loaded collection lies below 4 GiB, page aligned, disjoint from its source, in
  pages that the memory map tiles with loader data, and its memory is the staging plan's result
  on zeroed pages.\<close>

theorem loaded_collection_is_sound:
  "kc_load fw st reserve source_base source s = (Inr k, t) \<Longrightarrow> kc_sound st source_base source k"
  by (rule kc_load_sound)

definition example_map :: "memory_type \<Rightarrow> nat \<Rightarrow> nat \<Rightarrow> map_reply" where
  "example_map mt start n = \<lparr>reply_status = SUCCESS, reply_bytes = 40, reply_stride = 40, reply_version = 1,
     reply_content = le_bytes 4 (if mt = LOADER_DATA then 2 else 7) @ le_bytes 4 0 @ le_bytes 8 start @ le_bytes 8 0
       @ le_bytes 8 n @ le_bytes 8 0\<rparr>"

lemma example_map_entries:
  assumes "mt \<in> {LOADER_DATA, CONVENTIONAL}" "start < 2 ^ 64" "n < 2 ^ 64"
  shows "\<exists>b. refresh (example_map mt start n) c = (Inr (), b)
    \<and> map_entries b = [\<lparr>ty = mt, phys_start = start, page_count = n\<rparr>]"
proof -
  let ?c = "reply_content (example_map mt start n)"
  have "subrange 0 4 ?c = le_bytes 4 (if mt = LOADER_DATA then 2 else 7)"
    "subrange 8 16 ?c = le_bytes 8 start" "subrange 24 32 ?c = le_bytes 8 n"
    by (simp_all add: example_map_def subrange_def)
  with assms show ?thesis
    by (auto simp: refresh_def Let_def DESCRIPTOR_BYTES_def MAP_BYTES_def MAX_DESCRIPTORS_def
        map_entries_def map_entry_def memory_type_code_def le_nat_le_bytes example_map_def)
qed

definition example_staging :: "(nat, unit) staging" where
  "example_staging = \<lparr>st_plan = (\<lambda>src. Some (4096 * length src)), st_arena = (\<lambda>n. n),
     st_stage = (\<lambda>n m. (Some (), m)), st_verify = (\<lambda>n m. ReadbackMismatch)\<rparr>"

lemma one_descriptor_tiles:
  assumes "ds = [\<lparr>ty = mt, phys_start = base, page_count = n\<rparr>]" "base mod 4096 = 0" "0 < n"
    "base + n * 4096 < 2 ^ 64"
  shows "coverage ds base (n * 4096) mt = Inr 1"
  using assms
  by (auto simp: coverage_iff scannable_def tiled_def cover_count_def covers_def limit_of_def in_range_def
      meeting_def meets_def)

theorem loaded_collection_is_sound_witness:
  "\<exists>k t. kc_load (example_firmware\<lparr>fw_get_map := \<lambda>w. (example_map LOADER_DATA 0x100000 2, w)\<rparr>)
      example_staging (\<lambda>_. True) 0x900000 [1, 2] \<lparr>world = (), trace = []\<rparr> = (Inr k, t)
    \<and> kc_sound example_staging 0x900000 [1, 2] k"
proof -
  let ?s = "\<lparr>world = (), trace = []\<rparr>"
  let ?fw = "example_firmware\<lparr>fw_get_map := \<lambda>w. (example_map LOADER_DATA 0x100000 2, w)\<rparr>"
  obtain b where b: "refresh (example_map LOADER_DATA 0x100000 2)
      \<lparr>buf_words = replicate MAP_BYTES 0, buf_bytes = 0, buf_stride = 0\<rparr> = (Inr (), b)"
    "map_entries b = [\<lparr>ty = LOADER_DATA, phys_start = 0x100000, page_count = 2\<rparr>]"
    using example_map_entries [where mt = LOADER_DATA and start = "0x100000" and n = "2"] by fastforce
  have "coverage (map_entries b) 0x100000 8192 LOADER_DATA = Inr 1"
    using one_descriptor_tiles [OF b(2)] by simp
  with b(1) have "\<exists>k t. kc_load ?fw example_staging (\<lambda>_. True) 0x900000 [1, 2] ?s = (Inr k, t)"
    by (simp add: kc_load_def pages_new_def kc_fill_def example_firmware_def example_staging_def op_simps
        new_map_buffer_def Let_def STAGING_PAGE_SIZE_def ISIZE_MAX_def FOUR_GIB_def allocate_pages_def
        call_def checked_add_def refresh_map_def get_map_def report_def buffer_coverage_def)
  then show ?thesis using loaded_collection_is_sound by blast
qed

text \<open>Releasing the pages calls \<open>FreePages\<close> exactly once, before it looks at the memory map,
  and reports success only when the call succeeded and the map then describes the whole range
  as conventional memory.\<close>

theorem release_reports_the_outcome:
  "pg_pointer p = Some base \<Longrightarrow> extends (release_inner fw mode p) (\<lambda>(r, q) evs. \<exists>st rest.
    evs = EFreePages base (pg_count p) st # rest \<and> pg_pointer q = None
    \<and> (\<forall>e \<in> set rest. page_rel e = None \<and> page_acq e = None)
    \<and> (is_ok r \<longrightarrow> st = SUCCESS \<and> tiled (map_entries (pg_map q)) base (base + pg_bytes p) CONVENTIONAL))"
  by (rule release_inner_events)

theorem release_reports_the_outcome_witness:
  "extends (release_inner example_firmware ''drop'' \<lparr>pg_pointer = Some 0x100000, pg_count = 2,
     pg_bytes = 8192, pg_map = \<lparr>buf_words = [], buf_bytes = 0, buf_stride = 0\<rparr>\<rparr>)
     (\<lambda>(r, q) evs. \<exists>st rest. evs = EFreePages 0x100000 2 st # rest \<and> pg_pointer q = None)"
  by (rule extends_mono, rule release_reports_the_outcome [where base = "0x100000"]) auto

text \<open>Property C7: pages handed out by \<open>ArmPages\<close> have a 16 KiB aligned, zeroed range inside the
  allocation, at the requested address if one was given, and the memory map that was read
  tiles the range with the owner's memory type.\<close>

theorem arm_pages_are_usable:
  assumes "allocate_kind fw bytes fixed kind s = (Inr p, t)"
  shows "ap_base p mod 16384 = 0 \<and> ap_original p \<le> ap_base p
    \<and> ap_base p + bytes \<le> ap_original p + ap_count p * 4096 \<and> ap_original p + ap_count p * 4096 < 2 ^ 64
    \<and> fixed \<in> {None, Some (ap_base p)} \<and> ap_memory p = replicate bytes 0
    \<and> (\<exists>meta ds. EMemoryMap (Inr (meta, ds)) \<in> set (trace t)
        \<and> tiled ds (ap_base p) (ap_base p + bytes) kind)"
proof -
  note facts = allocate_kind_Inr [OF assms]
  then obtain e where e: "e \<in> set (trace t)" "map_confirms p e" by blast
  from map_confirms_tiled [OF e(2)] e(1) facts have
    "\<exists>meta ds. EMemoryMap (Inr (meta, ds)) \<in> set (trace t) \<and> tiled ds (ap_base p) (ap_base p + bytes) kind"
    by auto
  moreover from facts have "ap_original p \<le> ap_base p" "ap_base p mod 16384 = 0"
    using round_up_16k(1) [of "ap_original p"] by (auto simp: place_Inr)
  ultimately show ?thesis using facts by (metis place_Inr)
qed

theorem arm_pages_are_usable_witness:
  "\<exists>p t. allocate_kind (example_firmware\<lparr>fw_memory_map := \<lambda>w. (Inr (\<lparr>desc_version = 1, desc_size = 40,
      map_size = 40\<rparr>, [\<lparr>ty = LOADER_CODE, phys_start = 0x100000, page_count = 7\<rparr>]), w)\<rparr>)
      16384 None LOADER_CODE \<lparr>world = (), trace = []\<rparr> = (Inr p, t) \<and> ap_base p mod 16384 = 0"
proof -
  let ?m = "\<lparr>desc_version = 1, desc_size = 40, map_size = 40\<rparr>"
  let ?ds = "[\<lparr>ty = LOADER_CODE, phys_start = 0x100000, page_count = 7\<rparr>]"
  let ?s = "\<lparr>world = (), trace = []\<rparr>"
  let ?fw = "example_firmware\<lparr>fw_memory_map := \<lambda>w. (Inr (?m, ?ds), w)\<rparr>"
  have "tiled ?ds 0x100000 (0x100000 + 16384) LOADER_CODE"
    by (auto simp: tiled_def cover_count_def covers_def limit_of_def)
  then have "validate_map DESCRIPTOR_BYTES 0x100000 16384 LOADER_CODE ?m ?ds = Inr ()"
    by (intro validate_map_complete)
      (auto simp: meta_ok_def DESCRIPTOR_BYTES_def in_range_def limit_of_def meeting_def)
  then have "\<exists>p t. allocate_kind ?fw 16384 None LOADER_CODE ?s = (Inr p, t)"
    by (simp add: allocate_kind_def op_simps ISIZE_MAX_def example_firmware_def allocate_pages_def call_def
        checked_add_def place_def Let_def memory_map_def)
  then show ?thesis using arm_pages_are_usable by blast
qed

text \<open>Allocating ARM pages either owns exactly one allocation or gives back what it took,
  and dropping the owner frees exactly the original allocation, not the aligned range.\<close>

theorem arm_pages_owned_exactly:
  "shifts page_acq page_rel (allocate_kind fw bytes fixed kind) {#} (owned arm_tokens)
   \<and> gives_up page_acq page_rel (arm_drop fw p) {#(ap_original p, ap_count p)#}"
  using arm_memory.create_acquires arm_memory.destroy_releases [of fw p] by (simp add: arm_tokens_def)

end
