(* ===== verification/Loaded_Kernel.thy ===== *)
theory Loaded_Kernel
  imports Page_Owner
begin

text \<open>
  Placing a Mach-O image at a fixed physical address: \<open>LoadedKernel\<close> of
  src/src/loaded\_kernel.rs. The image parser, its size limit and its page size belong to the
  core library and are the parameter \<open>mc\<close>; \<open>ram a b\<close> is what a volatile read of address \<open>a\<close>
  returns after \<open>b\<close> was written there, so that the readback check is a real check. A slice out of range is \<open>Panic\<close>.
\<close>

definition MAX_EXTRA_PAGES :: nat where "MAX_EXTRA_PAGES = 256"

record segment =
  file_offset :: nat
  file_size :: nat
  memory_offset :: nat
  memory_size :: nat

record image_plan =
  image_size :: nat
  entry_offset :: nat
  segments :: "segment list"

record macho =
  mc_page_size :: nat
  mc_max_image :: nat
  mc_parse :: "u8 list \<Rightarrow> image_plan option"

record loaded_kernel =
  lk_allocation :: nat
  lk_pages :: nat
  lk_image_size :: nat
  lk_arena_size :: nat
  lk_entry_offset :: nat
  lk_memory :: "u8 list"

subsection \<open>Readback of a slice\<close>

text \<open>
  \<open>verify_memory\<close> compares a slice with the expected bytes, or with zeros: single bytes up to an
  eight byte boundary, then 64-bit words, then the remaining bytes. \<open>addr\<close> is the address of
  the slice.
\<close>

definition expect_byte :: "u8 list option \<Rightarrow> nat \<Rightarrow> u8" where
  "expect_byte e off = (case e of None \<Rightarrow> 0 | Some bs \<Rightarrow> bs ! off)"

definition expect_word :: "u8 list option \<Rightarrow> nat \<Rightarrow> nat" where
  "expect_word e off = (case e of None \<Rightarrow> 0 | Some bs \<Rightarrow> le_nat (subrange off (off + 8) bs))"

fun verify_bytes :: "u8 list \<Rightarrow> u8 list option \<Rightarrow> nat \<Rightarrow> bool" where
  "verify_bytes [] e off = True"
| "verify_bytes (b # bs) e off = (if b \<noteq> expect_byte e off then False else verify_bytes bs e (off + 1))"

fun verify_words :: "nat list \<Rightarrow> u8 list option \<Rightarrow> nat \<Rightarrow> bool" where
  "verify_words [] e off = True"
| "verify_words (x # xs) e off = (if x \<noteq> expect_word e off then False else verify_words xs e (off + 8))"

definition align_split :: "nat \<Rightarrow> nat \<Rightarrow> nat \<times> nat" where
  "align_split addr len = (let p = min len ((8 - addr mod 8) mod 8) in (p, (len - p) div 8))"

definition words_at :: "nat \<Rightarrow> nat \<Rightarrow> u8 list \<Rightarrow> nat list" where
  "words_at p w bs = map (\<lambda>i. le_nat (subrange (p + 8 * i) (p + 8 * i + 8) bs)) [0..<w]"

definition verify_memory :: "nat \<Rightarrow> u8 list \<Rightarrow> u8 list option \<Rightarrow> bool" where
  "verify_memory addr actual expected =
     (if (case expected of None \<Rightarrow> False | Some bs \<Rightarrow> length bs \<noteq> length actual) then False
      else let (p, w) = align_split addr (length actual) in
        verify_bytes (take p actual) expected 0
        \<and> verify_words (words_at p w actual) expected p
        \<and> verify_bytes (drop (p + 8 * w) actual) expected (p + 8 * w))"

subsection \<open>Copying and checking the segments\<close>

fun copy_segments :: "u8 list \<Rightarrow> segment list \<Rightarrow> u8 list \<Rightarrow> status fault + u8 list" where
  "copy_segments source [] memory = Inr memory"
| "copy_segments source (s # ss) memory =
     (let start = memory_offset s; file_end = file_offset s + file_size s in
      if start + file_size s \<le> length memory \<and> file_end \<le> length source
      then copy_segments source ss (overwrite start (subrange (file_offset s) file_end source) memory)
      else Inl Panic)"

definition check_range :: "nat \<Rightarrow> u8 list \<Rightarrow> nat \<Rightarrow> nat \<Rightarrow> u8 list option \<Rightarrow> status fault + unit" where
  "check_range base memory a b expected =
     (if a \<le> b \<and> b \<le> length memory
      then if verify_memory (base + a) (subrange a b memory) expected then Inr () else Inl (Fail DEVICE_ERROR)
      else Inl Panic)"

fun verify_segments :: "nat \<Rightarrow> u8 list \<Rightarrow> u8 list \<Rightarrow> segment list \<Rightarrow> nat \<Rightarrow> status fault + unit" where
  "verify_segments base source memory [] previous_end =
     check_range base memory previous_end (length memory) None"
| "verify_segments base source memory (s # ss) previous_end =
     (let start = memory_offset s; copied_end = start + file_size s;
          memory_end = start + memory_size s; file_end = file_offset s + file_size s in
      and_then (check_range base memory previous_end start None) (\<lambda>_.
      and_then (if file_end \<le> length source
                then check_range base memory start copied_end (Some (subrange (file_offset s) file_end source))
                else Inl Panic) (\<lambda>_.
      and_then (check_range base memory copied_end memory_end None) (\<lambda>_.
        verify_segments base source memory ss memory_end))))"

subsection \<open>Loading\<close>

text \<open>The checks before the allocation; the result is the arena size and the total size.\<close>

definition load_guard :: "macho \<Rightarrow> image_plan \<Rightarrow> u8 list \<Rightarrow> nat \<Rightarrow> nat \<Rightarrow> nat \<Rightarrow> status + nat \<times> nat" where
  "load_guard mc plan source source_start phys_base extra_pages =
     (if phys_base = 0 \<or> phys_base mod mc_page_size mc \<noteq> 0 \<or> image_size plan = 0
         \<or> image_size plan > mc_max_image mc \<or> image_size plan mod mc_page_size mc \<noteq> 0
         \<or> extra_pages > MAX_EXTRA_PAGES
      then Inl INVALID_PARAMETER
      else and_then (ok_or (checked_mul extra_pages (mc_page_size mc)) INVALID_PARAMETER) (\<lambda>arena.
        and_then (ok_or (checked_add (image_size plan) arena) INVALID_PARAMETER) (\<lambda>tot.
        and_then (ok_or (checked_add phys_base tot) INVALID_PARAMETER) (\<lambda>physical_end.
        if physical_end > FOUR_GIB \<or> tot > ISIZE_MAX then Inl INVALID_PARAMETER
        else if entry_offset plan \<ge> image_size plan then Inl INVALID_PARAMETER
        else case mc_parse mc source of
          None \<Rightarrow> Inl INVALID_PARAMETER
        | Some validated \<Rightarrow>
            if validated \<noteq> plan then Inl INVALID_PARAMETER
            else and_then (ok_or (checked_add source_start (length source)) INVALID_PARAMETER) (\<lambda>source_end.
              if phys_base < source_end \<and> source_start < physical_end then Inl INVALID_PARAMETER
              else Inr (arena, tot))))))"

definition kernel_drop :: "'w firmware \<Rightarrow> loaded_kernel \<Rightarrow> 'w sys \<Rightarrow> 'w sys" where
  "kernel_drop fw k s = snd (free_pages fw (lk_allocation k) (lk_pages k) s)"

text \<open>Filling the zeroed allocation, and reading it back.\<close>

definition readback :: "(nat \<Rightarrow> u8 \<Rightarrow> u8) \<Rightarrow> nat \<Rightarrow> u8 list \<Rightarrow> u8 list" where
  "readback ram base memory = map (\<lambda>i. ram (base + i) (memory ! i)) [0..<length memory]"

definition fill_image :: "(nat \<Rightarrow> u8 \<Rightarrow> u8) \<Rightarrow> image_plan \<Rightarrow> u8 list \<Rightarrow> nat \<Rightarrow> nat \<Rightarrow> status fault + u8 list" where
  "fill_image ram plan source base tot =
     and_then (copy_segments source (segments plan) (replicate tot 0)) (\<lambda>memory.
     let memory = readback ram base memory in
     and_then (verify_segments base source memory (segments plan) 0) (\<lambda>_. Inr memory))"

definition load_at :: "'w firmware \<Rightarrow> macho \<Rightarrow> (nat \<Rightarrow> u8 \<Rightarrow> u8) \<Rightarrow> image_plan \<Rightarrow> u8 list \<Rightarrow> nat
    \<Rightarrow> nat \<Rightarrow> nat \<Rightarrow> ('w, status fault + loaded_kernel) op" where
  "load_at fw mc ram plan source source_start phys_base extra_pages =
     bindE (lift (map_err Fail (load_guard mc plan source source_start phys_base extra_pages))) (\<lambda>(arena, tot).
     bindS (allocate_pages fw (Address phys_base) LOADER_CODE (tot div mc_page_size mc)) (\<lambda>r.
     case r of
       Inl e \<Rightarrow> fail (Fail e)
     | Inr allocation \<Rightarrow>
         let k = \<lparr>lk_allocation = allocation, lk_pages = tot div mc_page_size mc, lk_image_size = image_size plan,
                  lk_arena_size = arena, lk_entry_offset = entry_offset plan, lk_memory = []\<rparr> in
         if allocation \<noteq> phys_base then with_drop (fail (Fail DEVICE_ERROR)) (kernel_drop fw k)
         else case fill_image ram plan source allocation tot of
             Inl Panic \<Rightarrow> fail Panic
           | Inl (Fail e) \<Rightarrow> with_drop (fail (Fail e)) (kernel_drop fw k)
           | Inr memory \<Rightarrow> ok (k\<lparr>lk_memory := memory\<rparr>)))"

definition physical_entry :: "loaded_kernel \<Rightarrow> nat" where
  "physical_entry k = wrapping_add (lk_allocation k) (lk_entry_offset k)"

definition arena_bytes :: "loaded_kernel \<Rightarrow> status fault + u8 list" where
  "arena_bytes k = (if lk_image_size k \<le> length (lk_memory k)
     then Inr (drop (lk_image_size k) (lk_memory k)) else Inl Panic)"

subsection \<open>The readback check is byte equality\<close>

definition expected_bytes :: "nat \<Rightarrow> u8 list option \<Rightarrow> u8 list" where
  "expected_bytes n e = (case e of None \<Rightarrow> replicate n 0 | Some bs \<Rightarrow> bs)"

lemma le_nat_inject: "length xs = length ys \<Longrightarrow> le_nat xs = le_nat ys \<Longrightarrow> xs = ys"
  by (metis le_bytes_le_nat)

lemma subrange_replicate: "b \<le> n \<Longrightarrow> subrange a b (replicate n x) = replicate (b - a) x"
  by (simp add: subrange_def)

lemma expect_byte_nth: "off < n \<Longrightarrow> expect_byte e off = expected_bytes n e ! off"
  by (simp add: expect_byte_def expected_bytes_def split: option.split)

lemma expect_word_nat:
  "off + 8 \<le> n \<Longrightarrow> expect_word e off = le_nat (subrange off (off + 8) (expected_bytes n e))"
  by (simp add: expect_word_def expected_bytes_def subrange_replicate split: option.split)

lemma verify_bytes_iff:
  "off + length bs \<le> n \<Longrightarrow>
   verify_bytes bs e off \<longleftrightarrow> (\<forall>i < length bs. bs ! i = expected_bytes n e ! (off + i))"
proof (induction bs arbitrary: off)
  case Nil
  then show ?case by simp
next
  case (Cons b bs)
  with expect_byte_nth [of off n e] show ?case by (simp add: All_less_Suc2)
qed

lemma verify_words_iff:
  "off + 8 * length xs \<le> n \<Longrightarrow> verify_words xs e off \<longleftrightarrow>
   (\<forall>i < length xs. xs ! i = le_nat (subrange (off + 8 * i) (off + 8 * i + 8) (expected_bytes n e)))"
proof (induction xs arbitrary: off)
  case Nil
  then show ?case by simp
next
  case (Cons x xs)
  have "off + 8 + 8 * length xs \<le> n" using Cons.prems by simp
  note IH = Cons.IH [OF this]
  show ?case using Cons.prems expect_word_nat [of off n e]
    by (simp add: IH All_less_Suc2 algebra_simps)
qed

lemma equal_by_pieces:
  fixes xs ys :: "'a list"
  assumes "length xs = length ys" "p + 8 * w \<le> length xs"
    "\<forall>i < p. xs ! i = ys ! i"
    "\<forall>j < w. subrange (p + 8 * j) (p + 8 * j + 8) xs = subrange (p + 8 * j) (p + 8 * j + 8) ys"
    "\<forall>i. p + 8 * w \<le> i \<and> i < length xs \<longrightarrow> xs ! i = ys ! i"
  shows "xs = ys"
proof (rule nth_equalityI [OF assms(1)])
  fix i
  assume i: "i < length xs"
  consider "i < p" | "p \<le> i" "i < p + 8 * w" | "p + 8 * w \<le> i" by linarith
  then show "xs ! i = ys ! i"
  proof cases
    case 2
    define j where "j = (i - p) div 8"
    define k where "k = (i - p) mod 8"
    have jk: "i = p + 8 * j + k" "k < 8" using 2 by (simp_all add: j_def k_def)
    with 2 have j: "j < w" by linarith
    then have "p + 8 * j + 8 \<le> length xs" using assms(2) by linarith
    then have sub: "subrange (p + 8 * j) (p + 8 * j + 8) zs ! k = zs ! i"
      if "length zs = length xs" for zs :: "'a list"
      using jk that by (simp add: nth_subrange)
    have "xs ! i = subrange (p + 8 * j) (p + 8 * j + 8) xs ! k" using sub [of xs] by simp
    also have "\<dots> = subrange (p + 8 * j) (p + 8 * j + 8) ys ! k" using assms(4) j by simp
    also have "\<dots> = ys ! i" using sub [of ys] assms(1) by simp
    finally show ?thesis .
  qed (use assms i in auto)
qed

lemma align_split_fits: "align_split addr len = (p, w) \<Longrightarrow> p + 8 * w \<le> len"
proof -
  assume "align_split addr len = (p, w)"
  then have "p \<le> len" "w = (len - p) div 8" by (auto simp: align_split_def Let_def)
  moreover have "8 * ((len - p) div 8) \<le> len - p" by (rule times_div_less_eq_dividend)
  ultimately show ?thesis by simp
qed

lemma verify_memory_iff:
  "verify_memory addr actual expected \<longleftrightarrow>
     actual = (case expected of None \<Rightarrow> replicate (length actual) 0 | Some bs \<Rightarrow> bs)"
proof -
  let ?n = "length actual"
  let ?e = "expected_bytes ?n expected"
  obtain p w where pw: "align_split addr ?n = (p, w)" by fastforce
  note fits = align_split_fits [OF pw]
  show ?thesis
  proof (cases "length ?e = ?n")
    case False
    then show ?thesis
      by (auto simp: verify_memory_def expected_bytes_def split: option.splits)
  next
    case len: True
    have b1: "verify_bytes (take p actual) expected 0 \<longleftrightarrow> (\<forall>i < p. actual ! i = ?e ! i)"
      using fits by (subst verify_bytes_iff [of _ _ ?n]) auto
    have b2: "verify_bytes (drop (p + 8 * w) actual) expected (p + 8 * w) \<longleftrightarrow>
        (\<forall>i. p + 8 * w \<le> i \<and> i < ?n \<longrightarrow> actual ! i = ?e ! i)"
      using fits by (subst verify_bytes_iff [of _ _ ?n]) (auto simp: nat_le_iff_add)
    have word: "le_nat (subrange a (a + 8) actual) = le_nat (subrange a (a + 8) ?e) \<longleftrightarrow>
        subrange a (a + 8) actual = subrange a (a + 8) ?e" if "a + 8 \<le> ?n" for a
      using that len by (auto intro!: le_nat_inject simp: length_subrange)
    have "p + 8 * i + 8 \<le> ?n" if "i < w" for i using that fits by linarith
    with word have b3: "verify_words (words_at p w actual) expected p \<longleftrightarrow>
        (\<forall>i < w. subrange (p + 8 * i) (p + 8 * i + 8) actual = subrange (p + 8 * i) (p + 8 * i + 8) ?e)"
      using fits by (subst verify_words_iff [of _ _ ?n]) (auto simp: words_at_def)
    have "verify_memory addr actual expected \<longleftrightarrow>
        verify_bytes (take p actual) expected 0 \<and> verify_words (words_at p w actual) expected p
        \<and> verify_bytes (drop (p + 8 * w) actual) expected (p + 8 * w)"
      using len pw by (cases expected) (simp_all add: verify_memory_def expected_bytes_def)
    also have "\<dots> \<longleftrightarrow> actual = ?e"
    proof
      assume "verify_bytes (take p actual) expected 0 \<and> verify_words (words_at p w actual) expected p
        \<and> verify_bytes (drop (p + 8 * w) actual) expected (p + 8 * w)"
      then show "actual = ?e"
        unfolding b1 b2 b3 by (intro equal_by_pieces [OF len [symmetric] fits]) blast+
    next
      assume "actual = ?e"
      then have "actual ! i = ?e ! i" "subrange a b actual = subrange a b ?e" for i a b by simp_all
      then show "verify_bytes (take p actual) expected 0 \<and> verify_words (words_at p w actual) expected p
        \<and> verify_bytes (drop (p + 8 * w) actual) expected (p + 8 * w)"
        unfolding b1 b2 b3 by blast
    qed
    finally have "verify_memory addr actual expected \<longleftrightarrow> actual = ?e" .
    then show ?thesis by (simp add: expected_bytes_def)
  qed
qed

subsection \<open>The abstract image\<close>

definition in_file :: "nat \<Rightarrow> segment \<Rightarrow> bool" where
  "in_file i s \<longleftrightarrow> memory_offset s \<le> i \<and> i < memory_offset s + file_size s"

definition image_byte :: "u8 list \<Rightarrow> segment list \<Rightarrow> nat \<Rightarrow> u8" where
  "image_byte source ss i =
     (case find (in_file i) ss of None \<Rightarrow> 0 | Some s \<Rightarrow> source ! (file_offset s + (i - memory_offset s)))"

text \<open>Segments in ascending order, without overlap, inside the image and the source.\<close>

fun segs_ok :: "u8 list \<Rightarrow> nat \<Rightarrow> nat \<Rightarrow> segment list \<Rightarrow> bool" where
  "segs_ok source n previous_end [] \<longleftrightarrow> previous_end \<le> n"
| "segs_ok source n previous_end (s # ss) \<longleftrightarrow>
     previous_end \<le> memory_offset s \<and> file_size s \<le> memory_size s
     \<and> memory_offset s + memory_size s \<le> n \<and> file_offset s + file_size s \<le> length source
     \<and> segs_ok source n (memory_offset s + memory_size s) ss"

lemma segs_ok_later: "segs_ok source n prev ss \<Longrightarrow> i < prev \<Longrightarrow> find (in_file i) ss = None"
proof (induction ss arbitrary: prev)
  case Nil
  then show ?case by simp
next
  case (Cons s ss)
  have "i < memory_offset s + memory_size s" using Cons.prems by simp
  with Cons show ?case by (auto simp: in_file_def)
qed

lemma image_byte_before: "segs_ok source n prev ss \<Longrightarrow> i < prev \<Longrightarrow> image_byte source ss i = 0"
  by (simp add: image_byte_def segs_ok_later)

lemma image_byte_Cons:
  "image_byte source (s # ss) i =
     (if in_file i s then source ! (file_offset s + (i - memory_offset s)) else image_byte source ss i)"
  by (simp add: image_byte_def)

lemma list_zero_iff: "xs = replicate (length xs) 0 \<longleftrightarrow> (\<forall>i < length xs. xs ! i = 0)" for xs :: "u8 list"
  by (auto simp: list_eq_iff_nth_eq)

lemma all_between: "a \<le> b \<Longrightarrow> (\<forall>i < b - a. P (a + i)) \<longleftrightarrow> (\<forall>i. a \<le> i \<and> i < b \<longrightarrow> P i)" for a b :: nat
proof
  assume le: "a \<le> b" and all: "\<forall>i < b - a. P (a + i)"
  show "\<forall>i. a \<le> i \<and> i < b \<longrightarrow> P i"
  proof (intro allI impI)
    fix i assume "a \<le> i \<and> i < b"
    then show "P i" using all [rule_format, of "i - a"] by (simp add: diff_less_mono)
  qed
qed auto

lemma check_range_zero:
  "check_range base memory a b None = Inr () \<longleftrightarrow>
     a \<le> b \<and> b \<le> length memory \<and> (\<forall>i. a \<le> i \<and> i < b \<longrightarrow> memory ! i = 0)"
proof (cases "a \<le> b \<and> b \<le> length memory")
  case True
  then have "subrange a b memory = replicate (b - a) 0 \<longleftrightarrow> (\<forall>i < b - a. memory ! (a + i) = 0)"
    using list_zero_iff [of "subrange a b memory"] by (simp add: length_subrange nth_subrange)
  with True show ?thesis
    by (simp add: check_range_def verify_memory_iff length_subrange
        all_between [where P = "\<lambda>i. memory ! i = 0", symmetric])
qed (auto simp: check_range_def)

lemma check_range_copy:
  assumes "file_offset s + file_size s \<le> length source"
  shows "check_range base memory (memory_offset s) (memory_offset s + file_size s)
      (Some (subrange (file_offset s) (file_offset s + file_size s) source)) = Inr () \<longleftrightarrow>
    memory_offset s + file_size s \<le> length memory
    \<and> (\<forall>i. in_file i s \<longrightarrow> memory ! i = source ! (file_offset s + (i - memory_offset s)))"
proof (cases "memory_offset s + file_size s \<le> length memory")
  case True
  let ?a = "memory_offset s"
  have "subrange ?a (?a + file_size s) memory = subrange (file_offset s) (file_offset s + file_size s) source
      \<longleftrightarrow> (\<forall>i < file_size s. memory ! (?a + i) = source ! (file_offset s + i))"
    using True assms by (auto simp: list_eq_iff_nth_eq length_subrange nth_subrange)
  also have "\<dots> \<longleftrightarrow> (\<forall>i. in_file i s \<longrightarrow> memory ! i = source ! (file_offset s + (i - ?a)))"
    using all_between [of ?a "?a + file_size s" "\<lambda>i. memory ! i = source ! (file_offset s + (i - ?a))"]
    by (simp add: in_file_def)
  finally show ?thesis using True by (simp add: check_range_def verify_memory_iff)
qed (auto simp: check_range_def)

lemma verify_segments_iff:
  "verify_segments base source memory ss prev = Inr () \<longleftrightarrow>
     segs_ok source (length memory) prev ss
     \<and> (\<forall>i. prev \<le> i \<and> i < length memory \<longrightarrow> memory ! i = image_byte source ss i)"
proof (induction ss arbitrary: prev)
  case Nil
  then show ?case by (simp add: check_range_zero image_byte_def)
next
  case (Cons s ss)
  let ?start = "memory_offset s" and ?stop = "memory_offset s + memory_size s"
  have step: "verify_segments base source memory (s # ss) prev = Inr () \<longleftrightarrow>
      prev \<le> ?start \<and> (\<forall>i. prev \<le> i \<and> i < ?start \<longrightarrow> memory ! i = 0)
      \<and> file_offset s + file_size s \<le> length source
      \<and> (\<forall>i. in_file i s \<longrightarrow> memory ! i = source ! (file_offset s + (i - ?start)))
      \<and> file_size s \<le> memory_size s \<and> ?stop \<le> length memory
      \<and> (\<forall>i. ?start + file_size s \<le> i \<and> i < ?stop \<longrightarrow> memory ! i = 0)
      \<and> segs_ok source (length memory) ?stop ss
      \<and> (\<forall>i. ?stop \<le> i \<and> i < length memory \<longrightarrow> memory ! i = image_byte source ss i)"
    by (auto simp: Let_def and_then_Inr check_range_zero check_range_copy Cons.IH split: if_splits)
  have join: "(\<forall>i. prev \<le> i \<and> i < length memory \<longrightarrow> memory ! i = image_byte source (s # ss) i) \<longleftrightarrow>
      (\<forall>i. prev \<le> i \<and> i < ?start \<longrightarrow> memory ! i = 0)
      \<and> (\<forall>i. in_file i s \<longrightarrow> memory ! i = source ! (file_offset s + (i - ?start)))
      \<and> (\<forall>i. ?start + file_size s \<le> i \<and> i < ?stop \<longrightarrow> memory ! i = 0)
      \<and> (\<forall>i. ?stop \<le> i \<and> i < length memory \<longrightarrow> memory ! i = image_byte source ss i)" (is "?l \<longleftrightarrow> ?r")
    if ok: "prev \<le> ?start" "file_size s \<le> memory_size s" "?stop \<le> length memory"
      "segs_ok source (length memory) ?stop ss"
  proof -
    have eq: "image_byte source (s # ss) i =
        (if i < ?start then 0 else if in_file i s then source ! (file_offset s + (i - ?start))
         else if i < ?stop then 0 else image_byte source ss i)" for i
      using image_byte_before [OF ok(4), of i] ok(2) by (auto simp: image_byte_Cons in_file_def)
    show ?thesis
    proof
      assume l: ?l
      show ?r
        by (intro conjI allI impI) (use l ok eq in \<open>auto simp: in_file_def\<close>)
    next
      assume ?r
      then show ?l unfolding eq using ok by (auto simp: in_file_def)
    qed
  qed
  show ?case unfolding step using join by auto
qed

subsection \<open>Copying produces the abstract image\<close>

lemma copy_segments_length: "copy_segments source ss memory = Inr m \<Longrightarrow> length m = length memory"
  by (induction ss arbitrary: memory) (auto simp: Let_def length_subrange split: if_splits)

lemma copy_segments_image:
  "segs_ok source (length memory) prev ss \<Longrightarrow>
   \<exists>m. copy_segments source ss memory = Inr m \<and> length m = length memory
     \<and> (\<forall>i < length memory. m ! i = (if find (in_file i) ss = None then memory ! i else image_byte source ss i))"
proof (induction ss arbitrary: memory prev)
  case Nil
  then show ?case by simp
next
  case (Cons s ss)
  let ?m1 = "overwrite (memory_offset s) (subrange (file_offset s) (file_offset s + file_size s) source) memory"
  from Cons.prems have len: "length (subrange (file_offset s) (file_offset s + file_size s) source) = file_size s"
    and fit: "memory_offset s + file_size s \<le> length memory" and l1: "length ?m1 = length memory"
    and ok: "segs_ok source (length ?m1) (memory_offset s + memory_size s) ss"
    by (simp_all add: length_subrange)
  from Cons.IH [OF ok] obtain m where m: "copy_segments source ss ?m1 = Inr m" "length m = length memory"
    "\<forall>i < length memory. m ! i = (if find (in_file i) ss = None then ?m1 ! i else image_byte source ss i)"
    using l1 by auto
  have "m ! i = (if find (in_file i) (s # ss) = None then memory ! i else image_byte source (s # ss) i)"
    if i: "i < length memory" for i
  proof (cases "in_file i s")
    case True
    with Cons.prems have "i < memory_offset s + memory_size s" by (auto simp: in_file_def)
    with segs_ok_later [OF ok] have "find (in_file i) ss = None" by simp
    with True m(3) i fit len Cons.prems show ?thesis
      by (auto simp: nth_overwrite in_file_def image_byte_Cons nth_subrange)
  next
    case False
    with m(3) i fit len show ?thesis by (auto simp: nth_overwrite in_file_def image_byte_Cons)
  qed
  with m(1,2) Cons.prems show ?case by auto
qed

lemma fill_image_Inr:
  assumes "fill_image ram plan source base tot = Inr memory"
  shows "memory = map (image_byte source (segments plan)) [0..<tot] \<and> segs_ok source tot 0 (segments plan)"
proof -
  from assms obtain m where m: "copy_segments source (segments plan) (replicate tot 0) = Inr m"
    "memory = readback ram base m" "verify_segments base source memory (segments plan) 0 = Inr ()"
    by (auto simp: fill_image_def Let_def and_then_Inr)
  then have "length memory = tot" using copy_segments_length [OF m(1)] by (simp add: readback_def)
  with m(3) show ?thesis by (auto simp: verify_segments_iff list_eq_iff_nth_eq)
qed

lemma fill_image_honest:
  assumes "segs_ok source tot 0 (segments plan)"
  shows "fill_image (\<lambda>_ b. b) plan source base tot = Inr (map (image_byte source (segments plan)) [0..<tot])"
proof -
  from assms have "segs_ok source (length (replicate tot (0 :: u8))) 0 (segments plan)" by simp
  from copy_segments_image [OF this] obtain m where
    m: "copy_segments source (segments plan) (replicate tot 0) = Inr m" "length m = tot"
      and at: "\<forall>i < tot. m ! i = (if find (in_file i) (segments plan) = None then replicate tot 0 ! i
        else image_byte source (segments plan) i)"
    unfolding length_replicate by blast
  have "\<forall>i < tot. m ! i = image_byte source (segments plan) i"
  proof (intro allI impI)
    fix i assume i: "i < tot"
    show "m ! i = image_byte source (segments plan) i"
      using at [rule_format, OF i] i
      by (cases "find (in_file i) (segments plan)") (simp_all add: image_byte_def)
  qed
  then have "m = map (image_byte source (segments plan)) [0..<tot]"
    "verify_segments base source m (segments plan) 0 = Inr ()"
    using m(2) assms by (auto simp: verify_segments_iff intro: nth_equalityI)
  moreover have "readback (\<lambda>_ b. b) base m = m" by (simp add: readback_def map_nth)
  ultimately show ?thesis using m(1) by (simp add: fill_image_def Let_def)
qed

lemma load_at_Inr:
  assumes "load_at fw mc ram plan source source_start phys_base extra_pages s = (Inr k, t)"
  obtains arena tot where
    "load_guard mc plan source source_start phys_base extra_pages = Inr (arena, tot)"
    "fill_image ram plan source phys_base tot = Inr (lk_memory k)"
    "lk_allocation k = phys_base" "lk_image_size k = image_size plan" "lk_arena_size k = arena"
    "lk_entry_offset k = entry_offset plan" "lk_pages k = tot div mc_page_size mc"
  using assms
  by (auto simp: load_at_def op_simps Let_def allocate_pages_def call_def
      split: if_splits prod.splits sum.splits fault.splits)

lemma load_guard_Inr:
  assumes "load_guard mc plan source source_start phys_base extra_pages = Inr (arena, tot)"
  shows "phys_base mod mc_page_size mc = 0" "tot = image_size plan + arena"
    "arena = extra_pages * mc_page_size mc" "extra_pages \<le> 256" "phys_base + tot \<le> 2 ^ 32"
    "entry_offset plan < image_size plan" "mc_parse mc source = Some plan"
    "phys_base + tot \<le> source_start \<or> source_start + length source \<le> phys_base"
    "image_size plan mod mc_page_size mc = 0" "0 < phys_base"
  using assms
  by (auto simp: load_guard_def and_then_Inr checked_simps MAX_EXTRA_PAGES_def FOUR_GIB_def
      split: if_splits option.splits)

definition kernel_tokens :: "loaded_kernel \<Rightarrow> (nat \<times> nat) multiset" where
  "kernel_tokens k = {#(lk_allocation k, lk_pages k)#}"

lemma kernel_drop_gives_up:
  "lk_allocation k = b \<Longrightarrow> lk_pages k = n \<Longrightarrow> gives_up page_acq page_rel (kernel_drop fw k) {#(b, n)#}"
  by (rule gives_upI [OF shifts_free_pages]) (simp_all add: kernel_drop_def)

lemma extends_rejecting:
  "extends (with_drop (fail e) (kernel_drop fw k))
     (\<lambda>r evs. r = Inl e \<and> (\<exists>st. evs = [EFreePages (lk_allocation k) (lk_pages k) st]))"
  by (auto simp: extends_def op_simps kernel_drop_def free_pages_def call_def split: prod.splits)

lemma load_at_balanced:
  "extends (load_at fw mc ram plan source source_start phys_base extra_pages) (\<lambda>r evs. r = Inl Panic
     \<or> (\<forall>held. balance page_acq page_rel evs held = Some (owned kernel_tokens r + held)))"
  unfolding load_at_def
proof (rule extends_bindE [where P = "\<lambda>r evs. evs = []"], goal_cases)
  case 1
  show ?case by (rule extends_lift) simp
next
  case (2 e evs)
  then show ?case by simp
next
  case (3 sizes evs)
  show ?case
    unfolding case_prod_beta
    by (rule extends_bindS, unfold allocate_pages_def, rule extends_call [where P = "\<lambda>r evs. evs = [EAllocPages at mt n r]" for at mt n])
      (auto simp: Let_def 3 kernel_tokens_def split: sum.split fault.split
        intro!: extends_fail extends_ok extends_mono [OF extends_rejecting])
qed

subsection \<open>Properties\<close>

text \<open>The word-wise readback of a slice, at any address and length, accepts exactly a
  slice whose bytes are the expected ones (or all zero).\<close>

theorem readback_is_byte_equality:
  "verify_memory addr actual expected \<longleftrightarrow>
     actual = (case expected of None \<Rightarrow> replicate (length actual) 0 | Some bs \<Rightarrow> bs)"
  by (rule verify_memory_iff)

text \<open>Property C8: whatever the RAM does, a kernel that \<open>load_at\<close> returns reads back as the abstract image
  of its parsed plan: the bytes of each segment's file range at its place and zeros everywhere
  else; the image and its arena lie below 4 GiB, apart from the source, and the entry point is
  inside the image.\<close>

theorem loaded_kernel_is_the_image:
  assumes "load_at fw mc ram plan source source_start phys_base extra_pages s = (Inr k, t)"
  shows "lk_memory k = map (image_byte source (segments plan)) [0..<lk_image_size k + lk_arena_size k]
    \<and> mc_parse mc source = Some plan \<and> lk_allocation k = phys_base
    \<and> lk_arena_size k = extra_pages * mc_page_size mc
    \<and> phys_base + lk_image_size k + lk_arena_size k \<le> 2 ^ 32
    \<and> (phys_base + lk_image_size k + lk_arena_size k \<le> source_start
       \<or> source_start + length source \<le> phys_base)
    \<and> phys_base \<le> physical_entry k \<and> physical_entry k < phys_base + lk_image_size k"
  using assms
proof (rule load_at_Inr)
  fix arena tot
  assume g: "load_guard mc plan source source_start phys_base extra_pages = Inr (arena, tot)"
    and f: "fill_image ram plan source phys_base tot = Inr (lk_memory k)"
    and k: "lk_allocation k = phys_base" "lk_image_size k = image_size plan" "lk_arena_size k = arena"
      "lk_entry_offset k = entry_offset plan"
  note guard = load_guard_Inr [OF g]
  from guard have "phys_base + entry_offset plan < 2 ^ 64" by simp
  with guard k fill_image_Inr [OF f] show ?thesis by (simp add: physical_entry_def add.assoc)
qed

definition example_macho :: macho where
  "example_macho = \<lparr>mc_page_size = 8, mc_max_image = 4096, mc_parse = (\<lambda>src. Some \<lparr>image_size = 16, entry_offset = 2,
     segments = [\<lparr>file_offset = 1, file_size = 2, memory_offset = 3, memory_size = 4\<rparr>,
                 \<lparr>file_offset = 0, file_size = 1, memory_offset = 7, memory_size = 1\<rparr>]\<rparr>)\<rparr>"

lemma example_macho_loads:
  "\<exists>k t. load_at (example_firmware\<lparr>fw_allocate_pages := \<lambda>_ _ _ w. (Inr 0x1000, w)\<rparr>) example_macho (\<lambda>_ b. b)
      (the (mc_parse example_macho [])) [7, 8, 9] 0x9000 0x1000 1 \<lparr>world = (), trace = []\<rparr> = (Inr k, t)"
proof -
  have "segs_ok [7, 8, 9] 24 0 (segments (the (mc_parse example_macho [])))"
    by (simp add: example_macho_def)
  from fill_image_honest [OF this, of "0x1000"] show ?thesis
    by (simp add: load_at_def op_simps load_guard_def checked_mul_def checked_add_def Let_def
        example_macho_def MAX_EXTRA_PAGES_def FOUR_GIB_def ISIZE_MAX_def allocate_pages_def call_def
        example_firmware_def)
qed

theorem loaded_kernel_is_the_image_witness:
  "\<exists>k. lk_memory k = map (image_byte [7, 8, 9] (segments (the (mc_parse example_macho [])))) [0..<24]
    \<and> lk_allocation k = 0x1000 \<and> physical_entry k < 0x1010"
proof -
  from example_macho_loads obtain k t where l: "load_at (example_firmware\<lparr>fw_allocate_pages := \<lambda>_ _ _ w. (Inr 0x1000, w)\<rparr>)
      example_macho (\<lambda>_ b. b) (the (mc_parse example_macho [])) [7, 8, 9] 0x9000 0x1000 1
      \<lparr>world = (), trace = []\<rparr> = (Inr k, t)" by blast
  from l have "lk_image_size k = 16" "lk_arena_size k = 8"
    by (auto elim!: load_at_Inr simp: load_guard_def checked_mul_def checked_add_def example_macho_def
        split: if_splits)
  with loaded_kernel_is_the_image [OF l] show ?thesis by (intro exI [of _ k]) simp
qed

text \<open>Property C9: on RAM that keeps what is written, a plan whose segments are in order, disjoint and
  in bounds is always accepted: neither the copy nor the readback panics or fails.\<close>

theorem ordered_plan_loads:
  assumes "segs_ok source tot 0 (segments plan)"
  shows "fill_image (\<lambda>_ b. b) plan source base tot = Inr (map (image_byte source (segments plan)) [0..<tot])"
  using assms by (rule fill_image_honest)

theorem ordered_plan_loads_witness:
  "fill_image (\<lambda>_ b. b) (the (mc_parse example_macho [])) [7, 8, 9] 0x1001 16
     = Inr [0, 0, 0, 8, 9, 0, 0, 7, 0, 0, 0, 0, 0, 0, 0, 0]"
proof -
  have "segs_ok [7, 8, 9] 16 0 (segments (the (mc_parse example_macho [])))"
    by (simp add: example_macho_def)
  from ordered_plan_loads [OF this, of "0x1001"] show ?thesis
    by (simp add: upt_rec example_macho_def image_byte_def in_file_def)
qed

text \<open>Except where the code would panic, loading a kernel owns exactly its allocation when
  it succeeds and has freed it exactly once when it fails.\<close>

theorem kernel_pages_are_owned:
  "extends (load_at fw mc ram plan source source_start phys_base extra_pages) (\<lambda>r evs. r = Inl Panic
     \<or> (\<forall>held. balance page_acq page_rel evs held = Some (owned kernel_tokens r + held)))"
  by (rule load_at_balanced)

end
