(* ===== verification/Filesystems.thy ===== *)
theory Filesystems
  imports Apfs_Records UEFI
begin

text \<open>
  Read-only observation of the filesystems below a controller: src/src/apfs\_filesystems.rs.
  \<open>Protocol\<close> is an opened firmware protocol, \<open>Root\<close> an opened volume; both are closed exactly
  once on every path. Volumes are examined within the read budget of \<open>Apfs_Records\<close>.
\<close>

definition MAX_HANDLES :: nat where "MAX_HANDLES = 256"
definition MAX_VOLUMES :: nat where "MAX_VOLUMES = 32"

definition invalid_status :: "invalid \<Rightarrow> status" where
  "invalid_status e = (if e = InvLimit then BAD_BUFFER_SIZE else VOLUME_CORRUPTED)"

definition checked :: "invalid + 'a \<Rightarrow> status + 'a" where
  "checked r = map_err invalid_status r"

text \<open>The parsers never panic (\<open>entry_no_panic\<close>, \<open>volume_info_no_panic\<close>); the first arm is unreachable.\<close>

definition parsed :: "invalid fault + 'a \<Rightarrow> status + 'a" where
  "parsed r = map_err (\<lambda>f. case f of Panic \<Rightarrow> ABORTED | Fail e \<Rightarrow> invalid_status e) r"

subsection \<open>Opened protocols\<close>

record protocol =
  pr_handle :: handle
  pr_guid :: guid
  pr_interface :: nat
  pr_active :: bool

definition protocol_close :: "'w firmware \<Rightarrow> protocol \<Rightarrow> ('w, status \<times> protocol) op" where
  "protocol_close fw p =
     (if \<not> pr_active p then ret (SUCCESS, p)
      else if \<not> fw_services fw then ret (NOT_READY, p\<lparr>pr_active := False\<rparr>)
      else bindS (close_protocol fw (pr_handle p) (pr_guid p)) (\<lambda>st. ret (st, p\<lparr>pr_active := False\<rparr>)))"

definition protocol_drop :: "'w firmware \<Rightarrow> protocol \<Rightarrow> 'w sys \<Rightarrow> 'w sys" where
  "protocol_drop fw p s = snd (protocol_close fw p s)"

definition protocol_open :: "'w firmware \<Rightarrow> handle \<Rightarrow> guid \<Rightarrow> ('w, protocol) res" where
  "protocol_open fw h g =
     (if \<not> fw_services fw then fail NOT_READY
      else bindS (open_protocol fw h g) (\<lambda>(st, interface).
        if st \<noteq> SUCCESS then fail st
        else let lease = \<lparr>pr_handle = h, pr_guid = g, pr_interface = interface, pr_active = True\<rparr> in
          if interface = 0 then with_drop (fail UNSUPPORTED) (protocol_drop fw lease)
          else ok lease))"

text \<open>
  The shape shared by the two functions that hold a protocol: run the body, close, and let a
  failing close replace the body's result; the destructor of the closed lease follows. \<open>seen\<close>
  receives the close status.
\<close>

definition closing :: "'w firmware \<Rightarrow> protocol \<Rightarrow> ('w, (status + 'a) \<times> 'v) op
    \<Rightarrow> (status \<Rightarrow> 'v \<Rightarrow> 'v) \<Rightarrow> ('w, (status + 'a) \<times> 'v) op" where
  "closing fw lease body seen =
     bindS body (\<lambda>(result, v).
     bindS (protocol_close fw lease) (\<lambda>(close, lease).
     with_drop (ret (if close \<noteq> SUCCESS then Inl close else result, seen close v))
       (protocol_drop fw lease)))"

subsection \<open>Device paths of handles\<close>

text \<open>
  \<open>mem\<close> is the firmware's node storage, from the interface pointer on. The header is read
  first, then the node.
\<close>

fun path_walk :: "(nat \<Rightarrow> u8) \<Rightarrow> nat \<Rightarrow> u8 list \<Rightarrow> status + u8 list" where
  "path_walk mem 0 bytes = Inl BAD_BUFFER_SIZE"
| "path_walk mem (Suc n) bytes =
     (let offset = length bytes in
      if offset + 4 > MAX_PATH then Inl BAD_BUFFER_SIZE
      else let len = le_nat [mem (offset + 2), mem (offset + 3)] in
        if len < 4 \<or> len > MAX_PATH - offset then Inl BAD_BUFFER_SIZE
        else let bytes = bytes @ map mem [offset..<offset + len] in
          if mem offset = 0x7f then and_then (checked (path_body bytes)) (\<lambda>_. Inr bytes)
          else path_walk mem n bytes)"

definition device_path :: "'w firmware \<Rightarrow> handle \<Rightarrow> ('w, u8 list) res" where
  "device_path fw h =
     bindE (protocol_open fw h Path) (\<lambda>lease.
     bindS (closing fw lease
       (bindS (bindE (reserve_heap fw MAX_PATH) (\<lambda>_.
           query (\<lambda>w. path_walk (\<lambda>i. fw_bytes fw w (pr_interface lease + i)) MAX_NODES [])))
         (\<lambda>r. ret (r, ())))
       (\<lambda>_ v. v)) (\<lambda>(r, _). lift r))"

subsection \<open>The root directory of a volume\<close>

text \<open>\<open>Root\<close> holds the file handle, 0 once closed.\<close>

definition root_close :: "'w firmware \<Rightarrow> nat \<Rightarrow> ('w, status) op" where
  "root_close fw root = (if root = 0 then ret SUCCESS else call (fw_file_close fw root) (EFileClose root))"

definition root_drop :: "'w firmware \<Rightarrow> nat \<Rightarrow> 'w sys \<Rightarrow> 'w sys" where
  "root_drop fw root s = snd (root_close fw root s)"

text \<open>The buffer of 4096 bytes, zeroed and then written by the driver.\<close>

definition filled :: "u8 list \<Rightarrow> u8 list" where
  "filled data = take MAX_RECORD (data @ replicate MAX_RECORD 0)"

definition root_response :: "'w firmware \<Rightarrow> nat \<Rightarrow> guid option \<Rightarrow> budget \<Rightarrow> ('w, (status + u8 list) \<times> budget) op" where
  "root_response fw root info b =
     (case checked (capacity b) of
        Inl e \<Rightarrow> ret (Inl e, b)
      | Inr cap \<Rightarrow>
          bindS (case info of
              Some g \<Rightarrow> call (fw_get_info fw root g cap) (\<lambda>(st, size, _). EFileInfo root g st size)
            | None \<Rightarrow> call (fw_read fw root cap) (\<lambda>(st, size, _). EFileRead root st size)) (\<lambda>(st, size, data).
          if st \<noteq> SUCCESS then ret (Inl st, b)
          else case checked (response size cap b) of
              Inl e \<Rightarrow> ret (Inl e, b)
            | Inr b \<Rightarrow> ret (Inr (take size (filled data)), b)))"

record volume =
  v_path :: "u8 list"
  v_opened :: bool
  v_info :: "volume_data option"
  v_root_verified :: bool
  v_entries :: "dir_entry list"
  v_records :: nat
  v_read_calls :: nat
  v_eof :: bool
  v_close_status :: "status option"
  v_protocol_close_status :: "status option"
  v_status :: status

definition new_volume :: "u8 list \<Rightarrow> volume" where
  "new_volume path = \<lparr>v_path = path, v_opened = False, v_info = None, v_root_verified = False,
     v_entries = [], v_records = 0, v_read_calls = 0, v_eof = False, v_close_status = None,
     v_protocol_close_status = None, v_status = NOT_READY\<rparr>"

text \<open>One record: the budget, the parser, and the uniqueness of names. The result says whether to go on.\<close>

definition take_record :: "'w firmware \<Rightarrow> u8 list \<Rightarrow> volume \<Rightarrow> budget \<Rightarrow> ('w, (status + unit) \<times> volume \<times> budget) op" where
  "take_record fw bytes v b =
     (case checked (budget_record (v_records v) b) of
        Inl e \<Rightarrow> ret (Inl e, v, b)
      | Inr b \<Rightarrow>
          let v = v\<lparr>v_records := v_records v + 1\<rparr> in
          case parsed (entry bytes False) of
            Inl e \<Rightarrow> ret (Inl e, v, b)
          | Inr ent \<Rightarrow>
              if dot ent then ret (Inr (), v, b)
              else if \<exists>old \<in> set (v_entries v). ent_name old = ent_name ent then ret (Inl VOLUME_CORRUPTED, v, b)
              else bindS (reserve_heap fw 1) (\<lambda>r. case r of
                  Inl e \<Rightarrow> ret (Inl e, v, b)
                | Inr _ \<Rightarrow> ret (Inr (), v\<lparr>v_entries := v_entries v @ [ent]\<rparr>, b)))"

text \<open>
  The directory loop. Every round either ends it or takes one record, and the budget allows at
  most \<open>MAX_ENTRIES\<close> of them in a volume; the fuel \<open>MAX_ENTRIES + 1\<close> is never used up
  (\<open>read_loop_fuel\<close>).
\<close>

fun read_loop :: "nat \<Rightarrow> 'w firmware \<Rightarrow> nat \<Rightarrow> volume \<Rightarrow> budget \<Rightarrow> ('w, (status + unit) option \<times> volume \<times> budget) op" where
  "read_loop 0 fw root v b = ret (None, v, b)"
| "read_loop (Suc n) fw root v b =
     (let v = v\<lparr>v_read_calls := v_read_calls v + 1\<rparr> in
      bindS (root_response fw root None b) (\<lambda>(r, b).
        case r of
          Inl e \<Rightarrow> ret (Some (Inl e), v, b)
        | Inr [] \<Rightarrow> ret (Some (Inr ()), v\<lparr>v_eof := True\<rparr>, b)
        | Inr (x # xs) \<Rightarrow>
            bindS (take_record fw (x # xs) v b) (\<lambda>(r, v, b).
              case r of
                Inl e \<Rightarrow> ret (Some (Inl e), v, b)
              | Inr _ \<Rightarrow> read_loop n fw root v b)))"

subsection \<open>One volume\<close>

definition volume_body :: "'w firmware \<Rightarrow> nat \<Rightarrow> bool \<Rightarrow> volume \<Rightarrow> budget \<Rightarrow> ('w, (status + unit) \<times> volume \<times> budget) op" where
  "volume_body fw root listing v b =
     bindS (root_response fw root (Some FsInfo) b) (\<lambda>(r, b).
     case and_then r (\<lambda>bytes. parsed (volume_info bytes)) of
       Inl e \<Rightarrow> ret (Inl e, v, b)
     | Inr info \<Rightarrow>
         let v = v\<lparr>v_info := Some info\<rparr> in
         if \<not> listing then ret (Inr (), v, b)
         else bindS (root_response fw root (Some FileInfoG) b) (\<lambda>(r, b).
           case and_then r (\<lambda>bytes. parsed (entry bytes True)) of
             Inl e \<Rightarrow> ret (Inl e, v, b)
           | Inr _ \<Rightarrow>
               bindS (read_loop (MAX_ENTRIES + 1) fw root (v\<lparr>v_root_verified := True\<rparr>) b) (\<lambda>(r, v, b).
                 ret (case r of None \<Rightarrow> Inl ABORTED | Some r \<Rightarrow> r, v, b))))"

definition opened_volume :: "'w firmware \<Rightarrow> nat \<Rightarrow> bool \<Rightarrow> volume \<Rightarrow> budget \<Rightarrow> ('w, (status + unit) \<times> volume \<times> budget) op" where
  "opened_volume fw interface listing v b =
     bindS (call (fw_open_volume fw interface) (\<lambda>(st, root). EOpenVolume interface st root)) (\<lambda>(st, root).
     if st \<noteq> SUCCESS then ret (Inl st, v, b)
     else if root = 0 then ret (Inl UNSUPPORTED, v, b)
     else bindS (volume_body fw root listing (v\<lparr>v_opened := True\<rparr>) b) (\<lambda>(result, v, b).
       bindS (root_close fw root) (\<lambda>close.
       with_drop (ret (if close \<noteq> SUCCESS then Inl close else result,
                       v\<lparr>v_close_status := Some close\<rparr>, b))
         (root_drop fw 0))))"

definition observe_volume :: "'w firmware \<Rightarrow> handle \<Rightarrow> bool \<Rightarrow> volume \<Rightarrow> budget \<Rightarrow> ('w, (status + unit) \<times> volume \<times> budget) op" where
  "observe_volume fw h listing v b =
     bindS (protocol_open fw h SimpleFS) (\<lambda>r.
     case r of
       Inl e \<Rightarrow> ret (Inl e, v, b)
     | Inr lease \<Rightarrow>
         closing fw lease (opened_volume fw (pr_interface lease) listing v b)
           (\<lambda>close (v, b). (v\<lparr>v_protocol_close_status := Some close\<rparr>, b)))"

subsection \<open>The volumes below a controller\<close>

fun candidate_loop :: "'w firmware \<Rightarrow> u8 list \<Rightarrow> handle list \<Rightarrow> (handle \<times> u8 list) list \<Rightarrow> nat
    \<Rightarrow> ('w, (status + (handle \<times> u8 list) list) \<times> nat) op" where
  "candidate_loop fw parent [] acc examined = ret (Inr acc, examined)"
| "candidate_loop fw parent (h # hs) acc examined =
     (let examined = examined + 1 in
      bindS (device_path fw h) (\<lambda>r.
      case r of
        Inl e \<Rightarrow> if e = UNSUPPORTED \<or> e = NOT_FOUND then candidate_loop fw parent hs acc examined
                 else ret (Inl e, examined)
      | Inr path \<Rightarrow>
          (case checked (descendant parent path) of
             Inl e \<Rightarrow> ret (Inl e, examined)
           | Inr below \<Rightarrow>
               if \<not> below then candidate_loop fw parent hs acc examined
               else if length acc = MAX_VOLUMES then ret (Inl BAD_BUFFER_SIZE, examined)
               else if \<exists>prev \<in> set acc. snd prev = path then ret (Inl NO_MAPPING, examined)
               else bindS (reserve_heap fw 1) (\<lambda>r. case r of
                   Inl e \<Rightarrow> ret (Inl e, examined)
                 | Inr _ \<Rightarrow> candidate_loop fw parent hs (acc @ [(h, path)]) examined))))"

definition candidates :: "'w firmware \<Rightarrow> handle \<Rightarrow> ('w, (status + (handle \<times> u8 list) list) \<times> nat) op" where
  "candidates fw controller =
     bindS (device_path fw controller) (\<lambda>r. case r of Inl e \<Rightarrow> ret (Inl e, 0) | Inr parent \<Rightarrow>
     bindS (find_handles fw SimpleFS) (\<lambda>r. case r of Inl e \<Rightarrow> ret (Inl e, 0) | Inr handles \<Rightarrow>
       if length handles > MAX_HANDLES then ret (Inl BAD_BUFFER_SIZE, 0)
       else bindS (candidate_loop fw parent handles [] 0) (\<lambda>(r, examined).
         ret (and_then r (\<lambda>found. if found = [] then Inl NOT_FOUND else Inr found), examined))))"

definition status_of_result :: "status + 'a \<Rightarrow> status" where
  "status_of_result r = (case r of Inl e \<Rightarrow> e | Inr _ \<Rightarrow> SUCCESS)"

fun collect_loop :: "'w firmware \<Rightarrow> (handle \<times> u8 list) list \<Rightarrow> volume list \<Rightarrow> budget
    \<Rightarrow> ('w, (status + unit) \<times> volume list \<times> budget) op" where
  "collect_loop fw [] vs b = ret (Inr (), vs, b)"
| "collect_loop fw ((h, path) # cs) vs b =
     bindS (observe_volume fw h True (new_volume path) b) (\<lambda>(r, v, b).
       let vs = vs @ [v\<lparr>v_status := status_of_result r\<rparr>] in
       case r of Inl e \<Rightarrow> ret (Inl e, vs, b) | Inr _ \<Rightarrow> collect_loop fw cs vs b)"

definition collect :: "'w firmware \<Rightarrow> handle \<Rightarrow> budget \<Rightarrow> ('w, ((status + unit) \<times> volume list \<times> budget) \<times> nat) op" where
  "collect fw controller b =
     bindS (candidates fw controller) (\<lambda>(r, examined).
     case r of
       Inl e \<Rightarrow> ret ((Inl e, [], b), examined)
     | Inr cs \<Rightarrow> bindS (reserve_heap fw (length cs)) (\<lambda>r. case r of
           Inl e \<Rightarrow> ret ((Inl e, [], b), examined)
         | Inr _ \<Rightarrow> bindS (collect_loop fw cs [] b) (\<lambda>out. ret (out, examined))))"

definition labelled :: "u16 list \<Rightarrow> volume \<Rightarrow> bool" where
  "labelled wanted v = (case v_info v of None \<Rightarrow> False | Some info \<Rightarrow> label_utf16 info = wanted)"

text \<open>The loop of \<open>select_volume\<close>: observed volumes with their match flags, and the selection so far.\<close>

fun select_loop :: "'w firmware \<Rightarrow> u16 list \<Rightarrow> (handle \<times> u8 list) list \<Rightarrow> (volume \<times> bool) list \<Rightarrow> budget
    \<Rightarrow> u8 list option \<Rightarrow> nat \<Rightarrow> ('w, (status + u8 list) \<times> (volume \<times> bool) list \<times> budget) op" where
  "select_loop fw wanted [] obs b selected matches =
     ret (if matches = 0 then Inl NOT_FOUND
          else if matches = 1 then ok_or selected NOT_FOUND
          else Inl NO_MAPPING, obs, b)"
| "select_loop fw wanted ((h, path) # cs) obs b selected matches =
     bindS (observe_volume fw h False (new_volume path) b) (\<lambda>(r, v, b).
       let v = v\<lparr>v_status := status_of_result r\<rparr>;
           matched = labelled wanted v;
           hit = is_ok r \<and> matched;
           obs = obs @ [(v, matched)] in
       case r of
         Inl e \<Rightarrow> ret (Inl e, obs, b)
       | Inr _ \<Rightarrow> select_loop fw wanted cs obs b
           (if hit \<and> selected = None then Some (v_path v) else selected)
           (if hit then matches + 1 else matches))"

definition select_body :: "'w firmware \<Rightarrow> handle \<Rightarrow> u16 list \<Rightarrow> ('w, ((status + u8 list) \<times> (volume \<times> bool) list \<times> budget) \<times> nat) op" where
  "select_body fw controller wanted =
     bindS (candidates fw controller) (\<lambda>(r, examined).
     case r of
       Inl e \<Rightarrow> ret ((Inl e, [], budget_default), examined)
     | Inr cs \<Rightarrow> bindS (reserve_heap fw (length cs)) (\<lambda>r. case r of
           Inl e \<Rightarrow> ret ((Inl e, [], budget_default), examined)
         | Inr _ \<Rightarrow> bindS (select_loop fw wanted cs [] budget_default None 0) (\<lambda>out. ret (out, examined))))"

definition ropt :: "status option \<Rightarrow> rvalue list" where
  "ropt st = (case st of None \<Rightarrow> [] | Some st \<Rightarrow> [RStat st])"

fun report_each :: "(nat \<Rightarrow> 'a \<Rightarrow> ('w, unit) op) \<Rightarrow> nat \<Rightarrow> 'a list \<Rightarrow> ('w, unit) op" where
  "report_each f i [] = ret ()"
| "report_each f i (x # xs) = bindS (f i x) (\<lambda>_. report_each f (i + 1) xs)"

definition select_volume :: "'w firmware \<Rightarrow> handle \<Rightarrow> ustr \<Rightarrow> ('w, u8 list) res" where
  "select_volume fw controller lbl =
     (let wanted = encode_utf16 lbl in
      if wanted = [] \<or> length wanted > MAX_NAME then fail INVALID_PARAMETER
      else bindS (select_body fw controller wanted) (\<lambda>((result, obs, b), examined).
        bindS (report_each (\<lambda>i (v, matched). report fw ''NEXTCORE: APFS_LABEL''
            ([RNat i, RBool matched, RBool (v_opened v)] @ ropt (v_close_status v)
             @ ropt (v_protocol_close_status v) @ [RStat (v_status v)])) 0 obs) (\<lambda>_.
        bindS (report fw ''NEXTCORE: APFS_SELECT'' [RNat examined, RNat (length obs),
            RNat (length (filter snd obs)), RNat (used_bytes b), RStat (status_of_result result)]) (\<lambda>_.
        lift result))))"

definition hex_bytes :: "u8 list \<Rightarrow> string" where
  "hex_bytes bs = concat (map (\<lambda>b. [hex_digit (unat b div 16), hex_digit (unat b mod 16)]) bs)"

definition report_volume :: "'w firmware \<Rightarrow> nat \<Rightarrow> volume \<Rightarrow> ('w, unit) op" where
  "report_volume fw i v =
     bindS (report fw ''NXAPFS: FS_PATH'' [RNat i, RText (hex_bytes (v_path v))]) (\<lambda>_.
     bindS (case v_info v of None \<Rightarrow> ret ()
       | Some info \<Rightarrow> report fw ''NXAPFS: FS_INFO'' [RNat i, RText (label info), RBool (read_only info),
           RNat (vol_size info), RNat (free_space info), RNat (block_size info)]) (\<lambda>_.
     bindS (report_each (\<lambda>_ ent. report fw ''NXAPFS: FS_ENTRY'' [RNat i, RText (ent_name ent), RBool (directory ent),
           RNat (file_size ent), RNat (physical_size ent), RNat (unat (attributes ent))]) 0 (v_entries v)) (\<lambda>_.
     report fw ''NXAPFS: FS_VOLUME'' ([RNat i, RBool (v_opened v), RBool (v_root_verified v), RNat (v_records v),
        RNat (length (v_entries v)), RNat (v_read_calls v), RBool (v_eof v)] @ ropt (v_close_status v)
        @ ropt (v_protocol_close_status v) @ [RStat (v_status v)]))))"

definition inspect :: "'w firmware \<Rightarrow> handle \<Rightarrow> ('w, unit) res" where
  "inspect fw controller =
     bindS (collect fw controller budget_default) (\<lambda>((result, vs, b), examined).
     bindS (report fw ''NXAPFS: FS_SCAN depth=1'' [RNat examined, RNat (length vs)]) (\<lambda>_.
     bindS (report_each (report_volume fw) 0 vs) (\<lambda>_.
     bindS (report fw ''NXAPFS: FS_DONE'' [RNat (length vs), RNat (used_entries b), RNat (used_bytes b),
        RBool (is_ok result), RStat (status_of_result result)]) (\<lambda>_.
     lift result))))"

subsection \<open>Every lease is closed exactly once\<close>

datatype lease_token = LeaseTok handle guid | RootTok nat

definition lease_acq :: "event \<Rightarrow> lease_token option" where
  "lease_acq e = (case e of
     EOpenProtocol h g st i \<Rightarrow> if st = SUCCESS then Some (LeaseTok h g) else None
   | EOpenVolume i st root \<Rightarrow> if st = SUCCESS \<and> root \<noteq> 0 then Some (RootTok root) else None
   | _ \<Rightarrow> None)"

definition lease_rel :: "event \<Rightarrow> lease_token option" where
  "lease_rel e = (case e of
     ECloseProtocol h g st \<Rightarrow> Some (LeaseTok h g)
   | EFileClose root st \<Rightarrow> Some (RootTok root)
   | _ \<Rightarrow> None)"

definition protocol_tokens :: "'w firmware \<Rightarrow> protocol \<Rightarrow> lease_token multiset" where
  "protocol_tokens fw p =
     (if pr_active p \<and> fw_services fw then {#LeaseTok (pr_handle p) (pr_guid p)#} else {#})"

lemma neutral_lease_report [neutral_intros]: "neutral lease_acq lease_rel (report fw m vs)"
  unfolding report_def by (rule neutral_call) (simp_all add: lease_acq_def lease_rel_def)

lemma shifts_protocol_close:
  "shifts lease_acq lease_rel (protocol_close fw p) (protocol_tokens fw p) (\<lambda>(st, q). protocol_tokens fw q)"
proof -
  have "shifts lease_acq lease_rel (close_protocol fw h g) {#LeaseTok h g#} (\<lambda>_. {#})" for h g
    unfolding shifts_def close_protocol_def by (rule extends_call) (simp add: lease_rel_def)
  then show ?thesis
    unfolding protocol_close_def by (auto simp: protocol_tokens_def intro!: shifts_ret shifts_bindS)
qed

lemma protocol_close_inactive: "\<not> pr_active (snd (fst (protocol_close fw p s)))"
  by (simp add: protocol_close_def op_simps split: prod.split)

lemma protocol_drop_gives_up:
  assumes "protocol_tokens fw p = held"
  shows "gives_up lease_acq lease_rel (protocol_drop fw p) held"
proof (rule gives_upI [OF shifts_protocol_close [of fw p, unfolded assms]])
  show "protocol_drop fw p s = snd (protocol_close fw p s)" for s by (simp add: protocol_drop_def)
  show "(case fst (protocol_close fw p s) of (st, q) \<Rightarrow> protocol_tokens fw q) = {#}" for s
    using protocol_close_inactive [of fw p s] by (simp add: protocol_tokens_def case_prod_beta)
qed

lemma shifts_protocol_open:
  "shifts lease_acq lease_rel (protocol_open fw h g) {#} (owned (protocol_tokens fw))"
proof (cases "fw_services fw")
  case False
  then show ?thesis by (simp add: protocol_open_def shifts_fail)
next
  case True
  have open': "shifts lease_acq lease_rel (open_protocol fw h g) {#}
      (\<lambda>(st, i). if st = SUCCESS then {#LeaseTok h g#} else {#})"
    unfolding shifts_def open_protocol_def
    by (rule extends_call) (auto simp: lease_acq_def lease_rel_def)
  show ?thesis
    unfolding protocol_open_def using True
    by (auto intro!: shifts_bindS [OF open'] shifts_fail shifts_ok shifts_drop_fail protocol_drop_gives_up
        simp: protocol_tokens_def Let_def)
qed

interpretation protocol_lease: owner lease_acq lease_rel "protocol_open fw h g" "protocol_drop fw" "protocol_tokens fw"
  for fw h g
  by unfold_locales (simp_all add: shifts_protocol_open protocol_drop_gives_up)

lemma shifts_closing:
  assumes "neutral lease_acq lease_rel body"
  shows "shifts lease_acq lease_rel (closing fw lease body seen) (protocol_tokens fw lease) (\<lambda>_. {#})"
  unfolding closing_def
  by (auto intro!: shifts_bindS_neutral assms shifts_bindS [OF shifts_protocol_close] shifts_drop_only
      protocol_drop_gives_up split: prod.split)

lemma neutral_device_path [neutral_intros]: "neutral lease_acq lease_rel (device_path fw h)"
  unfolding neutral_def device_path_def
  by (rule shifts_bindE [OF protocol_lease.create_acquires])
    (auto intro!: shifts_bindS [OF shifts_closing] neutral_intros shifts_neutral [of _ _ _ "{#}"] split: prod.split)

lemma neutral_root_response [neutral_intros]: "neutral lease_acq lease_rel (root_response fw root info b)"
proof -
  have "neutral lease_acq lease_rel (call (fw_get_info fw root g cap) (\<lambda>(st, size, _). EFileInfo root g st size))"
    "neutral lease_acq lease_rel (call (fw_read fw root cap) (\<lambda>(st, size, _). EFileRead root st size))" for g cap
    by (rule neutral_call; simp add: lease_acq_def lease_rel_def case_prod_beta)+
  then show ?thesis
    unfolding root_response_def by (intro neutral_intros)
qed

lemma neutral_take_record [neutral_intros]: "neutral lease_acq lease_rel (take_record fw bytes v b)"
  unfolding take_record_def Let_def by (intro neutral_intros)

lemma neutral_read_loop [neutral_intros]: "neutral lease_acq lease_rel (read_loop n fw root v b)"
proof (induction n arbitrary: v b)
  case 0
  show ?case by (simp add: neutral_ret)
next
  case (Suc n)
  show ?case unfolding read_loop.simps Let_def by (intro neutral_intros Suc.IH)
qed

lemma neutral_volume_body [neutral_intros]: "neutral lease_acq lease_rel (volume_body fw root listing v b)"
  unfolding volume_body_def Let_def by (intro neutral_intros)

lemma neutral_opened_volume [neutral_intros]: "neutral lease_acq lease_rel (opened_volume fw i listing v b)"
proof -
  have open': "shifts lease_acq lease_rel (call (fw_open_volume fw i) (\<lambda>(st, root). EOpenVolume i st root)) {#}
      (\<lambda>(st, root). if st = SUCCESS \<and> root \<noteq> 0 then {#RootTok root#} else {#})"
    unfolding shifts_def by (rule extends_call) (auto simp: lease_acq_def lease_rel_def)
  have close: "shifts lease_acq lease_rel (root_close fw root) {#RootTok root#} (\<lambda>_. {#})" if "root \<noteq> 0" for root
    using that unfolding root_close_def shifts_def by simp (rule extends_call, simp add: lease_rel_def)
  have drop: "gives_up lease_acq lease_rel (root_drop fw 0) {#}"
    by (rule gives_upI [OF shifts_ret [of "\<lambda>_. {#}" SUCCESS]]) (simp_all add: root_drop_def root_close_def)
  show ?thesis
    unfolding neutral_def opened_volume_def
    by (auto intro!: shifts_bindS [OF open'] shifts_ret shifts_bindS_neutral neutral_volume_body
        shifts_bindS [OF close] shifts_drop_only drop split: prod.split)
qed

lemma neutral_observe_volume [neutral_intros]: "neutral lease_acq lease_rel (observe_volume fw h listing v b)"
  unfolding neutral_def observe_volume_def
  by (rule shifts_bindS [OF protocol_lease.create_acquires])
    (auto intro!: shifts_ret shifts_closing neutral_intros split: sum.split)

lemma neutral_candidate_loop [neutral_intros]:
  "neutral lease_acq lease_rel (candidate_loop fw parent hs acc examined)"
proof (induction hs arbitrary: acc examined)
  case Nil
  show ?case by (simp add: neutral_ret)
next
  case (Cons h hs)
  show ?case unfolding candidate_loop.simps Let_def by (intro neutral_intros Cons.IH)
qed

lemma neutral_find_handles [neutral_intros]: "neutral lease_acq lease_rel (find_handles fw g)"
  unfolding find_handles_def by (rule neutral_call) (simp_all add: lease_acq_def lease_rel_def)

lemma neutral_candidates [neutral_intros]: "neutral lease_acq lease_rel (candidates fw controller)"
  unfolding candidates_def by (intro neutral_intros)

lemma neutral_collect_loop [neutral_intros]: "neutral lease_acq lease_rel (collect_loop fw cs vs b)"
proof (induction cs arbitrary: vs b)
  case Nil
  show ?case by (simp add: neutral_ret)
next
  case (Cons c cs)
  show ?case by (cases c) (simp add: Let_def, intro neutral_intros Cons.IH)
qed

lemma neutral_select_loop [neutral_intros]: "neutral lease_acq lease_rel (select_loop fw wanted cs obs b sel n)"
proof (induction cs arbitrary: obs b sel n)
  case Nil
  show ?case by (simp add: neutral_ret)
next
  case (Cons c cs)
  show ?case by (cases c) (simp only: select_loop.simps Let_def, intro neutral_intros Cons.IH)
qed

lemma neutral_collect [neutral_intros]: "neutral lease_acq lease_rel (collect fw controller b)"
  unfolding collect_def by (intro neutral_intros)

lemma neutral_select_body [neutral_intros]: "neutral lease_acq lease_rel (select_body fw controller wanted)"
  unfolding select_body_def by (intro neutral_intros)

lemma neutral_report_each [neutral_intros]:
  "(\<And>i x. neutral acq rel (f i x)) \<Longrightarrow> neutral acq rel (report_each f i xs)"
  by (induction xs arbitrary: i) (auto intro: neutral_intros)

subsection \<open>Reports follow the release of every lease\<close>

definition leases_then_reports :: "('w, 'a) op \<Rightarrow> bool" where
  "leases_then_reports m \<longleftrightarrow> extends m (\<lambda>_ evs. \<exists>work notes. evs = work @ notes
     \<and> list_all (\<lambda>e. \<not> is_report e) work \<and> list_all is_report notes
     \<and> (\<forall>held. balance lease_acq lease_rel work held = Some held))"

lemma leases_then_reportsI:
  assumes "neutral lease_acq lease_rel m" "silent m" "\<And>a. reports_only (k a)"
  shows "leases_then_reports (bindS m k)"
proof -
  from assms(1) have "extends m (\<lambda>_ evs. \<forall>held. balance lease_acq lease_rel evs held = Some held)"
    by (simp add: neutral_def shifts_def)
  from extends_conj [OF this silent_events [OF assms(2)]] show ?thesis
    unfolding leases_then_reports_def
    by (rule extends_bindS) (rule extends_mono [OF assms(3) [unfolded reports_only_def]]; blast)
qed

lemma silent_lease_calls [neutral_intros]:
  "silent (protocol_close fw p)" "silent (protocol_open fw h g)" "silent (find_handles fw g)"
  "silent (root_close fw r)"
proof -
  have c: "silent (close_protocol fw h g)" for h g
    unfolding close_protocol_def by (rule silent_call) (simp add: is_report_def)
  then show p: "silent (protocol_close fw p)" for p
    unfolding protocol_close_def by (intro neutral_intros)
  have "silent (\<lambda>s. ((), protocol_drop fw p s))" for p
    using p [of p] by (simp add: neutral_def shifts_def extends_def protocol_drop_def)
  then have "silent (with_drop (fail UNSUPPORTED) (protocol_drop fw p) :: ('a, status + protocol) op)" for p
    unfolding with_drop_bindS by (intro neutral_intros)
  moreover have "silent (open_protocol fw h g)"
    unfolding open_protocol_def by (rule silent_call) (simp add: is_report_def case_prod_beta)
  ultimately show "silent (protocol_open fw h g)"
    unfolding protocol_open_def Let_def by (intro neutral_intros)
  show "silent (find_handles fw g)"
    unfolding find_handles_def by (rule silent_call) (simp add: is_report_def)
  have "silent (call (fw_file_close fw r) (EFileClose r))" by (rule silent_call) (simp add: is_report_def)
  then show "silent (root_close fw r)" unfolding root_close_def by (intro neutral_intros)
qed

lemma silent_drops [neutral_intros]:
  "silent m \<Longrightarrow> silent (with_drop m (protocol_drop fw p))" "silent m \<Longrightarrow> silent (with_drop m (root_drop fw r))"
proof -
  have "silent (\<lambda>s. ((), protocol_drop fw p s))" "silent (\<lambda>s. ((), root_drop fw r s))"
    using silent_lease_calls(1) [of fw p] silent_lease_calls(4) [of fw r]
    by (simp_all add: neutral_def shifts_def extends_def protocol_drop_def root_drop_def)
  then show "silent (with_drop m (protocol_drop fw p))" "silent (with_drop m (root_drop fw r))" if "silent m"
    using that unfolding with_drop_bindS by (auto intro!: neutral_intros)
qed

lemma silent_device_path [neutral_intros]: "silent (device_path fw h)"
  unfolding device_path_def closing_def by (intro neutral_intros)

lemma silent_root_response [neutral_intros]: "silent (root_response fw root info b)"
proof -
  have "silent (call (fw_get_info fw root g cap) (\<lambda>(st, size, _). EFileInfo root g st size))"
    "silent (call (fw_read fw root cap) (\<lambda>(st, size, _). EFileRead root st size))" for g cap
    by (rule silent_call; simp add: is_report_def case_prod_beta)+
  then show ?thesis unfolding root_response_def by (intro neutral_intros)
qed

lemma silent_read_loop [neutral_intros]: "silent (read_loop n fw root v b)"
proof (induction n arbitrary: v b)
  case 0
  show ?case by (simp add: neutral_ret)
next
  case (Suc n)
  show ?case unfolding read_loop.simps Let_def take_record_def by (intro neutral_intros Suc.IH)
qed

lemma silent_observe_volume [neutral_intros]: "silent (observe_volume fw h listing v b)"
proof -
  have "silent (call (fw_open_volume fw i) (\<lambda>(st, root). EOpenVolume i st root))" for i
    by (rule silent_call) (simp add: is_report_def case_prod_beta)
  then show ?thesis
    unfolding observe_volume_def closing_def opened_volume_def volume_body_def Let_def
    by (intro neutral_intros)
qed

lemma silent_candidate_loop [neutral_intros]: "silent (candidate_loop fw parent hs acc examined)"
proof (induction hs arbitrary: acc examined)
  case Nil
  show ?case by (simp add: neutral_ret)
next
  case (Cons h hs)
  show ?case unfolding candidate_loop.simps Let_def by (intro neutral_intros Cons.IH)
qed

lemma silent_collect_loop [neutral_intros]: "silent (collect_loop fw cs vs b)"
proof (induction cs arbitrary: vs b)
  case Nil
  show ?case by (simp add: neutral_ret)
next
  case (Cons c cs)
  show ?case by (cases c) (simp add: Let_def, intro neutral_intros Cons.IH)
qed

lemma silent_select_loop [neutral_intros]: "silent (select_loop fw wanted cs obs b sel n)"
proof (induction cs arbitrary: obs b sel n)
  case Nil
  show ?case by (simp add: neutral_ret)
next
  case (Cons c cs)
  show ?case by (cases c) (simp only: select_loop.simps Let_def, intro neutral_intros Cons.IH)
qed

lemma silent_bodies [neutral_intros]:
  "silent (collect fw controller b)" "silent (select_body fw controller wanted)"
  unfolding collect_def select_body_def candidates_def by (intro neutral_intros)+

lemma reports_only_each: "(\<And>i x. reports_only (f i x)) \<Longrightarrow> reports_only (report_each f i xs)"
  by (induction xs arbitrary: i) (auto intro: reports_only_intros)

lemma select_volume_reports_last: "leases_then_reports (select_volume fw controller lbl)"
proof (cases "encode_utf16 lbl = [] \<or> length (encode_utf16 lbl) > MAX_NAME")
  case True
  then show ?thesis
    by (auto simp: select_volume_def leases_then_reports_def Let_def intro: extends_fail)
next
  case False
  then show ?thesis
    unfolding select_volume_def Let_def
    by (simp only: if_False) (intro leases_then_reportsI neutral_intros reports_only_each reports_only_intros)
qed

lemma inspect_reports_last: "leases_then_reports (inspect fw controller)"
  unfolding inspect_def report_volume_def
  by (intro leases_then_reportsI neutral_intros reports_only_each reports_only_intros)

subsection \<open>Device paths are read exactly\<close>

definition walk_step :: "(nat \<Rightarrow> u8) \<Rightarrow> nat \<Rightarrow> u8 list" where
  "walk_step mem offset = map mem [offset..<offset + le_nat [mem (offset + 2), mem (offset + 3)]]"

lemma path_walk_Suc:
  "path_walk mem (Suc n) bytes =
     (if length bytes + 4 > MAX_PATH \<or> length (walk_step mem (length bytes)) < 4
         \<or> length (walk_step mem (length bytes)) > MAX_PATH - length bytes then Inl BAD_BUFFER_SIZE
      else if mem (length bytes) = 0x7f
        then and_then (checked (path_body (bytes @ walk_step mem (length bytes))))
               (\<lambda>_. Inr (bytes @ walk_step mem (length bytes)))
      else path_walk mem n (bytes @ walk_step mem (length bytes)))"
  by (simp only: path_walk.simps Let_def walk_step_def length_map length_upt diff_add_inverse) simp

lemma and_then_checked: "and_then (checked r) (\<lambda>_. Inr x) = Inr p \<Longrightarrow> is_ok r \<and> p = x"
  by (cases r) (auto simp: checked_def)

lemma path_walk_Suc_Inr:
  assumes "path_walk mem (Suc n) bytes = Inr p"
  shows "(is_ok (path_body p) \<and> p = bytes @ walk_step mem (length bytes))
    \<or> path_walk mem n (bytes @ walk_step mem (length bytes)) = Inr p"
proof -
  let ?next = "bytes @ walk_step mem (length bytes)"
  from assms have "and_then (checked (path_body ?next)) (\<lambda>_. Inr ?next) = Inr p \<or> path_walk mem n ?next = Inr p"
    unfolding path_walk_Suc by (simp split: if_split_asm)
  then show ?thesis
  proof
    assume "and_then (checked (path_body ?next)) (\<lambda>_. Inr ?next) = Inr p"
    from and_then_checked [OF this] show ?thesis by simp
  qed simp
qed

lemma path_walk_sound:
  "path_walk mem n bytes = Inr p \<Longrightarrow> bytes = map mem [0..<length bytes] \<Longrightarrow>
   p = map mem [0..<length p] \<and> is_ok (path_body p)"
proof (induction n arbitrary: bytes)
  case 0
  then show ?case by simp
next
  case (Suc n)
  let ?next = "bytes @ walk_step mem (length bytes)"
  have "map mem [0..<length ?next] = map mem [0..<length bytes] @ walk_step mem (length bytes)"
    unfolding walk_step_def length_append length_map length_upt map_append [symmetric] diff_add_inverse
    by (simp only: upt_add_eq_append [of 0 "length bytes", OF le0])
  with Suc.prems(2) have exact: "?next = map mem [0..<length ?next]" by simp
  from path_walk_Suc_Inr [OF Suc.prems(1)] show ?case
  proof
    assume "is_ok (path_body p) \<and> p = ?next"
    with exact show ?thesis by blast
  next
    assume "path_walk mem n ?next = Inr p"
    from Suc.IH [OF this exact] show ?thesis .
  qed
qed

lemma path_walk_complete:
  assumes "p = map mem [0..<length p]" "length p \<le> MAX_PATH" "is_ok (path_body p)"
  shows "p = pre @ concat ns @ end_node \<Longrightarrow> \<forall>n \<in> set ns. node_ok n \<Longrightarrow> length ns < n \<Longrightarrow>
    path_walk mem n pre = Inr p"
proof (induction n arbitrary: pre ns)
  case 0
  then show ?case by simp
next
  case (Suc n)
  have at: "mem (length pre + i) = (concat ns @ end_node) ! i" if "i < length (concat ns @ end_node)" for i
  proof -
    have "p ! (length pre + i) = (concat ns @ end_node) ! i" using Suc.prems(1) that by simp
    moreover have "p ! (length pre + i) = mem (length pre + i)"
      using that by (subst assms(1)) (use Suc.prems(1) in simp)
    ultimately show ?thesis by simp
  qed
  show ?case
  proof (cases ns)
    case Nil
    have "mem (length pre) = 0x7f" "le_nat [mem (length pre + 2), mem (length pre + 3)] = 4"
      using at [of 0] at [of 2] at [of 3] Nil by (simp_all add: end_node_def)
    moreover from this have "walk_step mem (length pre) = map mem [length pre..<length pre + 4]"
      by (simp only: walk_step_def)
    moreover have "pre @ map mem [length pre..<length pre + 4] = p"
    proof (rule nth_equalityI)
      show "length (pre @ map mem [length pre..<length pre + 4]) = length p"
        using Suc.prems(1) Nil by simp
      fix i
      assume "i < length (pre @ map mem [length pre..<length pre + 4])"
      with Suc.prems(1) Nil have i: "i < length pre + 4" and l: "length p = length pre + 4" by simp_all
      show "(pre @ map mem [length pre..<length pre + 4]) ! i = p ! i"
      proof (cases "i < length pre")
        case True
        with Suc.prems(1) show ?thesis by (simp add: nth_append)
      next
        case False
        with i have "(pre @ map mem [length pre..<length pre + 4]) ! i = mem i" by (simp add: nth_append)
        also have "\<dots> = p ! i" using i l by (subst assms(1)) simp
        finally show ?thesis .
      qed
    qed
    ultimately show ?thesis
      using Suc.prems(1) Nil assms(2,3)
      unfolding path_walk_Suc by (auto simp: checked_def is_ok_def split: sum.splits)
  next
    case (Cons m ms)
    with Suc.prems(2) have m: "node_ok m" by simp
    then have len: "4 \<le> length m" by (simp add: node_ok_def)
    have at': "mem (length pre + i) = m ! i" if "i < length m" for i
      using at [of i] that Cons by (simp add: nth_append)
    from len have "0 < length m" "2 < length m" "3 < length m" by linarith+
    from at' [OF this(1)] at' [OF this(2)] at' [OF this(3)] m
    have h: "mem (length pre) \<noteq> 0x7f" "le_nat [mem (length pre + 2), mem (length pre + 3)] = length m"
      by (auto simp: node_ok_def)
    have "map mem [length pre..<length pre + length m] = m"
      by (rule nth_equalityI) (simp_all add: at')
    with h(2) have "walk_step mem (length pre) = m" by (simp only: walk_step_def)
    moreover have "path_walk mem n (pre @ m) = Inr p"
      by (rule Suc.IH [of "pre @ m" ms]) (use Suc.prems Cons in auto)
    ultimately show ?thesis
      using h len Suc.prems(1) Cons assms(2)
      unfolding path_walk_Suc by simp
  qed
qed

lemma path_walk_exact:
  "path_walk mem MAX_NODES [] = Inr p \<longleftrightarrow> p = map mem [0..<length p] \<and> is_ok (path_body p)"
proof
  assume "p = map mem [0..<length p] \<and> is_ok (path_body p)"
  moreover from this obtain b where "path_body p = Inr b" by (auto simp: is_ok_def split: sum.splits)
  then obtain ns where "wf_path ns p" by (rule path_body_InrE)
  ultimately show "path_walk mem MAX_NODES [] = Inr p"
    by (intro path_walk_complete [of p mem "[]" ns]) (auto simp: wf_path_def)
qed (auto dest: path_walk_sound)

subsection \<open>The directory loop ends and keeps the volume consistent\<close>

definition volume_ok :: "volume \<Rightarrow> bool" where
  "volume_ok v \<longleftrightarrow> distinct (map ent_name (v_entries v)) \<and> length (v_entries v) \<le> v_records v
     \<and> v_records v \<le> MAX_ENTRIES \<and> (\<forall>ent \<in> set (v_entries v). \<not> dot ent)"

lemma take_record_post:
  assumes "volume_ok v"
  shows "post (take_record fw bytes v b) (\<lambda>(r, v', b'). volume_ok v' \<and> v_path v' = v_path v
    \<and> (is_ok r \<longrightarrow> v_records v < MAX_ENTRIES \<and> v_records v' = v_records v + 1))"
proof -
  have rec: "v_records v < MAX_ENTRIES" if "checked (budget_record (v_records v) b) = Inr b'" for b'
    using that budget_record_Inr by (auto simp: checked_def)
  show ?thesis
    unfolding take_record_def Let_def
    by (intro post_cases post_after post_ret; use assms rec in \<open>fastforce simp: volume_ok_def\<close>)
qed

lemma read_loop_post:
  "volume_ok v \<Longrightarrow> post (read_loop n fw root v b) (\<lambda>(r, v', b'). volume_ok v' \<and> v_path v' = v_path v
     \<and> (MAX_ENTRIES < n + v_records v \<longrightarrow> r \<noteq> None))"
proof (induction n arbitrary: v b)
  case 0
  then show ?case by (auto intro!: post_ret simp: volume_ok_def)
next
  case (Suc n)
  let ?v = "v\<lparr>v_read_calls := v_read_calls v + 1\<rparr>"
  have ok: "volume_ok ?v" using Suc.prems by (simp add: volume_ok_def)
  show ?case
    unfolding read_loop.simps Let_def
  proof (rule post_after, clarify)
    fix r :: "status + u8 list" and b1
    show "post (case r of Inl e \<Rightarrow> ret (Some (Inl e), ?v, b1)
        | Inr [] \<Rightarrow> ret (Some (Inr ()), ?v\<lparr>v_eof := True\<rparr>, b1)
        | Inr (x # xs) \<Rightarrow> bindS (take_record fw (x # xs) ?v b1) (\<lambda>(r, v, b).
            case r of Inl e \<Rightarrow> ret (Some (Inl e), v, b) | Inr _ \<Rightarrow> read_loop n fw root v b))
      (\<lambda>(r, v', b'). volume_ok v' \<and> v_path v' = v_path v \<and> (MAX_ENTRIES < Suc n + v_records v \<longrightarrow> r \<noteq> None))"
    proof (cases r)
      case (Inr bytes)
      have step: "post (bindS (take_record fw bytes ?v b1) (\<lambda>(r, v, b).
          case r of Inl e \<Rightarrow> ret (Some (Inl e), v, b) | Inr _ \<Rightarrow> read_loop n fw root v b))
        (\<lambda>(r, v', b'). volume_ok v' \<and> v_path v' = v_path v \<and> (MAX_ENTRIES < Suc n + v_records v \<longrightarrow> r \<noteq> None))"
        by (rule post_bindS [OF take_record_post [OF ok]], clarify)
          (auto intro!: post_cases post_ret post_mono [OF Suc.IH])
      show ?thesis
        using Suc.prems step Inr by (cases bytes) (auto intro!: post_ret simp: volume_ok_def)
    qed (use Suc.prems in \<open>auto intro!: post_ret simp: volume_ok_def\<close>)
  qed
qed

lemma volume_ok_fields [simp]:
  "volume_ok (v\<lparr>v_opened := x\<rparr>) = volume_ok v" "volume_ok (v\<lparr>v_info := y\<rparr>) = volume_ok v"
  "volume_ok (v\<lparr>v_root_verified := x\<rparr>) = volume_ok v" "volume_ok (v\<lparr>v_close_status := z\<rparr>) = volume_ok v"
  "volume_ok (v\<lparr>v_protocol_close_status := z\<rparr>) = volume_ok v" "volume_ok (v\<lparr>v_status := st\<rparr>) = volume_ok v"
  by (simp_all add: volume_ok_def)

lemma volume_ok_new: "volume_ok (new_volume path)"
  by (simp add: volume_ok_def new_volume_def)

text \<open>\<open>ABORTED\<close>, the value standing for exhausted fuel or a panic, is not produced by the loop.\<close>

definition keeps :: "volume \<Rightarrow> (status + unit) \<times> volume \<times> budget \<Rightarrow> bool" where
  "keeps v out = (case out of (r, v', b') \<Rightarrow> volume_ok v' \<and> v_path v' = v_path v)"

lemma volume_body_post: "volume_ok v \<Longrightarrow> post (volume_body fw root listing v b) (keeps v)"
  unfolding volume_body_def Let_def
  by (intro post_cases post_after post_ret post_bindS [OF read_loop_post]) (auto simp: keeps_def)

lemma opened_volume_post: "volume_ok v \<Longrightarrow> post (opened_volume fw i listing v b) (keeps v)"
  unfolding opened_volume_def
  by (intro post_cases post_after post_ret post_with_drop post_bindS [OF volume_body_post])
    (auto simp: keeps_def intro!: post_after post_ret post_with_drop)

lemma closing_post:
  assumes "post body P" "\<And>r v close. P (r, v) \<Longrightarrow> Q (if close \<noteq> SUCCESS then Inl close else r, seen close v)"
  shows "post (closing fw lease body seen) Q"
  unfolding closing_def
  by (rule post_bindS [OF assms(1)], clarify, rule post_after, clarify)
    (rule post_with_drop, rule post_ret, erule assms(2))

lemma observe_volume_post: "volume_ok v \<Longrightarrow> post (observe_volume fw h listing v b) (keeps v)"
  unfolding observe_volume_def
  by (intro post_after post_case_sum post_ret closing_post [OF opened_volume_post])
    (auto simp: keeps_def)

subsection \<open>Candidates and selection\<close>

definition below :: "u8 list \<Rightarrow> (handle \<times> u8 list) list \<Rightarrow> bool" where
  "below parent cs \<longleftrightarrow> distinct (map snd cs) \<and> length cs \<le> MAX_VOLUMES
     \<and> (\<forall>c \<in> set cs. descendant parent (snd c) = Inr True)"

lemma candidate_loop_post:
  "below parent acc \<Longrightarrow> post (candidate_loop fw parent hs acc n) (\<lambda>(r, m). \<forall>cs. r = Inr cs \<longrightarrow> below parent cs)"
proof (induction hs arbitrary: acc n)
  case Nil
  then show ?case by (auto intro: post_ret)
next
  case (Cons h hs)
  have "below parent (acc @ [(h, path)])"
    if "checked (descendant parent path) = Inr True" "length acc \<noteq> MAX_VOLUMES" "\<not> (\<exists>prev \<in> set acc. snd prev = path)"
    for path
    using that Cons.prems by (auto simp: below_def checked_def)
  then show ?case
    unfolding candidate_loop.simps Let_def
    by (intro post_after post_cases post_ret Cons.IH Cons.prems) auto
qed

lemma device_path_post: "post (device_path fw h) (\<lambda>r. \<forall>p. r = Inr p \<longrightarrow> is_ok (path_body p))"
  unfolding device_path_def
proof (rule post_bindE [OF post_true], simp, rule post_bindS)
  fix lease
  show "post (closing fw lease
      (bindS (bindE (reserve_heap fw MAX_PATH) (\<lambda>_.
         query (\<lambda>w. path_walk (\<lambda>i. fw_bytes fw w (pr_interface lease + i)) MAX_NODES [])))
        (\<lambda>r. ret (r, ()))) (\<lambda>_ v. v))
    (\<lambda>(r, _). \<forall>p. r = Inr p \<longrightarrow> is_ok (path_body p))"
    by (rule closing_post [where P = "\<lambda>(r, _). \<forall>p. r = Inr p \<longrightarrow> is_ok (path_body p)"])
      (auto simp: post_def op_simps reserve_heap_def query_def path_walk_exact split: sum.splits)
qed (auto intro: post_lift)

text \<open>
  What the firmware answers, one call after another: the device path of every handle, and the label
  a volume's root directory reports, read off the firmware's own answers to opening the protocol,
  opening the volume and asking for its information.
\<close>

fun path_answers :: "'w firmware \<Rightarrow> handle list \<Rightarrow> 'w sys \<Rightarrow> (handle \<times> (status + u8 list)) list" where
  "path_answers fw [] s = []"
| "path_answers fw (h # hs) s = (case device_path fw h s of (r, t) \<Rightarrow> (h, r) # path_answers fw hs t)"

definition strictly_below :: "u8 list \<Rightarrow> (handle \<times> (status + u8 list)) list \<Rightarrow> (handle \<times> u8 list) list" where
  "strictly_below parent answers =
     concat (map (\<lambda>(h, r). case r of Inl _ \<Rightarrow> [] | Inr p \<Rightarrow> if descendant parent p = Inr True then [(h, p)] else []) answers)"

definition answered_label :: "'w firmware \<Rightarrow> handle \<Rightarrow> budget \<Rightarrow> 'w sys \<Rightarrow> u16 list option" where
  "answered_label fw h b s =
     (case protocol_open fw h SimpleFS s of
        (Inl _, _) \<Rightarrow> None
      | (Inr lease, t) \<Rightarrow>
          (case fw_open_volume fw (pr_interface lease) (world t) of ((_, root), w) \<Rightarrow>
            (case capacity b of
               Inl _ \<Rightarrow> None
             | Inr cap \<Rightarrow>
                 (case fw_get_info fw root FsInfo cap w of ((_, bytes, data), _) \<Rightarrow>
                   (case volume_info (take bytes (filled data)) of
                      Inl _ \<Rightarrow> None
                    | Inr info \<Rightarrow> Some (label_utf16 info))))))"

text \<open>All candidates observed one after another, with their paths and labels, or the first error.\<close>

fun observed_labels :: "'w firmware \<Rightarrow> (handle \<times> u8 list) list \<Rightarrow> budget \<Rightarrow> 'w sys
    \<Rightarrow> status + (u8 list \<times> u16 list option) list" where
  "observed_labels fw [] b s = Inr []"
| "observed_labels fw ((h, path) # cs) b s =
     (case observe_volume fw h False (new_volume path) b s of
        ((Inl e, _, _), t) \<Rightarrow> Inl e
      | ((Inr _, _, b'), t) \<Rightarrow>
          and_then (observed_labels fw cs b' t) (\<lambda>ls. Inr ((path, answered_label fw h b s) # ls)))"

definition with_label :: "u16 list \<Rightarrow> (u8 list \<times> u16 list option) list \<Rightarrow> u8 list list" where
  "with_label wanted ls = map fst (filter (\<lambda>(p, l). l = Some wanted) ls)"

lemma with_label_simps [simp]:
  "with_label wanted [] = []"
  "with_label wanted ((p, l) # ls) = (if l = Some wanted then p # with_label wanted ls else with_label wanted ls)"
  by (simp_all add: with_label_def)

subsection \<open>The candidates are the volumes below the controller\<close>

lemma reserve_heap_snd [simp]: "snd (reserve_heap fw n s) = s"
  by (simp add: reserve_heap_def query_def)

lemma reserve_heap_state: "reserve_heap fw n s = (r, t) \<Longrightarrow> t = s"
  by (metis reserve_heap_snd snd_conv)

lemma candidate_loop_filters:
  "candidate_loop fw parent hs acc n s = ((Inr cs, m), t)
    \<Longrightarrow> cs = acc @ strictly_below parent (path_answers fw hs s)"
proof (induction hs arbitrary: acc n s)
  case Nil
  then show ?case by (simp add: op_simps strictly_below_def)
next
  case (Cons h hs)
  obtain r u where d: "device_path fw h s = (r, u)" by fastforce
  show ?case
  proof (cases r)
    case (Inl e)
    with Cons.prems d have "candidate_loop fw parent hs acc (n + 1) u = ((Inr cs, m), t)"
      by (simp add: op_simps Let_def split: if_splits)
    from Cons.IH [OF this] Inl d show ?thesis by (simp add: strictly_below_def)
  next
    case (Inr p)
    show ?thesis
    proof (cases "descendant parent p = Inr True")
      case True
      with Inr Cons.prems d have "candidate_loop fw parent hs (acc @ [(h, p)]) (n + 1) u = ((Inr cs, m), t)"
        by (auto simp: op_simps Let_def checked_def split: if_splits prod.splits sum.splits dest: reserve_heap_state)
      from Cons.IH [OF this] Inr True d show ?thesis by (simp add: strictly_below_def)
    next
      case False
      with Inr Cons.prems d have "candidate_loop fw parent hs acc (n + 1) u = ((Inr cs, m), t)"
        by (auto simp: op_simps Let_def checked_def map_err_def split: if_splits sum.splits)
      from Cons.IH [OF this] Inr False d show ?thesis by (simp add: strictly_below_def)
    qed
  qed
qed

text \<open>What a successful enumeration has established, from the state it started in.\<close>

definition enumerated :: "'w firmware \<Rightarrow> handle \<Rightarrow> 'w sys \<Rightarrow> (handle \<times> u8 list) list \<Rightarrow> bool" where
  "enumerated fw controller s cs \<longleftrightarrow> cs \<noteq> [] \<and> (\<exists>parent handles t u.
     device_path fw controller s = (Inr parent, t) \<and> find_handles fw SimpleFS t = (Inr handles, u)
     \<and> length handles \<le> MAX_HANDLES \<and> below parent cs \<and> cs = strictly_below parent (path_answers fw handles u))"

lemma candidates_enumerate:
  assumes "candidates fw controller s = ((Inr cs, n), v)"
  shows "enumerated fw controller s cs"
proof -
  from assms obtain parent t where p: "device_path fw controller s = (Inr parent, t)"
    by (auto simp: candidates_def op_simps split: prod.splits sum.splits)
  with assms obtain handles u where h: "find_handles fw SimpleFS t = (Inr handles, u)"
    by (auto simp: candidates_def op_simps split: prod.splits sum.splits)
  with assms p obtain m where l: "length handles \<le> MAX_HANDLES" and c: "cs \<noteq> []"
    and loop: "candidate_loop fw parent handles [] 0 u = ((Inr cs, m), v)"
    by (auto simp: candidates_def op_simps and_then_Inr split: prod.splits if_splits)
  have "below parent []" by (simp add: below_def)
  from candidate_loop_post [OF this, of fw handles 0]
  have "case fst (candidate_loop fw parent handles [] 0 u) of (r, m) \<Rightarrow> \<forall>cs. r = Inr cs \<longrightarrow> below parent cs"
    unfolding post_def by (rule spec)
  with loop have "below parent cs" by simp
  with p h l c candidate_loop_filters [OF loop] show ?thesis
    unfolding enumerated_def by auto
qed

subsection \<open>A selection is the only volume of its label\<close>

lemma observe_volume_label:
  assumes "observe_volume fw h False (new_volume path) b s = ((Inr u, v, b'), t)"
  shows "v_path v = path \<and> v_info v \<noteq> None \<and> answered_label fw h b s = map_option label_utf16 (v_info v)"
proof -
  have "keeps (new_volume path) (fst (observe_volume fw h False (new_volume path) b s))"
    using observe_volume_post [OF volume_ok_new] unfolding post_def by blast
  with assms have "v_path v = path" by (simp add: keeps_def new_volume_def)
  moreover from assms have "v_info v \<noteq> None \<and> answered_label fw h b s = map_option label_utf16 (v_info v)"
    by (auto simp: observe_volume_def closing_def opened_volume_def volume_body_def root_response_def
        answered_label_def op_simps call_eval checked_def parsed_def map_err_def and_then_def
        split: prod.splits sum.splits if_splits)
  ultimately show ?thesis ..
qed

lemma select_loop_decides:
  "fst (fst (select_loop fw wanted cs obs b selected n s)) =
     and_then (observed_labels fw cs b s) (\<lambda>ls.
       if n + length (with_label wanted ls) = 0 then Inl NOT_FOUND
       else if n + length (with_label wanted ls) = 1
         then ok_or (if selected = None then (case with_label wanted ls of [] \<Rightarrow> None | p # _ \<Rightarrow> Some p) else selected) NOT_FOUND
       else Inl NO_MAPPING)"
proof (induction cs arbitrary: obs b selected n s)
  case Nil
  then show ?case by (simp add: op_simps)
next
  case (Cons c cs)
  obtain h path where c: "c = (h, path)" by fastforce
  obtain r v b' t where o: "observe_volume fw h False (new_volume path) b s = ((r, v, b'), t)"
    by (metis prod_cases3 surj_pair)
  show ?case
  proof (cases r)
    case (Inl e)
    with o c show ?thesis by (simp add: op_simps Let_def)
  next
    case (Inr u)
    from observe_volume_label [OF o [unfolded Inr]] have l: "v_path v = path"
      "labelled wanted v \<longleftrightarrow> answered_label fw h b s = Some wanted"
      by (auto simp: labelled_def)
    have lv: "labelled wanted (v\<lparr>v_status := x\<rparr>) = labelled wanted v" for x by (simp add: labelled_def)
    from o Inr c l show ?thesis
      by (cases "observed_labels fw cs b' t") (auto simp: op_simps Let_def Cons.IH lv is_ok_def split: list.split)
  qed
qed

lemma select_volume_result:
  "fst (select_volume fw controller lbl s) =
     (if encode_utf16 lbl = [] \<or> length (encode_utf16 lbl) > MAX_NAME then Inl INVALID_PARAMETER
      else fst (fst (fst (select_body fw controller (encode_utf16 lbl) s))))"
  by (simp add: select_volume_def Let_def op_simps split: prod.split)

lemma select_body_decides:
  "fst (fst (fst (select_body fw controller wanted s))) =
     (case candidates fw controller s of
        ((Inl e, _), _) \<Rightarrow> Inl e
      | ((Inr cs, _), t) \<Rightarrow> and_then (fst (reserve_heap fw (length cs) t)) (\<lambda>_.
          and_then (observed_labels fw cs budget_default t) (\<lambda>ls.
            case with_label wanted ls of [] \<Rightarrow> Inl NOT_FOUND | [p] \<Rightarrow> Inr p | _ \<Rightarrow> Inl NO_MAPPING)))"
  by (auto simp: select_body_def op_simps and_then_def case_prod_beta select_loop_decides split: sum.split list.split)

subsection \<open>Properties\<close>

text \<open>Property C10: walking the device path nodes of a handle returns exactly the bytes of memory that form a
  well-formed path: it accepts every path the checked parser accepts, and nothing else.\<close>

theorem device_path_is_read_exactly:
  "path_walk mem MAX_NODES [] = Inr p \<longleftrightarrow> p = map mem [0..<length p] \<and> is_ok (path_body p)"
  by (rule path_walk_exact)

text \<open>Property C11: on every path through selection and inspection, all protocol and root directory leases
  have been closed, each exactly once, before the first report is made.\<close>

theorem leases_are_released_before_reports:
  "leases_then_reports (select_volume fw controller lbl) \<and> leases_then_reports (inspect fw controller)"
  by (simp add: select_volume_reports_last inspect_reports_last)

text \<open>Property C12: a selection decides exactly this: a label that is empty or too long is refused; an error
  of the enumeration, of the heap or of the first volume that cannot be observed is returned; and
  otherwise all candidates have been observed and the path of the only one that answered the
  wanted label is returned, \<open>NOT_FOUND\<close> when no volume answered it and \<open>NO_MAPPING\<close> when several
  did. The candidates are all the volumes whose device path, as the firmware answers it, lies
  strictly below that of the controller, in the firmware's order; there is at least one, there are
  at most 32, and their paths differ. Every volume's label is the one parsed from what the
  firmware answered for its root directory.\<close>

theorem selected_volume_is_unique:
  "fst (select_volume fw controller lbl s) =
     (if encode_utf16 lbl = [] \<or> length (encode_utf16 lbl) > MAX_NAME then Inl INVALID_PARAMETER
      else case candidates fw controller s of
        ((Inl e, _), _) \<Rightarrow> Inl e
      | ((Inr cs, _), t) \<Rightarrow> and_then (fst (reserve_heap fw (length cs) t)) (\<lambda>_.
          and_then (observed_labels fw cs budget_default t) (\<lambda>ls.
            case with_label (encode_utf16 lbl) ls of [] \<Rightarrow> Inl NOT_FOUND | [p] \<Rightarrow> Inr p | _ \<Rightarrow> Inl NO_MAPPING)))
   \<and> (case candidates fw controller s of
        ((Inl e, _), _) \<Rightarrow> True
      | ((Inr cs, _), _) \<Rightarrow> enumerated fw controller s cs)"
  by (auto simp: select_volume_result select_body_decides dest: candidates_enumerate split: prod.split sum.split)

text \<open>Whatever the driver returns, an observed volume keeps its path and lists entries with
  different names, no dot entries, and no more of them than the at most 128 records read.\<close>

theorem observed_volume_is_consistent:
  "post (observe_volume fw h listing (new_volume path) b) (\<lambda>(r, v, b'). volume_ok v \<and> v_path v = path)"
  by (rule post_mono [OF observe_volume_post [OF volume_ok_new]]) (auto simp: keeps_def new_volume_def)

text \<open>Property C13: the directory loop ends by itself: reading \<open>MAX_ENTRIES + 1\<close> records is never reached,
  whatever a driver that never signals the end returns.\<close>

theorem directory_loop_terminates:
  "post (read_loop (MAX_ENTRIES + 1) fw root (new_volume path) b) (\<lambda>(r, v, b'). r \<noteq> None)"
  by (rule post_mono [OF read_loop_post [OF volume_ok_new]]) (auto simp: new_volume_def)

end
