(* ===== verification/Firmware_IO.thy ===== *)
theory Firmware_IO
  imports UEFI
begin

text \<open>
  Reading a file of the image's own volume: \<open>read_file\<close> of src/src/firmware\_io.rs and \<open>read_config\<close>
  of src/src/main.rs, which differ in their limits and in the reason they attach to an error. The
  file protocol calls that only these two make are the record \<open>io\<close>; a read answers with the
  bytes it has put into the buffer.
\<close>

record 'w file_io =
  fi_file_system :: "'w \<Rightarrow> (status + handle \<times> nat) \<times> 'w"
  fi_open :: "nat \<Rightarrow> ustr \<Rightarrow> 'w \<Rightarrow> (status + nat) \<times> 'w"
  fi_regular :: "nat \<Rightarrow> 'w \<Rightarrow> bool"
  fi_size :: "nat \<Rightarrow> 'w \<Rightarrow> (status + nat) \<times> 'w"
  fi_read :: "nat \<Rightarrow> nat \<Rightarrow> 'w \<Rightarrow> (status + u8 list) \<times> 'w"

text \<open>Where reading a file can fail.\<close>

datatype stage = AtFileSystem | AtVolume | AtOpen | AtKind | AtInfo | AtEmpty | AtLimit | AtRead | AtEnd

definition file_drop :: "'w firmware \<Rightarrow> nat \<Rightarrow> 'w sys \<Rightarrow> 'w sys" where
  "file_drop fw f s = snd (call (fw_file_close fw f) (EFileClose f) s)"

definition file_system_drop :: "'w firmware \<Rightarrow> handle \<Rightarrow> 'w sys \<Rightarrow> 'w sys" where
  "file_system_drop fw h s = snd (close_protocol fw h SimpleFS s)"

text \<open>The regular file at a path, open for the body; the file, the root and the protocol are dropped in this order.\<close>

definition with_regular_file :: "'w firmware \<Rightarrow> 'w file_io \<Rightarrow> (stage \<Rightarrow> status \<Rightarrow> 'e) \<Rightarrow> ustr \<Rightarrow> (nat \<Rightarrow> ('w, 'e + 'a) op)
    \<Rightarrow> ('w, 'e + 'a) op" where
  "with_regular_file fw io err path body =
     bindS (call (fi_file_system io) (\<lambda>r. ECall ''get_image_file_system'' [] (status_of r))) (\<lambda>r. case r of
       Inl st \<Rightarrow> fail (err AtFileSystem st)
     | Inr (h, fs) \<Rightarrow> with_drop
        (bindS (call (fw_open_volume fw fs) (\<lambda>(st, root). EOpenVolume fs st root)) (\<lambda>(st, root).
         if st \<noteq> SUCCESS then fail (err AtVolume st)
         else with_drop
           (bindS (call (fi_open io root path) (\<lambda>r. ECall ''open'' [RStr path] (status_of r))) (\<lambda>r. case r of
              Inl st \<Rightarrow> fail (err AtOpen st)
            | Inr file \<Rightarrow> with_drop
                (bindS (query (fi_regular io file)) (\<lambda>regular.
                 if \<not> regular then fail (err AtKind INVALID_PARAMETER) else body file))
                (file_drop fw file)))
           (file_drop fw root)))
        (file_system_drop fw h))"

text \<open>The loop that fills the buffer; every round reads at least one byte, so it ends.\<close>

function read_rest :: "'w file_io \<Rightarrow> (stage \<Rightarrow> status \<Rightarrow> 'e) \<Rightarrow> nat \<Rightarrow> nat \<Rightarrow> u8 list \<Rightarrow> 'w sys \<Rightarrow> ('e + u8 list) \<times> 'w sys" where
  "read_rest io err file remaining acc s =
     (if remaining = 0 then (Inr acc, s)
      else case call (fi_read io file remaining) (\<lambda>r. ECall ''read'' [RNat remaining] (status_of r)) s of
        (Inl st, t) \<Rightarrow> (Inl (err AtRead st), t)
      | (Inr data, t) \<Rightarrow>
          let d = take remaining data in
          if d = [] then (Inl (err AtEnd END_OF_FILE), t)
          else read_rest io err file (remaining - length d) (acc @ d) t)"
  by pat_completeness auto

termination
  by (relation "measure (\<lambda>(io, err, file, remaining, acc, s). remaining)") (auto simp: Let_def)

declare read_rest.simps [simp del]

definition file_size_of :: "'w file_io \<Rightarrow> nat \<Rightarrow> ('w, nat) res" where
  "file_size_of io file = call (fi_size io file) (\<lambda>r. ECall ''get_info'' [] (status_of r))"

definition read_contents :: "'w file_io \<Rightarrow> nat \<Rightarrow> nat \<Rightarrow> ('w, u8 list) res" where
  "read_contents io maximum file =
     bindE (file_size_of io file) (\<lambda>bytes.
     if bytes = 0 \<or> bytes > maximum \<or> bytes > 2 ^ 64 - 1 then fail BAD_BUFFER_SIZE
     else read_rest io (\<lambda>_ st. st) file bytes [])"

definition read_file :: "'w firmware \<Rightarrow> 'w file_io \<Rightarrow> ustr \<Rightarrow> nat \<Rightarrow> ('w, u8 list) res" where
  "read_file fw io path maximum = with_regular_file fw io (\<lambda>_ st. st) path (read_contents io maximum)"

subsection \<open>The boot manager's configuration\<close>

definition MAX_CONFIG_BYTES :: nat where "MAX_CONFIG_BYTES = 1024 * 1024"

definition config_reason :: "stage \<Rightarrow> string" where
  "config_reason where_failed = (case where_failed of
     AtFileSystem \<Rightarrow> ''Loaded image file system unavailable''
   | AtVolume \<Rightarrow> ''Cannot open loaded image volume''
   | AtOpen \<Rightarrow> ''Cannot open configuration file''
   | AtKind \<Rightarrow> ''Configuration path is not a regular file''
   | AtInfo \<Rightarrow> ''Cannot read configuration file information''
   | AtEmpty \<Rightarrow> ''Configuration file is empty''
   | AtLimit \<Rightarrow> ''Configuration exceeds the 1 MiB limit''
   | AtRead \<Rightarrow> ''Cannot read configuration contents''
   | AtEnd \<Rightarrow> ''Configuration ended before its reported size'')"

definition config_error :: "stage \<Rightarrow> status \<Rightarrow> status \<times> string" where
  "config_error stage st = (st, config_reason stage)"

definition config_path :: ustr where
  "config_path = map of_char (CHR 0x5C # ''EFI'' @ CHR 0x5C # ''OC'' @ CHR 0x5C # ''config.plist'')"

definition config_contents :: "'w file_io \<Rightarrow> nat \<Rightarrow> ('w, (status \<times> string) + u8 list) op" where
  "config_contents io file =
     bindS (file_size_of io file) (\<lambda>r. case r of
       Inl st \<Rightarrow> fail (config_error AtInfo st)
     | Inr bytes \<Rightarrow>
         if bytes = 0 then fail (config_error AtEmpty BAD_BUFFER_SIZE)
         else if bytes > MAX_CONFIG_BYTES then fail (config_error AtLimit BAD_BUFFER_SIZE)
         else read_rest io config_error file bytes [])"

definition read_config :: "'w firmware \<Rightarrow> 'w file_io \<Rightarrow> ('w, (status \<times> string) + u8 list) op" where
  "read_config fw io = with_regular_file fw io config_error config_path (config_contents io)"

subsection \<open>Short reads\<close>

text \<open>
  A file that works as the file protocol documents: \<open>pos\<close> is its position, and a read before the
  end of the contents \<open>c\<close> delivers at least one and at most the requested number of bytes from
  there. It may deliver fewer than were asked for.
\<close>

definition serves :: "'w file_io \<Rightarrow> nat \<Rightarrow> ('w \<Rightarrow> nat) \<Rightarrow> u8 list \<Rightarrow> bool" where
  "serves io file pos c \<longleftrightarrow> (\<forall>n w. 0 < n \<longrightarrow> pos w < length c \<longrightarrow>
     (\<exists>k w'. 0 < k \<and> k \<le> n \<and> pos w + k \<le> length c \<and> pos w' = pos w + k
        \<and> fi_read io file n w = (Inr (take k (drop (pos w) c)), w')))"

lemma read_rest_serves:
  "serves io file pos c \<Longrightarrow> pos (world s) = length c - remaining \<Longrightarrow> remaining \<le> length c \<Longrightarrow>
   acc = take (length c - remaining) c \<Longrightarrow> fst (read_rest io err file remaining acc s) = Inr c"
proof (induction remaining arbitrary: acc s rule: less_induct)
  case (less remaining)
  show ?case
  proof (cases "remaining = 0")
    case True
    with less.prems show ?thesis by (simp add: read_rest.simps [of _ _ _ 0])
  next
    case False
    with less.prems(2,3) have "0 < remaining" "pos (world s) < length c" by auto
    with less.prems(1) obtain k w where k: "0 < k" "k \<le> remaining" "pos (world s) + k \<le> length c"
        "pos w = pos (world s) + k"
        "fi_read io file remaining (world s) = (Inr (take k (drop (pos (world s)) c)), w)"
      unfolding serves_def by blast
    define d where "d = take k (drop (pos (world s)) c)"
    let ?t = "s\<lparr>world := w, trace := trace s @ [ECall ''read'' [RNat remaining] SUCCESS]\<rparr>"
    have d: "length d = k" "take remaining d = d" "d \<noteq> []" using k(1-3) by (auto simp: d_def)
    have step: "read_rest io err file remaining acc s = read_rest io err file (remaining - k) (acc @ d) ?t"
      using False k(5) [folded d_def] d by (subst read_rest.simps) (simp add: call_eval Let_def)
    have "length c - (remaining - k) = pos (world s) + k" using k less.prems(2,3) by linarith
    with less.prems(2,4) have "acc @ d = take (length c - (remaining - k)) c" by (simp add: take_add d_def)
    moreover have "pos (world ?t) = length c - (remaining - k)" using k less.prems(2,3) by simp
    ultimately show ?thesis
      unfolding step using k(1,2) less.prems(1,3) by (intro less.IH) auto
  qed
qed

subsection \<open>Which calls reading makes\<close>

lemma read_rest_unfold:
  "read_rest io err file remaining acc =
     (if remaining = 0 then ok acc
      else bindS (call (fi_read io file remaining) (\<lambda>r. ECall ''read'' [RNat remaining] (status_of r))) (\<lambda>r. case r of
        Inl st \<Rightarrow> fail (err AtRead st)
      | Inr data \<Rightarrow>
          let d = take remaining data in
          if d = [] then fail (err AtEnd END_OF_FILE)
          else read_rest io err file (remaining - length d) (acc @ d)))"
  by (rule ext, subst read_rest.simps) (auto simp: op_simps Let_def split: sum.split prod.split)

text \<open>An automaton that ignores the calls of the file protocols stays where it is.\<close>

definition ignores_files :: "('q \<Rightarrow> event \<Rightarrow> 'q option) \<Rightarrow> 'q \<Rightarrow> bool" where
  "ignores_files d q \<longleftrightarrow> (\<forall>tag vs st. tag \<in> {''get_image_file_system'', ''open'', ''read'', ''get_info''} \<longrightarrow>
       d q (ECall tag vs st) = Some q)
     \<and> (\<forall>fs st root. d q (EOpenVolume fs st root) = Some q) \<and> (\<forall>f st. d q (EFileClose f st) = Some q)
     \<and> (\<forall>h st. d q (ECloseProtocol h SimpleFS st) = Some q)"

abbreviation rests :: "('q \<Rightarrow> event \<Rightarrow> 'q option) \<Rightarrow> 'q \<Rightarrow> ('w, 'a) op \<Rightarrow> bool" where
  "rests d q m \<equiv> moves d m q (\<lambda>_ q'. q' = q)"

lemma rests_with_drop:
  assumes "rests d q m" "rests d q (\<lambda>s. ((), dr s))"
  shows "rests d q (with_drop m dr)"
  unfolding with_drop_bindS by (rule moves_then [OF assms(1)], rule moves_then [OF assms(2)]) (simp add: moves_ret)

lemma rests_drop_call:
  assumes "\<And>a. d q (ev a) = Some q" "\<And>s. dr s = snd (call f ev s)"
  shows "rests d q (\<lambda>s. ((), dr s))"
proof -
  have "(\<lambda>s. ((), dr s)) = bindS (call f ev) (\<lambda>_. ret ())"
    by (rule ext) (simp add: assms(2) op_simps split: prod.split)
  moreover have "rests d q (bindS (call f ev) (\<lambda>_. ret ()))"
    by (rule moves_then, rule moves_stay_call, rule assms(1)) (simp add: moves_ret)
  ultimately show ?thesis by simp
qed

lemma rests_read_rest:
  assumes "ignores_files d q"
  shows "rests d q (read_rest io err file remaining acc)"
proof (induction remaining arbitrary: acc rule: less_induct)
  case (less remaining)
  have c: "rests d q (call (fi_read io file remaining) (\<lambda>r. ECall ''read'' [RNat remaining] (status_of r)))"
    using assms by (intro moves_stay_call) (simp add: ignores_files_def)
  show ?case
  proof (cases "remaining = 0")
    case True
    then show ?thesis by (subst read_rest_unfold) (simp add: moves_ok)
  next
    case False
    then show ?thesis
      by (subst read_rest_unfold)
        (auto simp: Let_def intro!: moves_then [OF c] moves_fail less.IH split: sum.split)
  qed
qed

lemma rests_file_drop: "ignores_files d q \<Longrightarrow> rests d q (\<lambda>s. ((), file_drop fw f s))"
  by (rule rests_drop_call [of d q "EFileClose f"]) (auto simp: ignores_files_def file_drop_def)

lemma rests_file_system_drop: "ignores_files d q \<Longrightarrow> rests d q (\<lambda>s. ((), file_system_drop fw h s))"
  by (rule rests_drop_call [of d q "ECloseProtocol h SimpleFS"])
    (auto simp: ignores_files_def file_system_drop_def close_protocol_def)

lemma rests_with_regular_file:
  assumes "ignores_files d q" "\<And>file. rests d q (body file)"
  shows "rests d q (with_regular_file fw io err path body)"
proof -
  note closing = rests_file_drop [OF assms(1)] and fs = rests_file_system_drop [OF assms(1)]
  have "rests d q (call (fi_file_system io) (\<lambda>r. ECall ''get_image_file_system'' [] (status_of r)))"
    "rests d q (call (fw_open_volume fw i) (\<lambda>(st, root). EOpenVolume i st root))"
    "rests d q (call (fi_open io root path) (\<lambda>r. ECall ''open'' [RStr path] (status_of r)))" for i root
    using assms(1) by (auto intro!: moves_stay_call simp: ignores_files_def split: prod.split)
  then show ?thesis
    unfolding with_regular_file_def
    by (auto intro!: moves_then moves_fail rests_with_drop closing fs assms(2) moves_query split: sum.split prod.split)
qed

lemma rests_bindE:
  assumes "rests d q m" "\<And>a. rests d q (k a)"
  shows "rests d q (bindE m k)"
  by (rule moves_bindE [OF assms(1)]) (auto simp: assms(2) split: sum.split)

lemma rests_read_file:
  assumes q: "ignores_files d q"
  shows "rests d q (read_file fw io path maximum)"
proof -
  have "rests d q (file_size_of io f)" for f
    unfolding file_size_of_def by (rule moves_stay_call) (use q in \<open>simp add: ignores_files_def\<close>)
  then have "rests d q (read_contents io maximum f)" for f
    unfolding read_contents_def by (intro rests_bindE) (auto intro!: moves_fail rests_read_rest q)
  then show ?thesis unfolding read_file_def by (rule rests_with_regular_file [OF q])
qed

text \<open>The balance of a resource is an automaton, so reading a file keeps every resource it does not use.\<close>

definition balance_step :: "(event \<Rightarrow> 'k option) \<Rightarrow> (event \<Rightarrow> 'k option) \<Rightarrow> 'k multiset \<Rightarrow> event \<Rightarrow> 'k multiset option" where
  "balance_step acq rel held e = balance acq rel [e] held"

lemma run_balance: "run (balance_step acq rel) held evs = balance acq rel evs held"
  by (induction evs arbitrary: held) (simp_all add: balance_step_def split: option.split)

lemma neutral_rests: "(\<And>held. rests (balance_step acq rel) held m) \<Longrightarrow> neutral acq rel m"
  unfolding neutral_def shifts_def moves_def run_balance
  by (simp add: extends_def) (metis same_append_eq)

lemma neutral_read_file:
  assumes "\<And>held. ignores_files (balance_step acq rel) held"
  shows "neutral acq rel (read_file fw io path maximum)"
  by (intro neutral_rests rests_read_file assms)

subsection \<open>Properties\<close>

text \<open>Property C21: a file within the limit is read completely, however short the individual reads are: the
  contents are returned, from the first byte to the last.\<close>

theorem short_reads_are_assembled:
  assumes "serves io file pos c" "c \<noteq> []" "length c \<le> maximum" "maximum < 2 ^ 64"
    and "fi_size io file (world s) = (Inr (length c), w)" "pos w = 0"
  shows "fst (read_contents io maximum file s) = Inr c"
  using assms(2-6) read_rest_serves [OF assms(1), of _ "length c" "[]" "\<lambda>_ st. st"]
  by (simp add: read_contents_def file_size_of_def op_simps call_eval)

text \<open>A file that delivers one byte at a time.\<close>

definition slow_file :: "nat file_io" where
  "slow_file = \<lparr>fi_file_system = (\<lambda>w. (Inl NOT_FOUND, w)), fi_open = (\<lambda>_ _ w. (Inl NOT_FOUND, w)),
     fi_regular = (\<lambda>_ _. True), fi_size = (\<lambda>_ w. (Inr 3, w)),
     fi_read = (\<lambda>_ n w. (Inr (take 1 (drop w [10, 20, 30])), w + 1))\<rparr>"

theorem short_reads_are_assembled_witness:
  "fst (read_contents slow_file 4096 7 \<lparr>world = 0, trace = []\<rparr>) = Inr [10, 20, 30]"
proof (rule short_reads_are_assembled)
  show "serves slow_file 7 (\<lambda>w. w) [10, 20, 30]"
    by (auto simp: serves_def slow_file_def intro!: exI [of _ 1])
qed (simp_all add: slow_file_def)

end
