(* ===== verification/Picker.thy ===== *)
theory Picker
  imports Firmware_IO
begin

text \<open>
  The two interactive loops: the boot menu of src/src/picker.rs and the configuration recovery
  of src/src/configuration\_recovery.rs, and the watchdog call of src/src/watchdog.rs. The menu
  layout and navigation of the core library are the parameter \<open>vw\<close>. A loop that waits for a
  key may wait for ever; it takes fuel, one unit per round, and returns \<open>None\<close> when the fuel
  runs out. The fuel that is needed is the number of rounds until a key arrives
  (\<open>delivers\<close>).
\<close>

subsection \<open>Waiting for a key\<close>

text \<open>One round: the key event, the wait, and the read, which may find no key.\<close>

definition poll_key :: "'w firmware \<Rightarrow> ('w, status + key option) op" where
  "poll_key fw =
     bindS (call (fw_key_event fw) EKeyEvent) (\<lambda>st. if st \<noteq> SUCCESS then fail st else
     bindS (call (fw_wait_key fw) EWaitKey) (\<lambda>st. if st \<noteq> SUCCESS then fail st else
     call (fw_read_key fw) EReadKey))"

fun read_key :: "nat \<Rightarrow> 'w firmware \<Rightarrow> ('w, (status + key) option) op" where
  "read_key 0 fw = ret None"
| "read_key (Suc n) fw =
     bindS (poll_key fw) (\<lambda>r. case r of
       Inl e \<Rightarrow> ret (Some (Inl e))
     | Inr None \<Rightarrow> read_key n fw
     | Inr (Some k) \<Rightarrow> ret (Some (Inr k)))"

text \<open>
  What the firmware delivers, stated over its services alone: \<open>delivers fw n w r evs w'\<close> means that
  from the firmware state \<open>w\<close> the first \<open>n - 1\<close> complete rounds find no key and round \<open>n\<close> ends the
  wait with \<open>r\<close>, the status of the first service that fails or the key that was read; \<open>evs\<close> are
  the calls made and \<open>w'\<close> the firmware's state after the last one.
\<close>

inductive delivers :: "'w firmware \<Rightarrow> nat \<Rightarrow> 'w \<Rightarrow> status + key \<Rightarrow> event list \<Rightarrow> 'w \<Rightarrow> bool" for fw where
  no_event: "fw_key_event fw w = (st, w') \<Longrightarrow> st \<noteq> SUCCESS \<Longrightarrow> delivers fw 1 w (Inl st) [EKeyEvent st] w'"
| no_wait: "fw_key_event fw w = (SUCCESS, w1) \<Longrightarrow> fw_wait_key fw w1 = (st, w') \<Longrightarrow> st \<noteq> SUCCESS
    \<Longrightarrow> delivers fw 1 w (Inl st) [EKeyEvent SUCCESS, EWaitKey st] w'"
| no_read: "fw_key_event fw w = (SUCCESS, w1) \<Longrightarrow> fw_wait_key fw w1 = (SUCCESS, w2) \<Longrightarrow> fw_read_key fw w2 = (Inl e, w')
    \<Longrightarrow> delivers fw 1 w (Inl e) [EKeyEvent SUCCESS, EWaitKey SUCCESS, EReadKey (Inl e)] w'"
| pressed: "fw_key_event fw w = (SUCCESS, w1) \<Longrightarrow> fw_wait_key fw w1 = (SUCCESS, w2)
    \<Longrightarrow> fw_read_key fw w2 = (Inr (Some k), w')
    \<Longrightarrow> delivers fw 1 w (Inr k) [EKeyEvent SUCCESS, EWaitKey SUCCESS, EReadKey (Inr (Some k))] w'"
| idle: "fw_key_event fw w = (SUCCESS, w1) \<Longrightarrow> fw_wait_key fw w1 = (SUCCESS, w2)
    \<Longrightarrow> fw_read_key fw w2 = (Inr None, w3) \<Longrightarrow> delivers fw n w3 r evs w'
    \<Longrightarrow> delivers fw (Suc n) w r ([EKeyEvent SUCCESS, EWaitKey SUCCESS, EReadKey (Inr None)] @ evs) w'"

text \<open>The calls of a round that finds no key, and those with which a wait can end.\<close>

definition idle_round :: "event list" where
  "idle_round = [EKeyEvent SUCCESS, EWaitKey SUCCESS, EReadKey (Inr None)]"

definition last_round :: "status + key \<Rightarrow> event list \<Rightarrow> bool" where
  "last_round r evs = (case r of
     Inl e \<Rightarrow> (e \<noteq> SUCCESS \<and> evs = [EKeyEvent e]) \<or> (e \<noteq> SUCCESS \<and> evs = [EKeyEvent SUCCESS, EWaitKey e])
       \<or> evs = [EKeyEvent SUCCESS, EWaitKey SUCCESS, EReadKey (Inl e)]
   | Inr k \<Rightarrow> evs = [EKeyEvent SUCCESS, EWaitKey SUCCESS, EReadKey (Inr (Some k))])"

subsection \<open>The boot menu\<close>

datatype action = ABoot | ANext | APrevious | AFirst | ALast | ACancel | ANone
datatype update = Redraw | BootEntry nat | Cancel | Unchanged

text \<open>\<open>nextcore_core::boot_picker\<close>: navigation and rendering, where \<open>None\<close> is a rendering error.\<close>

record view =
  vw_navigate :: "nat \<Rightarrow> nat \<Rightarrow> action \<Rightarrow> nat \<times> update"
  vw_render :: "nat \<Rightarrow> nat \<Rightarrow> ustr list \<Rightarrow> ustr \<Rightarrow> nat \<Rightarrow> bool \<Rightarrow> (u8 \<times> u8 \<times> u8) list option"

definition action_of :: "key \<Rightarrow> action" where
  "action_of k = (case k of
     Printable c \<Rightarrow> if c = 13 then ABoot else if c = 9 then ANext else ANone
   | Special SC_LEFT \<Rightarrow> APrevious | Special SC_UP \<Rightarrow> APrevious
   | Special SC_RIGHT \<Rightarrow> ANext | Special SC_DOWN \<Rightarrow> ANext
   | Special SC_HOME \<Rightarrow> AFirst | Special SC_END \<Rightarrow> ALast | Special SC_ESCAPE \<Rightarrow> ACancel
   | _ \<Rightarrow> ANone)"

definition read_action :: "nat \<Rightarrow> 'w firmware \<Rightarrow> ('w, (status + action) option) op" where
  "read_action n fw = bindS (read_key n fw) (\<lambda>r. ret (case r of
     None \<Rightarrow> None | Some (Inl e) \<Rightarrow> Some (Inl e) | Some (Inr k) \<Rightarrow> Some (Inr (action_of k))))"

definition display :: "ustr \<Rightarrow> nat \<Rightarrow> ustr" where
  "display value cap = map (\<lambda>c. if c < 128 \<and> \<not> is_control c then c else 63) (take cap value)"

text \<open>
  The label of the volume the image was loaded from: its file system is opened exclusively and its
  root directory asked for the file system's information, into a buffer of 4096 bytes; the root
  is closed, then the protocol. A blank label, or none, is replaced.
\<close>

definition default_label :: ustr where
  "default_label = map of_char ''Current EFI volume''"

definition shown_label :: "ustr \<Rightarrow> ustr" where
  "shown_label l = (let l = display l 32 in if \<forall>c \<in> set l. c = 32 then default_label else l)"

definition volume_label :: "'w firmware \<Rightarrow> ('w, ustr) op" where
  "volume_label fw =
     bindS (call (fw_image_fs fw) (\<lambda>r. ECall ''get_image_file_system'' [] (status_of r))) (\<lambda>r. case r of
       Inl _ \<Rightarrow> ret default_label
     | Inr (h, fs) \<Rightarrow> with_drop
         (bindS (call (fw_open_volume fw fs) (\<lambda>(st, root). EOpenVolume fs st root)) (\<lambda>(st, root).
          if st \<noteq> SUCCESS then ret default_label
          else with_drop
            (bindS (call (fw_fs_label fw root 4096) (\<lambda>r. ECall ''get_info'' [RNat 4096] (status_of r))) (\<lambda>r.
             ret (case r of Inl _ \<Rightarrow> default_label | Inr l \<Rightarrow> shown_label l)))
            (file_drop fw root)))
         (file_system_drop fw h))"

definition draw :: "'w firmware \<Rightarrow> view \<Rightarrow> ustr list \<Rightarrow> ustr \<Rightarrow> nat \<Rightarrow> bool \<Rightarrow> ('w, unit) res" where
  "draw fw vw names volume selected starting =
     bindS (query (fw_resolution fw)) (\<lambda>(width, height).
     case vw_render vw width height names volume selected starting of
       None \<Rightarrow> fail UNSUPPORTED
     | Some pixels \<Rightarrow> bindS (call (fw_blt fw pixels) EBlt) (\<lambda>st. if st \<noteq> SUCCESS then fail st else ok ()))"

text \<open>The part of the list that is shown: its first index and its length.\<close>

definition window :: "nat \<Rightarrow> nat \<Rightarrow> nat \<Rightarrow> nat \<times> nat" where
  "window rows n selected =
     (let visible = min (max (rows - 10) 1) n;
          first = min (selected - visible div 2) (n - visible)
      in (first, visible))"

text \<open>Output that the firmware refuses is an error, except for colour and clearing.\<close>

definition required :: "'w firmware \<Rightarrow> string \<Rightarrow> rvalue list \<Rightarrow> ('w, unit) res" where
  "required fw tag vals = bindS (con_output fw tag vals) (\<lambda>st. if st \<noteq> SUCCESS then fail DEVICE_ERROR else ok ())"

fun draw_names :: "'w firmware \<Rightarrow> nat \<Rightarrow> nat \<Rightarrow> nat \<Rightarrow> ustr list \<Rightarrow> ('w, unit) res" where
  "draw_names fw columns selected i [] = ok ()"
| "draw_names fw columns selected i (x # xs) =
     bindE (required fw ''name'' [RBool (i = selected), RNat (i + 1), RStr (display x (columns - 10))])
       (\<lambda>_. draw_names fw columns selected (i + 1) xs)"

definition cosmetic :: "'w firmware \<Rightarrow> string \<Rightarrow> ('w, unit) op" where
  "cosmetic fw tag = bindS (con_output fw tag []) (\<lambda>st.
     if st \<noteq> SUCCESS then report fw ''NEXTCORE: PICKER_DISPLAY_WARNING'' [RText tag, RStat st] else ret ())"

definition draw_text :: "'w firmware \<Rightarrow> ustr list \<Rightarrow> ustr \<Rightarrow> nat \<Rightarrow> bool \<Rightarrow> ('w, unit) res" where
  "draw_text fw names volume selected starting =
     bindS (cosmetic fw ''color'') (\<lambda>_.
     bindS (cosmetic fw ''clear'') (\<lambda>_.
     bindS (query (fw_text_mode fw)) (\<lambda>mode.
     let (columns, rows) = (case mode of None \<Rightarrow> (80, 25) | Some m \<Rightarrow> m);
         (first, visible) = window rows (length names) selected in
     bindE (required fw ''title'' [RBool starting]) (\<lambda>_.
     bindE (draw_names fw columns selected first (take visible (drop first names))) (\<lambda>_.
     required fw ''footer'' [RStr (display volume (columns - 1))])))))"

text \<open>The graphics protocol that is held, if any; giving it up closes it.\<close>

definition close_graphics :: "'w firmware \<Rightarrow> handle option \<Rightarrow> ('w, unit) op" where
  "close_graphics fw gop = (case gop of
     None \<Rightarrow> ret () | Some h \<Rightarrow> bindS (close_protocol fw h GopG) (\<lambda>_. ret ()))"

definition open_graphics :: "'w firmware \<Rightarrow> ('w, handle option) op" where
  "open_graphics fw =
     bindS (locate_protocol fw GopG) (\<lambda>(st, h). case h of
       None \<Rightarrow> ret None
     | Some h \<Rightarrow> if st \<noteq> SUCCESS then ret None
         else bindS (open_protocol fw h GopG) (\<lambda>(st, i). ret (if st = SUCCESS then Some h else None)))"

text \<open>Redrawing: graphics first; when that fails it is given up before the text console is used.\<close>

definition redraw_menu :: "'w firmware \<Rightarrow> view \<Rightarrow> ustr list \<Rightarrow> ustr \<Rightarrow> nat \<Rightarrow> handle option \<Rightarrow> ('w, status + handle option) op" where
  "redraw_menu fw vw names volume selected gop =
     bindS (case gop of None \<Rightarrow> ret False
            | Some h \<Rightarrow> bindS (draw fw vw names volume selected False) (\<lambda>r. ret (is_ok r))) (\<lambda>rendered.
     if rendered then
       bindS (report fw ''NEXTCORE: PICKER_READY renderer=GOP'' [RNat selected]) (\<lambda>_. ret (Inr gop))
     else
       bindS (close_graphics fw gop) (\<lambda>_.
       bindS (draw_text fw names volume selected False) (\<lambda>r. case r of
         Inl e \<Rightarrow> ret (Inl e)
       | Inr _ \<Rightarrow> bindS (report fw ''NEXTCORE: PICKER_READY renderer=TEXT'' [RNat selected]) (\<lambda>_. ret (Inr None)))))"

text \<open>The result and the graphics protocol still held; \<open>None\<close> when the fuel ran out.\<close>

fun choose_loop :: "nat \<Rightarrow> 'w firmware \<Rightarrow> view \<Rightarrow> ustr list \<Rightarrow> ustr \<Rightarrow> nat \<Rightarrow> bool \<Rightarrow> handle option
    \<Rightarrow> ('w, (status + nat option) option \<times> handle option) op" where
  "choose_loop 0 fw vw names volume selected redraw gop = ret (None, gop)"
| "choose_loop (Suc n) fw vw names volume selected redraw gop =
     bindS (if redraw then redraw_menu fw vw names volume selected gop else ret (Inr gop)) (\<lambda>g. case g of
       Inl e \<Rightarrow> ret (Some (Inl e), None)
     | Inr gop \<Rightarrow>
         bindS (read_action n fw) (\<lambda>a. case a of
           None \<Rightarrow> ret (None, gop)
         | Some (Inl e) \<Rightarrow> ret (Some (Inl e), gop)
         | Some (Inr act) \<Rightarrow>
             (case vw_navigate vw selected (length names) act of (selected, up) \<Rightarrow>
               (case up of
                  Redraw \<Rightarrow> choose_loop n fw vw names volume selected True gop
                | Unchanged \<Rightarrow> choose_loop n fw vw names volume selected False gop
                | BootEntry i \<Rightarrow>
                    bindS (case gop of
                        Some h \<Rightarrow> draw fw vw names volume i True
                      | None \<Rightarrow> draw_text fw names volume i True) (\<lambda>r.
                    bindS (case r of
                        Inl e \<Rightarrow> report fw ''NEXTCORE: PICKER_DISPLAY_WARNING confirmation'' [RStat e]
                      | Inr _ \<Rightarrow> ret ()) (\<lambda>_.
                    bindS (report fw ''NEXTCORE: PICKER_BOOT'' [RNat i]) (\<lambda>_.
                    ret (Some (Inr (Some i)), gop))))
                | Cancel \<Rightarrow>
                    bindS (report fw ''NEXTCORE: PICKER_CANCEL'' []) (\<lambda>_.
                    bindS (close_graphics fw gop) (\<lambda>_.
                    bindS (con_output fw ''clear'' []) (\<lambda>_.
                    ret (Some (Inr None), None))))))))"

definition choose_entry :: "nat \<Rightarrow> 'w firmware \<Rightarrow> view \<Rightarrow> ustr list \<Rightarrow> ('w, (status + nat option) option) op" where
  "choose_entry fuel fw vw entries =
     (if entries = [] \<or> length entries > 64 then ret (Some (Inl INVALID_PARAMETER))
      else
        bindS (report fw ''NEXTCORE: PICKER_BEGIN'' [RNat (length entries)]) (\<lambda>_.
        bindS (query (fw_cursor fw)) (\<lambda>previous.
        bindS (con_output fw ''cursor'' [RBool False]) (\<lambda>_.
        let names = map (\<lambda>e. display e 64) entries in
        bindS (volume_label fw) (\<lambda>volume.
        bindS (open_graphics fw) (\<lambda>gop.
        bindS (choose_loop fuel fw vw names volume 0 True gop) (\<lambda>(result, gop).
        case result of
          None \<Rightarrow> ret None
        | Some r \<Rightarrow>
            bindS (close_graphics fw gop) (\<lambda>_.
            bindS (con_output fw ''cursor'' [RBool previous]) (\<lambda>_. ret (Some r))))))))))"

subsection \<open>Configuration recovery\<close>

datatype recovery = Retry | Exit

fun recovery_loop :: "nat \<Rightarrow> 'w firmware \<Rightarrow> ('w, (status + recovery) option) op" where
  "recovery_loop 0 fw = ret None"
| "recovery_loop (Suc n) fw =
     bindS (read_key (Suc n) fw) (\<lambda>r. case r of
       None \<Rightarrow> ret None
     | Some (Inl e) \<Rightarrow> ret (Some (Inl e))
     | Some (Inr k) \<Rightarrow>
         if k = Printable 13 then
           bindS (report fw ''NEXTCORE: CONFIG_RECOVERY_ACTION retry'' []) (\<lambda>_. ret (Some (Inr Retry)))
         else if k = Special SC_ESCAPE then
           bindS (report fw ''NEXTCORE: CONFIG_RECOVERY_ACTION exit'' []) (\<lambda>_. ret (Some (Inr Exit)))
         else recovery_loop n fw)"

text \<open>
  A message for the console must be encodable: \<open>CString16::try_from\<close> rejects characters outside
  the basic plane and NUL.
\<close>

definition ucs2 :: "ustr \<Rightarrow> bool" where
  "ucs2 msg \<longleftrightarrow> (\<forall>c \<in> set msg. 0 < c \<and> c < 0x10000)"

definition choose_recovery :: "nat \<Rightarrow> 'w firmware \<Rightarrow> ustr \<Rightarrow> ('w, (status + recovery) option) op" where
  "choose_recovery fuel fw reason =
     bindS (report fw ''NEXTCORE: CONFIG_RECOVERY_BEGIN'' [RStr reason]) (\<lambda>_.
     if \<not> ucs2 reason then ret (Some (Inl INVALID_PARAMETER))
     else
       bindS (con_output fw ''clear'' []) (\<lambda>st.
       bindS (if st \<noteq> SUCCESS then report fw ''NEXTCORE: CONFIG_RECOVERY_DISPLAY_WARNING'' [RStat st] else ret ()) (\<lambda>_.
       bindS (con_output fw ''recovery'' [RStr reason]) (\<lambda>st.
       if st \<noteq> SUCCESS then ret (Some (Inl st))
       else
         bindS (report fw ''NEXTCORE: CONFIG_RECOVERY_READY'' []) (\<lambda>_.
         recovery_loop fuel fw)))))"

subsection \<open>The watchdog\<close>

definition disable_with :: "(nat \<Rightarrow> nat \<Rightarrow> ('w, unit) res) \<Rightarrow> ('w, unit) res" where
  "disable_with set_timer = set_timer 0 0x10000"

definition disable :: "(nat \<Rightarrow> nat \<Rightarrow> 'w \<Rightarrow> (status + unit) \<times> 'w) \<Rightarrow> ('w, unit) res" where
  "disable set_watchdog = disable_with (\<lambda>seconds code.
     call (set_watchdog seconds code) (\<lambda>r. EOutput ''watchdog'' (status_of r)))"

subsection \<open>The first key ends the wait\<close>

lemma poll_key_eval:
  "poll_key fw s = (case fw_key_event fw (world s) of (st, w1) \<Rightarrow>
     if st \<noteq> SUCCESS then (Inl st, s\<lparr>world := w1, trace := trace s @ [EKeyEvent st]\<rparr>)
     else case fw_wait_key fw w1 of (st, w2) \<Rightarrow>
       if st \<noteq> SUCCESS then (Inl st, s\<lparr>world := w2, trace := trace s @ [EKeyEvent SUCCESS, EWaitKey st]\<rparr>)
       else case fw_read_key fw w2 of (r, w3) \<Rightarrow>
         (r, s\<lparr>world := w3, trace := trace s @ [EKeyEvent SUCCESS, EWaitKey SUCCESS, EReadKey r]\<rparr>))"
  by (auto simp: poll_key_def op_simps call_eval split: prod.split)

lemma read_key_Suc_eval:
  "read_key (Suc n) fw s = (case poll_key fw s of
     (Inl e, t) \<Rightarrow> (Some (Inl e), t)
   | (Inr None, t) \<Rightarrow> read_key n fw t
   | (Inr (Some k), t) \<Rightarrow> (Some (Inr k), t))"
  by (auto simp: op_simps split: prod.split sum.split option.split)

lemma read_key_delivered:
  "delivers fw k w r evs w' \<Longrightarrow> world s = w \<Longrightarrow> k \<le> n
    \<Longrightarrow> read_key n fw s = (Some r, s\<lparr>world := w', trace := trace s @ evs\<rparr>)"
proof (induction k w r evs w' arbitrary: n s rule: delivers.induct)
  case (idle w w1 w2 w3 k r evs w')
  then obtain m where "n = Suc m" "k \<le> m" by (cases n) auto
  with idle show ?case by (simp add: read_key_Suc_eval poll_key_eval del: read_key.simps)
qed (case_tac n; simp add: read_key_Suc_eval poll_key_eval del: read_key.simps(2))+

lemma read_key_only_delivered:
  "read_key n fw s = (Some r, t) \<Longrightarrow>
    \<exists>k \<le> n. \<exists>evs w'. delivers fw k (world s) r evs w' \<and> t = s\<lparr>world := w', trace := trace s @ evs\<rparr>"
proof (induction n arbitrary: s)
  case 0
  then show ?case by (simp add: op_simps)
next
  case (Suc n)
  obtain st w1 where e: "fw_key_event fw (world s) = (st, w1)" by fastforce
  obtain st' w2 where w: "fw_wait_key fw w1 = (st', w2)" by fastforce
  obtain a w3 where a: "fw_read_key fw w2 = (a, w3)" by fastforce
  have once: "\<exists>k \<le> Suc n. \<exists>evs w'. delivers fw k (world s) r evs w' \<and> t = s\<lparr>world := w', trace := trace s @ evs\<rparr>"
    if "\<exists>evs w'. delivers fw 1 (world s) r evs w' \<and> t = s\<lparr>world := w', trace := trace s @ evs\<rparr>"
    using that by (intro exI [of _ 1]) simp
  consider "st \<noteq> SUCCESS" | "st = SUCCESS" "st' \<noteq> SUCCESS" | x where "st = SUCCESS" "st' = SUCCESS" "a = Inl x"
    | x where "st = SUCCESS" "st' = SUCCESS" "a = Inr (Some x)" | "st = SUCCESS" "st' = SUCCESS" "a = Inr None"
    by (metis option.exhaust sum.exhaust)
  then show ?case
  proof cases
    case 1
    with Suc.prems e w a delivers.no_event [of fw "world s" st w1] show ?thesis
      by (intro once exI [of _ "[EKeyEvent st]"] exI [of _ w1]) (simp add: read_key_Suc_eval poll_key_eval del: read_key.simps)
  next
    case 2
    with Suc.prems e w a delivers.no_wait [of fw "world s" w1 st' w2] show ?thesis
      by (intro once exI [of _ "[EKeyEvent SUCCESS, EWaitKey st']"] exI [of _ w2]) (simp add: read_key_Suc_eval poll_key_eval del: read_key.simps)
  next
    case 3
    with Suc.prems e w a delivers.no_read [of fw "world s" w1 w2 x w3] show ?thesis
      by (intro once exI [of _ "[EKeyEvent SUCCESS, EWaitKey SUCCESS, EReadKey (Inl x)]"] exI [of _ w3]) (simp add: read_key_Suc_eval poll_key_eval del: read_key.simps)
  next
    case 4
    with Suc.prems e w a delivers.pressed [of fw "world s" w1 w2 x w3] show ?thesis
      by (intro once exI [of _ "[EKeyEvent SUCCESS, EWaitKey SUCCESS, EReadKey (Inr (Some x))]"] exI [of _ w3]) (simp add: read_key_Suc_eval poll_key_eval del: read_key.simps)
  next
    case 5
    let ?s = "s\<lparr>world := w3, trace := trace s @ [EKeyEvent SUCCESS, EWaitKey SUCCESS, EReadKey (Inr None)]\<rparr>"
    from 5 Suc.prems e w a have "read_key n fw ?s = (Some r, t)"
      by (simp add: read_key_Suc_eval poll_key_eval del: read_key.simps)
    from Suc.IH [OF this] obtain k evs w' where "k \<le> n" "delivers fw k w3 r evs w'"
      "t = ?s\<lparr>world := w', trace := trace ?s @ evs\<rparr>" by auto
    with delivers.idle [of fw "world s" w1 w2 w3 k r evs w'] 5(1,2,3) e w a show ?thesis
      by (intro exI [of _ "Suc k"] conjI exI [of _ "[EKeyEvent SUCCESS, EWaitKey SUCCESS, EReadKey (Inr None)] @ evs"] exI [of _ w'])
        simp_all
  qed
qed

lemma delivers_calls:
  "delivers fw k w r evs w' \<Longrightarrow> \<exists>i < k. \<exists>l. evs = concat (replicate i idle_round) @ l \<and> last_round r l"
proof (induction k w r evs w' rule: delivers.induct)
  case (idle w w1 w2 w3 k r evs w')
  then obtain i l where "i < k" "evs = concat (replicate i idle_round) @ l" "last_round r l" by blast
  then show ?case
    by (intro exI [of _ "Suc i"] conjI exI [of _ l]) (auto simp: idle_round_def)
qed (auto simp: last_round_def)

lemma read_key_calls:
  "extends (read_key n fw) (\<lambda>r evs. case r of
     None \<Rightarrow> evs = concat (replicate n idle_round)
   | Some r \<Rightarrow> \<exists>i < n. \<exists>l. evs = concat (replicate i idle_round) @ l \<and> last_round r l)"
proof (induction n)
  case (Suc n)
  have "extends (poll_key fw) (\<lambda>p evs. case p of Inl e \<Rightarrow> last_round (Inl e) evs
      | Inr None \<Rightarrow> evs = idle_round | Inr (Some k) \<Rightarrow> last_round (Inr k) evs)"
    unfolding extends_def
    by (auto simp: poll_key_eval last_round_def idle_round_def split: prod.split sum.split option.split)
  then show ?case
    unfolding read_key.simps
  proof (rule extends_bindS, goal_cases)
    case (1 p evs)
    then show ?case
      by (auto intro!: extends_ret extends_mono [OF Suc.IH] split: sum.splits option.splits)
        (metis Suc_mono append_assoc concat.simps(2) replicate_Suc)
  qed
qed (simp add: extends_ret)

subsection \<open>The shown window contains the selection\<close>

lemma window_contains:
  assumes "selected < n" "window rows n selected = (first, visible)"
  shows "first \<le> selected \<and> selected < first + visible \<and> first + visible \<le> n"
proof -
  from assms have v: "visible = min (max (rows - 10) 1) n"
    and f: "first = min (selected - visible div 2) (n - visible)"
    by (auto simp: window_def Let_def)
  from v assms(1) have "1 \<le> visible" "visible \<le> n" by auto
  with f assms(1) show ?thesis by (auto simp: min_def split: if_splits)
qed

lemma length_display: "length (display value cap) \<le> cap"
  by (simp add: display_def)

lemma display_ascii: "c \<in> set (display value cap) \<Longrightarrow> 0x20 \<le> c \<and> c < 0x7f"
  by (auto simp: display_def is_control_def)

subsection \<open>Graphics and text do not mix\<close>

text \<open>
  The order of events the menu must keep: one graphics protocol at a time; text output only while
  none is held; drawing only while one is; a close names the handle that was opened.
\<close>

definition gop_step :: "handle option \<Rightarrow> event \<Rightarrow> handle option option" where
  "gop_step q e = (case e of
     EOpenProtocol h g st i \<Rightarrow>
       if g = GopG \<and> st = SUCCESS then (if q = None then Some (Some h) else None) else Some q
   | ECloseProtocol h g st \<Rightarrow> if g = GopG then (if q = Some h then Some None else None) else Some q
   | EOutput tag st \<Rightarrow> if q = None then Some q else None
   | EBlt st \<Rightarrow> if q \<noteq> None then Some q else None
   | _ \<Rightarrow> Some q)"

abbreviation stays :: "('w, 'a) op \<Rightarrow> handle option \<Rightarrow> bool" where
  "stays m q \<equiv> moves gop_step m q (\<lambda>_ q'. q' = q)"

lemma stays_report: "stays (report fw m vs) q"
  unfolding report_def by (rule moves_call) (simp add: gop_step_def)

lemma stays_output: "stays (con_output fw tag vs) None"
  unfolding con_output_def by (rule moves_call) (simp add: gop_step_def)

lemma stays_poll_key: "stays (poll_key fw) q"
proof -
  have "stays (call (fw_key_event fw) EKeyEvent) q" "stays (call (fw_wait_key fw) EWaitKey) q"
    "stays (call (fw_read_key fw) EReadKey) q"
    by (rule moves_call; simp add: gop_step_def)+
  then show ?thesis unfolding poll_key_def by (auto intro!: moves_then moves_fail)
qed

lemma stays_read_key: "stays (read_key n fw) q"
  by (induction n) (auto intro!: moves_ret moves_then [OF stays_poll_key] moves_cases)

lemma stays_read_action: "stays (read_action n fw) q"
  unfolding read_action_def by (intro moves_then [OF stays_read_key] moves_ret) simp

lemma stays_draw: "stays (draw fw vw names volume i starting) (Some h)"
proof -
  have "stays (call (fw_blt fw pixels) EBlt) (Some h)" for pixels
    by (rule moves_call) (simp add: gop_step_def)
  then show ?thesis
    unfolding draw_def by (intro moves_then [OF moves_query] moves_cases)
      (auto intro!: moves_fail moves_ok moves_then)
qed

lemma stays_required: "stays (required fw tag vals) None"
  unfolding required_def by (auto intro!: moves_then [OF stays_output] moves_fail moves_ok)

lemma stays_draw_names: "stays (draw_names fw columns selected i xs) None"
  by (induction xs arbitrary: i) (auto intro!: moves_ok moves_bindE [OF stays_required])

lemma stays_draw_text: "stays (draw_text fw names volume i starting) None"
proof -
  have "stays (cosmetic fw tag) None" for tag
    unfolding cosmetic_def by (auto intro!: moves_then [OF stays_output] stays_report moves_ret)
  then show ?thesis
    unfolding draw_text_def Let_def
    by (intro moves_then moves_query) (auto intro!: moves_cases moves_bindE [OF stays_required]
        moves_bindE [OF stays_draw_names] stays_required)
qed

lemma moves_close_graphics: "moves gop_step (close_graphics fw gop) gop (\<lambda>_ q. q = None)"
proof (cases gop)
  case (Some h)
  have "moves gop_step (close_protocol fw h GopG) (Some h) (\<lambda>_ q. q = None)"
    unfolding close_protocol_def by (rule moves_call) (simp add: gop_step_def)
  with Some show ?thesis by (auto simp: close_graphics_def intro: moves_bindS moves_ret)
qed (simp add: close_graphics_def moves_ret)

lemma moves_open_graphics: "moves gop_step (open_graphics fw) None (\<lambda>r q. q = r)"
proof -
  have l: "stays (locate_protocol fw GopG) None"
    unfolding locate_protocol_def by (rule moves_call) (simp add: gop_step_def)
  have o: "moves gop_step (open_protocol fw h GopG) None (\<lambda>(st, i) q. q = (if st = SUCCESS then Some h else None))" for h
    unfolding open_protocol_def by (rule moves_call) (auto simp: gop_step_def)
  show ?thesis
    unfolding open_graphics_def
    by (rule moves_then [OF l]) (auto intro!: moves_cases moves_ret moves_bindS [OF o])
qed

lemma moves_redraw_menu:
  "moves gop_step (redraw_menu fw vw names volume i gop) gop (\<lambda>r q. q = (case r of Inl _ \<Rightarrow> None | Inr g \<Rightarrow> g))"
proof -
  have first: "stays (case gop of None \<Rightarrow> ret False
      | Some h \<Rightarrow> bindS (draw fw vw names volume i False) (\<lambda>r. ret (is_ok r))) gop"
    by (cases gop) (auto intro!: moves_ret moves_then [OF stays_draw])
  show ?thesis
    unfolding redraw_menu_def
    by (rule moves_then [OF first]) (auto intro!: moves_if moves_then [OF stays_report] moves_ret
        moves_bindS [OF moves_close_graphics] moves_bindS [OF stays_draw_text] moves_case_sum)
qed

lemma moves_choose_loop:
  "moves gop_step (choose_loop n fw vw names volume i redraw gop) gop (\<lambda>(r, g) q. q = g)"
proof (induction n arbitrary: i redraw gop)
  case 0
  then show ?case by (simp add: moves_ret)
next
  case (Suc n)
  have first: "moves gop_step (if redraw then redraw_menu fw vw names volume i gop else ret (Inr gop)) gop
      (\<lambda>r q. q = (case r of Inl _ \<Rightarrow> None | Inr g \<Rightarrow> g))"
    by (auto intro: moves_redraw_menu moves_ret)
  have confirm: "stays (case g of Some h \<Rightarrow> draw fw vw names volume k True | None \<Rightarrow> draw_text fw names volume k True) g" for g k
    by (cases g) (auto intro: stays_draw stays_draw_text)
  have warn: "stays (case r of Inl e \<Rightarrow> report fw m [RStat e] | Inr _ \<Rightarrow> ret ()) g" for r g m
    by (cases r) (auto intro: stays_report moves_ret)
  show ?case
    unfolding choose_loop.simps
  proof (rule moves_bindS [OF first], goal_cases)
    case (1 g q)
    show ?case
    proof (cases g)
      case (Inl e)
      with 1 show ?thesis by (simp add: moves_ret)
    next
      case (Inr gop')
      have "moves gop_step (case up of
                  Redraw \<Rightarrow> choose_loop n fw vw names volume sel True gop'
                | Unchanged \<Rightarrow> choose_loop n fw vw names volume sel False gop'
                | BootEntry i \<Rightarrow>
                    bindS (case gop' of
                        Some h \<Rightarrow> draw fw vw names volume i True
                      | None \<Rightarrow> draw_text fw names volume i True) (\<lambda>r.
                    bindS (case r of
                        Inl e \<Rightarrow> report fw ''NEXTCORE: PICKER_DISPLAY_WARNING confirmation'' [RStat e]
                      | Inr _ \<Rightarrow> ret ()) (\<lambda>_.
                    bindS (report fw ''NEXTCORE: PICKER_BOOT'' [RNat i]) (\<lambda>_.
                    ret (Some (Inr (Some i)), gop'))))
                | Cancel \<Rightarrow>
                    bindS (report fw ''NEXTCORE: PICKER_CANCEL'' []) (\<lambda>_.
                    bindS (close_graphics fw gop') (\<lambda>_.
                    bindS (con_output fw ''clear'' []) (\<lambda>_.
                    ret (Some (Inr None), None))))) gop' (\<lambda>(r, g) q. q = g)" for up sel
        by (cases up) (auto intro!: Suc.IH moves_then [OF confirm] moves_then [OF warn] moves_then [OF stays_report]
            moves_bindS [OF moves_close_graphics] moves_then [OF stays_output] moves_ret)
      with 1 Inr show ?thesis
        by (auto intro!: moves_then [OF stays_read_action] moves_cases moves_ret)
    qed
  qed
qed

lemma stays_volume_label: "stays (volume_label fw) q"
proof -
  have q: "ignores_files gop_step q" by (simp add: ignores_files_def gop_step_def)
  have "stays (call (fw_image_fs fw) (\<lambda>r. ECall ''get_image_file_system'' [] (status_of r))) q"
    "stays (call (fw_open_volume fw i) (\<lambda>(st, root). EOpenVolume i st root)) q"
    "stays (call (fw_fs_label fw i 4096) (\<lambda>r. ECall ''get_info'' [RNat 4096] (status_of r))) q" for i
    by (auto intro!: moves_stay_call simp: gop_step_def split: prod.split)
  then show ?thesis
    unfolding volume_label_def
    by (auto intro!: moves_then moves_ret rests_with_drop rests_file_drop [OF q] rests_file_system_drop [OF q]
        split: sum.split prod.split)
qed

lemma choose_entry_moves:
  "moves gop_step (choose_entry fuel fw vw entries) None (\<lambda>r q. r = None \<or> q = None)"
proof -
  have rest: "moves gop_step (case r of
        None \<Rightarrow> ret None
      | Some r \<Rightarrow> bindS (close_graphics fw g) (\<lambda>_. bindS (con_output fw ''cursor'' [RBool b]) (\<lambda>_. ret (Some r))))
      g (\<lambda>r q. r = None \<or> q = None)" for r g b
    by (cases r) (auto intro!: moves_ret moves_bindS [OF moves_close_graphics] moves_then [OF stays_output])
  show ?thesis
    unfolding choose_entry_def Let_def
    by (intro moves_if moves_ret moves_then [OF stays_report] moves_then [OF moves_query]
        moves_then [OF stays_output] moves_then [OF stays_volume_label] moves_bindS [OF moves_open_graphics])
      (auto intro!: moves_bindS [OF moves_choose_loop] rest)
qed

subsection \<open>The chosen entry exists\<close>

definition navigates :: "view \<Rightarrow> nat \<Rightarrow> bool" where
  "navigates vw n \<longleftrightarrow> (\<forall>sel act. sel < n \<longrightarrow> (case vw_navigate vw sel n act of (sel', up) \<Rightarrow>
     sel' < n \<and> (case up of BootEntry i \<Rightarrow> i < n | _ \<Rightarrow> True)))"

definition in_menu :: "nat \<Rightarrow> (status + nat option) option \<Rightarrow> bool" where
  "in_menu n r = (case r of Some (Inr (Some i)) \<Rightarrow> i < n | _ \<Rightarrow> True)"

lemma in_menu_simps [simp]:
  "in_menu n None" "in_menu n (Some (Inl e))" "in_menu n (Some (Inr None))"
  "in_menu n (Some (Inr (Some i))) = (i < n)"
  by (simp_all add: in_menu_def)

lemma choose_loop_in_menu:
  assumes "navigates vw (length names)"
  shows "i < length names \<Longrightarrow>
    post (choose_loop n fw vw names volume i redraw gop) (\<lambda>(r, g). in_menu (length names) r)"
proof (induction n arbitrary: i redraw gop)
  case 0
  then show ?case by (simp add: post_ret)
next
  case (Suc n)
  have nav: "sel < length names \<and> (case up of BootEntry i \<Rightarrow> i < length names | _ \<Rightarrow> True)"
    if "vw_navigate vw i (length names) act = (sel, up)" for act sel up
    using assms Suc.prems that unfolding navigates_def by (metis (no_types, lifting) case_prod_conv)
  show ?case
    unfolding choose_loop.simps
  proof (rule post_after, rule post_case_sum, simp add: post_ret,
      rule post_after, rule post_case_option, simp add: post_ret,
      rule post_case_sum, simp add: post_ret, rule post_case_prod, goal_cases)
    case (1 g gop' a ra act sel up)
    with nav [of act sel up] show ?case
      by (cases up) (auto intro!: post_after post_ret Suc.IH simp del: choose_loop.simps)
  qed
qed

subsection \<open>Properties\<close>

text \<open>Property C14: waiting for a key with fuel \<open>n\<close> returns a result exactly when the firmware's key
  event, wait and read services deliver one within \<open>n\<close> rounds, and then it returns that result,
  the first key read or the first status that is not success, having made exactly the calls of
  those rounds and left the firmware in the state of the last one. Seen in the trace: every round
  asks for the event, waits for it and only then reads, no key that was read is dropped, and
  nothing is called after the key or the error; when the fuel runs out all \<open>n\<close> rounds found no
  key.\<close>

theorem first_key_is_returned:
  "(read_key n fw s = (Some r, t) \<longleftrightarrow>
     (\<exists>k \<le> n. \<exists>evs w'. delivers fw k (world s) r evs w' \<and> t = s\<lparr>world := w', trace := trace s @ evs\<rparr>))
   \<and> extends (read_key n fw) (\<lambda>r evs. case r of
       None \<Rightarrow> evs = concat (replicate n idle_round)
     | Some r \<Rightarrow> \<exists>i < n. \<exists>l. evs = concat (replicate i idle_round) @ l \<and> last_round r l)"
proof (intro conjI iffI read_key_calls)
  assume "\<exists>k \<le> n. \<exists>evs w'. delivers fw k (world s) r evs w' \<and> t = s\<lparr>world := w', trace := trace s @ evs\<rparr>"
  then show "read_key n fw s = (Some r, t)" using read_key_delivered [OF _ refl] by fast
qed (rule read_key_only_delivered)

text \<open>The menu keeps graphics and text apart: it draws only while it holds the graphics
  protocol, writes text only while it does not, closes exactly the handle it opened, and has
  closed it whenever it returns.\<close>

theorem menu_keeps_graphics_and_text_apart:
  "moves gop_step (choose_entry fuel fw vw entries) None (\<lambda>r q. r = None \<or> q = None)"
  by (rule choose_entry_moves)

text \<open>When navigation stays inside the list, as the core library documents, the menu only
  ever returns the index of an existing entry.\<close>

theorem chosen_entry_exists:
  assumes "navigates vw (length entries)"
  shows "post (choose_entry fuel fw vw entries) (in_menu (length entries))"
proof (cases "entries = [] \<or> length entries > 64")
  case True
  then show ?thesis by (auto simp: choose_entry_def intro: post_ret)
next
  case False
  let ?names = "map (\<lambda>e. display e 64) entries"
  have loop: "post (choose_loop fuel fw vw ?names volume 0 True gop) (\<lambda>(r, g). in_menu (length entries) r)" for volume gop
    using choose_loop_in_menu [of vw ?names 0] assms False by simp
  show ?thesis
    unfolding choose_entry_def Let_def if_not_P [OF False]
    by (rule post_after, rule post_after, rule post_after, rule post_after, rule post_after,
      rule post_bindS [OF loop], rule post_case_prod, rule post_case_option)
      (auto intro!: post_ret post_after)
qed

definition wrap_view :: view where
  "wrap_view = \<lparr>vw_navigate = (\<lambda>sel n act. case act of
       ANext \<Rightarrow> ((sel + 1) mod n, Redraw) | ABoot \<Rightarrow> (sel, BootEntry sel) | ACancel \<Rightarrow> (sel, Cancel)
     | _ \<Rightarrow> (sel, Unchanged)),
     vw_render = (\<lambda>_ _ _ _ _ _. Some [])\<rparr>"

theorem chosen_entry_exists_witness:
  "post (choose_entry 5 (example_firmware\<lparr>fw_read_key := \<lambda>w. (Inr (Some (Printable 13)), w)\<rparr>) wrap_view [[65], [66]])
     (in_menu 2)"
proof -
  have "navigates wrap_view (length [[65], [66 :: nat]])"
    by (auto simp: navigates_def wrap_view_def split: action.split)
  from chosen_entry_exists [OF this] show ?thesis by (simp add: numeral_2_eq_2)
qed

end
