(* ===== verification/Console_Control.thy ===== *)
theory Console_Control
  imports UEFI
begin

text \<open>
  The console control service of src/src/console\_control.rs: the provider's three callbacks and
  its bounded telemetry, and the lease that publishes the interface and removes it. A lease
  whose interface cannot be removed never returns: the result \<open>None\<close> stands for the loop that
  keeps the image resident. Null pointers are \<open>None\<close>.
\<close>

definition TEXT_MODE :: nat where "TEXT_MODE = 0"
definition GRAPHICS_MODE :: nat where "GRAPHICS_MODE = 1"

text \<open>
  The text console of the system table: its current and maximal mode (\<open>None\<close> when a pointer is
  null), the query of a mode's size, setting a mode, and writing to the serial port, whose
  result is ignored.
\<close>

record 'w console_io =
  cio_text :: "'w \<Rightarrow> (int \<times> int) option"
  cio_query_mode :: "nat \<Rightarrow> 'w \<Rightarrow> (status \<times> nat \<times> nat) \<times> 'w"
  cio_set_mode :: "nat \<Rightarrow> 'w \<Rightarrow> status \<times> 'w"
  cio_serial_write :: "u8 list \<Rightarrow> 'w \<Rightarrow> status \<times> 'w"

record provider =
  pv_serial :: "nat option"
  pv_logging :: bool
  pv_events :: u64

definition classify_lookup :: "status \<Rightarrow> nat option \<Rightarrow> status + nat option" where
  "classify_lookup st found =
     (if st = SUCCESS \<and> found \<noteq> None then Inr found
      else if st = SUCCESS then Inl DEVICE_ERROR
      else if st = NOT_FOUND then Inr None
      else Inl st)"

definition locate :: "'w firmware \<Rightarrow> guid \<Rightarrow> ('w, status + nat option) op" where
  "locate fw g = bindS (locate_protocol fw g) (\<lambda>(st, found). lift (classify_lookup st found))"

definition text_state :: "'w console_io \<Rightarrow> ('w, status + nat \<times> nat \<times> nat) op" where
  "text_state io =
     bindS (query (cio_text io)) (\<lambda>m. case m of
       None \<Rightarrow> fail NOT_READY
     | Some (mode, max_mode) \<Rightarrow>
         if mode < 0 \<or> mode \<ge> max_mode then fail NOT_READY
         else bindS (call (cio_query_mode io (nat mode)) (\<lambda>(st, c, r). ECall ''query_mode'' [] st)) (\<lambda>(st, columns, rows).
           if st \<noteq> SUCCESS then fail st
           else if columns = 0 \<or> rows = 0 then fail NOT_READY
           else ok (nat mode, columns, rows)))"

definition graphics_exists :: "'w firmware \<Rightarrow> ('w, status + bool) op" where
  "graphics_exists fw =
     bindE (locate fw GopG) (\<lambda>r. if r \<noteq> None then ok True
       else bindE (locate fw UgaG) (\<lambda>r. ok (r \<noteq> None)))"

subsection \<open>Telemetry\<close>

text \<open>\<open>write_str\<close> into the 256 byte buffer, and the pieces of a formatted line one after another.\<close>

definition line_write :: "u8 list \<Rightarrow> u8 list \<Rightarrow> u8 list option" where
  "line_write line piece = (if length line + length piece \<le> 256 then Some (line @ piece) else None)"

fun line_pieces :: "u8 list \<Rightarrow> u8 list list \<Rightarrow> u8 list option" where
  "line_pieces line [] = Some line"
| "line_pieces line (x # xs) = (case line_write line x of None \<Rightarrow> None | Some l \<Rightarrow> line_pieces l xs)"

definition telemetry :: "'w console_io \<Rightarrow> u8 list list \<Rightarrow> provider \<Rightarrow> ('w, provider) op" where
  "telemetry io pieces p =
     (if pv_serial p = None then ret p
      else let n = pv_events p; p = p\<lparr>pv_events := n + 1\<rparr> in
        if n \<ge> 64 then ret p
        else if pv_logging p then ret p
        else case line_pieces [] (pieces @ [[13, 10]]) of
            None \<Rightarrow> ret (p\<lparr>pv_logging := False\<rparr>)
          | Some line \<Rightarrow>
              bindS (call (cio_serial_write io line) (ECall ''serial_write'' [RNat (length line)]))
                (\<lambda>_. ret (p\<lparr>pv_logging := False\<rparr>)))"

subsection \<open>The callbacks\<close>

text \<open>\<open>fmt\<close> formats a telemetry line; a callback's pointers are given by whether they are null.\<close>

record mode_out =
  out_mode :: "nat option"
  out_graphics :: "bool option"
  out_locked :: "bool option"

definition get_mode :: "'w firmware \<Rightarrow> 'w console_io \<Rightarrow> (string \<Rightarrow> rvalue list \<Rightarrow> u8 list list) \<Rightarrow> bool
    \<Rightarrow> bool \<Rightarrow> bool \<Rightarrow> bool \<Rightarrow> provider \<Rightarrow> ('w, status \<times> mode_out \<times> provider) op" where
  "get_mode fw io fmt this mode graphics locked p =
     (let none = \<lparr>out_mode = None, out_graphics = None, out_locked = None\<rparr> in
      if \<not> this then ret (INVALID_PARAMETER, none, p)
      else bindS (bindE (text_state io) (\<lambda>_. graphics_exists fw)) (\<lambda>result.
        let st = status_of result;
            out = (case result of Inl _ \<Rightarrow> none
              | Inr e \<Rightarrow> \<lparr>out_mode = (if mode then Some TEXT_MODE else None),
                         out_graphics = (if graphics then Some e else None),
                         out_locked = (if locked then Some False else None)\<rparr>) in
        bindS (telemetry io (fmt ''NEXTCORE: CONSOLE_GET_MODE'' [RStat st]) p) (\<lambda>p. ret (st, out, p))))"

definition set_mode :: "'w console_io \<Rightarrow> (string \<Rightarrow> rvalue list \<Rightarrow> u8 list list) \<Rightarrow> bool \<Rightarrow> nat \<Rightarrow> provider
    \<Rightarrow> ('w, status \<times> provider) op" where
  "set_mode io fmt this mode p =
     (if \<not> this then ret (INVALID_PARAMETER, p)
      else bindS (if mode = TEXT_MODE then
             bindS (text_state io) (\<lambda>r. case r of
               Inl e \<Rightarrow> ret e
             | Inr (index, _, _) \<Rightarrow> call (cio_set_mode io index) (ECall ''set_mode'' [RNat index]))
           else if mode = GRAPHICS_MODE then ret UNSUPPORTED
           else ret INVALID_PARAMETER) (\<lambda>st.
        bindS (telemetry io (fmt ''NEXTCORE: CONSOLE_SET_MODE'' [RNat mode, RStat st]) p) (\<lambda>p. ret (st, p))))"

definition lock_stdin :: "'w console_io \<Rightarrow> (string \<Rightarrow> rvalue list \<Rightarrow> u8 list list) \<Rightarrow> bool \<Rightarrow> bool \<Rightarrow> provider
    \<Rightarrow> ('w, status \<times> provider) op" where
  "lock_stdin io fmt this password p =
     (if \<not> this then ret (INVALID_PARAMETER, p)
      else let st = (if \<not> password then SUCCESS else DEVICE_ERROR) in
        bindS (telemetry io (fmt ''NEXTCORE: CONSOLE_LOCK_STDIN'' [RBool password, RStat st]) p) (\<lambda>p. ret (st, p)))"

subsection \<open>The lease\<close>

record lease =
  ls_owned :: "(handle \<times> provider) option"
  ls_interface :: nat

definition lease_drop :: "'w firmware \<Rightarrow> lease \<Rightarrow> ('w, unit option) op" where
  "lease_drop fw l =
     (case ls_owned l of
        None \<Rightarrow> bindS (report fw ''NEXTCORE: CONSOLE_RELEASE reused=true removed=false'' []) (\<lambda>_. ret (Some ()))
      | Some (h, p) \<Rightarrow>
          bindS (call (fw_uninstall fw h ConsoleControlG (ls_interface l))
                   (EUninstall h ConsoleControlG (ls_interface l))) (\<lambda>st.
          bindS (report fw ''NEXTCORE: CONSOLE_UNINSTALL'' [RStat st]) (\<lambda>_.
          if st \<noteq> SUCCESS then
            bindS (report fw ''NEXTCORE: CONSOLE_RETAINED image_resident=true'' []) (\<lambda>_. ret None)
          else
            bindS (report fw ''NEXTCORE: CONSOLE_RELEASE reused=false removed=true'' []) (\<lambda>_. ret (Some ())))))"

definition release :: "'w firmware \<Rightarrow> lease \<Rightarrow> ('w, unit option) op" where
  "release fw l = lease_drop fw l"

definition rejecting :: "'w firmware \<Rightarrow> lease \<Rightarrow> status \<Rightarrow> ('w, (status + lease) option) op" where
  "rejecting fw l e = bindS (lease_drop fw l) (\<lambda>r. ret (case r of None \<Rightarrow> None | Some _ \<Rightarrow> Some (Inl e)))"

text \<open>\<open>address\<close> is where the provider's interface is allocated.\<close>

definition publish :: "'w firmware \<Rightarrow> nat \<Rightarrow> provider \<Rightarrow> nat \<times> nat \<times> nat \<Rightarrow> bool \<Rightarrow> ('w, (status + lease) option) op" where
  "publish fw address p = (\<lambda>(index, columns, rows) graphics.
     bindS (call (fw_install fw ConsoleControlG address) (EInstall ConsoleControlG address)) (\<lambda>r. case r of
       Inl e \<Rightarrow> ret (Some (Inl e))
     | Inr h \<Rightarrow>
         let l = \<lparr>ls_owned = Some (h, p), ls_interface = address\<rparr> in
         bindS (locate fw ConsoleControlG) (\<lambda>r. case r of
           Inl e \<Rightarrow> rejecting fw l e
         | Inr found \<Rightarrow>
             if found \<noteq> Some address then rejecting fw l DEVICE_ERROR
             else bindS (report fw ''NEXTCORE: CONSOLE_INSTALLED'' [RNat index, RNat columns, RNat rows, RBool graphics])
               (\<lambda>_. ret (Some (Inr l))))))"

definition acquire :: "'w firmware \<Rightarrow> 'w console_io \<Rightarrow> nat \<Rightarrow> ('w, (status + lease) option) op" where
  "acquire fw io address =
     (if \<not> fw_services fw then ret (Some (Inl NOT_READY))
      else bindS (locate fw ConsoleControlG) (\<lambda>existing. case existing of
        Inl e \<Rightarrow> ret (Some (Inl e))
      | Inr (Some interface) \<Rightarrow>
          bindS (report fw ''NEXTCORE: CONSOLE_REUSED'' []) (\<lambda>_.
          ret (Some (Inr \<lparr>ls_owned = None, ls_interface = interface\<rparr>)))
      | Inr None \<Rightarrow>
          bindS (locate fw SerialG) (\<lambda>serial.
          let p = \<lparr>pv_serial = (case serial of Inl _ \<Rightarrow> None | Inr s \<Rightarrow> s), pv_logging = False, pv_events = 0\<rparr> in
          bindS (bindE (text_state io) (\<lambda>ts. bindE (graphics_exists fw) (\<lambda>g. ok (ts, g)))) (\<lambda>r. case r of
            Inl e \<Rightarrow> ret (Some (Inl e))
          | Inr (ts, g) \<Rightarrow> publish fw address p ts g))))"

subsection \<open>Published interfaces\<close>

definition console_acq :: "event \<Rightarrow> nat option" where
  "console_acq e = (case e of EInstall g i r \<Rightarrow> if g = ConsoleControlG \<and> is_ok r then Some i else None | _ \<Rightarrow> None)"

definition console_rel :: "event \<Rightarrow> nat option" where
  "console_rel e = (case e of EUninstall h g i st \<Rightarrow> if g = ConsoleControlG \<and> st = SUCCESS then Some i else None | _ \<Rightarrow> None)"

definition published :: "lease \<Rightarrow> nat multiset" where
  "published l = (if ls_owned l = None then {#} else {#ls_interface l#})"

lemma console_neutral_report [neutral_intros]: "neutral console_acq console_rel (report fw m vs)"
  unfolding report_def by (rule neutral_call) (simp_all add: console_acq_def console_rel_def)

lemma console_neutral_locate [neutral_intros]: "neutral console_acq console_rel (locate fw g)"
proof -
  have "neutral console_acq console_rel (locate_protocol fw g)"
    unfolding locate_protocol_def by (rule neutral_call) (auto simp: console_acq_def console_rel_def)
  then show ?thesis unfolding locate_def by (intro neutral_intros)
qed

lemma console_neutral_text_state [neutral_intros]: "neutral console_acq console_rel (text_state io)"
proof -
  have "neutral console_acq console_rel (call (cio_query_mode io n) (\<lambda>(st, c, r). ECall ''query_mode'' [] st))" for n
    by (rule neutral_call) (auto simp: console_acq_def console_rel_def)
  then show ?thesis unfolding text_state_def by (intro neutral_intros)
qed

lemma console_neutral_graphics [neutral_intros]: "neutral console_acq console_rel (graphics_exists fw)"
  unfolding graphics_exists_def by (intro neutral_intros)

lemma shifts_lease_drop:
  assumes "published l = held"
  shows "shifts console_acq console_rel (lease_drop fw l) held (\<lambda>r. if r = None then held else {#})"
proof (cases "ls_owned l")
  case None
  with assms show ?thesis
    by (auto simp: lease_drop_def published_def intro!: shifts_bindS_neutral console_neutral_report shifts_ret)
next
  case (Some hp)
  then obtain h p where hp: "ls_owned l = Some (h, p)" by (cases hp) auto
  with assms have held: "held = {#ls_interface l#}" by (simp add: published_def)
  have "shifts console_acq console_rel (call (fw_uninstall fw h ConsoleControlG i) (EUninstall h ConsoleControlG i))
      {#i#} (\<lambda>st. if st = SUCCESS then {#} else {#i#})" for i
    unfolding shifts_def by (rule extends_call) (auto simp: console_acq_def console_rel_def)
  then show ?thesis
    unfolding lease_drop_def hp option.case prod.case held
    by (rule shifts_bindS) (auto intro!: shifts_bindS_neutral console_neutral_report shifts_ret)
qed

definition acquired :: "nat \<Rightarrow> (status + lease) option \<Rightarrow> nat multiset" where
  "acquired address r = (case r of None \<Rightarrow> {#address#} | Some (Inl _) \<Rightarrow> {#} | Some (Inr l) \<Rightarrow> published l)"

lemma shifts_rejecting:
  "published l = {#address#} \<Longrightarrow> shifts console_acq console_rel (rejecting fw l e) {#address#} (acquired address)"
  unfolding rejecting_def
  by (rule shifts_bindS [OF shifts_lease_drop]) (auto intro!: shifts_ret simp: acquired_def split: option.split)

lemma shifts_publish: "shifts console_acq console_rel (publish fw address p ts g) {#} (acquired address)"
proof -
  have install: "shifts console_acq console_rel (call (fw_install fw ConsoleControlG address) (EInstall ConsoleControlG address))
      {#} (\<lambda>r. if is_ok r then {#address#} else {#})"
    unfolding shifts_def by (rule extends_call) (auto simp: console_acq_def console_rel_def)
  have l: "published \<lparr>ls_owned = Some (h, p), ls_interface = address\<rparr> = {#address#}" for h
    by (simp add: published_def)
  show ?thesis
    unfolding publish_def Let_def case_prod_beta
    by (rule shifts_bindS [OF install])
      (auto intro!: shifts_ret shifts_bindS_neutral console_neutral_locate shifts_rejecting console_neutral_report l
        simp: acquired_def split: sum.split)
qed

lemma shifts_acquire: "shifts console_acq console_rel (acquire fw io address) {#} (acquired address)"
  unfolding acquire_def Let_def
  by (auto intro!: shifts_ret shifts_bindS_neutral neutral_intros shifts_publish
      simp: acquired_def published_def split: sum.split option.split)

subsection \<open>Bounded telemetry\<close>
















subsection \<open>Properties\<close>

text \<open>Property C15: the console interface is never left published behind the caller's back: an acquisition
  that fails has removed what it installed, one that succeeds owns it or reuses a foreign one,
  and dropping the lease removes it; when the firmware refuses the removal the code does not
  return, so the callbacks stay resident.\<close>

theorem console_interface_is_removed:
  "shifts console_acq console_rel (acquire fw io address) {#} (acquired address)
   \<and> shifts console_acq console_rel (release fw l) (published l) (\<lambda>r. if r = None then published l else {#})"
  unfolding release_def by (intro conjI shifts_acquire shifts_lease_drop refl)


end
