(* ===== verification/Memory_Observation.thy ===== *)
theory Memory_Observation
  imports Prelude
begin

text \<open>
  The observing wrapper around the physical memory service (src/src/memory\_observation.rs): it
  forwards every request unchanged and keeps the last 64 in a ring. The service is a dependency
  and is the parameter \<open>svc\<close>: its step on its own state \<open>'m\<close>. A request and a reply carry the
  fields of the service's interface that the sources read.
\<close>

record request =
  rq_operation :: u32
  rq_pc :: nat
  rq_address :: nat
  rq_width :: u32
  rq_count :: u32
  rq_value0 :: u64

record reply =
  rp_result :: u32
  rp_value0 :: u64
  rp_value1 :: u64

type_synonym 'm service = "request \<Rightarrow> 'm \<Rightarrow> reply \<times> 'm"

definition CAPACITY :: nat where "CAPACITY = 64"

record obs_entry =
  en_sequence :: nat
  en_operation :: u32
  en_pc :: nat
  en_address :: nat
  en_width :: u32
  en_count :: u32
  en_result :: u32

definition default_entry :: obs_entry where
  "default_entry = \<lparr>en_sequence = 0, en_operation = 0, en_pc = 0, en_address = 0, en_width = 0, en_count = 0, en_result = 0\<rparr>"

definition entry_of :: "nat \<Rightarrow> request \<Rightarrow> reply \<Rightarrow> obs_entry" where
  "entry_of n q r = \<lparr>en_sequence = n, en_operation = rq_operation q, en_pc = rq_pc q, en_address = rq_address q,
     en_width = rq_width q, en_count = rq_count q, en_result = rp_result r\<rparr>"

record 'm observed_memory =
  om_service :: 'm
  om_ring :: "obs_entry list"
  om_next :: nat
  om_len :: nat
  om_total :: nat

definition new_observed :: "'m \<Rightarrow> 'm observed_memory" where
  "new_observed m = \<lparr>om_service = m, om_ring = replicate CAPACITY default_entry, om_next = 0, om_len = 0, om_total = 0\<rparr>"

definition execute :: "'m service \<Rightarrow> request \<Rightarrow> 'm observed_memory \<Rightarrow> reply \<times> 'm observed_memory" where
  "execute svc q om =
     (let (r, m) = svc q (om_service om);
          n = saturating_add (om_total om) 1
      in (r, \<lparr>om_service = m, om_ring = (om_ring om)[om_next om := entry_of n q r],
              om_next = (om_next om + 1) mod CAPACITY, om_len = min (om_len om + 1) CAPACITY, om_total = n\<rparr>))"

definition entries :: "'m observed_memory \<Rightarrow> obs_entry list" where
  "entries om =
     (let first = (if om_len om = CAPACITY then om_next om else 0)
      in map (\<lambda>offset. om_ring om ! ((first + offset) mod CAPACITY)) [0..<om_len om])"

text \<open>
  The C callback: a pointer is its address, and is rejected before it is read when it is null or
  misaligned. \<open>None\<close> stands for the return value -1, which leaves the owner as it was.
\<close>

definition aligned_ptr :: "nat \<Rightarrow> nat \<Rightarrow> bool" where
  "aligned_ptr align p \<longleftrightarrow> p \<noteq> 0 \<and> p mod align = 0"

definition callback :: "'m service \<Rightarrow> nat \<times> nat \<times> nat \<Rightarrow> nat \<times> nat \<times> nat \<Rightarrow> request \<Rightarrow> 'm observed_memory
    \<Rightarrow> reply option \<times> 'm observed_memory" where
  "callback svc = (\<lambda>(align_owner, align_request, align_reply) (owner, request, reply) q om.
     if \<not> aligned_ptr align_owner owner \<or> \<not> aligned_ptr align_request request \<or> \<not> aligned_ptr align_reply reply
     then (None, om)
     else (case execute svc q om of (r, om') \<Rightarrow> (Some r, om')))"

subsection \<open>The wrapper against the plain service\<close>

text \<open>
  A run of requests, on the plain service and on the wrapper, and the history a run leaves: one
  entry per request, numbered from \<open>n + 1\<close>, with the number saturating at the end of \<open>u64\<close>.
\<close>

fun serve_all :: "'m service \<Rightarrow> request list \<Rightarrow> 'm \<Rightarrow> reply list \<times> 'm" where
  "serve_all svc [] m = ([], m)"
| "serve_all svc (q # qs) m = (let (r, m') = svc q m; (rs, m'') = serve_all svc qs m' in (r # rs, m''))"

fun observe_all :: "'m service \<Rightarrow> request list \<Rightarrow> 'm observed_memory \<Rightarrow> reply list \<times> 'm observed_memory" where
  "observe_all svc [] om = ([], om)"
| "observe_all svc (q # qs) om = (let (r, om') = execute svc q om; (rs, om'') = observe_all svc qs om' in (r # rs, om''))"

fun history :: "'m service \<Rightarrow> nat \<Rightarrow> request list \<Rightarrow> 'm \<Rightarrow> obs_entry list" where
  "history svc n [] m = []"
| "history svc n (q # qs) m =
     (let (r, m') = svc q m in entry_of (saturating_add n 1) q r # history svc (saturating_add n 1) qs m')"

text \<open>The last \<open>k\<close> elements of a list.\<close>

definition suffix_of :: "nat \<Rightarrow> 'a list \<Rightarrow> 'a list" where
  "suffix_of k xs = drop (length xs - k) xs"

text \<open>
  A ring of size \<open>c\<close> holds the last elements of a history: element \<open>i\<close> of the history is in slot
  \<open>i mod c\<close> as long as it is among the last \<open>c\<close>.
\<close>

definition ring_holds :: "nat \<Rightarrow> 'a list \<Rightarrow> 'a list \<Rightarrow> bool" where
  "ring_holds c ring hist \<longleftrightarrow> length ring = c \<and>
     (\<forall>i < length hist. length hist \<le> i + c \<longrightarrow> ring ! (i mod c) = hist ! i)"

lemma mod_apart:
  fixes i n c :: nat
  assumes "i < n" "n < i + c"
  shows "i mod c \<noteq> n mod c"
proof
  assume "i mod c = n mod c"
  with assms(1) have "c dvd n - i" by (metis mod_eq_dvd_iff_nat less_imp_le)
  with assms show False by (auto dest!: dvd_imp_le)
qed

lemma ring_holds_push:
  assumes "ring_holds c ring hist" "0 < c"
  shows "ring_holds c (ring[length hist mod c := x]) (hist @ [x])"
  unfolding ring_holds_def
proof (intro conjI allI impI)
  show "length (ring[length hist mod c := x]) = c" using assms by (simp add: ring_holds_def)
next
  fix i
  assume i: "i < length (hist @ [x])" "length (hist @ [x]) \<le> i + c"
  show "ring[length hist mod c := x] ! (i mod c) = (hist @ [x]) ! i"
  proof (cases "i = length hist")
    case True
    with assms show ?thesis by (simp add: ring_holds_def)
  next
    case False
    with i have "i < length hist" "length hist < i + c" by auto
    with assms mod_apart [OF this] show ?thesis by (simp add: ring_holds_def nth_append)
  qed
qed

lemma ring_holds_read:
  assumes "ring_holds c ring hist" "0 < c"
  shows "map (\<lambda>i. ring ! (i mod c)) [length hist - min c (length hist)..<length hist] = suffix_of c hist"
proof (cases "c \<le> length hist")
  case True
  with assms show ?thesis by (intro nth_equalityI) (auto simp: ring_holds_def suffix_of_def)
next
  case False
  with assms show ?thesis by (intro nth_equalityI) (auto simp: ring_holds_def suffix_of_def)
qed

text \<open>The representation of a history by the wrapper.\<close>

definition represents :: "'m observed_memory \<Rightarrow> obs_entry list \<Rightarrow> bool" where
  "represents om hist \<longleftrightarrow> ring_holds CAPACITY (om_ring om) hist \<and> om_next om = length hist mod CAPACITY
     \<and> om_len om = min (length hist) CAPACITY"

lemma represents_new: "represents (new_observed m) []"
  by (simp add: represents_def new_observed_def ring_holds_def)

lemma represents_execute:
  assumes "represents om hist" "svc q (om_service om) = (r, m)"
  defines "n \<equiv> saturating_add (om_total om) 1"
  shows "\<exists>om'. execute svc q om = (r, om') \<and> represents om' (hist @ [entry_of n q r]) \<and> om_service om' = m \<and> om_total om' = n"
  using assms(1,2) ring_holds_push [of CAPACITY "om_ring om" hist]
  by (simp add: execute_def represents_def CAPACITY_def mod_Suc_eq Let_def n_def min_def)

lemma represents_entries:
  assumes "represents om hist"
  shows "entries om = suffix_of CAPACITY hist"
proof -
  let ?n = "length hist"
  have "entries om = map (\<lambda>i. om_ring om ! (i mod CAPACITY)) [?n - min CAPACITY ?n..<?n]"
  proof (cases "?n < CAPACITY")
    case True
    with assms show ?thesis by (simp add: entries_def represents_def min_def)
  next
    case False
    then have m: "?n + k = (?n - 64 + k) + 64" for k by (simp add: CAPACITY_def)
    then have shift: "(?n mod 64 + k) mod 64 = (?n - 64 + k) mod 64" for k
      using m [of k] by (metis mod_add_left_eq mod_add_self2)
    from False assms have "entries om = map (\<lambda>k. om_ring om ! ((?n - 64 + k) mod 64)) [0..<64]"
      by (simp add: entries_def represents_def CAPACITY_def min_def shift)
    also have "\<dots> = map (\<lambda>i. om_ring om ! (i mod 64)) (map (\<lambda>k. ?n - 64 + k) [0..<64])" by simp
    also have "map (\<lambda>k. ?n - 64 + k) [0..<64] = [?n - 64..<?n]"
      using False by (intro nth_equalityI) (simp_all add: CAPACITY_def)
    finally show ?thesis using False by (simp add: CAPACITY_def min_def)
  qed
  also have "\<dots> = suffix_of CAPACITY hist"
    using assms by (intro ring_holds_read) (simp_all add: represents_def CAPACITY_def)
  finally show ?thesis .
qed

lemma observe_all_refines:
  "represents om hist \<Longrightarrow> \<exists>om'. observe_all svc qs om = (fst (serve_all svc qs (om_service om)), om')
     \<and> represents om' (hist @ history svc (om_total om) qs (om_service om))
     \<and> om_service om' = snd (serve_all svc qs (om_service om))
     \<and> om_total om' = (if qs = [] then om_total om else saturating_add (om_total om) (length qs))"
proof (induction qs arbitrary: om hist)
  case Nil
  then show ?case by simp
next
  case (Cons q qs)
  obtain r m where s: "svc q (om_service om) = (r, m)" by fastforce
  from represents_execute [where svc = svc, OF Cons.prems s] obtain om1 where om1: "execute svc q om = (r, om1)"
      "represents om1 (hist @ [entry_of (saturating_add (om_total om) 1) q r])" "om_service om1 = m"
      "om_total om1 = saturating_add (om_total om) 1" by blast
  from Cons.IH [OF om1(2)] om1(1,3,4) s show ?case
    by (auto simp: case_prod_beta Let_def saturating_add_def)
qed

subsection \<open>Properties\<close>

text \<open>Property C17: observing does not change the service, and the ring is the end of the history. After
  any sequence of requests the replies and the service's state are those of the plain service,
  the entries are the last 64 of the history in order, and the total is the number of requests,
  saturating.\<close>

theorem observation_refines_history:
  "\<exists>om. observe_all svc qs (new_observed m) = (fst (serve_all svc qs m), om)
     \<and> om_service om = snd (serve_all svc qs m)
     \<and> entries om = suffix_of 64 (history svc 0 qs m)
     \<and> om_total om = min (length qs) (2 ^ 64 - 1)"
proof -
  from observe_all_refines [OF represents_new, of svc qs m] obtain om where
    om: "observe_all svc qs (new_observed m) = (fst (serve_all svc qs m), om)"
      "represents om (history svc 0 qs m)" "om_service om = snd (serve_all svc qs m)"
      "om_total om = (if qs = [] then 0 else saturating_add 0 (length qs))"
    by (auto simp: new_observed_def)
  with represents_entries [OF om(2)] show ?thesis by (auto simp: CAPACITY_def saturating_add_def)
qed

end
