(* ===== verification/Mapped_Trace.thy ===== *)
theory Mapped_Trace
  imports UEFI Memory_Observation
begin

text \<open>
  The mapped diagnostic run (src/src/mapped\_trace.rs): a guest runs under a memory service with
  translation tables; the service's callback is observed, and what was observed is reported when
  the guest has stopped. The tables, the memory service and the emulator that runs the guest are
  dependencies. The emulator is the parameter \<open>runner\<close>, which returns the guest's interaction: the
  requests it makes, each depending on the replies so far, and its final result.
\<close>

definition FIRST_FLOW_EDGES :: nat where "FIRST_FLOW_EDGES = 32"
definition LAST_FLOW_EDGES :: nat where "LAST_FLOW_EDGES = 16"
definition WATCH_FOLLOW_EDGES :: nat where "WATCH_FOLLOW_EDGES = 16"

text \<open>The operation and result codes of the service's interface.\<close>

record abi =
  abi_FETCH :: u32
  abi_LOAD :: u32
  abi_STORE :: u32
  abi_OK :: u32
  abi_PROFILE_FIXED_NC_UNALIGNED :: u32

record flow_edge =
  ed_sequence :: nat
  ed_from :: nat
  ed_to :: nat

definition default_edge :: flow_edge where
  "default_edge = \<lparr>ed_sequence = 0, ed_from = 0, ed_to = 0\<rparr>"

record fetch_watch =
  wf_from :: nat
  wf_visits :: nat
  wf_fallthrough :: nat
  wf_first_taken :: "flow_edge option"
  wf_follow :: "flow_edge list"
  wf_follow_count :: nat

record load_watch =
  lw_pc :: nat
  lw_threshold :: "nat option"
  lw_requests :: nat
  lw_successful :: nat
  lw_first_address :: nat
  lw_last_address :: nat
  lw_last_value0 :: u64
  lw_last_value1 :: u64
  lw_forward :: nat
  lw_backward :: nat
  lw_repeated :: nat
  lw_value_changes :: nat
  lw_first_threshold_sequence :: nat
  lw_first_threshold_from :: nat
  lw_first_threshold_address :: nat

record store_watch =
  sw_pc :: nat
  sw_requests :: nat
  sw_successful :: nat
  sw_first_address :: nat
  sw_first_value :: u64
  sw_first_width :: u32
  sw_first_count :: u32
  sw_last_address :: nat
  sw_last_value :: u64
  sw_forward :: nat
  sw_backward :: nat
  sw_repeated :: nat

subsection \<open>Configuration at build time\<close>

text \<open>
  \<open>u64::from_str_radix(s, 16)\<close>: an optional plus sign, at least one digit of either case, and no
  overflow. An environment variable that is set at build time is \<open>Some\<close> of its value.
\<close>

definition digit16 :: "char \<Rightarrow> nat option" where
  "digit16 c = (let n = of_char c :: nat in
     if 48 \<le> n \<and> n \<le> 57 then Some (n - 48)
     else if 65 \<le> n \<and> n \<le> 70 then Some (n - 55)
     else if 97 \<le> n \<and> n \<le> 102 then Some (n - 87)
     else None)"

fun digits16 :: "nat \<Rightarrow> string \<Rightarrow> nat option" where
  "digits16 acc [] = Some acc"
| "digits16 acc (c # cs) = (case digit16 c of
     None \<Rightarrow> None
   | Some d \<Rightarrow> if acc * 16 + d < 2 ^ 64 then digits16 (acc * 16 + d) cs else None)"

definition from_hex :: "string \<Rightarrow> nat option" where
  "from_hex s = (case s of
     [] \<Rightarrow> None
   | c # cs \<Rightarrow> if c = CHR ''+'' then (if cs = [] then None else digits16 0 cs) else digits16 0 s)"

definition watch_pc :: "string \<Rightarrow> nat option" where
  "watch_pc raw = (if take 2 raw = ''0x'' then from_hex (drop 2 raw) else None)"

definition new_store_watch :: "nat \<Rightarrow> store_watch" where
  "new_store_watch pc = \<lparr>sw_pc = pc, sw_requests = 0, sw_successful = 0, sw_first_address = 0, sw_first_value = 0,
     sw_first_width = 0, sw_first_count = 0, sw_last_address = 0, sw_last_value = 0, sw_forward = 0,
     sw_backward = 0, sw_repeated = 0\<rparr>"

definition store_watch_configured :: "string option \<Rightarrow> store_watch option" where
  "store_watch_configured env = Option.bind env (\<lambda>raw. map_option new_store_watch (watch_pc raw))"

definition new_load_watch :: "nat \<Rightarrow> nat option \<Rightarrow> load_watch" where
  "new_load_watch pc threshold = \<lparr>lw_pc = pc, lw_threshold = threshold, lw_requests = 0, lw_successful = 0,
     lw_first_address = 0, lw_last_address = 0, lw_last_value0 = 0, lw_last_value1 = 0, lw_forward = 0,
     lw_backward = 0, lw_repeated = 0, lw_value_changes = 0, lw_first_threshold_sequence = 0,
     lw_first_threshold_from = 0, lw_first_threshold_address = 0\<rparr>"

definition load_watch_configured :: "string option \<Rightarrow> string option \<Rightarrow> load_watch option" where
  "load_watch_configured env env_threshold = Option.bind env (\<lambda>raw. Option.bind (watch_pc raw) (\<lambda>pc.
     case env_threshold of
       None \<Rightarrow> Some (new_load_watch pc None)
     | Some raw \<Rightarrow> map_option (\<lambda>t. new_load_watch pc (Some t)) (watch_pc raw)))"

definition new_fetch_watch :: "nat \<Rightarrow> fetch_watch" where
  "new_fetch_watch from_pc = \<lparr>wf_from = from_pc, wf_visits = 0, wf_fallthrough = 0, wf_first_taken = None,
     wf_follow = replicate WATCH_FOLLOW_EDGES default_edge, wf_follow_count = 0\<rparr>"

definition fetch_watch_configured :: "string option \<Rightarrow> fetch_watch option" where
  "fetch_watch_configured env = Option.bind env (\<lambda>raw. map_option new_fetch_watch (watch_pc raw))"

subsection \<open>Recording\<close>

definition store_record :: "abi \<Rightarrow> request \<Rightarrow> reply \<Rightarrow> store_watch \<Rightarrow> store_watch" where
  "store_record abi q r w =
     (if rq_operation q \<noteq> abi_STORE abi \<or> rq_pc q \<noteq> sw_pc w then w
      else let w = w\<lparr>sw_requests := saturating_add (sw_requests w) 1\<rparr> in
        if rp_result r \<noteq> abi_OK abi then w
        else let w = (if sw_successful w = 0
                then w\<lparr>sw_first_address := rq_address q, sw_first_value := rq_value0 q,
                       sw_first_width := rq_width q, sw_first_count := rq_count q\<rparr>
                else if rq_address q > sw_last_address w then w\<lparr>sw_forward := saturating_add (sw_forward w) 1\<rparr>
                else if rq_address q < sw_last_address w then w\<lparr>sw_backward := saturating_add (sw_backward w) 1\<rparr>
                else w\<lparr>sw_repeated := saturating_add (sw_repeated w) 1\<rparr>)
          in w\<lparr>sw_successful := saturating_add (sw_successful w) 1, sw_last_address := rq_address q,
               sw_last_value := rq_value0 q\<rparr>)"

definition crossed :: "request \<Rightarrow> load_watch \<Rightarrow> load_watch" where
  "crossed q w = (case lw_threshold w of
     None \<Rightarrow> w
   | Some t \<Rightarrow>
       if lw_first_threshold_sequence w = 0 \<and> lw_last_address w < t \<and> rq_address q \<ge> t
       then w\<lparr>lw_first_threshold_sequence := saturating_add (lw_successful w) 1,
              lw_first_threshold_from := lw_last_address w, lw_first_threshold_address := rq_address q\<rparr>
       else w)"

definition load_record :: "abi \<Rightarrow> request \<Rightarrow> reply \<Rightarrow> load_watch \<Rightarrow> load_watch" where
  "load_record abi q r w =
     (if rq_operation q \<noteq> abi_LOAD abi \<or> rq_pc q \<noteq> lw_pc w then w
      else let w = w\<lparr>lw_requests := saturating_add (lw_requests w) 1\<rparr> in
        if rp_result r \<noteq> abi_OK abi then w
        else let w = (if lw_successful w = 0 then w\<lparr>lw_first_address := rq_address q\<rparr>
                else let w = crossed q w;
                         w = (if rq_address q > lw_last_address w then w\<lparr>lw_forward := saturating_add (lw_forward w) 1\<rparr>
                              else if rq_address q < lw_last_address w then w\<lparr>lw_backward := saturating_add (lw_backward w) 1\<rparr>
                              else w\<lparr>lw_repeated := saturating_add (lw_repeated w) 1\<rparr>)
                     in if rp_value0 r \<noteq> lw_last_value0 w \<or> (rq_count q = 2 \<and> rp_value1 r \<noteq> lw_last_value1 w)
                        then w\<lparr>lw_value_changes := saturating_add (lw_value_changes w) 1\<rparr> else w)
          in w\<lparr>lw_successful := saturating_add (lw_successful w) 1, lw_last_address := rq_address q,
               lw_last_value0 := rp_value0 r, lw_last_value1 := rp_value1 r\<rparr>)"

definition fetch_record :: "nat \<Rightarrow> nat \<Rightarrow> nat \<Rightarrow> fetch_watch \<Rightarrow> fetch_watch" where
  "fetch_record previous pc sequence w =
     (let edge = \<lparr>ed_sequence = sequence, ed_from = previous, ed_to = pc\<rparr>;
          w = (if previous = wf_from w then
                 (let w = w\<lparr>wf_visits := saturating_add (wf_visits w) 1\<rparr> in
                  if checked_add (wf_from w) 4 = Some pc
                  then w\<lparr>wf_fallthrough := saturating_add (wf_fallthrough w) 1\<rparr>
                  else if wf_first_taken w = None then w\<lparr>wf_first_taken := Some edge\<rparr> else w)
               else w)
      in if wf_first_taken w \<noteq> None \<and> checked_add previous 4 \<noteq> Some pc \<and> wf_follow_count w < WATCH_FOLLOW_EDGES
         then w\<lparr>wf_follow := (wf_follow w)[wf_follow_count w := edge], wf_follow_count := wf_follow_count w + 1\<rparr>
         else w)"

record fetch_flow =
  fl_successful :: nat
  fl_previous :: "nat option"
  fl_edge_count :: nat
  fl_first :: "flow_edge list"
  fl_last :: "flow_edge list"
  fl_watch :: "fetch_watch option"

definition new_flow :: "fetch_watch option \<Rightarrow> fetch_flow" where
  "new_flow watch = \<lparr>fl_successful = 0, fl_previous = None, fl_edge_count = 0,
     fl_first = replicate FIRST_FLOW_EDGES default_edge, fl_last = replicate LAST_FLOW_EDGES default_edge,
     fl_watch = watch\<rparr>"

definition push_edge :: "flow_edge \<Rightarrow> fetch_flow \<Rightarrow> fetch_flow" where
  "push_edge edge f =
     f\<lparr>fl_first := (if fl_edge_count f < FIRST_FLOW_EDGES then (fl_first f)[fl_edge_count f := edge] else fl_first f),
       fl_last := (fl_last f)[fl_edge_count f mod LAST_FLOW_EDGES := edge],
       fl_edge_count := saturating_add (fl_edge_count f) 1\<rparr>"

definition flow_record :: "nat \<Rightarrow> fetch_flow \<Rightarrow> fetch_flow" where
  "flow_record pc f =
     (let f = f\<lparr>fl_successful := saturating_add (fl_successful f) 1\<rparr>;
          f = (case fl_previous f of
                 None \<Rightarrow> f
               | Some previous \<Rightarrow>
                   let f = f\<lparr>fl_watch := map_option (fetch_record previous pc (fl_successful f)) (fl_watch f)\<rparr> in
                   if checked_add previous 4 \<noteq> Some pc
                   then push_edge \<lparr>ed_sequence = fl_successful f, ed_from = previous, ed_to = pc\<rparr> f
                   else f)
      in f\<lparr>fl_previous := Some pc\<rparr>)"

subsection \<open>The observed service\<close>

record stage1_alias =
  al_virtual_base :: nat
  al_physical_base :: nat
  al_bytes :: nat

record 'm observed =
  ob_service :: 'm
  ob_aliases :: "stage1_alias option list"
  ob_fetches :: "nat list"
  ob_successful :: "nat list"
  ob_first_fetch :: "nat option list"
  ob_flow :: fetch_flow
  ob_load_watch :: "load_watch option"
  ob_store_watch :: "store_watch option"
  ob_ring :: "obs_entry list"
  ob_total :: nat

text \<open>\<open>virtual_base + bytes\<close> is an unchecked addition.\<close>

definition alias_fetch :: "abi \<Rightarrow> request \<Rightarrow> reply \<Rightarrow> nat \<Rightarrow> 'm observed \<Rightarrow> 'm observed" where
  "alias_fetch abi q r i ob = (case ob_aliases ob ! i of
     None \<Rightarrow> ob
   | Some al \<Rightarrow>
       if rq_address q \<ge> al_virtual_base al \<and> rq_address q < wrapping_add (al_virtual_base al) (al_bytes al)
       then ob\<lparr>ob_fetches := (ob_fetches ob)[i := saturating_add (ob_fetches ob ! i) 1],
               ob_successful := (if rp_result r = abi_OK abi
                 then (ob_successful ob)[i := saturating_add (ob_successful ob ! i) 1] else ob_successful ob),
               ob_first_fetch := (if ob_first_fetch ob ! i = None
                 then (ob_first_fetch ob)[i := Some (rq_address q)] else ob_first_fetch ob)\<rparr>
       else ob)"

definition note_fetch :: "abi \<Rightarrow> request \<Rightarrow> reply \<Rightarrow> 'm observed \<Rightarrow> 'm observed" where
  "note_fetch abi q r ob =
     (let ob = (if rp_result r = abi_OK abi then ob\<lparr>ob_flow := flow_record (rq_address q) (ob_flow ob)\<rparr> else ob)
      in alias_fetch abi q r 1 (alias_fetch abi q r 0 ob))"

definition note_ring :: "request \<Rightarrow> reply \<Rightarrow> 'm observed \<Rightarrow> 'm observed" where
  "note_ring q r ob =
     (let slot = ob_total ob mod 64; n = saturating_add (ob_total ob) 1
      in ob\<lparr>ob_total := n, ob_ring := (ob_ring ob)[slot := entry_of n q r]\<rparr>)"

text \<open>\<open>observe\<close> says whether the crate is built with the memory observation feature.\<close>

definition observe_request :: "abi \<Rightarrow> bool \<Rightarrow> 'm service \<Rightarrow> request \<Rightarrow> 'm observed \<Rightarrow> reply \<times> 'm observed" where
  "observe_request abi observe svc q ob =
     (let (r, m) = svc q (ob_service ob);
          ob = ob\<lparr>ob_service := m, ob_load_watch := map_option (load_record abi q r) (ob_load_watch ob),
                  ob_store_watch := map_option (store_record abi q r) (ob_store_watch ob)\<rparr>;
          ob = (if rq_operation q = abi_FETCH abi then note_fetch abi q r ob else ob);
          ob = (if observe then note_ring q r ob else ob)
      in (r, ob))"

definition observed_callback :: "abi \<Rightarrow> bool \<Rightarrow> 'm service \<Rightarrow> nat \<times> nat \<times> nat \<Rightarrow> nat \<times> nat \<times> nat \<Rightarrow> request
    \<Rightarrow> 'm observed \<Rightarrow> reply option \<times> 'm observed" where
  "observed_callback abi observe svc = (\<lambda>(align_owner, align_request, align_reply) (owner, request, reply) q ob.
     if \<not> aligned_ptr align_owner owner \<or> \<not> aligned_ptr align_request request \<or> \<not> aligned_ptr align_reply reply
     then (None, ob)
     else (case observe_request abi observe svc q ob of (r, ob') \<Rightarrow> (Some r, ob')))"

subsection \<open>The run\<close>

record last_reply =
  lr_result :: nat
  lr_fault :: nat
  lr_address :: nat
  lr_output_pa :: nat
  lr_descriptor_pa :: nat
  lr_level :: nat
  lr_context :: nat
  lr_metadata_flags :: nat
  lr_esr :: nat

text \<open>
  A guest as the emulator runs it: it has stopped, with the emulator's status, the base part of
  the result record and the last reply; or it makes a request of the memory service and goes on
  with the reply; or the emulator calls the protection callback for a range of code pages and goes
  on with its answer. \<open>drive\<close> runs a guest on the state of the memory service and on the state that
  the callback changes.
\<close>

datatype 'b guest = Stopped int 'b last_reply | Asks request "reply \<Rightarrow> 'b guest" | Protects nat nat u32 "int \<Rightarrow> 'b guest"

type_synonym 'p protection = "nat \<Rightarrow> nat \<Rightarrow> u32 \<Rightarrow> 'p \<Rightarrow> int \<times> 'p"

primrec drive :: "(request \<Rightarrow> 's \<Rightarrow> reply \<times> 's) \<Rightarrow> 'p protection \<Rightarrow> 'b guest \<Rightarrow> 's \<Rightarrow> 'p
    \<Rightarrow> (int \<times> 'b \<times> last_reply) \<times> 's \<times> 'p" where
  "drive step prot (Stopped st b l) s p = ((st, b, l), s, p)"
| "drive step prot (Asks q k) s p = (case step q s of (r, s') \<Rightarrow> drive step prot (k r) s' p)"
| "drive step prot (Protects a n x k) s p = (case prot a n x p of (r, p') \<Rightarrow> drive step prot (k r) s p')"

record trace_tables =
  tt_bytes :: "u8 list"
  tt_physical_base :: nat
  tt_ttbr0 :: nat
  tt_ttbr1 :: nat
  tt_tcr :: nat

record controls =
  ct_abi_version :: nat
  ct_struct_size :: nat
  ct_profile :: u32
  ct_sctlr :: nat
  ct_ttbr0 :: nat
  ct_ttbr1 :: nat
  ct_tcr :: nat
  ct_mair :: nat
  ct_epoch :: nat

record boot_options =
  bo_abi_version :: nat
  bo_struct_size :: nat
  bo_initial_pstate :: nat
  bo_platform_profile :: nat
  bo_initial_override :: nat
  bo_vbar :: nat
  bo_irq_level :: nat
  bo_fiq_level :: nat

record run_args =
  ra_base :: nat
  ra_size :: nat
  ra_virtual_base :: nat
  ra_entry :: nat
  ra_args :: nat
  ra_stack :: nat
  ra_code :: "u8 list"
  ra_budget :: nat
  ra_initial :: "nat list"
  ra_options :: boot_options
  ra_aliases :: "stage1_alias list"

text \<open>
  The dependencies: the tables, the service over the RAM and the tables, the RAM when the service
  is dropped, and the emulator. The build: the environment variables and the features.
\<close>

record ('m, 'b) trace_deps =
  td_tables :: "nat \<Rightarrow> nat \<Rightarrow> nat \<Rightarrow> stage1_alias list \<Rightarrow> string + trace_tables"
  td_service :: "u8 list \<Rightarrow> nat \<Rightarrow> u8 list \<Rightarrow> nat \<Rightarrow> controls \<Rightarrow> 'm option"
  td_execute :: "'m service"
  td_ram :: "'m \<Rightarrow> u8 list"
  td_runner :: "run_args \<Rightarrow> controls \<Rightarrow> 'b guest"

record trace_build =
  tr_fetch_watch :: "string option"
  tr_load_watch :: "string option"
  tr_threshold :: "string option"
  tr_store_watch :: "string option"
  tr_observe :: bool
  tr_fp :: bool

type_synonym line = "string \<times> rvalue list"

fun report_lines :: "'w firmware \<Rightarrow> line list \<Rightarrow> ('w, unit) op" where
  "report_lines fw [] = ret ()"
| "report_lines fw ((tag, vals) # ls) = bindS (report fw tag vals) (\<lambda>_. report_lines fw ls)"

definition or_zero :: "nat option \<Rightarrow> nat" where
  "or_zero x = (case x of None \<Rightarrow> 0 | Some n \<Rightarrow> n)"

definition selected_lines :: "stage1_alias list \<Rightarrow> 'm observed \<Rightarrow> line list" where
  "selected_lines aliases ob =
     (if length aliases = 2 then [(''NXARMJIT: TRACE_SELECTED_FETCH_RANGE'',
        [RNat (ob_fetches ob ! 0), RNat (ob_successful ob ! 0), RNat (or_zero (ob_first_fetch ob ! 0)),
         RNat (ob_fetches ob ! 1), RNat (ob_successful ob ! 1), RNat (or_zero (ob_first_fetch ob ! 1))])]
      else [])"

definition flow_lines :: "fetch_flow \<Rightarrow> line list" where
  "flow_lines f = [(''NXARMJIT: TRACE_FETCH_FLOW'',
     [RNat (fl_successful f), RNat (fl_edge_count f), RNat (min (fl_edge_count f) FIRST_FLOW_EDGES),
      RNat (if fl_edge_count f > FIRST_FLOW_EDGES then min (fl_edge_count f) LAST_FLOW_EDGES else 0)])]"

definition edge_line :: "string \<Rightarrow> flow_edge \<Rightarrow> line" where
  "edge_line tag e = (tag, [RNat (ed_sequence e), RNat (ed_from e), RNat (ed_to e)])"

definition watch_lines :: "fetch_watch option \<Rightarrow> line list" where
  "watch_lines watch = (case watch of
     None \<Rightarrow> []
   | Some w \<Rightarrow>
       let first = (case wf_first_taken w of None \<Rightarrow> default_edge | Some e \<Rightarrow> e) in
       (''NXARMJIT: TRACE_FETCH_WATCH'', [RNat (wf_from w), RNat (wf_visits w), RNat (wf_fallthrough w),
          RNat (ed_sequence first), RNat (ed_to first), RNat (wf_follow_count w)])
       # map (edge_line ''NXARMJIT: TRACE_FETCH_WATCH_EDGE'') (take (wf_follow_count w) (wf_follow w)))"

definition load_lines :: "load_watch option \<Rightarrow> line list" where
  "load_lines watch = (case watch of
     None \<Rightarrow> []
   | Some w \<Rightarrow>
       (''NXARMJIT: TRACE_LOAD_WATCH'', [RNat (lw_pc w), RNat (lw_requests w), RNat (lw_successful w),
          RNat (lw_first_address w), RNat (lw_last_address w), RNat (lw_forward w), RNat (lw_backward w),
          RNat (lw_repeated w), RNat (lw_value_changes w)])
       # (case lw_threshold w of
            None \<Rightarrow> []
          | Some t \<Rightarrow> [(''NXARMJIT: TRACE_LOAD_THRESHOLD'', [RNat (lw_pc w), RNat t,
              RNat (lw_first_threshold_sequence w), RNat (lw_first_threshold_from w),
              RNat (lw_first_threshold_address w)])]))"

definition store_lines :: "store_watch option \<Rightarrow> line list" where
  "store_lines watch = (case watch of
     None \<Rightarrow> []
   | Some w \<Rightarrow>
       [(''NXARMJIT: TRACE_STORE_WATCH'', [RNat (sw_pc w), RNat (sw_requests w), RNat (sw_successful w),
          RNat (sw_first_address w), RNat (unat (sw_first_value w)), RNat (unat (sw_first_width w)),
          RNat (unat (sw_first_count w)), RNat (sw_last_address w), RNat (unat (sw_last_value w)),
          RNat (sw_forward w), RNat (sw_backward w), RNat (sw_repeated w)])])"

definition edge_lines :: "fetch_flow \<Rightarrow> line list" where
  "edge_lines f =
     map (edge_line ''NXARMJIT: TRACE_FETCH_EDGE sample=first'') (take (min (fl_edge_count f) FIRST_FLOW_EDGES) (fl_first f))
     @ (if fl_edge_count f > FIRST_FLOW_EDGES
        then let retained = min (fl_edge_count f) LAST_FLOW_EDGES in
          map (\<lambda>i. edge_line ''NXARMJIT: TRACE_FETCH_EDGE sample=last'' (fl_last f ! (i mod LAST_FLOW_EDGES)))
            [fl_edge_count f - retained..<fl_edge_count f]
        else [])"

definition ring_lines :: "bool \<Rightarrow> 'm observed \<Rightarrow> line list" where
  "ring_lines observe ob =
     (if observe then
        let retained = min (ob_total ob) 64 in
        (''NXARMJIT: TRACE_MEMORY_OBSERVATION'', [RNat (ob_total ob), RNat retained])
        # map (\<lambda>i. let e = ob_ring ob ! (i mod 64) in
            (''NXARMJIT: TRACE_MEMORY_REQUEST'', [RNat (en_sequence e), RNat (unat (en_operation e)), RNat (en_pc e),
               RNat (en_address e), RNat (unat (en_width e)), RNat (unat (en_count e)), RNat (unat (en_result e))]))
            [ob_total ob - retained..<ob_total ob]
      else [])"

definition reply_line :: "last_reply \<Rightarrow> line" where
  "reply_line r = (''NXARMJIT: TRACE_MAPPED_REPLY'', [RNat (lr_result r), RNat (lr_fault r), RNat (lr_address r),
     RNat (lr_output_pa r), RNat (lr_descriptor_pa r), RNat (lr_level r), RNat (lr_context r),
     RNat (lr_metadata_flags r), RNat (lr_esr r)])"

definition first_store :: "store_watch option \<Rightarrow> (nat \<times> u64) option" where
  "first_store watch = (case watch of
     None \<Rightarrow> None
   | Some w \<Rightarrow> if sw_successful w \<noteq> 0 \<and> sw_first_width w = 8 \<and> sw_first_count w = 1
       then Some (sw_first_address w, sw_first_value w) else None)"

definition readback_lines :: "(nat \<times> u64) option \<Rightarrow> nat \<Rightarrow> u8 list \<Rightarrow> line list" where
  "readback_lines store virtual_base ram = (case store of
     None \<Rightarrow> []
   | Some (address, v) \<Rightarrow> (case checked_sub address virtual_base of
       None \<Rightarrow> []
     | Some offset \<Rightarrow>
         let stop = saturating_add offset 8 in
         if offset \<le> stop \<and> stop \<le> length ram then
           let seen = le_nat (subrange offset stop ram) in
           [(''NXARMJIT: TRACE_STORE_READBACK'', [RNat address, RNat (unat v), RNat seen, RBool (seen = unat v)])]
         else []))"

definition new_observer :: "trace_build \<Rightarrow> stage1_alias list \<Rightarrow> 'm \<Rightarrow> 'm observed" where
  "new_observer build aliases m =
     \<lparr>ob_service = m,
      ob_aliases = [if aliases = [] then None else Some (hd aliases), if length aliases < 2 then None else Some (aliases ! 1)],
      ob_fetches = [0, 0], ob_successful = [0, 0], ob_first_fetch = [None, None],
      ob_flow = new_flow (fetch_watch_configured (tr_fetch_watch build)),
      ob_load_watch = load_watch_configured (tr_load_watch build) (tr_threshold build),
      ob_store_watch = store_watch_configured (tr_store_watch build),
      ob_ring = replicate 64 default_entry, ob_total = 0\<rparr>"

definition observation_lines :: "trace_build \<Rightarrow> run_args \<Rightarrow> 'm observed \<Rightarrow> last_reply \<Rightarrow> line list" where
  "observation_lines build a ob l =
     selected_lines (ra_aliases a) ob @ flow_lines (ob_flow ob) @ watch_lines (fl_watch (ob_flow ob))
     @ load_lines (ob_load_watch ob) @ store_lines (ob_store_watch ob) @ edge_lines (ob_flow ob)
     @ ring_lines (tr_observe build) ob @ [reply_line l]"

text \<open>
  The callback for the protection of the code pages, with the record \<open>ctx\<close> it is passed. A guest is
  run on it with the firmware's state.
\<close>

type_synonym ('c, 'w) protector = "nat \<Rightarrow> nat \<Rightarrow> u32 \<Rightarrow> 'c \<Rightarrow> ('w, int \<times> 'c) op"

definition run_guest :: "(request \<Rightarrow> 's \<Rightarrow> reply \<times> 's) \<Rightarrow> ('c, 'w) protector \<Rightarrow> 'b guest \<Rightarrow> 's \<Rightarrow> 'c
    \<Rightarrow> ('w, (int \<times> 'b \<times> last_reply) \<times> 's \<times> 'c) op" where
  "run_guest step prot g s ctx sys =
     (case drive step (\<lambda>a n x (c, sys). case prot a n x c sys of ((r, c), sys) \<Rightarrow> (r, c, sys)) g s (ctx, sys) of
        (res, s, ctx, sys) \<Rightarrow> ((res, s, ctx), sys))"

lemma run_guest_simps:
  "run_guest step prot (Stopped st b l) s ctx = ret ((st, b, l), s, ctx)"
  "run_guest step prot (Asks q k) s ctx = (case step q s of (r, s') \<Rightarrow> run_guest step prot (k r) s' ctx)"
  "run_guest step prot (Protects a n x k') s ctx = bindS (prot a n x ctx) (\<lambda>(r, ctx). run_guest step prot (k' r) s ctx)"
  by (rule ext, simp add: run_guest_def op_simps split: prod.split)+

text \<open>What holds of the protection callback holds of a guest: the rule for every kind of trace property.\<close>

lemma moves_run_guest:
  assumes "\<And>a n x ctx q. Q q \<Longrightarrow> moves d (prot a n x ctx) q (\<lambda>_ q. Q q)"
  shows "Q q \<Longrightarrow> moves d (run_guest step prot g s ctx) q (\<lambda>_ q. Q q)"
proof (induction g arbitrary: s ctx q)
  case (Protects a n x k)
  then show ?case unfolding run_guest_simps by (intro moves_bindS [OF assms]) (auto split: prod.split)
qed (auto simp: run_guest_simps intro: moves_ret split: prod.split)

lemma neutral_run_guest:
  assumes "\<And>a n x ctx. neutral acq rel (prot a n x ctx)"
  shows "neutral acq rel (run_guest step prot g s ctx)"
proof (induction g arbitrary: s ctx)
  case (Protects a n x k)
  then show ?case unfolding run_guest_simps by (intro neutral_intros assms) auto
qed (auto simp: run_guest_simps intro!: neutral_intros split: prod.split)

definition trace_run :: "'w firmware \<Rightarrow> abi \<Rightarrow> trace_build \<Rightarrow> ('m, 'b) trace_deps \<Rightarrow> run_args \<Rightarrow> u8 list
    \<Rightarrow> ('c, 'w) protector \<Rightarrow> 'c \<Rightarrow> ('w, status + (int \<times> 'b) \<times> u8 list \<times> 'c) op" where
  "trace_run fw abi build d a ram prot ctx = (case td_tables d (ra_base a) (ra_virtual_base a) (length ram) (ra_aliases a) of
     Inl reason \<Rightarrow> bindS (report fw ''NXARMJIT: TRACE_LINKED_MAP_INVALID'' [RText reason]) (\<lambda>_. fail INVALID_PARAMETER)
   | Inr tables \<Rightarrow>
       let c = \<lparr>ct_abi_version = 2, ct_struct_size = 80, ct_profile = abi_PROFILE_FIXED_NC_UNALIGNED abi,
                ct_sctlr = 0x30d00801, ct_ttbr0 = tt_ttbr0 tables, ct_ttbr1 = tt_ttbr1 tables,
                ct_tcr = tt_tcr tables, ct_mair = 0x44, ct_epoch = 1\<rparr> in
       bindS (report_lines fw
         ((if length (ra_aliases a) = 2 then [(''NXARMJIT: SELECTED_STARTUP_LINKED_MAPPED'', [])] else [])
          @ [(''NXARMJIT: TRACE_MAPPINGS_READY'', [RNat (ra_base a), RNat (ra_virtual_base a), RNat (length ram),
                RNat (tt_physical_base tables), RNat (length (tt_bytes tables)), RNat (ct_ttbr0 c), RNat (ct_ttbr1 c),
                RNat (ct_tcr c), RNat (ct_sctlr c), RNat (ra_entry a)]),
             (''NXARMJIT: TRACE_MEMORY_PROVIDER'', [])]
          @ (if tr_fp build then [(''NXARMJIT: TRACE_FP_EXECUTION'', [])] else []))) (\<lambda>_.
       case td_service d ram (ra_base a) (tt_bytes tables) (tt_physical_base tables) c of
         None \<Rightarrow> fail INVALID_PARAMETER
       | Some m \<Rightarrow>
           bindS (run_guest (observe_request abi (tr_observe build) (td_execute d)) prot
               (td_runner d (a\<lparr>ra_size := length ram\<rparr>) c) (new_observer build (ra_aliases a) m) ctx)
             (\<lambda>((st, b, l), ob, ctx).
               bindS (report_lines fw (observation_lines build a ob l)) (\<lambda>_.
               let ram' = td_ram d (ob_service ob) in
               bindS (report_lines fw (readback_lines (first_store (ob_store_watch ob)) (ra_virtual_base a) ram'))
                 (\<lambda>_. ok ((st, b), ram', ctx))))))"

subsection \<open>What a guest does\<close>

text \<open>The requests a guest makes of the plain service with the replies, and the program counters fetched.\<close>

primrec log_of :: "'m service \<Rightarrow> 'p protection \<Rightarrow> 'b guest \<Rightarrow> 'm \<Rightarrow> 'p \<Rightarrow> (request \<times> reply) list" where
  "log_of svc prot (Stopped st b l) m p = []"
| "log_of svc prot (Asks q k) m p = (case svc q m of (r, m') \<Rightarrow> (q, r) # log_of svc prot (k r) m' p)"
| "log_of svc prot (Protects a n x k) m p = (case prot a n x p of (r, p') \<Rightarrow> log_of svc prot (k r) m p')"

definition fetched :: "abi \<Rightarrow> (request \<times> reply) list \<Rightarrow> nat list" where
  "fetched abi log = map (\<lambda>(q, r). rq_address q)
     (filter (\<lambda>(q, r). rq_operation q = abi_FETCH abi \<and> rp_result r = abi_OK abi) log)"

lemma alias_fetch_fields [simp]:
  "ob_service (alias_fetch abi q r i ob) = ob_service ob" "ob_flow (alias_fetch abi q r i ob) = ob_flow ob"
  "ob_load_watch (alias_fetch abi q r i ob) = ob_load_watch ob"
  "ob_store_watch (alias_fetch abi q r i ob) = ob_store_watch ob"
  by (simp_all add: alias_fetch_def split: option.split)

lemma note_ring_fields [simp]:
  "ob_service (note_ring q r ob) = ob_service ob" "ob_flow (note_ring q r ob) = ob_flow ob"
  "ob_load_watch (note_ring q r ob) = ob_load_watch ob" "ob_store_watch (note_ring q r ob) = ob_store_watch ob"
  by (simp_all add: note_ring_def Let_def)

lemma drive_observed:
  fixes ob :: "'m observed" and p :: 'p and abi :: abi and observe :: bool and svc :: "'m service" and g :: "'b guest"
  defines "step \<equiv> observe_request abi observe svc"
  shows "fst (drive step prot g ob p) = fst (drive svc prot g (ob_service ob) p)
    \<and> ob_service (fst (snd (drive step prot g ob p))) = fst (snd (drive svc prot g (ob_service ob) p))
    \<and> snd (snd (drive step prot g ob p)) = snd (snd (drive svc prot g (ob_service ob) p))
    \<and> ob_flow (fst (snd (drive step prot g ob p))) = fold flow_record (fetched abi (log_of svc prot g (ob_service ob) p)) (ob_flow ob)
    \<and> ob_load_watch (fst (snd (drive step prot g ob p)))
      = map_option (fold (\<lambda>(q, r). load_record abi q r) (log_of svc prot g (ob_service ob) p)) (ob_load_watch ob)
    \<and> ob_store_watch (fst (snd (drive step prot g ob p)))
      = map_option (fold (\<lambda>(q, r). store_record abi q r) (log_of svc prot g (ob_service ob) p)) (ob_store_watch ob)"
proof (induction g arbitrary: ob p)
  case (Stopped st b l)
  show ?case by (simp add: fetched_def option.map_ident)
next
  case (Asks q k)
  obtain r m where svc: "svc q (ob_service ob) = (r, m)" by fastforce
  obtain ob' where ob': "step q ob = (r, ob')" "ob_service ob' = m"
      "ob_flow ob' = (if rq_operation q = abi_FETCH abi \<and> rp_result r = abi_OK abi
         then flow_record (rq_address q) (ob_flow ob) else ob_flow ob)"
      "ob_load_watch ob' = map_option (load_record abi q r) (ob_load_watch ob)"
      "ob_store_watch ob' = map_option (store_record abi q r) (ob_store_watch ob)"
    by (simp add: step_def observe_request_def svc Let_def note_fetch_def)
  from Asks.IH [of "k r" ob'] show ?case
    by (simp add: ob' svc fetched_def option.map_comp comp_def)
next
  case (Protects a n x k)
  then show ?case by (simp split: prod.split)
qed

subsection \<open>The flow of control\<close>

text \<open>
  The steps between successive fetches, numbered by the fetch that ends them, and among them the
  edges: those that do not go to the following instruction.
\<close>

definition steps_of :: "nat list \<Rightarrow> flow_edge list" where
  "steps_of pcs = map (\<lambda>i. \<lparr>ed_sequence = i + 2, ed_from = pcs ! i, ed_to = pcs ! (i + 1)\<rparr>) [0..<length pcs - 1]"

definition jumps :: "flow_edge \<Rightarrow> bool" where
  "jumps e \<longleftrightarrow> checked_add (ed_from e) 4 \<noteq> Some (ed_to e)"

definition edges_of :: "nat list \<Rightarrow> flow_edge list" where
  "edges_of pcs = filter jumps (steps_of pcs)"

lemma steps_of_snoc:
  "steps_of (pcs @ [pc]) = (if pcs = [] then [] else
     steps_of pcs @ [\<lparr>ed_sequence = length pcs + 1, ed_from = last pcs, ed_to = pc\<rparr>])"
proof (cases pcs rule: rev_cases)
  case Nil
  then show ?thesis by (simp add: steps_of_def)
next
  case (snoc ps p)
  then show ?thesis by (simp add: steps_of_def nth_append)
qed

lemma length_edges: "length (edges_of pcs) \<le> length pcs"
  by (auto simp: edges_of_def steps_of_def intro: order_trans [OF length_filter_le])

text \<open>An array of size \<open>c\<close> that is filled from the front holds the first elements of a list.\<close>

definition prefix_holds :: "nat \<Rightarrow> 'a list \<Rightarrow> 'a list \<Rightarrow> bool" where
  "prefix_holds c a xs \<longleftrightarrow> length a = c \<and> take (length xs) a = take c xs"

lemma prefix_holds_full:
  assumes "prefix_holds c a xs" "c \<le> length xs"
  shows "length a = c" "a = take c xs"
proof -
  show l: "length a = c" using assms(1) by (simp add: prefix_holds_def)
  with assms(2) have "take (length xs) a = a" by simp
  with assms(1) show "a = take c xs" by (simp add: prefix_holds_def)
qed

lemma prefix_holds_push:
  assumes "prefix_holds c a xs"
  shows "prefix_holds c (if length xs < c then a[length xs := x] else a) (xs @ [x])"
proof (cases "length xs < c")
  case True
  with assms show ?thesis by (simp add: prefix_holds_def take_Suc_conv_app_nth)
next
  case False
  then have le: "c \<le> length xs" by simp
  from prefix_holds_full(2) [OF assms le] have "take c xs = a" by (rule sym)
  moreover from le have "take c (xs @ [x]) = take c xs" by simp
  moreover from le prefix_holds_full(1) [OF assms le] have "take (length (xs @ [x])) a = a" by simp
  ultimately have "take (length (xs @ [x])) a = take c (xs @ [x])" by (simp only:)
  with False prefix_holds_full(1) [OF assms le] show ?thesis by (simp only: prefix_holds_def if_False simp_thms)
qed

lemma prefix_holds_read: "prefix_holds c a xs \<Longrightarrow> take (min (length xs) c) a = take c xs"
proof (cases "c \<le> length xs")
  case True
  assume h: "prefix_holds c a xs"
  from prefix_holds_full(2) [OF h True] have "take c xs = a" by (rule sym)
  with prefix_holds_full(1) [OF h True] True show ?thesis by (simp add: min_def)
next
  case False
  assume "prefix_holds c a xs"
  with False show ?thesis by (simp add: prefix_holds_def)
qed

text \<open>The two samples of the edges hold the first 32 and the last 16.\<close>

definition samples :: "fetch_flow \<Rightarrow> flow_edge list \<Rightarrow> bool" where
  "samples f es \<longleftrightarrow> fl_edge_count f = length es \<and> prefix_holds FIRST_FLOW_EDGES (fl_first f) es
     \<and> ring_holds LAST_FLOW_EDGES (fl_last f) es"

lemma samples_push:
  assumes "samples f es" "length es < 2 ^ 64 - 1"
  shows "samples (push_edge e f) (es @ [e])"
  using assms ring_holds_push [of LAST_FLOW_EDGES "fl_last f" es e]
    prefix_holds_push [of FIRST_FLOW_EDGES "fl_first f" es e]
  by (auto simp: samples_def push_edge_def saturating_add_def LAST_FLOW_EDGES_def)

definition flow_inv :: "fetch_flow \<Rightarrow> nat list \<Rightarrow> bool" where
  "flow_inv f pcs \<longleftrightarrow> fl_successful f = length pcs \<and> fl_previous f = (if pcs = [] then None else Some (last pcs))
     \<and> samples f (edges_of pcs)"

lemma flow_inv_record:
  assumes "flow_inv f pcs" "length pcs < 2 ^ 64 - 1"
  shows "flow_inv (flow_record pc f) (pcs @ [pc])"
proof (cases "pcs = []")
  case True
  with assms show ?thesis
    by (simp add: flow_inv_def flow_record_def saturating_add_def edges_of_def steps_of_def samples_def)
next
  case False
  let ?e = "\<lparr>ed_sequence = length pcs + 1, ed_from = last pcs, ed_to = pc\<rparr>"
  let ?f = "f\<lparr>fl_successful := length pcs + 1, fl_watch := map_option (fetch_record (last pcs) pc (length pcs + 1)) (fl_watch f)\<rparr>"
  have edges: "edges_of (pcs @ [pc]) = edges_of pcs @ (if jumps ?e then [?e] else [])"
    using False by (simp add: edges_of_def steps_of_snoc)
  have rec: "flow_record pc f = (if jumps ?e then push_edge ?e ?f else ?f)\<lparr>fl_previous := Some pc\<rparr>"
    using False assms by (simp add: flow_record_def flow_inv_def saturating_add_def Let_def jumps_def)
  have f: "samples ?f (edges_of pcs)"
    using assms(1) by (simp add: flow_inv_def samples_def)
  have "length (edges_of pcs) < 2 ^ 64 - 1"
    using assms(2) length_edges [of pcs] by linarith
  from samples_push [OF f this, of ?e] f
  have "samples (if jumps ?e then push_edge ?e ?f else ?f) (edges_of (pcs @ [pc]))"
    by (simp add: edges)
  moreover have "fl_successful (if jumps ?e then push_edge ?e ?f else ?f) = length pcs + 1"
    by (simp add: push_edge_def)
  ultimately show ?thesis by (simp add: flow_inv_def rec samples_def)
qed

lemma flow_inv_fold:
  "length pcs < 2 ^ 64 \<Longrightarrow> flow_inv (fold flow_record pcs (new_flow w)) pcs"
proof (induction pcs rule: rev_induct)
  case Nil
  show ?case by (simp add: flow_inv_def samples_def new_flow_def edges_of_def steps_of_def ring_holds_def prefix_holds_def)
next
  case (snoc pc pcs)
  then show ?case by (simp add: flow_inv_record)
qed

lemma edge_lines_samples:
  assumes "samples f es"
  shows "edge_lines f =
    map (edge_line ''NXARMJIT: TRACE_FETCH_EDGE sample=first'') (take 32 es)
    @ (if length es > 32 then map (edge_line ''NXARMJIT: TRACE_FETCH_EDGE sample=last'') (suffix_of 16 es) else [])"
proof -
  have "take (min (length es) 32) (fl_first f) = take 32 es"
    using assms by (intro prefix_holds_read) (simp add: samples_def FIRST_FLOW_EDGES_def)
  moreover have last: "map (\<lambda>i. fl_last f ! (i mod 16)) [length es - min 16 (length es)..<length es] = suffix_of 16 es"
    using assms by (intro ring_holds_read) (simp_all add: samples_def LAST_FLOW_EDGES_def)
  from arg_cong [OF last, of "map (edge_line _)"]
  have "map (\<lambda>i. edge_line tag (fl_last f ! (i mod 16))) [length es - 16..<length es]
      = map (edge_line tag) (suffix_of 16 es)" if "32 < length es" for tag
    using that by (simp add: comp_def)
  ultimately show ?thesis
    using assms by (simp add: edge_lines_def samples_def FIRST_FLOW_EDGES_def LAST_FLOW_EDGES_def Let_def)
qed

subsection \<open>The watches\<close>

text \<open>The number of adjacent pairs of a list that are related.\<close>

definition adjacent :: "('a \<Rightarrow> 'a \<Rightarrow> bool) \<Rightarrow> 'a list \<Rightarrow> nat" where
  "adjacent P xs = length (filter (\<lambda>(a, b). P a b) (zip xs (tl xs)))"

lemma adjacent_snoc:
  "adjacent P (xs @ [x]) = (if xs = [] then 0 else adjacent P xs + (if P (last xs) x then 1 else 0))"
  by (induction xs rule: induct_list012) (simp_all add: adjacent_def)

lemma adjacent_bound: "adjacent P xs \<le> length xs - 1"
  unfolding adjacent_def by (rule order_trans [OF length_filter_le]) simp

text \<open>The successful stores, or loads, at the watched program counter.\<close>

definition hits :: "u32 \<Rightarrow> u32 \<Rightarrow> nat \<Rightarrow> (request \<times> reply) list \<Rightarrow> (request \<times> reply) list" where
  "hits operation good pc log = filter (\<lambda>(q, r). rq_operation q = operation \<and> rq_pc q = pc \<and> rp_result r = good) log"

definition requested :: "u32 \<Rightarrow> nat \<Rightarrow> (request \<times> reply) list \<Rightarrow> nat" where
  "requested operation pc log = length (filter (\<lambda>(q, r). rq_operation q = operation \<and> rq_pc q = pc) log)"

definition goes :: "(nat \<Rightarrow> nat \<Rightarrow> bool) \<Rightarrow> request \<times> reply \<Rightarrow> request \<times> reply \<Rightarrow> bool" where
  "goes P x y = P (rq_address (fst x)) (rq_address (fst y))"

definition changes :: "request \<times> reply \<Rightarrow> request \<times> reply \<Rightarrow> bool" where
  "changes x y \<longleftrightarrow> rp_value0 (snd y) \<noteq> rp_value0 (snd x)
     \<or> (rq_count (fst y) = 2 \<and> rp_value1 (snd y) \<noteq> rp_value1 (snd x))"

definition store_summary :: "store_watch \<Rightarrow> nat \<Rightarrow> (request \<times> reply) list \<Rightarrow> bool" where
  "store_summary w n hs \<longleftrightarrow> sw_requests w = n \<and> sw_successful w = length hs
     \<and> sw_forward w = adjacent (goes (<)) hs \<and> sw_backward w = adjacent (goes (>)) hs
     \<and> sw_repeated w = adjacent (goes (=)) hs
     \<and> (hs \<noteq> [] \<longrightarrow> sw_first_address w = rq_address (fst (hd hs)) \<and> sw_first_value w = rq_value0 (fst (hd hs))
         \<and> sw_last_address w = rq_address (fst (last hs)) \<and> sw_last_value w = rq_value0 (fst (last hs)))"

definition load_summary :: "load_watch \<Rightarrow> nat \<Rightarrow> (request \<times> reply) list \<Rightarrow> bool" where
  "load_summary w n hs \<longleftrightarrow> lw_requests w = n \<and> lw_successful w = length hs
     \<and> lw_forward w = adjacent (goes (<)) hs \<and> lw_backward w = adjacent (goes (>)) hs
     \<and> lw_repeated w = adjacent (goes (=)) hs \<and> lw_value_changes w = adjacent changes hs
     \<and> (hs \<noteq> [] \<longrightarrow> lw_first_address w = rq_address (fst (hd hs))
         \<and> lw_last_address w = rq_address (fst (last hs)) \<and> lw_last_value0 w = rp_value0 (snd (last hs))
         \<and> lw_last_value1 w = rp_value1 (snd (last hs)))"

lemma hits_bound: "length (hits operation good pc log) \<le> length log"
  and requested_bound: "requested operation pc log \<le> length log"
  by (simp_all add: hits_def requested_def)

lemma hits_snoc: "hits operation good pc (log @ [(q, r)]) =
    (if rq_operation q = operation \<and> rq_pc q = pc \<and> rp_result r = good then hits operation good pc log @ [(q, r)]
     else hits operation good pc log)"
  and requested_snoc: "requested operation pc (log @ [(q, r)]) =
    (if rq_operation q = operation \<and> rq_pc q = pc then requested operation pc log + 1 else requested operation pc log)"
  by (simp_all add: hits_def requested_def)

lemma saturating_below: "n < 2 ^ 64 - 1 \<Longrightarrow> saturating_add n (Suc 0) = Suc n"
  by (simp add: saturating_add_def)

lemma store_summary_snoc:
  assumes "store_summary w n hs" "n < 2 ^ 64 - 1" "length hs < 2 ^ 64 - 1"
    "rq_operation q = abi_STORE abi" "rq_pc q = sw_pc w"
  shows "store_summary (store_record abi q r w) (n + 1) (if rp_result r = abi_OK abi then hs @ [(q, r)] else hs)"
proof -
  have "adjacent P hs < 2 ^ 64 - 1" for P
    using adjacent_bound [of P hs] assms(3) by linarith
  note bounds = this [THEN saturating_below] assms(2,3) [THEN saturating_below]
  show ?thesis
  proof (cases "hs = []")
    case True
    with assms(1,2,4,5) show ?thesis
      unfolding store_summary_def store_record_def
      by (simp add: bounds saturating_below Let_def adjacent_snoc) (simp add: adjacent_def saturating_add_def)
  next
    case False
    with assms(1,4,5) show ?thesis
      unfolding store_summary_def store_record_def
      by (simp add: bounds Let_def adjacent_snoc goes_def)
  qed
qed

lemma load_summary_snoc:
  assumes "load_summary w n hs" "n < 2 ^ 64 - 1" "length hs < 2 ^ 64 - 1"
    "rq_operation q = abi_LOAD abi" "rq_pc q = lw_pc w"
  shows "load_summary (load_record abi q r w) (n + 1) (if rp_result r = abi_OK abi then hs @ [(q, r)] else hs)"
proof -
  have "adjacent P hs < 2 ^ 64 - 1" for P
    using adjacent_bound [of P hs] assms(3) by linarith
  note bounds = this [THEN saturating_below] assms(2,3) [THEN saturating_below]
  show ?thesis
  proof (cases "hs = []")
    case True
    with assms(1,2,4,5) show ?thesis
      unfolding load_summary_def load_record_def
      by (simp add: bounds saturating_below Let_def adjacent_snoc) (simp add: adjacent_def saturating_add_def)
  next
    case False
    have fields: "lw_requests (crossed q v) = lw_requests v" "lw_successful (crossed q v) = lw_successful v"
      "lw_forward (crossed q v) = lw_forward v" "lw_backward (crossed q v) = lw_backward v"
      "lw_repeated (crossed q v) = lw_repeated v" "lw_value_changes (crossed q v) = lw_value_changes v"
      "lw_first_address (crossed q v) = lw_first_address v" "lw_last_address (crossed q v) = lw_last_address v"
      "lw_last_value0 (crossed q v) = lw_last_value0 v" "lw_last_value1 (crossed q v) = lw_last_value1 v" for v
      by (simp_all add: crossed_def split: option.split)
    from False assms(1,4,5) show ?thesis
      unfolding load_summary_def load_record_def
      by (auto simp: bounds Let_def adjacent_snoc goes_def changes_def fields)
  qed
qed

lemma store_watch_fold:
  assumes "length log < 2 ^ 64" "store_watch_configured env = Some w0"
  shows "sw_pc (fold (\<lambda>(q, r). store_record abi q r) log w0) = sw_pc w0
    \<and> store_summary (fold (\<lambda>(q, r). store_record abi q r) log w0) (requested (abi_STORE abi) (sw_pc w0) log)
    (hits (abi_STORE abi) (abi_OK abi) (sw_pc w0) log)"
  using assms(1)
proof (induction log rule: rev_induct)
  case Nil
  from assms(2) show ?case
    by (auto simp: store_watch_configured_def new_store_watch_def store_summary_def requested_def hits_def adjacent_def
        bind_eq_Some_conv)
next
  case (snoc e log)
  obtain q r where e: "e = (q, r)" by fastforce
  let ?w = "fold (\<lambda>(q, r). store_record abi q r) log w0"
  from snoc have IH: "sw_pc ?w = sw_pc w0" "store_summary ?w (requested (abi_STORE abi) (sw_pc w0) log)
      (hits (abi_STORE abi) (abi_OK abi) (sw_pc w0) log)" by simp_all
  have pc: "sw_pc (store_record abi q r v) = sw_pc v" for v by (simp add: store_record_def Let_def)
  show ?case
  proof (cases "rq_operation q = abi_STORE abi \<and> rq_pc q = sw_pc w0")
    case True
    have "requested (abi_STORE abi) (sw_pc w0) log < 2 ^ 64 - 1"
      "length (hits (abi_STORE abi) (abi_OK abi) (sw_pc w0) log) < 2 ^ 64 - 1"
      using snoc.prems requested_bound [of "abi_STORE abi" "sw_pc w0" log]
        hits_bound [of "abi_STORE abi" "abi_OK abi" "sw_pc w0" log] by auto
    from store_summary_snoc [OF IH(2) this, of q abi r] True IH(1) show ?thesis
      by (simp add: e pc requested_snoc hits_snoc)
  next
    case False
    with IH have "store_record abi q r ?w = ?w" by (auto simp: store_record_def)
    with False IH show ?thesis by (auto simp: e requested_snoc hits_snoc)
  qed
qed

lemma load_watch_fold:
  assumes "length log < 2 ^ 64" "load_watch_configured env env_threshold = Some w0"
  shows "lw_pc (fold (\<lambda>(q, r). load_record abi q r) log w0) = lw_pc w0
    \<and> load_summary (fold (\<lambda>(q, r). load_record abi q r) log w0) (requested (abi_LOAD abi) (lw_pc w0) log)
    (hits (abi_LOAD abi) (abi_OK abi) (lw_pc w0) log)"
  using assms(1)
proof (induction log rule: rev_induct)
  case Nil
  from assms(2) show ?case
    by (auto simp: load_watch_configured_def new_load_watch_def load_summary_def requested_def hits_def adjacent_def
        bind_eq_Some_conv split: option.splits)
next
  case (snoc e log)
  obtain q r where e: "e = (q, r)" by fastforce
  let ?w = "fold (\<lambda>(q, r). load_record abi q r) log w0"
  from snoc have IH: "lw_pc ?w = lw_pc w0" "load_summary ?w (requested (abi_LOAD abi) (lw_pc w0) log)
      (hits (abi_LOAD abi) (abi_OK abi) (lw_pc w0) log)" by simp_all
  have pc: "lw_pc (load_record abi q r v) = lw_pc v" for v by (simp add: load_record_def crossed_def Let_def split: option.split)
  show ?case
  proof (cases "rq_operation q = abi_LOAD abi \<and> rq_pc q = lw_pc w0")
    case True
    have "requested (abi_LOAD abi) (lw_pc w0) log < 2 ^ 64 - 1"
      "length (hits (abi_LOAD abi) (abi_OK abi) (lw_pc w0) log) < 2 ^ 64 - 1"
      using snoc.prems requested_bound [of "abi_LOAD abi" "lw_pc w0" log]
        hits_bound [of "abi_LOAD abi" "abi_OK abi" "lw_pc w0" log] by auto
    from load_summary_snoc [OF IH(2) this, of q abi r] True IH(1) show ?thesis
      by (simp add: e pc requested_snoc hits_snoc)
  next
    case False
    with IH have "load_record abi q r ?w = ?w" by (auto simp: load_record_def)
    with False IH show ?thesis by (auto simp: e requested_snoc hits_snoc)
  qed
qed

text \<open>The fetch watch, over the steps from its program counter.\<close>

definition taken :: "nat \<Rightarrow> flow_edge list \<Rightarrow> flow_edge list" where
  "taken p es = dropWhile (\<lambda>e. ed_from e \<noteq> p) (filter jumps es)"

definition fetch_summary :: "fetch_watch \<Rightarrow> flow_edge list \<Rightarrow> bool" where
  "fetch_summary v es \<longleftrightarrow> (let p = wf_from v in
     wf_visits v = length (filter (\<lambda>e. ed_from e = p) es)
     \<and> wf_fallthrough v = length (filter (\<lambda>e. ed_from e = p \<and> \<not> jumps e) es)
     \<and> wf_first_taken v = (case taken p es of [] \<Rightarrow> None | e # _ \<Rightarrow> Some e)
     \<and> wf_follow_count v = min (length (taken p es)) WATCH_FOLLOW_EDGES
     \<and> prefix_holds WATCH_FOLLOW_EDGES (wf_follow v) (taken p es))"

lemma taken_snoc: "taken p (es @ [e]) =
    (if jumps e \<and> (taken p es \<noteq> [] \<or> ed_from e = p) then taken p es @ [e] else taken p es)"
proof (cases "\<forall>x \<in> set (filter jumps es). ed_from x \<noteq> p")
  case True
  then have "taken p (es @ [e]) = dropWhile (\<lambda>e. ed_from e \<noteq> p) (filter jumps [e])"
    by (simp add: taken_def dropWhile_append)
  moreover from True have "taken p es = []" by (simp add: taken_def)
  ultimately show ?thesis by auto
next
  case False
  then have "taken p es \<noteq> []" by (simp add: taken_def)
  with False show ?thesis by (auto simp: taken_def dropWhile_append)
qed

abbreviation fetch_step :: "flow_edge \<Rightarrow> fetch_watch \<Rightarrow> fetch_watch" where
  "fetch_step e \<equiv> fetch_record (ed_from e) (ed_to e) (ed_sequence e)"

lemma fetch_summary_snoc:
  assumes "fetch_summary v es" "length es < 2 ^ 64 - 1"
  shows "fetch_summary (fetch_step e v) (es @ [e])"
proof -
  have bound: "length (filter P es) < 2 ^ 64 - 1" for P
    using length_filter_le [of P es] assms(2) by linarith
  have seq: "\<lparr>ed_sequence = ed_sequence e, ed_from = ed_from e, ed_to = ed_to e\<rparr> = e" by simp
  have "wf_from (fetch_step e v) = wf_from v" by (simp add: fetch_record_def Let_def)
  then show ?thesis
    using assms(1) bound [THEN saturating_below]
      prefix_holds_push [of WATCH_FOLLOW_EDGES "wf_follow v" "taken (wf_from v) es" e]
    unfolding fetch_summary_def fetch_record_def Let_def seq
    by (auto simp: taken_snoc jumps_def min_def split: list.splits if_splits)
qed

lemma flow_watch_fold:
  "length pcs < 2 ^ 64 \<Longrightarrow> fl_watch (fold flow_record pcs (new_flow w)) = map_option (fold fetch_step (steps_of pcs)) w"
proof (induction pcs rule: rev_induct)
  case Nil
  show ?case by (simp add: new_flow_def steps_of_def option.map_ident)
next
  case (snoc pc pcs)
  let ?f = "fold flow_record pcs (new_flow w)"
  from snoc have IH: "fl_watch ?f = map_option (fold fetch_step (steps_of pcs)) w" by simp
  from snoc.prems have inv: "flow_inv ?f pcs" by (intro flow_inv_fold) simp
  have n: "saturating_add (length pcs) (Suc 0) = Suc (length pcs)"
    using snoc.prems by (intro saturating_below) simp
  show ?case
  proof (cases "pcs = []")
    case True
    then show ?thesis by (simp add: flow_record_def new_flow_def steps_of_def option.map_ident)
  next
    case False
    with inv n have "fl_watch (flow_record pc ?f) = map_option (fetch_record (last pcs) pc (Suc (length pcs))) (fl_watch ?f)"
      by (simp add: flow_inv_def flow_record_def push_edge_def Let_def)
    with False show ?thesis by (simp add: IH steps_of_snoc option.map_comp comp_def)
  qed
qed

lemma fetch_summary_fold:
  "length es < 2 ^ 64 \<Longrightarrow> fetch_summary (fold fetch_step es (new_fetch_watch p)) es
    \<and> wf_from (fold fetch_step es (new_fetch_watch p)) = p"
proof (induction es rule: rev_induct)
  case Nil
  show ?case by (simp add: fetch_summary_def new_fetch_watch_def taken_def prefix_holds_def Let_def)
next
  case (snoc e es)
  then show ?case by (simp add: fetch_summary_snoc) (simp add: fetch_record_def Let_def)
qed

lemma steps_bound: "length pcs < n \<Longrightarrow> length (steps_of pcs) < n"
  by (simp add: steps_of_def less_imp_diff_less)

lemma fetched_bound: "length log < n \<Longrightarrow> length (fetched abi log) < n"
  unfolding fetched_def length_map by (rule le_less_trans [OF length_filter_le])

text \<open>What is printed for the edges \<open>es\<close>, and for a fetch watch at \<open>p\<close> when the steps were \<open>es\<close>.\<close>

definition edges_report :: "flow_edge list \<Rightarrow> line list" where
  "edges_report es =
     map (edge_line ''NXARMJIT: TRACE_FETCH_EDGE sample=first'') (take 32 es)
     @ (if length es > 32 then map (edge_line ''NXARMJIT: TRACE_FETCH_EDGE sample=last'') (suffix_of 16 es) else [])"

definition watch_report :: "nat \<Rightarrow> flow_edge list \<Rightarrow> line list" where
  "watch_report p es =
    (let first = (case taken p es of [] \<Rightarrow> default_edge | e # _ \<Rightarrow> e) in
     (''NXARMJIT: TRACE_FETCH_WATCH'', [RNat p, RNat (length (filter (\<lambda>e. ed_from e = p) es)),
        RNat (length (filter (\<lambda>e. ed_from e = p \<and> \<not> jumps e) es)), RNat (ed_sequence first), RNat (ed_to first),
        RNat (min (length (taken p es)) 16)])
     # map (edge_line ''NXARMJIT: TRACE_FETCH_WATCH_EDGE'') (take 16 (taken p es)))"

lemma watch_lines_summary:
  assumes "fetch_summary v es" "wf_from v = p"
  shows "watch_lines (Some v) = watch_report p es"
proof -
  from assms have "take (wf_follow_count v) (wf_follow v) = take 16 (taken p es)"
    using prefix_holds_read [of 16 "wf_follow v" "taken p es"]
    by (simp add: fetch_summary_def WATCH_FOLLOW_EDGES_def Let_def)
  with assms show ?thesis
    by (auto simp: watch_lines_def watch_report_def fetch_summary_def WATCH_FOLLOW_EDGES_def Let_def split: list.split)
qed

lemma observer_fields [simp]:
  "ob_service (new_observer build aliases m) = m"
  "ob_flow (new_observer build aliases m) = new_flow (fetch_watch_configured (tr_fetch_watch build))"
  "ob_load_watch (new_observer build aliases m) = load_watch_configured (tr_load_watch build) (tr_threshold build)"
  "ob_store_watch (new_observer build aliases m) = store_watch_configured (tr_store_watch build)"
  by (simp_all add: new_observer_def)

subsection \<open>Properties\<close>

text \<open>Property C18: the trace is transparent and its flow report is exact. The guest runs as it would against
  the plain service, and the printed edges are the first 32 and, when there are more, the last
  16 of the jumps in its sequence of fetches; a fetch watch prints the visits, the fall-through
  count and the first 16 jumps from its first taken one on.\<close>

theorem trace_reports_the_flow:
  assumes "length (log_of svc prot g m p) < 2 ^ 64"
    and "drive (observe_request abi observe svc) prot g (new_observer build aliases m) p = (res, ob, p')"
    and "fetch_watch_configured (tr_fetch_watch build) = map_option new_fetch_watch watch"
  defines "pcs \<equiv> fetched abi (log_of svc prot g m p)"
  shows "drive svc prot g m p = (res, ob_service ob, p') \<and> edge_lines (ob_flow ob) = edges_report (edges_of pcs)
    \<and> watch_lines (fl_watch (ob_flow ob)) = (case watch of None \<Rightarrow> [] | Some p \<Rightarrow> watch_report p (steps_of pcs))"
proof -
  note d = drive_observed [of abi observe svc prot g "new_observer build aliases m" p, unfolded assms(2) observer_fields]
  have n: "length pcs < 2 ^ 64" using fetched_bound [OF assms(1)] by (simp add: pcs_def)
  from d have f: "ob_flow ob = fold flow_record pcs (new_flow (map_option new_fetch_watch watch))"
    by (simp add: pcs_def assms(3))
  from flow_inv_fold [OF n] have "samples (ob_flow ob) (edges_of pcs)" by (simp add: f flow_inv_def)
  then have "edge_lines (ob_flow ob) = edges_report (edges_of pcs)"
    by (simp only: edge_lines_samples edges_report_def)
  moreover have "watch_lines (fl_watch (ob_flow ob)) = (case watch of None \<Rightarrow> [] | Some p \<Rightarrow> watch_report p (steps_of pcs))"
    using fetch_summary_fold [OF steps_bound [OF n]]
    by (cases watch) (simp add: f flow_watch_fold [OF n] watch_lines_def,
      simp add: f flow_watch_fold [OF n] watch_lines_summary)
  moreover from d have "drive svc prot g m p = (res, ob_service ob, p')" by (metis fst_conv prod.collapse snd_conv)
  ultimately show ?thesis by simp
qed

lemma surjective_pairs: "x = (fst x, fst (snd x), snd (snd x))"
  by simp

definition example_abi :: abi where
  "example_abi = \<lparr>abi_FETCH = 1, abi_LOAD = 2, abi_STORE = 3, abi_OK = 0,
     abi_PROFILE_FIXED_NC_UNALIGNED = 3\<rparr>"

definition ask :: "u32 \<Rightarrow> nat \<Rightarrow> nat \<Rightarrow> request" where
  "ask operation pc address = \<lparr>rq_operation = operation, rq_pc = pc, rq_address = address, rq_width = 8, rq_count = 1, rq_value0 = 7\<rparr>"

text \<open>A guest that fetches at 16 and 20, stores, jumps back to 16, stores again, and stops.\<close>

definition example_guest :: "unit guest" where
  "example_guest = Asks (ask 1 16 16) (\<lambda>_. Asks (ask 1 20 20) (\<lambda>_. Asks (ask 3 20 64) (\<lambda>_. Asks (ask 1 16 16) (\<lambda>_.
     Asks (ask 3 20 72) (\<lambda>_. Asks (ask 2 16 64) (\<lambda>_. Stopped 0 () \<lparr>lr_result = 0, lr_fault = 0, lr_address = 0,
       lr_output_pa = 0, lr_descriptor_pa = 0, lr_level = 0, lr_context = 0, lr_metadata_flags = 0, lr_esr = 0\<rparr>))))))"

definition example_build :: trace_build where
  "example_build = \<lparr>tr_fetch_watch = Some ''0x14'', tr_load_watch = Some ''0x10'', tr_threshold = None,
     tr_store_watch = Some ''0x14'', tr_observe = True, tr_fp = False\<rparr>"

definition example_service :: "unit service" where
  "example_service q m = (\<lparr>rp_result = 0, rp_value0 = 5, rp_value1 = 0\<rparr>, m)"

definition example_protection :: "unit protection" where
  "example_protection a n x p = (0, ())"

lemma example_log:
  "log_of example_service example_protection example_guest () () = map (\<lambda>q. (q, \<lparr>rp_result = 0, rp_value0 = 5, rp_value1 = 0\<rparr>))
     [ask 1 16 16, ask 1 20 20, ask 3 20 64, ask 1 16 16, ask 3 20 72, ask 2 16 64]"
  by (simp add: example_guest_def example_service_def)

lemma example_configured:
  "fetch_watch_configured (tr_fetch_watch example_build) = Some (new_fetch_watch 20)"
  "load_watch_configured (tr_load_watch example_build) (tr_threshold example_build) = Some (new_load_watch 16 None)"
  "store_watch_configured (tr_store_watch example_build) = Some (new_store_watch 20)"
  by (simp_all add: example_build_def fetch_watch_configured_def load_watch_configured_def store_watch_configured_def
      watch_pc_def from_hex_def digit16_def)

theorem trace_reports_the_flow_witness:
  "edge_lines (ob_flow (fst (snd (drive (observe_request example_abi True example_service) example_protection example_guest
     (new_observer example_build [] ()) ())))) = [(''NXARMJIT: TRACE_FETCH_EDGE sample=first'', [RNat 3, RNat 20, RNat 16])]"
proof -
  have "fetched example_abi (log_of example_service example_protection example_guest () ()) = [16, 20, 16]"
    by (simp add: example_log fetched_def example_abi_def ask_def)
  then have "edges_of (fetched example_abi (log_of example_service example_protection example_guest () ())) =
      [\<lparr>ed_sequence = 3, ed_from = 20, ed_to = 16\<rparr>]"
    by (simp add: edges_of_def steps_of_def jumps_def checked_add_def upt_rec)
  with trace_reports_the_flow [of example_service example_protection example_guest "()" "()" example_abi True example_build "[]" _ _ _ "Some 20",
      OF _ surjective_pairs] example_configured(1) example_log
  show ?thesis by (simp add: edges_report_def edge_line_def)
qed

text \<open>The load and store watches summarise the guest's successful accesses at their program
  counter: their counters are the numbers of requests, of hits, of hits above, below and at the
  address of the hit before, and of changed values, and they keep the first and the last hit.\<close>

theorem watches_summarise_the_hits:
  assumes "length (log_of svc prot g m p) < 2 ^ 64"
    and "drive (observe_request abi observe svc) prot g (new_observer build aliases m) p = (res, ob, p')"
    and "load_watch_configured (tr_load_watch build) (tr_threshold build) = Some l0"
    and "store_watch_configured (tr_store_watch build) = Some s0"
  defines "log \<equiv> log_of svc prot g m p"
  shows "\<exists>l s. ob_load_watch ob = Some l \<and> ob_store_watch ob = Some s
    \<and> load_summary l (requested (abi_LOAD abi) (lw_pc l0) log) (hits (abi_LOAD abi) (abi_OK abi) (lw_pc l0) log)
    \<and> store_summary s (requested (abi_STORE abi) (sw_pc s0) log) (hits (abi_STORE abi) (abi_OK abi) (sw_pc s0) log)"
  using drive_observed [of abi observe svc prot g "new_observer build aliases m" p]
    load_watch_fold [OF assms(1,3), of abi] store_watch_fold [OF assms(1,4), of abi]
  by (simp add: assms(2-4) log_def)

theorem watches_summarise_the_hits_witness:
  "\<exists>s. ob_store_watch (fst (snd (drive (observe_request example_abi True example_service) example_protection example_guest
     (new_observer example_build [] ()) ()))) = Some s \<and> sw_successful s = 2 \<and> sw_forward s = 1 \<and> sw_first_address s = 64"
proof -
  have "hits 3 0 20 (log_of example_service example_protection example_guest () ()) =
      [(ask 3 20 64, \<lparr>rp_result = 0, rp_value0 = 5, rp_value1 = 0\<rparr>), (ask 3 20 72, \<lparr>rp_result = 0, rp_value0 = 5, rp_value1 = 0\<rparr>)]"
    by (simp add: example_log hits_def ask_def)
  moreover have "length (log_of example_service example_protection example_guest () ()) < 2 ^ 64" by (simp add: example_log)
  note watches_summarise_the_hits [OF this surjective_pairs example_configured(2,3), of example_abi True "[]"]
  ultimately show ?thesis
    by (auto simp: store_summary_def example_abi_def new_store_watch_def adjacent_def goes_def ask_def)
qed

end
