(* ===== verification/Boot_Framebuffer.thy ===== *)
theory Boot_Framebuffer
  imports UEFI
begin

text \<open>
  Presenting a guest's framebuffer through the graphics protocol (src/src/boot\_framebuffer.rs):
  the geometry of the current mode, the conversion of XRGB8888 bytes to pixels and back, and the
  protocol that is held while frames are presented and read. A pixel is (red, green, blue).
\<close>

definition MAX_DIMENSION :: nat where "MAX_DIMENSION = 8192"

record geometry =
  ge_width :: nat
  ge_height :: nat
  ge_row_bytes :: nat
  ge_byte_len :: nat

definition checked_mul32 :: "nat \<Rightarrow> nat \<Rightarrow> nat option" where
  "checked_mul32 a b = (if a * b < 2 ^ 32 then Some (a * b) else None)"

definition new_geometry :: "nat \<Rightarrow> nat \<Rightarrow> status + geometry" where
  "new_geometry width height =
     (if width = 0 \<or> height = 0 \<or> width > MAX_DIMENSION \<or> height > MAX_DIMENSION then Inl UNSUPPORTED
      else and_then (ok_or (checked_mul32 width 4) BAD_BUFFER_SIZE) (\<lambda>row_bytes.
           and_then (ok_or (checked_mul row_bytes height) BAD_BUFFER_SIZE) (\<lambda>byte_len.
           Inr \<lparr>ge_width = width, ge_height = height, ge_row_bytes = row_bytes, ge_byte_len = byte_len\<rparr>)))"

type_synonym pixel = "u8 \<times> u8 \<times> u8"

fun chunk_pixels :: "u8 list \<Rightarrow> pixel list" where
  "chunk_pixels (b # g # r # x # rest) = (r, g, b) # chunk_pixels rest"
| "chunk_pixels _ = []"

definition blt_pixels :: "'w firmware \<Rightarrow> geometry \<Rightarrow> u8 list \<Rightarrow> ('w, pixel list) res" where
  "blt_pixels fw geometry bytes =
     (if length bytes \<noteq> ge_byte_len geometry then fail BAD_BUFFER_SIZE
      else bindE (reserve_heap fw (4 * (length bytes div 4))) (\<lambda>_. ok (chunk_pixels bytes)))"

text \<open>The protocol that is held, and the geometry it was opened with.\<close>

record current_gop =
  cg_handle :: handle
  cg_geometry :: geometry

definition gop_drop :: "'w firmware \<Rightarrow> handle \<Rightarrow> 'w sys \<Rightarrow> 'w sys" where
  "gop_drop fw h s = snd (close_protocol fw h GopG s)"

definition to_u32 :: "nat \<Rightarrow> status + nat" where
  "to_u32 n = (if n < 2 ^ 32 then Inr n else Inl UNSUPPORTED)"

definition open_gop :: "'w firmware \<Rightarrow> ('w, current_gop) res" where
  "open_gop fw =
     bindE (find_handles fw GopG) (\<lambda>hs. case hs of
       [] \<Rightarrow> fail NOT_FOUND
     | h # _ \<Rightarrow>
         bindS (open_protocol fw h GopG) (\<lambda>(st, i).
         if st \<noteq> SUCCESS then fail st
         else bindS (query (fw_resolution fw)) (\<lambda>(width, height).
           case and_then (to_u32 width) (\<lambda>w. and_then (to_u32 height) (\<lambda>h. new_geometry w h)) of
             Inl e \<Rightarrow> with_drop (fail e) (gop_drop fw h)
           | Inr g \<Rightarrow> ok \<lparr>cg_handle = h, cg_geometry = g\<rparr>)))"

definition check_current_geometry :: "'w firmware \<Rightarrow> current_gop \<Rightarrow> ('w, unit) res" where
  "check_current_geometry fw g =
     query (\<lambda>w. if fw_resolution fw w \<noteq> (ge_width (cg_geometry g), ge_height (cg_geometry g))
                then Inl MEDIA_CHANGED else Inr ())"

definition present :: "'w firmware \<Rightarrow> current_gop \<Rightarrow> u8 list \<Rightarrow> ('w, unit) res" where
  "present fw g bytes =
     bindE (check_current_geometry fw g) (\<lambda>_.
     bindE (blt_pixels fw (cg_geometry g) bytes) (\<lambda>pixels.
     bindS (call (fw_blt fw pixels) EBlt) (\<lambda>st. if st \<noteq> SUCCESS then fail st else ok ())))"

definition bgrx :: "pixel \<Rightarrow> u8 list" where
  "bgrx p = (case p of (r, g, b) \<Rightarrow> [b, g, r, 0])"

definition readback :: "'w firmware \<Rightarrow> current_gop \<Rightarrow> ('w, u8 list) res" where
  "readback fw g =
     bindE (check_current_geometry fw g) (\<lambda>_.
     let n = ge_byte_len (cg_geometry g) div 4 in
     bindE (reserve_heap fw (4 * n)) (\<lambda>_.
     bindE (reserve_heap fw (ge_byte_len (cg_geometry g))) (\<lambda>_.
     bindS (call (fw_read_pixels fw n) (\<lambda>(st, ps). ECall ''read_pixels'' [RNat n] st)) (\<lambda>(st, pixels).
     if st \<noteq> SUCCESS then fail st else ok (concat (map bgrx pixels))))))"

subsection \<open>Lemmas\<close>

lemma new_geometry_Inr:
  "new_geometry width height = Inr g \<longleftrightarrow>
     0 < width \<and> width \<le> 8192 \<and> 0 < height \<and> height \<le> 8192
     \<and> g = \<lparr>ge_width = width, ge_height = height, ge_row_bytes = 4 * width, ge_byte_len = 4 * width * height\<rparr>"
proof (cases "0 < width \<and> width \<le> 8192 \<and> 0 < height \<and> height \<le> 8192")
  case True
  then have "width * height \<le> 8192 * 8192" by (intro mult_le_mono) auto
  with True show ?thesis
    by (auto simp: new_geometry_def MAX_DIMENSION_def checked_mul32_def checked_mul_def algebra_simps)
next
  case False
  then show ?thesis by (auto simp: new_geometry_def MAX_DIMENSION_def)
qed

text \<open>A frame with its unused bytes cleared.\<close>

fun cleared :: "u8 list \<Rightarrow> u8 list" where
  "cleared (b # g # r # x # rest) = b # g # r # 0 # cleared rest"
| "cleared _ = []"

lemma chunk_pixels_bgrx: "concat (map bgrx (chunk_pixels bytes)) = cleared bytes"
  by (induction bytes rule: cleared.induct) (auto simp: bgrx_def)

lemma length_chunk_pixels: "length (chunk_pixels bytes) = length bytes div 4"
  by (induction bytes rule: chunk_pixels.induct) auto

text \<open>
  A display that works as the graphics protocol documents: it shows what was copied to it, and
  copying does not change the mode.
\<close>

definition displays :: "'w firmware \<Rightarrow> bool" where
  "displays fw \<longleftrightarrow> (\<forall>ps w w'. fw_blt fw ps w = (SUCCESS, w') \<longrightarrow>
     fw_resolution fw w' = fw_resolution fw w \<and> fw_read_pixels fw (length ps) w' = ((SUCCESS, ps), w'))"

lemma present_Inr:
  assumes "present fw g bytes s = (Inr (), t)"
  shows "length bytes = ge_byte_len (cg_geometry g)"
    and "fw_resolution fw (world s) = (ge_width (cg_geometry g), ge_height (cg_geometry g))"
    and "\<exists>w. fw_blt fw (chunk_pixels bytes) (world s) = (SUCCESS, w) \<and> world t = w"
  using assms
  by (auto simp: present_def check_current_geometry_def blt_pixels_def reserve_heap_def query_def op_simps call_eval
      split: prod.splits sum.splits if_splits)

text \<open>Reading back what was presented.\<close>

lemma readback_presented:
  assumes "displays fw" "\<And>w n. fw_reserve fw w n" "new_geometry width height = Inr (cg_geometry g)"
    and "present fw g bytes s = (Inr (), t)"
  shows "readback fw g t = (Inr (cleared bytes), t\<lparr>trace := trace t @ [ECall ''read_pixels'' [RNat (length bytes div 4)] SUCCESS]\<rparr>)"
    and "length bytes = 4 * width * height" and "fw_resolution fw (world s) = (width, height)"
proof -
  from assms(3) have geo: "cg_geometry g = \<lparr>ge_width = width, ge_height = height, ge_row_bytes = 4 * width,
      ge_byte_len = 4 * width * height\<rparr>" by (simp add: new_geometry_Inr)
  note p = present_Inr [OF assms(4)]
  from p(3) assms(1) have "fw_resolution fw (world t) = fw_resolution fw (world s)"
    "fw_read_pixels fw (length (chunk_pixels bytes)) (world t) = ((SUCCESS, chunk_pixels bytes), world t)"
    unfolding displays_def by blast+
  moreover show "length bytes = 4 * width * height" "fw_resolution fw (world s) = (width, height)"
    using p(1,2) geo by simp_all
  moreover have "t\<lparr>world := world t, trace := x\<rparr> = t\<lparr>trace := x\<rparr>" for x by (cases t) simp
  ultimately show "readback fw g t = (Inr (cleared bytes), t\<lparr>trace := trace t @ [ECall ''read_pixels'' [RNat (length bytes div 4)] SUCCESS]\<rparr>)"
    by (simp add: readback_def check_current_geometry_def reserve_heap_def query_def op_simps call_eval Let_def geo
        assms(2) length_chunk_pixels chunk_pixels_bgrx mult.assoc)
qed

subsection \<open>Properties\<close>

text \<open>On a display that shows what is copied to it, reading back a presented frame returns the
  frame with its unused bytes cleared, for every geometry the code accepts; only a frame of
  exactly the geometry's size, in the mode it was opened with, is ever presented.\<close>

theorem presented_frame_reads_back:
  assumes "displays fw" "\<And>w n. fw_reserve fw w n" "new_geometry width height = Inr (cg_geometry g)"
    and "present fw g bytes s = (Inr (), t)"
  shows "fst (readback fw g t) = Inr (cleared bytes) \<and> length bytes = 4 * width * height
    \<and> fw_resolution fw (world s) = (width, height)"
  by (simp only: readback_presented [OF assms] fst_conv simp_thms)

definition screen :: "(u8 \<times> u8 \<times> u8) list firmware" where
  "screen = example_firmware\<lparr>fw_resolution := (\<lambda>_. (2, 1)), fw_blt := (\<lambda>ps _. (SUCCESS, ps)),
     fw_read_pixels := (\<lambda>n w. ((SUCCESS, take n w), w))\<rparr>"

theorem presented_frame_reads_back_witness:
  "fst (readback screen \<lparr>cg_handle = 1, cg_geometry = \<lparr>ge_width = 2, ge_height = 1, ge_row_bytes = 8, ge_byte_len = 8\<rparr>\<rparr>
     \<lparr>world = [(3, 2, 1), (7, 6, 5)], trace = [EBlt SUCCESS]\<rparr>) = Inr [1, 2, 3, 0, 5, 6, 7, 0]"
proof -
  let ?g = "\<lparr>cg_handle = 1, cg_geometry = \<lparr>ge_width = 2, ge_height = 1, ge_row_bytes = 8, ge_byte_len = 8\<rparr>\<rparr>"
  have "displays screen" by (simp add: displays_def screen_def)
  moreover have "fw_reserve screen w n" for w n by (simp add: screen_def example_firmware_def)
  moreover have "new_geometry 2 1 = Inr (cg_geometry ?g)" by (simp add: new_geometry_Inr)
  moreover have "present screen ?g [1, 2, 3, 4, 5, 6, 7, 8] \<lparr>world = [], trace = []\<rparr> =
      (Inr (), \<lparr>world = [(3, 2, 1), (7, 6, 5)], trace = [EBlt SUCCESS]\<rparr>)"
    by (simp add: present_def check_current_geometry_def blt_pixels_def reserve_heap_def query_def op_simps call_eval
        screen_def example_firmware_def)
  ultimately show ?thesis
    using presented_frame_reads_back [of screen 2 1 ?g "[1, 2, 3, 4, 5, 6, 7, 8]"] by simp
qed

end
