(* ===== verification/Exit_Data.thy ===== *)
theory Exit_Data
  imports UEFI Apfs_Records
begin

text \<open>
  Starting an image and reporting what it left behind (src/src/exit\_data.rs). The exit data is
  described by a bounded prefix; its pool buffer is released before anything is reported. The
  rendering of a unit is that of names in Apfs_Records.
\<close>

definition MAX_EXIT_DATA_BYTES :: nat where "MAX_EXIT_DATA_BYTES = 2048"

fun escaped_scan :: "u8 list \<Rightarrow> string \<Rightarrow> nat \<Rightarrow> string \<times> nat \<times> bool" where
  "escaped_scan (a # b # rest) text units =
     (let u = of_nat (le_nat [a, b]) :: u16 in
      if u = 0 then (text, units, True) else escaped_scan rest (text @ escape_unit u) (units + 1))"
| "escaped_scan _ text units = (text, units, False)"

definition escaped_description :: "u8 list \<Rightarrow> string \<times> nat \<times> bool" where
  "escaped_description bytes = escaped_scan bytes [] 0"

definition describe_exit :: "'w firmware \<Rightarrow> nat \<Rightarrow> u8 list \<Rightarrow> ('w, unit) op" where
  "describe_exit fw bytes copied =
     (case escaped_description copied of (text, units, terminated) \<Rightarrow>
        let trailing = (if terminated then saturating_sub bytes ((units + 1) * 2) else 0) in
        bindS (report fw ''NEXTCORE: IMAGE_EXIT_DATA'' [RNat bytes, RNat (min bytes MAX_EXIT_DATA_BYTES), RNat units,
          RBool terminated, RBool (bytes > min bytes MAX_EXIT_DATA_BYTES), RNat trailing]) (\<lambda>_.
        report fw ''NEXTCORE: IMAGE_EXIT_TEXT'' [RText text]))"

text \<open>Exit data at a pointer that is not null: copied when its prefix is addressable, freed, reported.\<close>

definition release_exit_data :: "'w firmware \<Rightarrow> status \<Rightarrow> nat \<Rightarrow> nat \<Rightarrow> ('w, status) op" where
  "release_exit_data fw st bytes p =
     (let len = min bytes MAX_EXIT_DATA_BYTES; range_valid = checked_add p len \<noteq> None in
      bindS (if range_valid then query (\<lambda>w. map (\<lambda>i. fw_bytes fw w (p + i)) [0..<len]) else ret []) (\<lambda>copied.
      bindS (call (fw_free_pool fw p) (EFreePool p)) (\<lambda>freed.
      bindS (if range_valid then describe_exit fw bytes copied
             else report fw ''NEXTCORE: IMAGE_EXIT_DATA invalid=ADDRESS_OVERFLOW'' [RNat bytes]) (\<lambda>_.
      bindS (report fw ''NEXTCORE: IMAGE_EXIT_DATA_FREE'' [RStat freed]) (\<lambda>_.
      ret st)))))"

definition start_image :: "'w firmware \<Rightarrow> handle \<Rightarrow> ('w, status) op" where
  "start_image fw child =
     (if \<not> fw_services fw then ret NOT_READY
      else bindS (call (fw_start_image fw child) (\<lambda>(st, bytes, data). EStartImage child st data)) (\<lambda>(st, bytes, data).
        case data of
          None \<Rightarrow> bindS (report fw ''NEXTCORE: IMAGE_EXIT_DATA pointer=null'' [RNat bytes]) (\<lambda>_. ret st)
        | Some p \<Rightarrow> release_exit_data fw st bytes p))"

subsection \<open>The description\<close>

lemma escaped_scan_units:
  "escaped_scan bytes acc n =
    (let us = takeWhile (\<lambda>u. u \<noteq> 0) (bytes_units bytes)
     in (acc @ escape_units us, n + length us, 0 \<in> set (bytes_units bytes)))"
  by (induction bytes acc n rule: escaped_scan.induct) (auto simp: Let_def escape_units_def)

lemma length_bytes_units: "length (bytes_units bs) = length bs div 2"
  by (induction bs rule: bytes_units.induct) auto

text \<open>A report whose texts are printable and no longer than six characters for each of 1024 units.\<close>

definition clean_report :: "event \<Rightarrow> bool" where
  "clean_report e = (case e of
     EReport tag vals \<Rightarrow> list_all (\<lambda>v. case v of RText t \<Rightarrow> list_all printable t \<and> length t \<le> 6144 | _ \<Rightarrow> True) vals
   | _ \<Rightarrow> False)"

lemma length_escape_units: "length (escape_units us) \<le> 6 * length us"
proof -
  have "length (escape_unit u) \<le> 6" for u by (rule escape_cases [of u]) (simp_all add: hex4_def)
  then show ?thesis by (induction us) (auto simp: escape_units_def intro: add_mono)
qed

lemma description_clean:
  assumes "escaped_description bytes = (text, units, terminated)" "length bytes \<le> 2048"
  shows "list_all printable text \<and> length text \<le> 6144"
proof -
  let ?us = "takeWhile (\<lambda>u. u \<noteq> 0) (bytes_units bytes)"
  from assms(1) have t: "text = escape_units ?us"
    by (auto simp: escaped_description_def escaped_scan_units Let_def)
  have "length ?us \<le> length bytes div 2"
    using length_takeWhile_le [of _ "bytes_units bytes"] by (simp add: length_bytes_units)
  with assms(2) length_escape_units [of ?us] escape_units_printable [of ?us] show ?thesis by (simp add: t)
qed

definition clean :: "('w, 'a) op \<Rightarrow> bool" where
  "clean m \<longleftrightarrow> extends m (\<lambda>_ evs. list_all clean_report evs)"

lemma clean_report_intro:
  "list_all (\<lambda>v. case v of RText t \<Rightarrow> list_all printable t \<and> length t \<le> 6144 | _ \<Rightarrow> True) vals \<Longrightarrow> clean (report fw tag vals)"
  unfolding clean_def report_def by (rule extends_call) (simp add: clean_report_def)

lemma clean_then: "clean m \<Longrightarrow> (\<And>a. clean (k a)) \<Longrightarrow> clean (bindS m k)"
  unfolding clean_def by (erule extends_bindS) (auto elim!: extends_mono)

lemma clean_describe_exit: "length copied \<le> 2048 \<Longrightarrow> clean (describe_exit fw bytes copied)"
  unfolding describe_exit_def
  by (cases "escaped_description copied") (auto simp: Let_def intro!: clean_then clean_report_intro dest: description_clean)

lemma clean_then_ret:
  "clean m \<Longrightarrow> extends (bindS m (\<lambda>_. ret a)) (\<lambda>r evs. r = a \<and> list_all clean_report evs)"
  unfolding clean_def by (erule extends_bindS) (simp add: extends_ret)

lemma extends_release_exit_data:
  "extends (release_exit_data fw st bytes p)
     (\<lambda>r evs. r = st \<and> (\<exists>f reports. evs = EFreePool p f # reports \<and> list_all clean_report reports))"
proof -
  let ?len = "min bytes MAX_EXIT_DATA_BYTES"
  have copy: "extends (if v then query (\<lambda>w. map (\<lambda>i. fw_bytes fw w (p + i)) [0..<?len]) else ret [])
      (\<lambda>copied evs. evs = [] \<and> length copied \<le> 2048)" for v
    by (auto simp: extends_def query_def ret_def MAX_EXIT_DATA_BYTES_def)
  have reports: "clean (bindS (if v then describe_exit fw bytes copied else report fw tag [RNat bytes]) (\<lambda>_.
      report fw tag' [RStat freed]))" if "length copied \<le> 2048" for v copied tag tag' freed
    using that by (auto intro!: clean_then clean_describe_exit clean_report_intro)
  have assoc: "bindS (bindS m k) l = bindS m (\<lambda>a. bindS (k a) l)" for m :: "('w, 'x) op" and k :: "'x \<Rightarrow> ('w, 'y) op" and l :: "'y \<Rightarrow> ('w, 'z) op"
    by (rule ext) (simp add: bindS_def case_prod_beta)
  have tail: "extends (bindS (call (fw_free_pool fw p) (EFreePool p)) (\<lambda>freed.
      bindS (if v then describe_exit fw bytes copied else report fw tag [RNat bytes]) (\<lambda>_.
      bindS (report fw tag' [RStat freed]) (\<lambda>_. ret st))))
      (\<lambda>r evs. r = st \<and> (\<exists>f reports. evs = EFreePool p f # reports \<and> list_all clean_report reports))"
    if "length copied \<le> 2048" for v copied tag tag'
    by (rule extends_bindS, rule extends_call [where P = "\<lambda>a evs. evs = [EFreePool p a]"], simp)
      (rule extends_mono [OF clean_then_ret [OF reports [OF that], unfolded assoc]], simp)
  show ?thesis
    unfolding release_exit_data_def Let_def
    by (rule extends_bindS [OF copy], elim conjE, hypsubst, simp only: append_Nil, rule tail)
qed

text \<open>In an automaton that ignores reports and freed pool buffers, only the start itself is a step.\<close>

lemma moves_release_exit_data:
  assumes "\<And>tag vs. d q (EReport tag vs) = Some q" "\<And>p st. d q (EFreePool p st) = Some q" "P st q"
  shows "moves d (release_exit_data fw st bytes p) q P"
  unfolding release_exit_data_def describe_exit_def Let_def
  by (rule moves_then; (rule moves_if moves_query moves_ret moves_stay_call assms refl | assumption)?)
    (auto intro!: moves_then moves_if moves_query moves_ret moves_stay_call moves_stay_report assms split: prod.split)

lemma moves_start_image:
  assumes reports: "\<And>st data q' tag vs. d q (EStartImage child st data) = Some q' \<Longrightarrow> d q' (EReport tag vs) = Some q'"
    and frees: "\<And>st data q' p st'. d q (EStartImage child st data) = Some q' \<Longrightarrow> d q' (EFreePool p st') = Some q'"
    and start: "\<And>st data. \<exists>q'. d q (EStartImage child st data) = Some q' \<and> P st q'"
    and absent: "P NOT_READY q"
  shows "moves d (start_image fw child) q P"
proof (cases "fw_services fw")
  case True
  have "moves d (bindS (call (fw_start_image fw child) (\<lambda>(st, bytes, data). EStartImage child st data)) (\<lambda>(st, bytes, data).
      case data of None \<Rightarrow> bindS (report fw tag [RNat bytes]) (\<lambda>_. ret st)
      | Some p \<Rightarrow> release_exit_data fw st bytes p)) q P" for tag
  proof (rule moves_bindS)
    show "moves d (call (fw_start_image fw child) (\<lambda>(st, bytes, data). EStartImage child st data)) q
        (\<lambda>a q'. case a of (st, bytes, data) \<Rightarrow> d q (EStartImage child st data) = Some q' \<and> P st q')"
      by (rule moves_call) (use start in \<open>auto split: prod.split\<close>)
    fix a :: "status \<times> nat \<times> nat option" and q'
    assume "case a of (st, bytes, data) \<Rightarrow> d q (EStartImage child st data) = Some q' \<and> P st q'"
    then obtain st bytes data where a: "a = (st, bytes, data)" "d q (EStartImage child st data) = Some q'" "P st q'"
      by (cases a) auto
    with reports [OF a(2)] frees [OF a(2)]
    show "moves d (case a of (st, bytes, data) \<Rightarrow> (case data of None \<Rightarrow> bindS (report fw tag [RNat bytes]) (\<lambda>_. ret st)
        | Some p \<Rightarrow> release_exit_data fw st bytes p)) q' P"
      by (cases data) (auto intro!: moves_then [OF moves_stay_report] moves_ret moves_release_exit_data)
  qed
  with True show ?thesis by (simp add: start_image_def)
qed (simp add: start_image_def moves_ret absent)

subsection \<open>Properties\<close>

text \<open>Property C19: starting an image returns the status of the image itself; exit data that the firmware
  handed over is freed exactly once, before anything is reported, and nothing else is freed; what
  is reported of it is bounded and printable.\<close>

theorem exit_data_is_freed_before_reports:
  "extends (start_image fw child) (\<lambda>r evs.
     if \<not> fw_services fw then r = NOT_READY \<and> evs = []
     else \<exists>data reports. list_all clean_report reports \<and> (case data of
         None \<Rightarrow> evs = EStartImage child r None # reports
       | Some p \<Rightarrow> \<exists>st. evs = EStartImage child r (Some p) # EFreePool p st # reports))"
proof (cases "fw_services fw")
  case False
  then show ?thesis by (simp add: start_image_def extends_ret)
next
  case True
  have "extends (case a of (st, bytes, data) \<Rightarrow> case data of
        None \<Rightarrow> bindS (report fw tag [RNat bytes]) (\<lambda>_. ret st) | Some p \<Rightarrow> release_exit_data fw st bytes p)
      (\<lambda>r evs'. \<exists>data reports. list_all clean_report reports \<and> (case data of
         None \<Rightarrow> evs @ evs' = EStartImage child r None # reports
       | Some p \<Rightarrow> \<exists>st. evs @ evs' = EStartImage child r (Some p) # EFreePool p st # reports))"
    if evs: "evs = [case a of (st, bytes, data) \<Rightarrow> EStartImage child st data]" for a evs tag
  proof (cases a)
    case (fields st bytes data)
    show ?thesis
    proof (cases data)
      case None
      with fields evs show ?thesis
        by simp (rule extends_mono [OF clean_then_ret], auto intro: clean_report_intro exI [of _ None])
    next
      case (Some p)
      with fields evs show ?thesis
        by simp (rule extends_mono [OF extends_release_exit_data], auto intro!: exI [of _ "Some p"])
    qed
  qed
  with True show ?thesis
    unfolding start_image_def
    by (simp, intro extends_bindS [OF extends_call [where P = "\<lambda>a evs. evs = [case a of (st, bytes, data) \<Rightarrow> EStartImage child st data]"]])
      auto
qed

end
