(* ===== verification/Apfs_Driver.thy ===== *)
theory Apfs_Driver
  imports Exit_Data Filesystems
begin

text \<open>
  The firmware adapter of the APFS jumpstart format (src/src/apfs\_driver.rs) and the choice of
  its mode (src/src/apfs\_probe.rs). The extraction itself belongs to nextcore\_core: it is the
  parameter \<open>js\<close>, the reads it makes, each depending on the bytes before, and its result. The
  protocols that only this component reads are the record \<open>io\<close>.
\<close>

definition MAX_PARTITION_HANDLES :: nat where "MAX_PARTITION_HANDLES = 256"

record gpt_entry =
  gpt_kind :: nat
  gpt_blocks :: "nat option"

record media =
  md_present :: bool
  md_logical_partition :: bool
  md_block_size :: nat
  md_last_block :: nat
  md_id :: nat

record driver =
  jd_bytes :: "u8 list"
  jd_container_uuid :: "u8 list"
  jd_block_size :: nat
  jd_container_block_count :: nat
  jd_jumpstart_block :: nat
  jd_extents :: "(nat \<times> nat) list"

datatype jumpstart_error = JsIo status | JsOther string

datatype extraction = Extracted "jumpstart_error + driver" | Reads nat nat "status + u8 list \<Rightarrow> extraction"

record 'w apfs_io =
  ai_gpt :: "nat \<Rightarrow> 'w \<Rightarrow> gpt_entry option"
  ai_media :: "nat \<Rightarrow> 'w \<Rightarrow> media"
  ai_read_disk :: "nat \<Rightarrow> nat \<Rightarrow> nat \<Rightarrow> nat \<Rightarrow> 'w \<Rightarrow> (status + u8 list) \<times> 'w"
  ai_path :: "nat \<Rightarrow> 'w \<Rightarrow> u8 list"

subsection \<open>Scoped protocols\<close>

definition scoped_drop :: "'w firmware \<Rightarrow> handle \<Rightarrow> guid \<Rightarrow> 'w sys \<Rightarrow> 'w sys" where
  "scoped_drop fw h g s = snd (close_protocol fw h g s)"

definition read_protocol :: "'w firmware \<Rightarrow> handle \<Rightarrow> guid \<Rightarrow> ('w, nat) res" where
  "read_protocol fw h g =
     bindS (open_protocol fw h g) (\<lambda>(st, i).
       if st \<noteq> SUCCESS then fail st
       else if i = 0 then with_drop (fail UNSUPPORTED) (scoped_drop fw h g)
       else ok i)"

text \<open>
  A block that reads a protocol and drops the guard at its end; \<open>err\<close> wraps the status of an open
  that fails.
\<close>

definition guarded :: "'w firmware \<Rightarrow> handle \<Rightarrow> guid \<Rightarrow> (status \<Rightarrow> 'e) \<Rightarrow> (nat \<Rightarrow> ('w, 'e + 'a) op) \<Rightarrow> ('w, 'e + 'a) op" where
  "guarded fw h g err body =
     bindS (read_protocol fw h g) (\<lambda>r. case r of
       Inl e \<Rightarrow> fail (err e)
     | Inr i \<Rightarrow> with_drop (body i) (scoped_drop fw h g))"

subsection \<open>The partition\<close>

text \<open>The partition type of APFS containers, 7c3457ef-0000-11aa-aa11-00306543ecac.\<close>

definition apfs_kind :: nat where "apfs_kind = 0x7c3457ef000011aaaa1100306543ecac"

definition is_apfs :: "gpt_entry option \<Rightarrow> bool" where
  "is_apfs e = (case e of None \<Rightarrow> False | Some e \<Rightarrow> gpt_kind e = apfs_kind)"

fun candidate_scan :: "'w firmware \<Rightarrow> 'w apfs_io \<Rightarrow> handle option \<Rightarrow> handle list \<Rightarrow> ('w, handle option) res" where
  "candidate_scan fw io found [] = ok found"
| "candidate_scan fw io found (h # hs) =
     bindE (guarded fw h PartitionInfoG id (\<lambda>info. bindS (query (ai_gpt io info)) (\<lambda>e.
         if is_apfs e then (if found \<noteq> None then fail NO_MAPPING else ok (Some h)) else ok found)))
       (\<lambda>found. candidate_scan fw io found hs)"

definition candidate :: "'w firmware \<Rightarrow> 'w apfs_io \<Rightarrow> ('w, handle) res" where
  "candidate fw io =
     bindE (find_handles fw PartitionInfoG) (\<lambda>handles.
     if length handles > MAX_PARTITION_HANDLES then fail BAD_BUFFER_SIZE
     else bindE (candidate_scan fw io None handles) (\<lambda>found. lift (ok_or found NOT_FOUND)))"

definition is_power_of_two :: "nat \<Rightarrow> bool" where
  "is_power_of_two n \<longleftrightarrow> n \<noteq> 0 \<and> n AND (n - 1) = 0"

definition media_geometry :: "media \<Rightarrow> status + nat \<times> nat \<times> nat" where
  "media_geometry m =
     (if \<not> md_present m then Inl NO_MEDIA
      else if \<not> md_logical_partition m then Inl UNSUPPORTED
      else let size = md_block_size m in
        if \<not> (512 \<le> size \<and> size \<le> 65536) \<or> \<not> is_power_of_two size then Inl UNSUPPORTED
        else and_then (ok_or (Option.bind (checked_add (md_last_block m) 1) (\<lambda>blocks. checked_mul blocks size)) BAD_BUFFER_SIZE)
          (\<lambda>len. Inr (md_id m, size, len)))"

subsection \<open>The driver image\<close>

definition read_exact_at :: "'w apfs_io \<Rightarrow> nat \<Rightarrow> nat \<Rightarrow> nat \<Rightarrow> nat \<Rightarrow> nat \<Rightarrow> ('w, u8 list) res" where
  "read_exact_at io disk media_id len offset n =
     (case checked_add offset n of
        None \<Rightarrow> fail BAD_BUFFER_SIZE
      | Some stop \<Rightarrow>
          if stop > len then fail END_OF_FILE
          else call (ai_read_disk io disk media_id offset n) (\<lambda>r. ECall ''read_disk'' [RNat offset, RNat n] (status_of r)))"

primrec run_extraction :: "'w apfs_io \<Rightarrow> nat \<Rightarrow> nat \<Rightarrow> nat \<Rightarrow> extraction \<Rightarrow> ('w, jumpstart_error + driver) op" where
  "run_extraction io disk media_id len (Extracted r) = ret r"
| "run_extraction io disk media_id len (Reads offset n k) =
     bindS (read_exact_at io disk media_id len offset n) (\<lambda>r. run_extraction io disk media_id len (k r))"

definition extract_status :: "jumpstart_error \<Rightarrow> status" where
  "extract_status e = (case e of JsIo st \<Rightarrow> st | JsOther _ \<Rightarrow> VOLUME_CORRUPTED)"

definition same_driver :: "driver \<Rightarrow> driver \<Rightarrow> bool" where
  "same_driver d r \<longleftrightarrow> jd_bytes d = jd_bytes r \<and> jd_container_uuid d = jd_container_uuid r
     \<and> jd_block_size d = jd_block_size r \<and> jd_container_block_count d = jd_container_block_count r
     \<and> jd_jumpstart_block d = jd_jumpstart_block r \<and> jd_extents d = jd_extents r"

text \<open>An error carries the reason of a failing first extraction.\<close>

abbreviation plain :: "status \<Rightarrow> status \<times> jumpstart_error option" where
  "plain st \<equiv> (st, None)"

definition extract_twice :: "'w apfs_io \<Rightarrow> (nat \<Rightarrow> extraction) \<Rightarrow> nat \<Rightarrow> nat \<Rightarrow> nat \<times> nat \<times> nat
    \<Rightarrow> ('w, (status \<times> jumpstart_error option) + driver) op" where
  "extract_twice io js block disk = (\<lambda>(media_id, size, len).
     bindS (run_extraction io disk media_id len (js len)) (\<lambda>r. case r of
       Inl e \<Rightarrow> fail (extract_status e, Some e)
     | Inr d \<Rightarrow>
         bindS (run_extraction io disk media_id len (js len)) (\<lambda>r. case r of
           Inl e \<Rightarrow> fail (plain (extract_status e))
         | Inr repeated \<Rightarrow>
             bindS (query (ai_media io block)) (\<lambda>m.
             if \<not> same_driver d repeated then fail (plain MEDIA_CHANGED)
             else case media_geometry m of
               Inl e \<Rightarrow> fail (plain e)
             | Inr again \<Rightarrow> if again \<noteq> (media_id, size, len) then fail (plain MEDIA_CHANGED) else ok d))))"

definition read_driver :: "'w firmware \<Rightarrow> 'w apfs_io \<Rightarrow> (nat \<Rightarrow> extraction) \<Rightarrow> handle
    \<Rightarrow> ('w, (status \<times> jumpstart_error option) + driver) op" where
  "read_driver fw io js h =
     guarded fw h PartitionInfoG plain (\<lambda>info.
     bindS (query (ai_gpt io info)) (\<lambda>e. case e of
       None \<Rightarrow> fail (plain UNSUPPORTED)
     | Some e \<Rightarrow> (case gpt_blocks e of
         None \<Rightarrow> fail (plain BAD_BUFFER_SIZE)
       | Some blocks \<Rightarrow>
           guarded fw h BlockIoG plain (\<lambda>block.
           bindS (query (ai_media io block)) (\<lambda>m. case media_geometry m of
             Inl e \<Rightarrow> fail (plain e)
           | Inr geometry \<Rightarrow>
               if checked_mul blocks (fst (snd geometry)) \<noteq> Some (snd (snd geometry)) then fail (plain BAD_BUFFER_SIZE)
               else guarded fw h DiskIoG plain (\<lambda>disk. extract_twice io js block disk geometry))))))"

definition reason_text :: "jumpstart_error \<Rightarrow> rvalue" where
  "reason_text e = (case e of JsIo st \<Rightarrow> RStat st | JsOther t \<Rightarrow> RText t)"

definition read_and_report :: "'w firmware \<Rightarrow> 'w apfs_io \<Rightarrow> (nat \<Rightarrow> extraction) \<Rightarrow> handle \<Rightarrow> ('w, driver) res" where
  "read_and_report fw io js h =
     bindS (read_driver fw io js h) (\<lambda>r. case r of
       Inl (st, reason) \<Rightarrow>
         bindS (case reason of None \<Rightarrow> ret () | Some e \<Rightarrow> report fw ''NXAPFS: EXTRACT_ERROR'' [reason_text e])
           (\<lambda>_. fail st)
     | Inr d \<Rightarrow>
         bindS (report fw ''NXAPFS: EXTRACT_OK'' [RNat (length (jd_bytes d)), RNat (jd_block_size d), RNat (length (jd_extents d))])
           (\<lambda>_. ok d))"

subsection \<open>Starting the driver\<close>

definition load_driver :: "'w firmware \<Rightarrow> u8 list \<Rightarrow> u8 list \<Rightarrow> ('w, handle) res" where
  "load_driver fw bytes path =
     (if \<not> fw_services fw then fail NOT_READY
      else bindS (call (fw_load_image fw path (Some bytes)) (ELoadImage path)) (\<lambda>(st, handle).
        if st \<noteq> SUCCESS then
          bindS (case handle of
              None \<Rightarrow> ret ()
            | Some h \<Rightarrow> bindS (unload_image fw h) (\<lambda>cleanup. report fw ''NXAPFS: LOAD_REJECT_CLEANUP'' [RStat cleanup]))
            (\<lambda>_. fail st)
        else lift (ok_or handle LOAD_ERROR)))"

definition accept_driver :: "'w firmware \<Rightarrow> handle \<Rightarrow> ('w, unit) res" where
  "accept_driver fw child =
     bindS (open_protocol fw child LoadedImageG) (\<lambda>(st, i).
       if st \<noteq> SUCCESS then fail st
       else with_drop (bindS (query (fw_image_types fw i)) (\<lambda>(code, data).
           if code \<noteq> BOOT_SERVICES_CODE \<or> data \<noteq> BOOT_SERVICES_DATA then fail UNSUPPORTED else ok ()))
         (scoped_drop fw child LoadedImageG))"

text \<open>Unloading with a report, and then the error.\<close>

definition unload_failed :: "'w firmware \<Rightarrow> handle \<Rightarrow> string \<Rightarrow> status \<Rightarrow> ('w, unit) res" where
  "unload_failed fw child tag st =
     bindS (unload_image fw child) (\<lambda>cleanup. bindS (report fw tag [RStat cleanup]) (\<lambda>_. fail st))"

definition start_loaded :: "'w firmware \<Rightarrow> handle \<Rightarrow> handle \<Rightarrow> ('w, unit) res" where
  "start_loaded fw controller child =
     bindS (accept_driver fw child) (\<lambda>accepted. case accepted of
       Inl st \<Rightarrow> unload_failed fw child ''NXAPFS: NOT_BOOT_DRIVER'' st
     | Inr _ \<Rightarrow>
         bindS (report fw ''NXAPFS: DRIVER_START'' []) (\<lambda>_.
         bindS (start_image fw child) (\<lambda>st.
         bindS (report fw ''NXAPFS: DRIVER_RETURN'' [RStat st]) (\<lambda>_.
         if st \<noteq> SUCCESS then unload_failed fw child ''NXAPFS: START_REJECT_CLEANUP'' st
         else
           bindS (report fw ''NXAPFS: DRIVER_RESIDENT'' []) (\<lambda>_.
           bindS (call (fw_connect fw controller child) (EConnect controller child)) (\<lambda>st.
           bindS (report fw ''NXAPFS: CONNECT'' [RStat st]) (\<lambda>_.
           if st \<noteq> SUCCESS then fail st else ok ())))))))"

definition start_driver :: "'w firmware \<Rightarrow> 'w apfs_io \<Rightarrow> handle \<Rightarrow> u8 list \<Rightarrow> ('w, unit) res" where
  "start_driver fw io controller bytes =
     bindE (guarded fw controller Path id (\<lambda>i. bindS (query (ai_path io i)) ok)) (\<lambda>path.
     bindE (load_driver fw bytes path) (\<lambda>child.
     start_loaded fw controller child))"

datatype mode = Extract | Start | Filesystems

definition inspect_apfs :: "'w firmware \<Rightarrow> 'w apfs_io \<Rightarrow> (nat \<Rightarrow> extraction) \<Rightarrow> mode \<Rightarrow> ('w, unit) res" where
  "inspect_apfs fw io js mode =
     bindE (candidate fw io) (\<lambda>h.
     bindE (read_and_report fw io js h) (\<lambda>d.
     if mode = Extract then bindS (report fw ''NXAPFS: INSPECT_ONLY'' []) (\<lambda>_. ok ())
     else bindE (start_driver fw io h (jd_bytes d)) (\<lambda>_.
       if mode = Filesystems then inspect fw h else ok ())))"

definition connect_for_target :: "'w firmware \<Rightarrow> 'w apfs_io \<Rightarrow> (nat \<Rightarrow> extraction) \<Rightarrow> ('w, handle) res" where
  "connect_for_target fw io js =
     bindE (candidate fw io) (\<lambda>h.
     bindE (read_and_report fw io js h) (\<lambda>d.
     bindE (start_driver fw io h (jd_bytes d)) (\<lambda>_.
     ok h)))"

subsection \<open>The requested mode\<close>

text \<open>\<open>load_options_as_bytes\<close> of the application's own image is the parameter; \<open>None\<close> when it has none.\<close>

definition option_bytes :: "string \<Rightarrow> u8 list" where
  "option_bytes t = concat (map unit_bytes (encode_utf16 (map of_char t) @ [0]))"

definition mode_of :: "u8 list option \<Rightarrow> status + mode" where
  "mode_of options = (case options of
     None \<Rightarrow> Inr Extract
   | Some bytes \<Rightarrow>
       if bytes = [] \<or> bytes = [0, 0] then Inr Extract
       else if bytes = option_bytes ''--start-driver'' then Inr Start
       else if bytes = option_bytes ''--inspect-filesystems'' then Inr Filesystems
       else Inl INVALID_PARAMETER)"

definition requested_mode :: "'w firmware \<Rightarrow> handle \<Rightarrow> ('w \<Rightarrow> nat \<Rightarrow> u8 list option) \<Rightarrow> ('w, mode) res" where
  "requested_mode fw self options =
     bindS (open_protocol fw self LoadedImageG) (\<lambda>(st, i).
       if st \<noteq> SUCCESS then fail st
       else with_drop (query (\<lambda>w. mode_of (options w i))) (scoped_drop fw self LoadedImageG))"

definition apfs_main :: "'w firmware \<Rightarrow> 'w apfs_io \<Rightarrow> (nat \<Rightarrow> extraction) \<Rightarrow> handle \<Rightarrow> ('w \<Rightarrow> nat \<Rightarrow> u8 list option) \<Rightarrow> ('w, status) op" where
  "apfs_main fw io js self options =
     bindS (report fw ''NXAPFS: EFI_ENTRY'' []) (\<lambda>_.
     bindS (bindE (requested_mode fw self options) (inspect_apfs fw io js)) (\<lambda>r.
     bindS (report fw ''NXAPFS: RESULT'' [RStat (status_of r)]) (\<lambda>_.
     ret (status_of r))))"

subsection \<open>Guards and images\<close>

text \<open>
  The order of events the driver start must keep. The state is the stack of open guards and the
  loaded image that is not yet resident. A guard closes in the reverse order of opening; reports,
  and handing control to an image or to the firmware's driver binding, happen with no guard open;
  one image is loaded at a time, started or unloaded only then, and resident once its start
  succeeded.
\<close>

type_synonym driver_state = "(handle \<times> guid) list \<times> handle option"

definition driver_step :: "driver_state \<Rightarrow> event \<Rightarrow> driver_state option" where
  "driver_step q e = (case q of (stack, img) \<Rightarrow> (case e of
     EOpenProtocol h g st i \<Rightarrow> Some (if st = SUCCESS then (h, g) # stack else stack, img)
   | ECloseProtocol h g st \<Rightarrow> (case stack of [] \<Rightarrow> None | x # xs \<Rightarrow> if x = (h, g) then Some (xs, img) else None)
   | EReport _ _ \<Rightarrow> if stack = [] then Some q else None
   | ELoadImage path (st, h) \<Rightarrow> if stack = [] \<and> img = None then Some ([], h) else None
   | EStartImage h st data \<Rightarrow> if stack = [] \<and> img = Some h then Some ([], if st = SUCCESS then None else img) else None
   | EUnloadImage h st \<Rightarrow> if stack = [] \<and> img = Some h then Some ([], None) else None
   | EConnect c h st \<Rightarrow> if stack = [] \<and> img = None then Some q else None
   | _ \<Rightarrow> Some q))"

definition balanced :: "('w, 'a) op \<Rightarrow> bool" where
  "balanced m \<longleftrightarrow> (\<forall>q. moves driver_step m q (\<lambda>_ q'. q' = q))"

lemma balanced_basic: "balanced (ret a)" "balanced (ok b)" "balanced (fail e)" "balanced (lift r)" "balanced (query f)"
  by (simp_all add: balanced_def moves_ret moves_ok moves_fail lift_def moves_query)

lemma balanced_bindS: "balanced m \<Longrightarrow> (\<And>a. balanced (k a)) \<Longrightarrow> balanced (bindS m k)"
  unfolding balanced_def by (blast intro: moves_then)

lemma balanced_bindE: "balanced m \<Longrightarrow> (\<And>a. balanced (k a)) \<Longrightarrow> balanced (bindE m k)"
  unfolding balanced_def by (blast intro: moves_bindE)

lemma balanced_cases:
  "balanced f \<Longrightarrow> (\<And>x. balanced (g x)) \<Longrightarrow> balanced (case r of None \<Rightarrow> f | Some x \<Rightarrow> g x)"
  "(\<And>x. balanced (f' x)) \<Longrightarrow> (\<And>x. balanced (g' x)) \<Longrightarrow> balanced (case r' of Inl x \<Rightarrow> f' x | Inr x \<Rightarrow> g' x)"
  "(\<And>x y. balanced (f'' x y)) \<Longrightarrow> balanced (case p of (x, y) \<Rightarrow> f'' x y)"
  "balanced m \<Longrightarrow> balanced n \<Longrightarrow> balanced (if b then m else n)"
  by (simp_all split: option.split sum.split prod.split)

lemma balanced_call: "(\<And>a q. driver_step q (ev a) = Some q) \<Longrightarrow> balanced (call f ev)"
  unfolding balanced_def by (blast intro: moves_stay_call)

lemmas balanced_intros = balanced_basic balanced_bindS balanced_bindE balanced_cases

lemma scoped_drop_op: "(\<lambda>s. ((), scoped_drop fw h g s)) = bindS (close_protocol fw h g) (\<lambda>_. ret ())"
  by (rule ext) (simp add: scoped_drop_def op_simps split: prod.split)

text \<open>A body that keeps its guard on top of the stack, followed by the destructor.\<close>

lemma moves_scoped:
  assumes "moves driver_step m ((h, g) # stack, img) (\<lambda>r q. q = ((h, g) # stack, img) \<and> R r)"
  shows "moves driver_step (with_drop m (scoped_drop fw h g)) ((h, g) # stack, img) (\<lambda>r q. q = (stack, img) \<and> R r)"
proof -
  have "moves driver_step (close_protocol fw h g) ((h, g) # stack, img) (\<lambda>_ q. q = (stack, img))"
    unfolding close_protocol_def by (rule moves_call) (simp add: driver_step_def)
  then have "moves driver_step (bindS (close_protocol fw h g) (\<lambda>_. ret ())) ((h, g) # stack, img) (\<lambda>_ q. q = (stack, img))"
    by (rule moves_bindS) (simp add: moves_ret)
  then show ?thesis
    unfolding with_drop_bindS scoped_drop_op
    by (intro moves_bindS [OF assms]) (auto intro: moves_bindS moves_ret)
qed

lemma moves_opened:
  assumes "\<And>i. moves driver_step (k (SUCCESS, i)) ((h, g) # stack, img) P"
    and "\<And>st i. st \<noteq> SUCCESS \<Longrightarrow> moves driver_step (k (st, i)) (stack, img) P"
  shows "moves driver_step (bindS (open_protocol fw h g) k) (stack, img) P"
proof (rule moves_bindS)
  show "moves driver_step (open_protocol fw h g) (stack, img)
      (\<lambda>(st, i) q. q = (if st = SUCCESS then (h, g) # stack else stack, img))"
    unfolding open_protocol_def by (rule moves_call) (auto simp: driver_step_def)
qed (use assms in \<open>auto split: if_splits\<close>)

lemma balanced_guarded:
  assumes "\<And>i. balanced (body i)"
  shows "balanced (guarded fw h g err body)"
  unfolding balanced_def guarded_def
proof
  fix q :: driver_state
  obtain stack img where q: "q = (stack, img)" by fastforce
  have "moves driver_step (read_protocol fw h g) (stack, img)
      (\<lambda>r q. q = (if is_ok r then (h, g) # stack else stack, img))"
    unfolding read_protocol_def
    by (rule moves_opened) (auto intro!: moves_fail moves_ok moves_mono [OF moves_scoped [where R = "\<lambda>r. \<not> is_ok r"]])
  then show "moves driver_step (bindS (read_protocol fw h g) (\<lambda>r. case r of
      Inl e \<Rightarrow> fail (err e) | Inr i \<Rightarrow> with_drop (body i) (scoped_drop fw h g))) q (\<lambda>_ q'. q' = q)"
    unfolding q
    by (rule moves_bindS)
      (use assms in \<open>auto intro!: moves_fail moves_mono [OF moves_scoped [where R = "\<lambda>_. True"]]
         simp: balanced_def split: sum.split\<close>)
qed

lemma balanced_extraction: "balanced (run_extraction io disk media_id len x)"
  by (induction x)
    (auto simp: read_exact_at_def driver_step_def intro!: balanced_intros balanced_call split: option.split)

lemma balanced_read_driver: "balanced (read_driver fw io js h)"
  unfolding read_driver_def extract_twice_def
  by (intro balanced_intros balanced_guarded balanced_extraction)

lemma balanced_candidate: "balanced (candidate fw io)"
proof -
  have "balanced (candidate_scan fw io found hs)" for found hs
    by (induction hs arbitrary: found) (auto intro!: balanced_intros balanced_guarded)
  moreover have "balanced (find_handles fw PartitionInfoG)"
    unfolding find_handles_def by (rule balanced_call) (simp add: driver_step_def split: prod.split)
  ultimately show ?thesis unfolding candidate_def by (intro balanced_intros) auto
qed

subsection \<open>Starting keeps the order\<close>

abbreviation idle :: driver_state where "idle \<equiv> ([], None)"

lemma driver_report: "moves driver_step (report fw tag vs) ([], img) (\<lambda>_ q. q = ([], img))"
  by (rule moves_stay_report) (simp add: driver_step_def)

lemma driver_unload: "moves driver_step (unload_image fw h) ([], Some h) (\<lambda>_ q. q = idle)"
  unfolding unload_image_def by (rule moves_call) (simp add: driver_step_def)

lemma moves_read_and_report: "moves driver_step (read_and_report fw io js h) idle (\<lambda>_ q. q = idle)"
  unfolding read_and_report_def
  by (rule moves_then [OF balanced_read_driver [unfolded balanced_def, rule_format]])
    (auto intro!: moves_then [OF driver_report] moves_then moves_ret moves_fail moves_ok driver_report
      split: sum.split option.split)

lemma moves_load_driver:
  "moves driver_step (load_driver fw bytes path) idle (\<lambda>r q. q = ([], case r of Inl _ \<Rightarrow> None | Inr h \<Rightarrow> Some h))"
proof -
  have "moves driver_step (call (fw_load_image fw path (Some bytes)) (ELoadImage path)) idle (\<lambda>(st, h) q. q = ([], h))"
    by (rule moves_call) (auto simp: driver_step_def)
  then show ?thesis
    unfolding load_driver_def
    by (auto intro!: moves_fail moves_bindS moves_ret driver_unload driver_report
        simp: lift_def split: option.split prod.split if_split)
qed

lemma moves_accept_driver: "moves driver_step (accept_driver fw child) ([], img) (\<lambda>_ q. q = ([], img))"
  unfolding accept_driver_def
  by (rule moves_opened)
    (auto intro!: moves_fail moves_ok moves_mono [OF moves_scoped [where R = "\<lambda>_. True"]] moves_then [OF moves_query]
      split: prod.split)

lemma moves_unload_failed: "moves driver_step (unload_failed fw h tag st) ([], Some h) (\<lambda>_ q. q = idle)"
  unfolding unload_failed_def
  by (auto intro!: moves_bindS [OF driver_unload] moves_then [OF driver_report] moves_fail)

lemma driver_connect:
  "moves driver_step (call (fw_connect fw controller h) (EConnect controller h)) idle (\<lambda>_ q. q = idle)"
  by (rule moves_call) (simp add: driver_step_def)

lemma moves_start: "moves driver_step (start_image fw h) ([], Some h)
    (\<lambda>st q. q = ([], if st = SUCCESS then None else Some h))"
  by (rule moves_start_image) (auto simp: driver_step_def split: if_splits)

lemma moves_start_loaded: "moves driver_step (start_loaded fw controller h) ([], Some h) (\<lambda>_ q. q = idle)"
  unfolding start_loaded_def
proof (rule moves_then [OF moves_accept_driver])
  fix accepted :: "status + unit"
  have connect: "moves driver_step (bindS (report fw ''NXAPFS: DRIVER_RESIDENT'' []) (\<lambda>_.
      bindS (call (fw_connect fw controller h) (EConnect controller h)) (\<lambda>st.
      bindS (report fw ''NXAPFS: CONNECT'' [RStat st]) (\<lambda>_. if st \<noteq> SUCCESS then fail st else ok ())))) idle (\<lambda>_ q. q = idle)"
    by (auto intro!: moves_then [OF driver_report] moves_then [OF driver_connect] moves_fail moves_ok)
  show "moves driver_step (case accepted of Inl st \<Rightarrow> unload_failed fw h ''NXAPFS: NOT_BOOT_DRIVER'' st
      | Inr _ \<Rightarrow> bindS (report fw ''NXAPFS: DRIVER_START'' []) (\<lambda>_.
         bindS (start_image fw h) (\<lambda>st.
         bindS (report fw ''NXAPFS: DRIVER_RETURN'' [RStat st]) (\<lambda>_.
         if st \<noteq> SUCCESS then unload_failed fw h ''NXAPFS: START_REJECT_CLEANUP'' st
         else
           bindS (report fw ''NXAPFS: DRIVER_RESIDENT'' []) (\<lambda>_.
           bindS (call (fw_connect fw controller h) (EConnect controller h)) (\<lambda>st.
           bindS (report fw ''NXAPFS: CONNECT'' [RStat st]) (\<lambda>_.
           if st \<noteq> SUCCESS then fail st else ok ()))))))) ([], Some h) (\<lambda>_ q. q = idle)"
  proof (cases accepted)
    case (Inl st)
    then show ?thesis by (simp add: moves_unload_failed)
  next
    case (Inr u)
    have "moves driver_step (bindS (report fw ''NXAPFS: DRIVER_RETURN'' [RStat st]) (\<lambda>_.
         if st \<noteq> SUCCESS then unload_failed fw h ''NXAPFS: START_REJECT_CLEANUP'' st
         else bindS (report fw ''NXAPFS: DRIVER_RESIDENT'' []) (\<lambda>_.
           bindS (call (fw_connect fw controller h) (EConnect controller h)) (\<lambda>st.
           bindS (report fw ''NXAPFS: CONNECT'' [RStat st]) (\<lambda>_.
           if st \<noteq> SUCCESS then fail st else ok ())))))
         ([], if st = SUCCESS then None else Some h) (\<lambda>_ q. q = idle)" for st
      by (rule moves_then [OF driver_report]) (auto intro: moves_unload_failed connect)
    then show ?thesis
      unfolding Inr sum.case
      by (intro moves_then [OF driver_report] moves_bindS [OF moves_start]) simp
  qed
qed

lemma moves_start_driver: "moves driver_step (start_driver fw io controller bytes) idle (\<lambda>_ q. q = idle)"
proof -
  have "balanced (guarded fw controller Path id (\<lambda>i. bindS (query (ai_path io i)) ok))"
    by (intro balanced_guarded balanced_intros)
  then have path: "moves driver_step (guarded fw controller Path id (\<lambda>i. bindS (query (ai_path io i)) ok)) idle (\<lambda>_ q. q = idle)"
    by (simp add: balanced_def)
  have "moves driver_step (bindE (load_driver fw bytes path) (start_loaded fw controller)) idle (\<lambda>_ q. q = idle)" for path
    by (rule moves_bindE [OF moves_load_driver]) (auto intro: moves_start_loaded)
  then show ?thesis
    unfolding start_driver_def by (auto intro!: moves_bindE [OF path])
qed

lemma moves_candidate: "moves driver_step (candidate fw io) idle (\<lambda>_ q. q = idle)"
  using balanced_candidate [of fw io] by (simp add: balanced_def)

subsection \<open>Properties\<close>

text \<open>Property C20: the driver start never leaks an image or a guard. Every protocol guard is closed, in
  reverse order of opening, before anything is reported and before control passes to an image or
  to the driver binding; the image that is loaded is unloaded exactly once, unless its start
  succeeded and it stays resident.\<close>

theorem driver_start_keeps_guards_and_images:
  "moves driver_step (connect_for_target fw io js) idle (\<lambda>_ q. q = idle)
   \<and> moves driver_step (inspect_apfs fw io js Start) idle (\<lambda>_ q. q = idle)
   \<and> moves driver_step (inspect_apfs fw io js Extract) idle (\<lambda>_ q. q = idle)"
  unfolding connect_for_target_def inspect_apfs_def
  by (auto intro!: moves_bindE [OF moves_candidate] moves_bindE [OF moves_read_and_report]
      moves_bindE [OF moves_start_driver] moves_then [OF driver_report] moves_ok)

end
