(* ===== verification/Boot_Manager.thy ===== *)
theory Boot_Manager
  imports Apfs_Driver Picker Console_Control Firmware_IO "HOL-Library.Sublist"
begin

text \<open>
  The boot manager: the entry and the boot of a selected target of src/src/main.rs, the APFS target
  of src/src/apfs\_target.rs, and the documented predicate of src/src/linux\_handoff.rs. The
  configuration parser and the device path builder are dependencies and are parameters.
\<close>

record boot_target =
  bt_path :: ustr
  bt_apfs_volume :: "ustr option"
  bt_arguments :: ustr

record boot_menu =
  bm_entries :: "(ustr \<times> boot_target) list"
  bm_show_picker :: bool

text \<open>
  The fields of a loaded image that are read: its device, and the nodes of its file path, where a
  file node's name may not be a valid string; and the device path built from a device's path and a
  file, which may not fit.
\<close>

datatype path_node = FileNode "ustr option" | OtherNode

record 'w image_io =
  im_device :: "nat \<Rightarrow> 'w \<Rightarrow> handle option"
  im_file_path :: "nat \<Rightarrow> 'w \<Rightarrow> path_node list option"
  im_build :: "nat \<Rightarrow> ustr \<Rightarrow> 'w \<Rightarrow> u8 list option"

subsection \<open>Self reference\<close>

fun own_path :: "path_node list \<Rightarrow> status + ustr" where
  "own_path [] = Inr []"
| "own_path (OtherNode # ns) = own_path ns"
| "own_path (FileNode None # ns) = Inl INVALID_PARAMETER"
| "own_path (FileNode (Some name) # ns) = and_then (own_path ns) (\<lambda>rest. Inr (name @ rest))"

definition ascii_lower :: "nat \<Rightarrow> nat" where
  "ascii_lower c = (if 65 \<le> c \<and> c \<le> 90 then c + 32 else c)"

definition self_reference :: "ustr \<Rightarrow> ustr \<Rightarrow> bool" where
  "self_reference own path \<longleftrightarrow>
     map ascii_lower (map (\<lambda>c. if c = 47 then 92 else c) own) = map ascii_lower path"

text \<open>A protocol opened exclusively for a block.\<close>

definition exclusive :: "'w firmware \<Rightarrow> handle \<Rightarrow> guid \<Rightarrow> (nat \<Rightarrow> ('w, 'a) res) \<Rightarrow> ('w, 'a) res" where
  "exclusive fw h g body =
     bindS (open_protocol fw h g) (\<lambda>(st, i).
       if st \<noteq> SUCCESS then fail st else with_drop (body i) (scoped_drop fw h g))"

subsection \<open>Loading an APFS target\<close>

text \<open>Whether the target is the running image itself: its volume and its path are compared.\<close>

definition is_self :: "'w firmware \<Rightarrow> 'w image_io \<Rightarrow> handle \<Rightarrow> u8 list \<Rightarrow> ustr \<Rightarrow> ('w, bool) res" where
  "is_self fw io self volume path =
     exclusive fw self LoadedImageG (\<lambda>current.
     if current = 0 then fail UNSUPPORTED
     else bindS (query (im_device io current)) (\<lambda>device. case device of
       None \<Rightarrow> fail NOT_FOUND
     | Some device \<Rightarrow>
         bindE (device_path fw device) (\<lambda>here.
         if here \<noteq> volume then ok False
         else bindS (query (im_file_path io current)) (\<lambda>nodes. case nodes of
           None \<Rightarrow> fail UNSUPPORTED
         | Some nodes \<Rightarrow> lift (and_then (own_path nodes) (\<lambda>own. Inr (self_reference own path)))))))"

text \<open>\<open>LoadImage\<close> from a device path, with the cleanup of a rejected image that left a handle.\<close>

definition load_apfs_image :: "'w firmware \<Rightarrow> u8 list \<Rightarrow> ('w, handle) res" where
  "load_apfs_image fw path =
     (if \<not> fw_services fw then fail NOT_READY
      else
        bindS (report fw ''NEXTCORE: IMAGE_LOAD_BEGIN'' []) (\<lambda>_.
        bindS (call (fw_load_image fw path None) (ELoadImage path)) (\<lambda>(st, handle).
        if st \<noteq> SUCCESS then
          bindS (case handle of
              None \<Rightarrow> ret ()
            | Some h \<Rightarrow> bindS (unload_image fw h) (\<lambda>cleanup. report fw ''NEXTCORE: APFS_LOAD_REJECT_CLEANUP'' [RStat cleanup]))
            (\<lambda>_. fail st)
        else lift (ok_or handle LOAD_ERROR))))"

definition load_apfs_target :: "'w firmware \<Rightarrow> 'w image_io \<Rightarrow> 'w apfs_io \<Rightarrow> (nat \<Rightarrow> extraction) \<Rightarrow> handle \<Rightarrow> boot_target
    \<Rightarrow> ('w, handle) res" where
  "load_apfs_target fw io aio js self target = (case bt_apfs_volume target of
     None \<Rightarrow> fail INVALID_PARAMETER
   | Some lbl \<Rightarrow>
       bindS (report fw ''NEXTCORE: APFS_TARGET_BEGIN'' []) (\<lambda>_.
       bindE (connect_for_target fw aio js) (\<lambda>controller.
       bindE (select_volume fw controller lbl) (\<lambda>volume.
       bindE (is_self fw io self volume (bt_path target)) (\<lambda>self_ref.
       if self_ref then
         bindS (report fw ''NEXTCORE: TARGET_REJECTED reason=SELF_REFERENCE'' []) (\<lambda>_. fail INVALID_PARAMETER)
       else
         bindS (query (\<lambda>w. image_path (fw_reserve fw w) volume (bt_path target))) (\<lambda>path. case path of
           Inl _ \<Rightarrow> fail INVALID_PARAMETER
         | Inr path \<Rightarrow> load_apfs_image fw path))))))"

subsection \<open>Loading a target of the manager's own volume\<close>

text \<open>The wrapper's \<open>load_image\<close>; success without a handle, where the wrapper panics, is \<open>ABORTED\<close>.\<close>

definition load_image :: "'w firmware \<Rightarrow> u8 list \<Rightarrow> ('w, handle) res" where
  "load_image fw path =
     bindS (call (fw_load_image fw path None) (ELoadImage path)) (\<lambda>(st, handle).
       if st \<noteq> SUCCESS then fail st else lift (ok_or handle ABORTED))"

definition own_device :: "'w firmware \<Rightarrow> 'w image_io \<Rightarrow> handle \<Rightarrow> ustr \<Rightarrow> ('w, handle) res" where
  "own_device fw io self path =
     exclusive fw self LoadedImageG (\<lambda>current.
     bindS (query (im_device io current)) (\<lambda>device. case device of
       None \<Rightarrow> fail NOT_FOUND
     | Some device \<Rightarrow>
         bindS (query (im_file_path io current)) (\<lambda>nodes. case nodes of
           None \<Rightarrow> fail UNSUPPORTED
         | Some nodes \<Rightarrow> (case own_path nodes of
             Inl e \<Rightarrow> fail e
           | Inr own \<Rightarrow>
               if own = [] then fail UNSUPPORTED
               else if self_reference own path then
                 bindS (report fw ''NEXTCORE: TARGET_REJECTED reason=SELF_REFERENCE'' []) (\<lambda>_. fail INVALID_PARAMETER)
               else ok device))))"

definition load_target :: "'w firmware \<Rightarrow> 'w image_io \<Rightarrow> ('w apfs_io \<times> (nat \<Rightarrow> extraction)) option \<Rightarrow> handle \<Rightarrow> boot_target
    \<Rightarrow> ('w, handle) res" where
  "load_target fw io apfs self target =
     (if bt_apfs_volume target \<noteq> None then (case apfs of
         Some (aio, js) \<Rightarrow> load_apfs_target fw io aio js self target
       | None \<Rightarrow> bindS (report fw ''NEXTCORE: APFS_TARGET_UNSUPPORTED feature=disabled'' []) (\<lambda>_. fail UNSUPPORTED))
      else
        bindE (own_device fw io self (bt_path target)) (\<lambda>device.
        if \<not> ucs2 (bt_path target) then fail INVALID_PARAMETER
        else
          bindE (exclusive fw device Path (\<lambda>source.
            bindS (query (im_build io source (bt_path target))) (\<lambda>full. lift (ok_or full OUT_OF_RESOURCES)))) (\<lambda>full.
          bindS (report fw ''NEXTCORE: IMAGE_LOAD_BEGIN'' []) (\<lambda>_. load_image fw full))))"

subsection \<open>Running a loaded target\<close>

definition set_options :: "'w firmware \<Rightarrow> handle \<Rightarrow> u16 list option \<Rightarrow> ('w, unit) op" where
  "set_options fw child options = call (\<lambda>w. ((), fw_set_options fw child options w)) (\<lambda>_. ESetOptions child options)"

definition load_options :: "ustr \<Rightarrow> u16 list" where
  "load_options arguments = (let us = encode_utf16 arguments in if us = [] then [] else us @ [0])"

definition configure :: "'w firmware \<Rightarrow> handle \<Rightarrow> u16 list \<Rightarrow> ('w, unit) res" where
  "configure fw child options =
     exclusive fw child LoadedImageG (\<lambda>image.
     bindS (query (fw_image_types fw image)) (\<lambda>(code, data).
     if code \<noteq> LOADER_CODE \<or> data \<noteq> LOADER_DATA then
       bindS (report fw ''NEXTCORE: TARGET_REJECTED reason=NOT_APPLICATION'' []) (\<lambda>_. fail UNSUPPORTED)
     else bindS (set_options fw child (if options = [] then None else Some options)) (\<lambda>_. ok ())))"

text \<open>The cleanup after the child has returned; the result says whether the options stay allocated.\<close>

definition clean_up :: "'w firmware \<Rightarrow> handle \<Rightarrow> ('w, bool) op" where
  "clean_up fw child =
     bindS (open_protocol fw child LoadedImageG) (\<lambda>(st, i).
       if st = SUCCESS then
         bindS (with_drop (set_options fw child None) (scoped_drop fw child LoadedImageG)) (\<lambda>_.
         bindS (unload_image fw child) (\<lambda>st.
         bindS (if st \<noteq> SUCCESS then report fw ''NEXTCORE: IMAGE_CLEANUP_ERROR'' [RStat st] else ret ()) (\<lambda>_.
         ret False)))
       else if st = UNSUPPORTED \<or> st = INVALID_PARAMETER then ret False
       else
         bindS (unload_image fw child) (\<lambda>st.
           if st \<noteq> SUCCESS then bindS (report fw ''NEXTCORE: IMAGE_CLEANUP_ERROR options=RETAINED'' []) (\<lambda>_. ret True)
           else ret False))"

text \<open>
  The result is the status and whether the option buffer stays allocated; \<open>None\<close> when a console
  interface cannot be removed. \<open>console\<close> is \<open>None\<close> when that feature is not built in.
\<close>

definition start_child :: "'w firmware \<Rightarrow> handle \<Rightarrow> lease option \<Rightarrow> ('w, (status \<times> bool) option) op" where
  "start_child fw child lease =
     bindS (report fw ''NEXTCORE: IMAGE_START'' []) (\<lambda>_.
     bindS (start_image fw child) (\<lambda>st.
     bindS (case lease of None \<Rightarrow> ret (Some ()) | Some l \<Rightarrow> release fw l) (\<lambda>released. case released of
       None \<Rightarrow> ret None
     | Some _ \<Rightarrow>
         bindS (clean_up fw child) (\<lambda>retained.
         bindS (report fw ''NEXTCORE: IMAGE_RETURN'' [RStat st]) (\<lambda>_. ret (Some (st, retained)))))))"

definition run_child :: "'w firmware \<Rightarrow> ('w console_io \<times> nat) option \<Rightarrow> handle \<Rightarrow> u16 list
    \<Rightarrow> ('w, (status \<times> bool) option) op" where
  "run_child fw console child options =
     bindS (configure fw child options) (\<lambda>configured. case configured of
       Inl st \<Rightarrow>
         bindS (unload_image fw child) (\<lambda>_.
         bindS (report fw ''NEXTCORE: IMAGE_OPTIONS_ERROR'' [RStat st]) (\<lambda>_. ret (Some (st, False))))
     | Inr _ \<Rightarrow> (case console of
         None \<Rightarrow> start_child fw child None
       | Some (cio, address) \<Rightarrow>
           bindS (acquire fw cio address) (\<lambda>lease. case lease of
             None \<Rightarrow> ret None
           | Some (Inl st) \<Rightarrow>
               bindS (unload_image fw child) (\<lambda>_.
               bindS (report fw ''NEXTCORE: CONSOLE_ERROR'' [RStat st]) (\<lambda>_. ret (Some (st, False))))
           | Some (Inr l) \<Rightarrow> start_child fw child (Some l))))"

definition chainload :: "'w firmware \<Rightarrow> 'w image_io \<Rightarrow> ('w apfs_io \<times> (nat \<Rightarrow> extraction)) option
    \<Rightarrow> ('w console_io \<times> nat) option \<Rightarrow> handle \<Rightarrow> boot_target \<Rightarrow> ('w, (status \<times> bool) option) op" where
  "chainload fw io apfs console self target =
     bindS (load_target fw io apfs self target) (\<lambda>r. case r of
       Inl st \<Rightarrow> bindS (report fw ''NEXTCORE: IMAGE_LOAD_ERROR'' [RStat st]) (\<lambda>_. ret (Some (st, False)))
     | Inr child \<Rightarrow> run_child fw console child (load_options (bt_arguments target)))"

subsection \<open>The entry\<close>

definition acknowledge_failure :: "nat \<Rightarrow> 'w firmware \<Rightarrow> ('w, (status + unit) option) op" where
  "acknowledge_failure fuel fw =
     bindS (read_key fuel fw) (\<lambda>r. ret (map_option (\<lambda>r. case r of Inl e \<Rightarrow> Inl e | Inr _ \<Rightarrow> Inr ()) r))"

record 'w boot_env =
  be_self :: handle
  be_image :: "'w image_io"
  be_apfs :: "('w apfs_io \<times> (nat \<Rightarrow> extraction)) option"
  be_console :: "('w console_io \<times> nat) option"
  be_file :: "'w file_io"
  be_view :: view
  be_parse :: "u8 list \<Rightarrow> string + boot_menu"
  be_watchdog :: "nat \<Rightarrow> nat \<Rightarrow> 'w \<Rightarrow> (status + unit) \<times> 'w"
  be_format :: "string \<Rightarrow> status \<Rightarrow> ustr"

definition boot_entry :: "'w firmware \<Rightarrow> 'w boot_env \<Rightarrow> boot_menu \<Rightarrow> nat \<Rightarrow> ('w, status option) op" where
  "boot_entry fw env menu i =
     bindS (chainload fw (be_image env) (be_apfs env) (be_console env) (be_self env) (snd (bm_entries menu ! i)))
       (\<lambda>r. ret (map_option fst r))"

fun menu_loop :: "nat \<Rightarrow> 'w firmware \<Rightarrow> 'w boot_env \<Rightarrow> boot_menu \<Rightarrow> ('w, status option) op" where
  "menu_loop 0 fw env menu = ret None"
| "menu_loop (Suc n) fw env menu =
     bindS (choose_entry n fw (be_view env) (map fst (bm_entries menu))) (\<lambda>r. case r of
       None \<Rightarrow> ret None
     | Some (Inl st) \<Rightarrow> bindS (report fw ''NEXTCORE: PICKER_ERROR'' [RStat st]) (\<lambda>_. ret (Some st))
     | Some (Inr None) \<Rightarrow> ret (Some ABORTED)
     | Some (Inr (Some index)) \<Rightarrow>
         bindS (boot_entry fw env menu index) (\<lambda>r. case r of
           None \<Rightarrow> ret None
         | Some st \<Rightarrow>
             if \<not> is_error st then ret (Some st)
             else
               bindS (report fw ''NEXTCORE: BOOT_FAILED'' [RNat index, RStat st]) (\<lambda>_.
               bindS (report fw ''Boot failed. Press any key to return to the boot menu.'' []) (\<lambda>_.
               bindS (acknowledge_failure n fw) (\<lambda>r. case r of
                 None \<Rightarrow> ret None
               | Some (Inl e) \<Rightarrow> bindS (report fw ''NEXTCORE: RECOVERY_INPUT_ERROR'' [RStat e]) (\<lambda>_. ret (Some e))
               | Some (Inr _) \<Rightarrow>
                   bindS (report fw ''NEXTCORE: PICKER_RETRY'' []) (\<lambda>_. menu_loop n fw env menu))))))"

text \<open>What one reading of the configuration leads to: a final status, or a reason to recover from.\<close>

definition configured_boot :: "nat \<Rightarrow> 'w firmware \<Rightarrow> 'w boot_env \<Rightarrow> ('w, (status + status \<times> ustr) option) op" where
  "configured_boot fuel fw env =
     bindS (read_config fw (be_file env)) (\<lambda>r. case r of
       Inl (st, reason) \<Rightarrow>
         bindS (report fw ''NEXTCORE: CONFIG_ERROR'' [RStat st]) (\<lambda>_. ret (Some (Inr (st, be_format env reason st))))
     | Inr bytes \<Rightarrow>
         bindS (report fw ''NEXTCORE: CONFIG_READ'' [RNat (length bytes)]) (\<lambda>_. case be_parse env bytes of
           Inl e \<Rightarrow>
             bindS (report fw ''NEXTCORE: CONFIG_INVALID'' [RText e]) (\<lambda>_.
             ret (Some (Inr (INVALID_PARAMETER, map of_char (''Invalid configuration: '' @ e)))))
         | Inr menu \<Rightarrow>
             if bm_entries menu = [] then
               bindS (report fw ''No enabled boot entries'' []) (\<lambda>_.
               bindS (report fw ''NEXTCORE: NO_BOOT_TARGET'' []) (\<lambda>_.
               ret (Some (Inr (NOT_FOUND, map of_char ''No enabled boot entries'')))))
             else
               bindS (report fw ''NEXTCORE: CONFIG_PARSED'' []) (\<lambda>_.
               bindS (if bm_show_picker menu then menu_loop fuel fw env menu else boot_entry fw env menu 0) (\<lambda>r.
               ret (map_option Inl r)))))"

fun main_loop :: "nat \<Rightarrow> 'w firmware \<Rightarrow> 'w boot_env \<Rightarrow> ('w, status option) op" where
  "main_loop 0 fw env = ret None"
| "main_loop (Suc n) fw env =
     bindS (configured_boot n fw env) (\<lambda>r. case r of
       None \<Rightarrow> ret None
     | Some (Inl st) \<Rightarrow> ret (Some st)
     | Some (Inr (st, reason)) \<Rightarrow>
         bindS (choose_recovery n fw reason) (\<lambda>r. case r of
           None \<Rightarrow> ret None
         | Some (Inl e) \<Rightarrow> bindS (report fw ''NEXTCORE: CONFIG_RECOVERY_ERROR'' [RStat e]) (\<lambda>_. ret (Some e))
         | Some (Inr Retry) \<Rightarrow> main_loop n fw env
         | Some (Inr Exit) \<Rightarrow> ret (Some st)))"

definition efi_main :: "nat \<Rightarrow> 'w firmware \<Rightarrow> 'w boot_env \<Rightarrow> ('w, status option) op" where
  "efi_main fuel fw env =
     bindS (disable (be_watchdog env)) (\<lambda>r.
     bindS (case r of
         Inr _ \<Rightarrow> report fw ''NEXTCORE: WATCHDOG_DISABLED'' []
       | Inl st \<Rightarrow> report fw ''NEXTCORE: WATCHDOG_DISABLE_FAILED'' [RStat st]) (\<lambda>_.
     bindS (report fw ''NextCore'' []) (\<lambda>_.
     bindS (report fw ''NEXTCORE: EFI_ENTRY'' []) (\<lambda>_.
     main_loop fuel fw env))))"

subsection \<open>The documented Linux handoff\<close>

fun after_last :: "nat \<Rightarrow> ustr \<Rightarrow> ustr option" where
  "after_last c [] = None"
| "after_last c (x # xs) = (case after_last c xs of Some r \<Rightarrow> Some r | None \<Rightarrow> if x = c then Some xs else None)"

definition utf8_length :: "ustr \<Rightarrow> nat" where
  "utf8_length cs = sum_list (map (\<lambda>c. if c < 0x80 then 1 else if c < 0x800 then 2 else if c < 0x10000 then 3 else 4) cs)"

definition is_linux_handoff_target :: "ustr \<Rightarrow> ustr \<Rightarrow> bool" where
  "is_linux_handoff_target path arguments \<longleftrightarrow>
     utf8_length path \<le> 1024
     \<and> (case after_last 46 path of None \<Rightarrow> False | Some e \<Rightarrow> map ascii_lower e = map of_char ''efi'')
     \<and> sublist (map of_char ''console=ttyS0'') arguments"

subsection \<open>The child's options\<close>

text \<open>
  Which image refers to the manager's option buffer. It stops doing so when its options are
  cleared, when it has been unloaded, or when the firmware says that it no longer exists.
\<close>

definition option_step :: "handle option \<Rightarrow> event \<Rightarrow> handle option option" where
  "option_step q e = Some (case e of
     ESetOptions h (Some us) \<Rightarrow> Some h
   | ESetOptions h None \<Rightarrow> if q = Some h then None else q
   | EUnloadImage h st \<Rightarrow> if q = Some h \<and> st = SUCCESS then None else q
   | EOpenProtocol h g st i \<Rightarrow>
       if q = Some h \<and> g = LoadedImageG \<and> (st = UNSUPPORTED \<or> st = INVALID_PARAMETER) then None else q
   | _ \<Rightarrow> q)"

abbreviation keeps :: "('w, 'a) op \<Rightarrow> handle option \<Rightarrow> bool" where
  "keeps m q \<equiv> moves option_step m q (\<lambda>_ q'. q' = q)"

lemma keeps_report: "keeps (report fw tag vs) q"
  by (rule moves_stay_report) (simp add: option_step_def)

lemma keeps_scoped_drop: "keeps (\<lambda>s. ((), scoped_drop fw h g s)) q"
proof -
  have "keeps (close_protocol fw h g) q"
    unfolding close_protocol_def by (rule moves_stay_call) (simp add: option_step_def)
  then show ?thesis unfolding scoped_drop_op by (rule moves_then) (simp add: moves_ret)
qed

lemma moves_option_drop:
  assumes "moves option_step m q P"
  shows "moves option_step (with_drop m (scoped_drop fw h g)) q P"
  unfolding with_drop_bindS
  by (rule moves_bindS [OF assms], rule moves_then [OF keeps_scoped_drop]) (simp add: moves_ret)

lemma keeps_start: "keeps (start_image fw child) q"
  by (rule moves_start_image) (simp_all add: option_step_def)

lemma moves_unload: "moves option_step (unload_image fw h) (Some h) (\<lambda>st q. q = (if st = SUCCESS then None else Some h))"
  unfolding unload_image_def by (rule moves_call) (simp add: option_step_def)

lemma keeps_unload: "keeps (unload_image fw h) None"
  unfolding unload_image_def by (rule moves_stay_call) (simp add: option_step_def)

lemma moves_open_image:
  "q = None \<or> q = Some h \<Longrightarrow> moves option_step (open_protocol fw h LoadedImageG) q
     (\<lambda>(st, i) q'. q' = (if st = UNSUPPORTED \<or> st = INVALID_PARAMETER then None else q))"
  unfolding open_protocol_def by (rule moves_call) (auto simp: option_step_def)

lemma moves_set_options:
  "q = None \<or> q = Some h \<Longrightarrow> moves option_step (set_options fw h options) q
     (\<lambda>_ q'. q' = (if options = None then None else Some h))"
  unfolding set_options_def by (rule moves_call) (auto simp: option_step_def split: option.split)

lemma moves_configure:
  "moves option_step (configure fw child options) None (\<lambda>r q. q = None \<or> is_ok r \<and> q = Some child)"
  unfolding configure_def exclusive_def
  by (rule moves_bindS [OF moves_open_image])
    (auto intro!: moves_fail moves_option_drop moves_then [OF moves_query] moves_then [OF keeps_report]
      moves_bindS [OF moves_set_options] moves_ok split: prod.split if_splits)

lemma moves_unload_child:
  "q = None \<or> q = Some h \<Longrightarrow> moves option_step (unload_image fw h) q (\<lambda>st q'. q' = None \<or> st \<noteq> SUCCESS \<and> q' = Some h)"
  unfolding unload_image_def by (rule moves_call) (auto simp: option_step_def)

lemma moves_clean_up:
  assumes "q = None \<or> q = Some child"
  shows "moves option_step (clean_up fw child) q (\<lambda>retained q. q = None \<or> retained)"
  unfolding clean_up_def
proof (rule moves_bindS [OF moves_open_image [OF assms]], clarsimp, intro conjI impI)
  have finish: "moves option_step (bindS (if st \<noteq> SUCCESS then report fw tag [RStat st] else ret ()) (\<lambda>_. ret False)) None
      (\<lambda>retained q. q = None \<or> retained)" for st tag
    by (cases "st = SUCCESS") (auto intro!: moves_then [OF keeps_report] moves_then [OF moves_ret] moves_ret)
  have clear: "moves option_step (with_drop (set_options fw child None) (scoped_drop fw child LoadedImageG)) q (\<lambda>_ q'. q' = None)"
    by (rule moves_option_drop, rule moves_mono [OF moves_set_options [OF assms]]) simp
  have "moves option_step (bindS (unload_image fw child) (\<lambda>st.
      bindS (if st \<noteq> SUCCESS then report fw ''NEXTCORE: IMAGE_CLEANUP_ERROR'' [RStat st] else ret ()) (\<lambda>_. ret False)))
      None (\<lambda>retained q. q = None \<or> retained)"
    by (rule moves_then [OF keeps_unload finish])
  with clear show "moves option_step (bindS (with_drop (set_options fw child None) (scoped_drop fw child LoadedImageG)) (\<lambda>_.
      bindS (unload_image fw child) (\<lambda>st.
      bindS (if st \<noteq> SUCCESS then report fw ''NEXTCORE: IMAGE_CLEANUP_ERROR'' [RStat st] else ret ()) (\<lambda>_. ret False)))) q
      (\<lambda>retained q. q = None \<or> retained)"
    by (auto elim: moves_bindS)
  show "moves option_step (bindS (unload_image fw child) (\<lambda>st.
      if st \<noteq> SUCCESS then bindS (report fw ''NEXTCORE: IMAGE_CLEANUP_ERROR options=RETAINED'' []) (\<lambda>_. ret True) else ret False)) q
      (\<lambda>retained q. q = None \<or> retained)"
    by (rule moves_bindS [OF moves_unload_child [OF assms]]) (auto intro!: moves_then [OF keeps_report] moves_ret)
qed (auto intro: moves_ret)

lemma bindS_ret: "bindS (ret x) k = k x"
  by (rule ext) (simp add: op_simps)

lemma keeps_acquire: "keeps (acquire fw io address) q"
proof -
  have loc: "keeps (locate fw g) q" for g
  proof -
    have "keeps (locate_protocol fw g) q"
      unfolding locate_protocol_def by (rule moves_stay_call) (auto simp: option_step_def)
    then show ?thesis unfolding locate_def by (rule moves_then) (auto simp: lift_def intro: moves_ret)
  qed
  have ts: "keeps (text_state io) q"
  proof -
    have "keeps (call (cio_query_mode io n) (\<lambda>(st, c, r). ECall ''query_mode'' [] st)) q" for n
      by (rule moves_stay_call) (auto simp: option_step_def)
    then show ?thesis
      unfolding text_state_def by (intro moves_then [OF moves_query] moves_cases)
        (auto intro!: moves_fail moves_then moves_ok)
  qed
  have gr: "keeps (graphics_exists fw) q"
    unfolding graphics_exists_def by (auto intro!: rests_bindE loc moves_ok)
  have dr: "keeps (lease_drop fw l) q" for l
    unfolding lease_drop_def
    by (auto intro!: moves_then keeps_report moves_ret moves_stay_call simp: option_step_def split: option.split)
  have rj: "keeps (rejecting fw l e) q" for l e
    unfolding rejecting_def by (intro moves_then [OF dr] moves_ret) simp
  have pub: "keeps (publish fw address p t g) q" for p t g
    unfolding publish_def
    by (auto intro!: moves_then loc keeps_report moves_ret moves_stay_call rj simp: option_step_def Let_def
        split: prod.split sum.split)
  show ?thesis
    unfolding acquire_def
    by (auto intro!: moves_then loc keeps_report moves_ret rests_bindE ts gr moves_ok pub simp: Let_def
        split: sum.split option.split)
qed

lemma keeps_release: "keeps (release fw l) q"
  unfolding release_def lease_drop_def
  by (auto intro!: moves_then keeps_report moves_ret moves_stay_call simp: option_step_def split: option.split)

lemma moves_start_child:
  assumes "q = None \<or> q = Some child"
  shows "moves option_step (start_child fw child lease) q
     (\<lambda>r q. case r of None \<Rightarrow> lease \<noteq> None | Some (st, retained) \<Rightarrow> q = None \<or> retained)"
proof -
  have rest: "moves option_step (bindS (clean_up fw child) (\<lambda>retained.
      bindS (report fw ''NEXTCORE: IMAGE_RETURN'' [RStat st]) (\<lambda>_. ret (Some (st, retained))))) q
      (\<lambda>r q. case r of None \<Rightarrow> P | Some (st, retained) \<Rightarrow> q = None \<or> retained)" for st P
    by (rule moves_bindS [OF moves_clean_up [OF assms]]) (auto intro!: moves_then [OF keeps_report] moves_ret)
  show ?thesis
  proof (cases lease)
    case None
    show ?thesis
      unfolding start_child_def None
      by (auto intro!: moves_then [OF keeps_report] moves_then [OF keeps_start] rest simp: bindS_ret)
  next
    case (Some l)
    show ?thesis
      unfolding start_child_def Some option.case
      by (intro moves_then [OF keeps_report] moves_then [OF keeps_start] moves_then [OF keeps_release]
          moves_case_option moves_ret rest) simp
  qed
qed

text \<open>The trace ends with the child whose unloading was refused after the console service could not be had.\<close>

definition console_refusal :: "handle \<Rightarrow> status \<Rightarrow> event list \<Rightarrow> bool" where
  "console_refusal child st evs \<longleftrightarrow> (\<exists>pre u. u \<noteq> SUCCESS
     \<and> evs = pre @ [EUnloadImage child u, EReport ''NEXTCORE: CONSOLE_ERROR'' [RStat st]])"

definition options_accounted :: "handle \<Rightarrow> bool \<Rightarrow> (status \<times> bool) option \<Rightarrow> event list \<Rightarrow> bool" where
  "options_accounted child console r evs \<longleftrightarrow> (\<exists>q. run option_step None evs = Some q
     \<and> (case r of
          None \<Rightarrow> console
        | Some (st, retained) \<Rightarrow> q = None \<or> retained \<or> (console \<and> q = Some child \<and> console_refusal child st evs)))"

lemma accounted_start:
  assumes "run option_step None pre = Some q" "q = None \<or> q = Some child" "\<And>x. lease = Some x \<Longrightarrow> console"
  shows "extends (start_child fw child lease) (\<lambda>r evs. options_accounted child console r (pre @ evs))"
  by (rule extends_mono [OF moves_start_child [OF assms(2), unfolded moves_def]])
    (use assms(1,3) in \<open>fastforce simp: options_accounted_def run_append split: option.splits\<close>)

lemma accounted_unload:
  assumes "run option_step None pre = Some q" "q = None \<or> console \<and> tag = ''NEXTCORE: CONSOLE_ERROR'' \<and> q = Some child"
  shows "extends (bindS (unload_image fw child) (\<lambda>_. bindS (report fw tag [RStat st]) (\<lambda>_. ret (Some (st, False)))))
    (\<lambda>r evs. options_accounted child console r (pre @ evs))"
proof -
  have "extends (bindS (unload_image fw child) (\<lambda>_. bindS (report fw tag [RStat st]) (\<lambda>_. ret (Some (st, False)))))
    (\<lambda>r evs. r = Some (st, False) \<and> (\<exists>u. evs = [EUnloadImage child u, EReport tag [RStat st]]))"
    unfolding extends_def by (auto simp: unload_image_def report_def op_simps call_eval split: prod.split)
  then show ?thesis
  proof (rule extends_mono, clarify)
    fix u
    show "options_accounted child console (Some (st, False)) (pre @ [EUnloadImage child u, EReport tag [RStat st]])"
      using assms by (auto simp: options_accounted_def run_append option_step_def console_refusal_def)
  qed
qed

lemma accounted_run_child:
  "extends (run_child fw console child options) (options_accounted child (console \<noteq> None))"
  unfolding run_child_def
proof (rule extends_bindS [OF moves_configure [unfolded moves_def]], elim exE conjE)
  fix configured :: "status + unit" and evs q
  assume q: "run option_step None evs = Some q" "q = None \<or> is_ok configured \<and> q = Some child"
  let ?G = "\<lambda>r evs'. options_accounted child (console \<noteq> None) r (evs @ evs')"
  have held: "extends (bindS (acquire fw cio address) (\<lambda>lease. case lease of
      None \<Rightarrow> ret None
    | Some (Inl st) \<Rightarrow> bindS (unload_image fw child) (\<lambda>_.
        bindS (report fw ''NEXTCORE: CONSOLE_ERROR'' [RStat st]) (\<lambda>_. ret (Some (st, False))))
    | Some (Inr l) \<Rightarrow> start_child fw child (Some l))) ?G"
    if "console = Some (cio, address)" for cio address
  proof (rule extends_bindS [OF keeps_acquire [of fw cio address q, unfolded moves_def]], elim exE conjE)
    fix lease evs1 q'
    assume "run option_step q evs1 = Some q'" "q' = q"
    with q have r: "run option_step None (evs @ evs1) = Some q" by (simp add: run_append)
    have h: "q = None \<or> q = Some child" using q(2) by blast
    have stop: "extends (ret None) (\<lambda>r evs'. options_accounted child (console \<noteq> None) r (evs @ evs1 @ evs'))"
      using that r by (auto intro!: extends_ret simp: options_accounted_def)
    from that h stop accounted_start [OF r h, of _ "console \<noteq> None" fw]
      accounted_unload [OF r, where console = "console \<noteq> None" and tag = "''NEXTCORE: CONSOLE_ERROR''" and child = child]
    show "extends (case lease of
        None \<Rightarrow> ret None
      | Some (Inl st) \<Rightarrow> bindS (unload_image fw child) (\<lambda>_.
          bindS (report fw ''NEXTCORE: CONSOLE_ERROR'' [RStat st]) (\<lambda>_. ret (Some (st, False))))
      | Some (Inr l) \<Rightarrow> start_child fw child (Some l))
      (\<lambda>r evs'. options_accounted child (console \<noteq> None) r (evs @ evs1 @ evs'))"
      by (auto split: option.split sum.split)
  qed
  show "extends (case configured of
      Inl st \<Rightarrow> bindS (unload_image fw child) (\<lambda>_.
        bindS (report fw ''NEXTCORE: IMAGE_OPTIONS_ERROR'' [RStat st]) (\<lambda>_. ret (Some (st, False))))
    | Inr _ \<Rightarrow> (case console of
        None \<Rightarrow> start_child fw child None
      | Some (cio, address) \<Rightarrow> bindS (acquire fw cio address) (\<lambda>lease. case lease of
          None \<Rightarrow> ret None
        | Some (Inl st) \<Rightarrow> bindS (unload_image fw child) (\<lambda>_.
            bindS (report fw ''NEXTCORE: CONSOLE_ERROR'' [RStat st]) (\<lambda>_. ret (Some (st, False))))
        | Some (Inr l) \<Rightarrow> start_child fw child (Some l)))) ?G"
    using q accounted_start [OF q(1), of child None "console \<noteq> None" fw]
      accounted_unload [OF q(1), where console = "console \<noteq> None" and child = child] held
    by (auto split: sum.split option.split)
qed

subsection \<open>Properties\<close>

text \<open>Property C22: whatever the firmware answers, with or without the console service, when a target has been
  run or refused no image refers to the manager's option buffer any more, or the buffer stays
  allocated, with one exception, which the trace shows: the console service could not be acquired
  and the firmware refused to unload the child, a status the code ignores. Without the console
  service there is no exception and the run always returns; with it, it does not return exactly
  when a published interface cannot be removed, and the buffer then stays allocated for ever.\<close>

theorem child_options_released_or_retained:
  "extends (run_child fw console child options)
     (\<lambda>r evs. \<exists>q. run option_step None evs = Some q
        \<and> (case r of
             None \<Rightarrow> console \<noteq> None
           | Some (st, retained) \<Rightarrow> q = None \<or> retained
               \<or> (console \<noteq> None \<and> q = Some child \<and> console_refusal child st evs)))"
  using accounted_run_child unfolding options_accounted_def .

text \<open>
  With the console feature, when the console service cannot be acquired the child is unloaded and
  the result of that is ignored: if it fails, the buffer is freed while the image still refers to
  it.
\<close>

definition stubborn :: "unit firmware" where
  "stubborn = example_firmware\<lparr>fw_unload_image := (\<lambda>_ w. (ACCESS_DENIED, w))\<rparr>"

definition no_console :: "unit console_io" where
  "no_console = \<lparr>cio_text = (\<lambda>_. None), cio_query_mode = (\<lambda>_ w. ((SUCCESS, 0, 0), w)),
     cio_set_mode = (\<lambda>_ w. (SUCCESS, w)), cio_serial_write = (\<lambda>_ w. (SUCCESS, w))\<rparr>"

lemma console_error_leaves_options:
  "case run_child stubborn (Some (no_console, 64)) 5 [65, 0] \<lparr>world = (), trace = []\<rparr> of (r, t) \<Rightarrow>
     r = Some (NOT_READY, False) \<and> run option_step None (trace t) = Some (Some 5)"
  by (simp add: run_child_def configure_def exclusive_def open_protocol_def op_simps call_eval stubborn_def
      example_firmware_def query_def set_options_def scoped_drop_def close_protocol_def acquire_def locate_def
      locate_protocol_def classify_lookup_def text_state_def no_console_def unload_image_def report_def option_step_def)

end
