(* ===== verification/Hal_Tables.thy ===== *)
theory Hal_Tables
  imports UEFI
begin

text \<open>
  The ACPI and PCI dumper (src/src/hal\_tables.rs): it finds the root pointer in the
  configuration tables, copies the tables it leads to out of physical memory, and reads the
  headers of PCI bus 0. Every copy is recorded in the trace as a call \<open>phys_copy\<close> with its range,
  so that what memory is read can be stated of the whole program. The configuration tables and
  the PCI configuration ports are the record \<open>io\<close>.
\<close>

definition MAX_TABLES :: nat where "MAX_TABLES = 32"
definition MAX_TABLE_BYTES :: nat where "MAX_TABLE_BYTES = 16 * 1024"
definition MAX_XSDT_BYTES :: nat where "MAX_XSDT_BYTES = 4096"
definition HEX_CHUNK :: nat where "HEX_CHUNK = 64"

datatype vendor = Acpi2 | Acpi1 | OtherVendor

record 'w hal_io =
  ha_tables :: "'w \<Rightarrow> (vendor \<times> nat) list option"
  ha_pci :: "u32 \<Rightarrow> 'w \<Rightarrow> u32 \<times> 'w"

definition hex_encode :: "u8 list \<Rightarrow> string" where
  "hex_encode bytes = concat (map (\<lambda>b. [hex_digit (unat (drop_bit 4 b)), hex_digit (unat (b AND 0x0f))]) bytes)"

subsection \<open>Guarded copies of physical memory\<close>

definition is_acpi :: "memory_type \<Rightarrow> bool" where
  "is_acpi t = (case t of ACPI_RECLAIM \<Rightarrow> True | ACPI_NON_VOLATILE \<Rightarrow> True | _ \<Rightarrow> False)"

definition acpi_covers :: "nat \<Rightarrow> nat \<Rightarrow> descriptor \<Rightarrow> bool" where
  "acpi_covers phys stop d \<longleftrightarrow> is_acpi (ty d) \<and>
     (case Option.bind (checked_mul (page_count d) 4096) (\<lambda>bytes. checked_add (phys_start d) bytes) of
        None \<Rightarrow> False
      | Some limit \<Rightarrow> phys \<ge> phys_start d \<and> stop \<le> limit)"

definition phys_read :: "'w firmware \<Rightarrow> nat \<Rightarrow> nat \<Rightarrow> ('w, u8 list) op" where
  "phys_read fw phys len =
     call (\<lambda>w. (map (\<lambda>i. fw_bytes fw w (phys + i)) [0..<len], w)) (\<lambda>_. ECall ''phys_copy'' [RNat phys, RNat len] SUCCESS)"

definition phys_copy :: "'w firmware \<Rightarrow> nat \<Rightarrow> nat \<Rightarrow> ('w, u8 list) res" where
  "phys_copy fw phys len =
     (if phys = 0 then fail NOT_FOUND
      else if len = 0 \<or> len > max MAX_TABLE_BYTES MAX_XSDT_BYTES then fail BAD_BUFFER_SIZE
      else case checked_add phys len of
        None \<Rightarrow> fail INVALID_PARAMETER
      | Some stop \<Rightarrow>
          if stop > 0x100000000 then fail INVALID_PARAMETER
          else bindE (memory_map fw) (\<lambda>(meta, ds).
            if \<not> list_ex (acpi_covers phys stop) ds then fail ACCESS_DENIED
            else bindS (phys_read fw phys len) ok))"

definition checksum_zero :: "u8 list \<Rightarrow> bool" where
  "checksum_zero bytes \<longleftrightarrow> foldl (+) 0 bytes = 0"

definition sig_str :: "u8 list \<Rightarrow> string" where
  "sig_str bytes = map (\<lambda>b. if 0x20 \<le> b \<and> b < 0x7f then char_of (unat b) else CHR ''.'') bytes"

definition ascii :: "string \<Rightarrow> u8 list" where
  "ascii t = map of_char t"

subsection \<open>Dumping\<close>

function chunks :: "nat \<Rightarrow> u8 list \<Rightarrow> u8 list list" where
  "chunks n xs = (if n = 0 \<or> xs = [] then [] else take n xs # chunks n (drop n xs))"
  by pat_completeness auto

termination
  by (relation "measure (\<lambda>(n, xs). length xs)") auto

declare chunks.simps [simp del]

fun dump_chunks :: "'w firmware \<Rightarrow> string \<Rightarrow> u8 list list \<Rightarrow> ('w, unit) op" where
  "dump_chunks fw tag [] = ret ()"
| "dump_chunks fw tag (c # cs) = bindS (report fw tag [RText (hex_encode c)]) (\<lambda>_. dump_chunks fw tag cs)"

definition dump_table :: "'w firmware \<Rightarrow> string \<Rightarrow> nat \<Rightarrow> u8 list \<Rightarrow> ('w, unit) op" where
  "dump_table fw sig addr bytes =
     bindS (report fw ''NXHAL: TABLE'' [RText sig, RNat addr, RNat (length bytes), RBool (checksum_zero bytes)]) (\<lambda>_.
     dump_chunks fw ''NXHAL: DATA'' (chunks HEX_CHUNK bytes))"

subsection \<open>The root pointer\<close>

text \<open>The last entry of each kind wins; an ACPI 2 entry is preferred.\<close>

definition vendor_table :: "vendor \<Rightarrow> (vendor \<times> nat) list \<Rightarrow> nat" where
  "vendor_table v entries = foldl (\<lambda>found (g, table). if g = v then table else found) 0 entries"

definition rejected :: "'w firmware \<Rightarrow> string \<Rightarrow> ('w, 'a) res" where
  "rejected fw tag = bindS (report fw tag []) (\<lambda>_. fail LOAD_ERROR)"

definition find_rsdp :: "'w firmware \<Rightarrow> 'w hal_io \<Rightarrow> ('w, nat \<times> nat \<times> nat \<times> nat \<times> nat) res" where
  "find_rsdp fw io =
     bindS (query (ha_tables io)) (\<lambda>entries. case entries of
       None \<Rightarrow> fail NOT_FOUND
     | Some entries \<Rightarrow>
         if length entries = 0 \<or> length entries > 256 then fail NOT_FOUND
         else let acpi2 = vendor_table Acpi2 entries; acpi1 = vendor_table Acpi1 entries;
                  rsdp = (if acpi2 \<noteq> 0 then acpi2 else acpi1) in
           if rsdp = 0 then bindS (report fw ''NXHAL: RSDP_NOT_FOUND'' []) (\<lambda>_. fail NOT_FOUND)
           else bindE (phys_copy fw rsdp 20) (\<lambda>head.
             if take 8 head \<noteq> ascii ''RSD PTR '' then rejected fw ''NXHAL: RSDP_SIG_INVALID''
             else if \<not> checksum_zero (take 20 head) then rejected fw ''NXHAL: RSDP_CHECKSUM nonzero''
             else let rev = unat (head ! 15); rsdt = le_nat (subrange 16 20 head) in
               if rev < 2 then ok (rsdp, 20, rev, rsdt, 0)
               else bindE (phys_copy fw rsdp 36) (\<lambda>ext.
                 let len = le_nat (subrange 20 24 ext) in
                 if len < 36 \<or> len > 64 then fail LOAD_ERROR
                 else bindE (phys_copy fw rsdp len) (\<lambda>full.
                   if \<not> checksum_zero full then rejected fw ''NXHAL: RSDP_EXT_CHECKSUM nonzero''
                   else ok (rsdp, len, rev, rsdt, le_nat (subrange 24 32 full))))))"

subsection \<open>The tables\<close>

definition dump_entry :: "'w firmware \<Rightarrow> nat \<Rightarrow> nat \<Rightarrow> ('w, nat) op" where
  "dump_entry fw addr dumped =
     bindS (phys_copy fw addr 36) (\<lambda>hdr. case hdr of
       Inl _ \<Rightarrow> bindS (report fw ''NXHAL: SKIP reason=HDR_READ'' [RNat addr]) (\<lambda>_. ret dumped)
     | Inr hdr \<Rightarrow>
         let sig = sig_str (take 4 hdr); len = le_nat (subrange 4 8 hdr) in
         if len < 36 \<or> len > MAX_TABLE_BYTES then
           bindS (report fw ''NXHAL: SKIP reason=LEN_CAP'' [RText sig, RNat addr, RNat len]) (\<lambda>_. ret dumped)
         else bindS (phys_copy fw addr len) (\<lambda>bytes. case bytes of
           Inl _ \<Rightarrow> bindS (report fw ''NXHAL: SKIP reason=BODY_READ'' [RText sig, RNat addr]) (\<lambda>_. ret dumped)
         | Inr bytes \<Rightarrow> bindS (dump_table fw sig addr bytes) (\<lambda>_. ret (dumped + 1))))"

text \<open>The addresses of the root table's entries, four or eight bytes each; none may be zero.\<close>

definition entry_address :: "u8 list \<Rightarrow> nat \<Rightarrow> nat \<Rightarrow> nat" where
  "entry_address root entry_size i = le_nat (subrange (36 + i * entry_size) (36 + i * entry_size + entry_size) root)"

fun dump_entries :: "'w firmware \<Rightarrow> nat list \<Rightarrow> nat \<Rightarrow> ('w, nat) res" where
  "dump_entries fw [] dumped = ok dumped"
| "dump_entries fw (addr # addrs) dumped =
     (if addr = 0 then fail COMPROMISED_DATA
      else bindS (dump_entry fw addr dumped) (\<lambda>dumped. dump_entries fw addrs dumped))"

definition dump_root :: "'w firmware \<Rightarrow> nat \<Rightarrow> nat \<Rightarrow> ('w, nat) res" where
  "dump_root fw rsdt xsdt =
     (let root = (if xsdt \<noteq> 0 then xsdt else rsdt) in
      if root = 0 then fail NOT_FOUND
      else bindE (phys_copy fw root 36) (\<lambda>hdr.
        let root_len = le_nat (subrange 4 8 hdr) in
        if root_len < 36 \<or> root_len > MAX_XSDT_BYTES then
          bindS (report fw ''NXHAL: ROOTLEN_INVALID'' [RNat root_len]) (\<lambda>_. fail LOAD_ERROR)
        else let is_xsdt = (take 4 hdr = ascii ''XSDT''); is_rsdt = (take 4 hdr = ascii ''RSDT'') in
          if (xsdt \<noteq> 0 \<and> \<not> is_xsdt) \<or> (xsdt = 0 \<and> \<not> is_rsdt) then rejected fw ''NXHAL: ROOTSIG_INVALID''
          else bindE (phys_copy fw root root_len) (\<lambda>bytes.
            if \<not> checksum_zero bytes then bindS (report fw ''NXHAL: ROOT_CHECKSUM nonzero'' []) (\<lambda>_. fail CRC_ERROR)
            else
              bindS (dump_table fw (if is_xsdt then ''XSDT'' else ''RSDT'') root bytes) (\<lambda>_.
              let entry_size = (if is_xsdt then 8 else 4); n = (root_len - 36) div entry_size in
              if (root_len - 36) mod entry_size \<noteq> 0 then fail BAD_BUFFER_SIZE
              else if n = 0 \<or> n > MAX_TABLES then fail BAD_BUFFER_SIZE
              else
                bindS (report fw ''NXHAL: ROOT'' [RBool is_xsdt, RNat n]) (\<lambda>_.
                dump_entries fw (map (entry_address bytes entry_size) [0..<n]) 1)))))"

subsection \<open>PCI\<close>

definition pci_address :: "u32 \<Rightarrow> u32 \<Rightarrow> u32 \<Rightarrow> u32 \<Rightarrow> u32" where
  "pci_address bus dev func offset =
     0x80000000 OR push_bit 16 bus OR push_bit 11 dev OR push_bit 8 func OR (offset AND 0xFC)"

definition pci_read :: "'w hal_io \<Rightarrow> u32 \<Rightarrow> u32 \<Rightarrow> u32 \<Rightarrow> u32 \<Rightarrow> ('w, u32) op" where
  "pci_read io bus dev func offset =
     call (ha_pci io (pci_address bus dev func offset)) (\<lambda>_. ECall ''pci_read'' [RNat (unat (pci_address bus dev func offset))] SUCCESS)"

fun pci_header :: "'w hal_io \<Rightarrow> u32 \<Rightarrow> u32 \<Rightarrow> u32 list \<Rightarrow> ('w, u8 list) op" where
  "pci_header io dev func [] = ret []"
| "pci_header io dev func (offset # offsets) =
     bindS (pci_read io 0 dev func offset) (\<lambda>d.
     bindS (pci_header io dev func offsets) (\<lambda>rest. ret (le_bytes 4 (unat d) @ rest)))"

definition dump_function :: "'w firmware \<Rightarrow> 'w hal_io \<Rightarrow> u32 \<Rightarrow> u32 \<Rightarrow> ('w, nat) op" where
  "dump_function fw io dev func =
     bindS (pci_read io 0 dev func 0) (\<lambda>d0.
     let vendor_id = d0 AND 0xFFFF in
     if vendor_id = 0xFFFF then ret 0
     else
       bindS (pci_read io 0 dev func 8) (\<lambda>d2.
       bindS (pci_header io dev func (map (\<lambda>i. of_nat (4 * i)) [0..<16])) (\<lambda>header.
       bindS (report fw ''NXHAL: PCI'' [RNat (unat dev), RNat (unat func), RNat (unat vendor_id), RNat (unat (drop_bit 16 d0)),
         RNat (unat (drop_bit 24 d2 AND 0xFF)), RNat (unat (drop_bit 16 d2 AND 0xFF)), RNat (unat (drop_bit 8 d2 AND 0xFF)),
         RNat (unat (d2 AND 0xFF))]) (\<lambda>_.
       bindS (dump_chunks fw ''NXHAL: PCIDATA'' (chunks HEX_CHUNK header)) (\<lambda>_. ret 1)))))"

fun dump_functions :: "'w firmware \<Rightarrow> 'w hal_io \<Rightarrow> (u32 \<times> u32) list \<Rightarrow> nat \<Rightarrow> ('w, nat) op" where
  "dump_functions fw io [] found = ret found"
| "dump_functions fw io ((dev, func) # fs) found =
     bindS (dump_function fw io dev func) (\<lambda>n. dump_functions fw io fs (found + n))"

definition dump_pci_bus0 :: "'w firmware \<Rightarrow> 'w hal_io \<Rightarrow> ('w, nat) op" where
  "dump_pci_bus0 fw io =
     dump_functions fw io (concat (map (\<lambda>dev. map (\<lambda>func. (of_nat dev, of_nat func)) [0..<8]) [0..<32])) 0"

subsection \<open>The run\<close>

text \<open>The rejection path is exercised before the first table is read.\<close>

fun check_guards :: "'w firmware \<Rightarrow> (nat \<times> nat \<times> status) list \<Rightarrow> ('w, unit) res" where
  "check_guards fw [] = ok ()"
| "check_guards fw ((address, len, expected) # gs) =
     bindS (phys_copy fw address len) (\<lambda>r. case r of
       Inl st \<Rightarrow> if st = expected then check_guards fw gs else fail COMPROMISED_DATA
     | Inr _ \<Rightarrow> fail COMPROMISED_DATA)"

definition read_guards :: "(nat \<times> nat \<times> status) list" where
  "read_guards = [(0, 36, NOT_FOUND), (2 ^ 64 - 1, 36, INVALID_PARAMETER), (0xffffffff, 36, INVALID_PARAMETER),
     (0xb8000, 36, ACCESS_DENIED), (0xb8000, MAX_TABLE_BYTES + 1, BAD_BUFFER_SIZE)]"

definition hal_run :: "'w firmware \<Rightarrow> 'w hal_io \<Rightarrow> ('w, nat \<times> nat) res" where
  "hal_run fw io =
     bindE (check_guards fw read_guards) (\<lambda>_.
     bindS (report fw ''NXHAL: READ_GUARDS_OK'' []) (\<lambda>_.
     bindE (find_rsdp fw io) (\<lambda>(rsdp, len, rev, rsdt, xsdt).
     bindS (report fw ''NXHAL: RSDP'' [RNat rsdp, RNat len, RNat rev, RNat rsdt, RNat xsdt]) (\<lambda>_.
     bindE (phys_copy fw rsdp len) (\<lambda>bytes.
     bindS (dump_table fw ''RSDP'' rsdp bytes) (\<lambda>_.
     bindE (dump_root fw rsdt xsdt) (\<lambda>dumped.
     bindS (dump_pci_bus0 fw io) (\<lambda>pci. ok (dumped, pci)))))))))"

text \<open>The entry ends in the debug exit port, whose value is the result.\<close>

definition hal_main :: "'w firmware \<Rightarrow> 'w hal_io \<Rightarrow> ('w, nat) op" where
  "hal_main fw io =
     bindS (report fw ''NXHAL: EFI_ENTRY'' []) (\<lambda>_.
     bindS (hal_run fw io) (\<lambda>r. case r of
       Inr (tables, pci) \<Rightarrow> bindS (report fw ''NXHAL: DONE'' [RNat tables, RNat pci]) (\<lambda>_. ret 0x21)
     | Inl st \<Rightarrow> bindS (report fw ''NXHAL: ERROR'' [RStat st]) (\<lambda>_. ret 0x23)))"

subsection \<open>What memory is read\<close>

text \<open>
  The state is the memory map that was read last. A copy of physical memory must lie inside one
  ACPI descriptor of it, below four gigabytes, and be no longer than a table.
\<close>

definition acpi_range :: "descriptor list \<Rightarrow> nat \<Rightarrow> nat \<Rightarrow> bool" where
  "acpi_range ds p l \<longleftrightarrow> 0 < p \<and> 0 < l \<and> l \<le> 16384 \<and> p + l \<le> 2 ^ 32
     \<and> (\<exists>d \<in> set ds. is_acpi (ty d) \<and> phys_start d \<le> p \<and> p + l \<le> phys_start d + 4096 * page_count d)"

definition acpi_step :: "descriptor list \<Rightarrow> event \<Rightarrow> descriptor list option" where
  "acpi_step q e = (case e of
     EMemoryMap (Inr (meta, ds)) \<Rightarrow> Some ds
   | EMemoryMap (Inl _) \<Rightarrow> Some []
   | ECall tag [RNat p, RNat l] st \<Rightarrow> if tag = ''phys_copy'' then (if acpi_range q p l then Some q else None) else Some q
   | _ \<Rightarrow> Some q)"

definition guarded_reads :: "('w, 'a) op \<Rightarrow> bool" where
  "guarded_reads m \<longleftrightarrow> (\<forall>q. moves acpi_step m q (\<lambda>_ _. True))"

named_theorems read_intros \<open>operations whose copies of memory are guarded\<close>

lemma guarded_reads_basic [read_intros]:
  "guarded_reads (ret a)" "guarded_reads (ok b)" "guarded_reads (fail e)" "guarded_reads (query f)"
  by (simp_all add: guarded_reads_def moves_ret moves_ok moves_fail moves_mono [OF moves_query])

lemma guarded_reads_bindS [read_intros]:
  "guarded_reads m \<Longrightarrow> (\<And>a. guarded_reads (k a)) \<Longrightarrow> guarded_reads (bindS m k)"
  unfolding guarded_reads_def by (blast intro: moves_bindS)

lemma guarded_reads_bindE [read_intros]:
  "guarded_reads m \<Longrightarrow> (\<And>a. guarded_reads (k a)) \<Longrightarrow> guarded_reads (bindE m k)"
  unfolding guarded_reads_def by (blast intro: moves_bindE)

lemma guarded_reads_cases [read_intros]:
  "guarded_reads f \<Longrightarrow> (\<And>x. guarded_reads (g x)) \<Longrightarrow> guarded_reads (case r of None \<Rightarrow> f | Some x \<Rightarrow> g x)"
  "(\<And>x. guarded_reads (f' x)) \<Longrightarrow> (\<And>x. guarded_reads (g' x)) \<Longrightarrow> guarded_reads (case r' of Inl x \<Rightarrow> f' x | Inr x \<Rightarrow> g' x)"
  "(\<And>x y. guarded_reads (f'' x y)) \<Longrightarrow> guarded_reads (case p of (x, y) \<Rightarrow> f'' x y)"
  "guarded_reads m \<Longrightarrow> guarded_reads n \<Longrightarrow> guarded_reads (if b then m else n)"
  by (simp_all split: option.split sum.split prod.split)

lemma guarded_reads_report [read_intros]: "guarded_reads (report fw tag vs)"
  unfolding guarded_reads_def report_def by (auto intro!: moves_call simp: acpi_step_def)

lemma guarded_reads_pci [read_intros]: "guarded_reads (pci_read io bus dev func offset)"
  unfolding guarded_reads_def pci_read_def by (auto intro!: moves_call simp: acpi_step_def)

lemma acpi_covers_range:
  "acpi_covers p (p + l) d \<Longrightarrow> is_acpi (ty d) \<and> phys_start d \<le> p \<and> p + l \<le> phys_start d + 4096 * page_count d"
  by (auto simp: acpi_covers_def checked_simps bind_eq_Some_conv mult.commute split: option.splits)

lemma guarded_reads_phys_copy [read_intros]: "guarded_reads (phys_copy fw p l)"
proof -
  have read: "moves acpi_step (phys_read fw p l) q (\<lambda>_ _. True)" if "acpi_range q p l" for q
    unfolding phys_read_def by (rule moves_call) (use that in \<open>simp add: acpi_step_def\<close>)
  have map: "moves acpi_step (memory_map fw) q (\<lambda>r q'. case r of Inl _ \<Rightarrow> True | Inr (meta, ds) \<Rightarrow> q' = ds)" for q
    unfolding memory_map_def by (rule moves_call) (auto simp: acpi_step_def split: sum.splits prod.splits)
  have body: "moves acpi_step (bindE (memory_map fw) (\<lambda>(meta, ds).
      if \<not> list_ex (acpi_covers p (p + l)) ds then fail ACCESS_DENIED else bindS (phys_read fw p l) ok)) q (\<lambda>_ _. True)"
    if "0 < p" "0 < l" "l \<le> 16384" "p + l \<le> 2 ^ 32" for q
  proof (rule moves_bindE [OF map])
    fix a :: "map_meta \<times> descriptor list" and q'
    assume "case Inr a of Inl _ \<Rightarrow> True | Inr (meta, ds) \<Rightarrow> q' = ds"
    then have q': "q' = snd a" by (cases a) simp
    have "acpi_range q' p l" if "list_ex (acpi_covers p (p + l)) (snd a)"
      using that \<open>0 < p\<close> \<open>0 < l\<close> \<open>l \<le> 16384\<close> \<open>p + l \<le> 2 ^ 32\<close>
      unfolding acpi_range_def q' list_ex_iff by (auto dest: acpi_covers_range)
    then show "moves acpi_step (case a of (meta, ds) \<Rightarrow>
        if \<not> list_ex (acpi_covers p (p + l)) ds then fail ACCESS_DENIED else bindS (phys_read fw p l) ok) q' (\<lambda>_ _. True)"
      by (cases a) (auto intro!: moves_fail moves_bindS [OF read] moves_ok)
  qed simp_all
  show ?thesis
    unfolding guarded_reads_def phys_copy_def
    by (auto intro!: moves_fail body simp: MAX_TABLE_BYTES_def MAX_XSDT_BYTES_def checked_simps split: option.split)
qed

lemma guarded_reads_dump [read_intros]: "guarded_reads (dump_chunks fw tag cs)"
  by (induction cs) (auto intro: read_intros)

lemma guarded_reads_header [read_intros]: "guarded_reads (pci_header io dev func offsets)"
  by (induction offsets) (auto intro: read_intros)

lemma guarded_reads_parts [read_intros]:
  "guarded_reads (dump_table fw sig addr bytes)" "guarded_reads (dump_entry fw addr dumped)"
  "guarded_reads (dump_function fw io dev func)" "guarded_reads (rejected fw tag)"
  unfolding dump_table_def dump_entry_def dump_function_def rejected_def Let_def by (intro read_intros)+

lemma guarded_reads_loops [read_intros]:
  "guarded_reads (dump_entries fw addrs dumped)" "guarded_reads (dump_functions fw io fs found)"
  "guarded_reads (check_guards fw gs)"
proof -
  show "guarded_reads (dump_entries fw addrs dumped)" by (induction addrs arbitrary: dumped) (auto intro!: read_intros)
  show "guarded_reads (dump_functions fw io fs found)" by (induction fs arbitrary: found) (auto intro!: read_intros)
  show "guarded_reads (check_guards fw gs)" by (induction gs) (auto intro!: read_intros)
qed

lemma guarded_reads_main: "guarded_reads (hal_main fw io)"
  unfolding hal_main_def hal_run_def find_rsdp_def dump_root_def dump_pci_bus0_def Let_def by (intro read_intros)

subsection \<open>Properties\<close>

text \<open>Property C23: the dumper reads no memory but ACPI tables. Whatever the firmware's tables contain, every
  range of physical memory that the program copies is non-empty, at most 16 KiB long, below four
  gigabytes, and lies inside one ACPI descriptor of the memory map read just before.\<close>

theorem only_acpi_memory_is_read:
  "moves acpi_step (hal_main fw io) [] (\<lambda>_ _. True)"
  using guarded_reads_main [of fw io] unfolding guarded_reads_def by (rule spec)

end
