(* ===== verification/Kernel_Entry.thy ===== *)
theory Kernel_Entry
  imports Loaded_Kernel Firmware_IO Picker
begin

text \<open>
  The kernel application (src/src/kernel.rs) with the checks of its mode transition
  (src/src/transition32.rs): it reads and places a Mach-O kernel and, in the probe build, hands
  over to it after ExitBootServices. The configuration and Mach-O parsers, the device tree and
  the boot argument encoders are dependencies; the processor's control registers and the
  machine code of the transition are parameters. Leaving boot services is the call
  \<open>exit_boot_services\<close> of the trace.
\<close>

definition KERNEL_VA_BASE :: nat where "KERNEL_VA_BASE = 0xffffff8000000000"
definition LOW_PROFILE_END :: nat where "LOW_PROFILE_END = 64 * 1024 * 1024"
definition ARENA_PAGES :: nat where "ARENA_PAGES = 64"

record kernel_target =
  kt_path :: ustr
  kt_arguments :: ustr

record parsed_macho =
  pm_plan :: image_plan
  pm_preferred_base :: nat
  pm_unix_thread :: bool

record kernel_deps =
  kd_target :: "u8 list \<Rightarrow> string + kernel_target"
  kd_parse :: "u8 list \<Rightarrow> string + parsed_macho"
  kd_macho :: macho
  kd_ram :: "nat \<Rightarrow> u8 \<Rightarrow> u8"
  kd_source_start :: nat

subsection \<open>Placing the kernel\<close>

definition physical_range :: "parsed_macho \<Rightarrow> status + nat" where
  "physical_range p =
     and_then (ok_or (checked_sub (pm_preferred_base p) KERNEL_VA_BASE) UNSUPPORTED) (\<lambda>physical_base.
     and_then (ok_or (Option.bind (checked_add physical_base (image_size (pm_plan p)))
         (\<lambda>end. checked_add end (ARENA_PAGES * 4096))) UNSUPPORTED) (\<lambda>physical_end.
     if physical_base < 0x100000 \<or> physical_end > LOW_PROFILE_END then Inl UNSUPPORTED else Inr physical_base))"

definition read_target :: "'w firmware \<Rightarrow> 'w file_io \<Rightarrow> kernel_deps \<Rightarrow> ('w, kernel_target \<times> u8 list) res" where
  "read_target fw io kd =
     bindE (read_file fw io config_path (1024 * 1024)) (\<lambda>config. case kd_target kd config of
       Inl e \<Rightarrow> bindS (report fw ''NXKERNEL: CONFIG_INVALID'' [RText e]) (\<lambda>_. fail INVALID_PARAMETER)
     | Inr target \<Rightarrow>
         if \<not> ucs2 (kt_path target) then fail INVALID_PARAMETER
         else bindE (read_file fw io (kt_path target) (64 * 1024 * 1024)) (\<lambda>source. ok (target, source)))"

definition parse_source :: "'w firmware \<Rightarrow> kernel_deps \<Rightarrow> u8 list \<Rightarrow> ('w, parsed_macho) res" where
  "parse_source fw kd source = (case kd_parse kd source of
     Inl e \<Rightarrow> bindS (report fw ''NXKERNEL: MACHO_INVALID'' [RText e]) (\<lambda>_. fail LOAD_ERROR)
   | Inr p \<Rightarrow>
       if \<not> pm_unix_thread p then
         bindS (report fw ''NXKERNEL: PROFILE_UNSUPPORTED reason=ENTRY_KIND'' []) (\<lambda>_. fail UNSUPPORTED)
       else ok p)"

definition place_kernel :: "'w firmware \<Rightarrow> kernel_deps \<Rightarrow> u8 list \<Rightarrow> ('w, status fault + loaded_kernel) op" where
  "place_kernel fw kd source =
     bindE (failing (parse_source fw kd source)) (\<lambda>p.
     bindE (lift (map_err Fail (physical_range p))) (\<lambda>physical_base.
     bindE (load_at fw (kd_macho kd) (kd_ram kd) (pm_plan p) source (kd_source_start kd) physical_base ARENA_PAGES) (\<lambda>k.
     bindS (report fw ''NXKERNEL: IMAGE_PLACED'' [RNat (lk_allocation k), RNat (physical_entry k), RNat (lk_image_size k)])
       (\<lambda>_. ok k))))"

text \<open>The production build stops here.\<close>

definition prepare :: "'w firmware \<Rightarrow> 'w file_io \<Rightarrow> kernel_deps \<Rightarrow> ('w, status fault + unit) op" where
  "prepare fw io kd =
     bindE (failing (read_target fw io kd)) (\<lambda>(target, source).
     bindE (place_kernel fw kd source) (\<lambda>k.
     bindS (report fw ''NXKERNEL: PROVIDERS_PENDING'' []) (\<lambda>_.
     with_drop (fails NOT_READY) (kernel_drop fw k))))"

subsection \<open>The transition's preconditions\<close>

definition transition_preflight :: "u64 \<Rightarrow> u64 \<Rightarrow> u16 \<Rightarrow> status + unit" where
  "transition_preflight cr0 cr4 cs =
     (if cr0 AND 0x80000001 \<noteq> 0x80000001 \<or> cs AND 3 \<noteq> 0
         \<or> cr4 AND (push_bit 12 1 OR push_bit 17 1 OR push_bit 23 1) \<noteq> 0
      then Inl UNSUPPORTED else Inr ())"

text \<open>The code to copy lies between two addresses of the program's own image, \<open>mem\<close> are the bytes there.\<close>

definition copy_into :: "nat \<Rightarrow> nat \<Rightarrow> (nat \<Rightarrow> u8) \<Rightarrow> nat \<Rightarrow> status + u8 list" where
  "copy_into start stop mem room =
     and_then (ok_or (checked_sub stop start) LOAD_ERROR) (\<lambda>count.
     if count = 0 \<or> count > room \<or> count > 4096 then Inl BAD_BUFFER_SIZE
     else Inr (map mem [start ..< start + count]))"

subsection \<open>The probe\<close>

definition DT :: nat where "DT = 4096"
definition MAP :: nat where "MAP = DT + 8192"
definition MAP_CAP :: nat where "MAP_CAP = 65536"
definition TRAMPOLINE :: nat where "TRAMPOLINE = MAP + MAP_CAP"
definition STACK_TOP :: nat where "STACK_TOP = TRAMPOLINE + 4096 + 65536"

datatype flat_node = FlatNode string "(string \<times> u8 list) list" "flat_node list"

fun utf8 :: "ustr \<Rightarrow> u8 list" where
  "utf8 [] = []"
| "utf8 (c # cs) =
     (if c < 0x80 then [of_nat c]
      else if c < 0x800 then [of_nat (0xc0 + c div 64), of_nat (0x80 + c mod 64)]
      else if c < 0x10000 then [of_nat (0xe0 + c div 4096), of_nat (0x80 + c div 64 mod 64), of_nat (0x80 + c mod 64)]
      else [of_nat (0xf0 + c div 262144), of_nat (0x80 + c div 4096 mod 64), of_nat (0x80 + c div 64 mod 64), of_nat (0x80 + c mod 64)])
     @ utf8 cs"

definition boot_tree :: "ustr \<Rightarrow> flat_node" where
  "boot_tree arguments = FlatNode [] [] [FlatNode ''chosen'' [(''boot-args'', utf8 arguments @ [0])] []]"

record boot_args =
  ba_memory_map_phys :: nat
  ba_memory_map_size :: nat
  ba_descriptor_size :: nat
  ba_descriptor_version :: nat
  ba_device_tree_phys :: nat
  ba_device_tree_size :: nat
  ba_kernel_phys :: nat
  ba_kernel_size :: nat
  ba_physical_memory :: nat
  ba_system_table :: nat
  ba_command_line :: "u8 list"

record 'w probe_deps =
  pd_encode :: "flat_node \<Rightarrow> u8 list option"
  pd_validate :: "u8 list \<Rightarrow> bool"
  pd_boot_args :: "boot_args \<Rightarrow> u8 list option"
  pd_system_table :: "nat option"
  pd_cr0 :: u64
  pd_cr4 :: u64
  pd_cs :: u16
  pd_code_start :: nat
  pd_code_end :: nat
  pd_code_bytes :: "nat \<Rightarrow> u8"
  pd_exit :: "'w \<Rightarrow> (map_meta \<times> descriptor list \<times> u8 list) \<times> 'w"

text \<open>The bytes from \<open>nx_transition_start\<close> to \<open>nx_transition_end\<close>.\<close>

definition pd_code :: "'w probe_deps \<Rightarrow> u8 list" where
  "pd_code pd = map (pd_code_bytes pd) [pd_code_start pd ..< pd_code_end pd]"

definition is_ram :: "memory_type \<Rightarrow> bool" where
  "is_ram t = (case t of MEMORY_OTHER _ \<Rightarrow> False | _ \<Rightarrow> True)"

definition physical_ram :: "descriptor list \<Rightarrow> nat option" where
  "physical_ram ds = foldl (\<lambda>acc d. Option.bind acc (\<lambda>n. Option.bind (checked_mul (page_count d) 4096) (checked_add n)))
     (Some 0) (filter (\<lambda>d. is_ram (ty d)) ds)"

text \<open>The arena is the memory behind the image.\<close>

definition arena_write :: "loaded_kernel \<Rightarrow> nat \<Rightarrow> u8 list \<Rightarrow> loaded_kernel" where
  "arena_write k off bytes = k\<lparr>lk_memory := overwrite (lk_image_size k + off) bytes (lk_memory k)\<rparr>"

definition arguments_input :: "loaded_kernel \<Rightarrow> nat \<Rightarrow> nat \<Rightarrow> u8 list \<Rightarrow> map_meta \<Rightarrow> nat \<Rightarrow> boot_args" where
  "arguments_input k dt_size table line meta ram =
     (let base = lk_allocation k; arena = base + lk_image_size k in
      \<lparr>ba_memory_map_phys = arena + MAP, ba_memory_map_size = map_size meta, ba_descriptor_size = desc_size meta mod 2 ^ 32,
       ba_descriptor_version = desc_version meta, ba_device_tree_phys = arena + DT, ba_device_tree_size = dt_size,
       ba_kernel_phys = base, ba_kernel_size = lk_image_size k + lk_arena_size k, ba_physical_memory = ram,
       ba_system_table = table, ba_command_line = line\<rparr>)"

text \<open>What is checked and staged while boot services run: the kernel with its arena, and the device tree's size.\<close>

definition stage_probe :: "'w probe_deps \<Rightarrow> loaded_kernel \<Rightarrow> ustr \<Rightarrow> status + loaded_kernel \<times> nat \<times> nat \<times> nat" where
  "stage_probe pd k arguments =
     and_then (transition_preflight (pd_cr0 pd) (pd_cr4 pd) (pd_cs pd)) (\<lambda>_.
     and_then (ok_or (pd_encode pd (boot_tree arguments)) INVALID_PARAMETER) (\<lambda>dt.
     if \<not> pd_validate pd dt then Inl INVALID_PARAMETER
     else if length dt > MAP - DT \<or> STACK_TOP > lk_arena_size k then Inl BAD_BUFFER_SIZE
     else if physical_entry k \<ge> 2 ^ 32 then Inl UNSUPPORTED
     else and_then (ok_or (pd_system_table pd) NOT_READY) (\<lambda>table.
     and_then (copy_into (pd_code_start pd) (pd_code_end pd) (pd_code_bytes pd) 4096) (\<lambda>code.
     if length (utf8 arguments) \<ge> 1024 then Inl BAD_BUFFER_SIZE
     else Inr (arena_write (arena_write k DT dt) TRAMPOLINE code, length dt, table, physical_entry k)))))"

text \<open>After the exit: the transition is entered, or the probe halts with its failure code.\<close>

datatype handoff = Enter nat nat nat nat loaded_kernel | Halt

definition after_exit :: "'w probe_deps \<Rightarrow> loaded_kernel \<Rightarrow> nat \<Rightarrow> nat \<Rightarrow> nat \<Rightarrow> u8 list
    \<Rightarrow> map_meta \<times> descriptor list \<times> u8 list \<Rightarrow> handoff" where
  "after_exit pd k dt_size table entry line = (\<lambda>(meta, ds, buffer).
     if map_size meta > MAP_CAP \<or> map_size meta > length buffer \<or> desc_size meta \<ge> 2 ^ 32 then Halt
     else case physical_ram ds of
       None \<Rightarrow> Halt
     | Some ram \<Rightarrow> (case pd_boot_args pd (arguments_input k dt_size table line meta ram) of
         None \<Rightarrow> Halt
       | Some encoded \<Rightarrow>
           let arena = lk_allocation k + lk_image_size k in
           Enter (arena + TRAMPOLINE) entry (arena mod 2 ^ 32) ((arena + STACK_TOP) mod 2 ^ 32)
             (arena_write (arena_write k 0 encoded) MAP (take (map_size meta) buffer))))"

definition exit_boot_services :: "'w probe_deps \<Rightarrow> ('w, map_meta \<times> descriptor list \<times> u8 list) op" where
  "exit_boot_services pd = call (pd_exit pd) (\<lambda>_. ECall ''exit_boot_services'' [] SUCCESS)"

text \<open>The map is validated against the encoder before the irreversible exit.\<close>

definition preview_map :: "'w firmware \<Rightarrow> 'w probe_deps \<Rightarrow> loaded_kernel \<Rightarrow> nat \<Rightarrow> nat \<Rightarrow> u8 list \<Rightarrow> ('w, unit) res" where
  "preview_map fw pd k dt_size table line =
     bindE (memory_map fw) (\<lambda>(meta, ds).
     bindE (lift (ok_or (physical_ram ds) INVALID_PARAMETER)) (\<lambda>ram.
     if map_size meta > MAP_CAP \<or> desc_size meta \<ge> 2 ^ 32 then fail BAD_BUFFER_SIZE
     else if pd_boot_args pd (arguments_input k dt_size table line meta ram) = None then fail INVALID_PARAMETER
     else bindS (report fw ''NXKERNEL: HANDOFF_READY'' [RNat (map_size meta), RNat (desc_size meta)]) (\<lambda>_. ok ())))"

definition run_probe :: "'w firmware \<Rightarrow> 'w probe_deps \<Rightarrow> loaded_kernel \<Rightarrow> ustr \<Rightarrow> ('w, status fault + handoff) op" where
  "run_probe fw pd k arguments =
     bindE (on_error (failing
         (bindE (lift (stage_probe pd k arguments)) (\<lambda>(k, dt_size, table, entry).
          bindE (preview_map fw pd k dt_size table (utf8 arguments)) (\<lambda>_. ok (k, dt_size, table, entry)))))
       (kernel_drop fw k)) (\<lambda>(k, dt_size, table, entry).
     bindS (report fw ''NXKERNEL: EXIT_BOOT_SERVICES'' []) (\<lambda>_.
     bindS (exit_boot_services pd) (\<lambda>map. ok (after_exit pd k dt_size table entry (utf8 arguments) map))))"

text \<open>The probe build accepts only its own fixture.\<close>

definition probe_marker :: "u8 list" where
  "probe_marker = map of_char ''NEXTCORE_AUTHORED_PSTART32_PROBE_V1''"

definition has_marker :: "u8 list \<Rightarrow> bool" where
  "has_marker source \<longleftrightarrow> list_ex (\<lambda>i. take (length probe_marker) (drop i source) = probe_marker) [0..<length source]"

definition prepare_probe :: "'w firmware \<Rightarrow> 'w file_io \<Rightarrow> kernel_deps \<Rightarrow> 'w probe_deps \<Rightarrow> ('w, status fault + handoff) op" where
  "prepare_probe fw io kd pd =
     bindE (failing (read_target fw io kd)) (\<lambda>(target, source).
     bindE (place_kernel fw kd source) (\<lambda>k.
     if \<not> has_marker source then with_drop (fails UNSUPPORTED) (kernel_drop fw k)
     else bindS (report fw ''NXKERNEL: PROBE_ONLY'' []) (\<lambda>_. run_probe fw pd k (kt_arguments target))))"

definition kernel_main :: "'w firmware \<Rightarrow> ('w, status fault + 'a) op \<Rightarrow> ('w, status fault + status) op" where
  "kernel_main fw prep =
     bindS (report fw ''NXKERNEL: EFI_ENTRY'' []) (\<lambda>_.
     bindS prep (\<lambda>r. case r of
       Inr _ \<Rightarrow> ok SUCCESS
     | Inl Panic \<Rightarrow> fail Panic
     | Inl (Fail st) \<Rightarrow> bindS (report fw ''NXKERNEL: ERROR'' [RStat st]) (\<lambda>_. ok st)))"

subsection \<open>The phases of a boot\<close>

text \<open>
  While boot services run, the program owns at most one allocation; leaving them requires that it
  owns one, and afterwards no call of the firmware is allowed.
\<close>

datatype phase = Running "(nat \<times> nat) option" | Exited

definition phase_step :: "phase \<Rightarrow> event \<Rightarrow> phase option" where
  "phase_step q e = (case q of
     Exited \<Rightarrow> None
   | Running pages \<Rightarrow> (case e of
       EAllocPages at mt n (Inr p) \<Rightarrow> if pages = None then Some (Running (Some (p, n))) else None
     | EFreePages p n st \<Rightarrow> if pages = Some (p, n) then Some (Running None) else None
     | ECall tag vs st \<Rightarrow>
         if tag = ''exit_boot_services'' then if pages = None then None else Some Exited
         else Some (Running pages)
     | _ \<Rightarrow> Some (Running pages)))"

abbreviation phased :: "('w, 'a) op \<Rightarrow> phase \<Rightarrow> ('a \<Rightarrow> phase \<Rightarrow> bool) \<Rightarrow> bool" where
  "phased \<equiv> moves phase_step"

abbreviation steady :: "(nat \<times> nat) option \<Rightarrow> ('w, 'a) op \<Rightarrow> bool" where
  "steady pages \<equiv> rests phase_step (Running pages)"

lemma phase_ignores_files: "ignores_files phase_step (Running pages)"
  by (auto simp: ignores_files_def phase_step_def)

lemma steady_report: "steady pages (report fw tag vs)"
  by (rule moves_stay_report) (simp add: phase_step_def)

lemma steady_memory_map: "steady pages (memory_map fw)"
  unfolding memory_map_def by (rule moves_stay_call) (simp add: phase_step_def)

lemmas steady_read = rests_read_file [OF phase_ignores_files]

lemma steady_failing: "steady pages m \<Longrightarrow> steady pages (failing m)"
  unfolding failing_def by (erule moves_then) (rule moves_ret, rule refl)

lemma steady_ret: "steady pages (ret a)" "steady pages (ok b)" "steady pages (fail e)" "steady pages (lift r)"
  by (simp_all add: ok_def fail_def lift_def moves_ret)

lemmas steady_intros = steady_ret rests_bindE moves_then [OF steady_report] steady_read steady_memory_map

lemma steady_read_target: "steady pages (read_target fw io kd)"
  unfolding read_target_def by (auto intro!: steady_intros split: sum.split)

lemma steady_parse_source: "steady pages (parse_source fw kd source)"
  unfolding parse_source_def by (auto intro!: steady_intros split: sum.split)

lemma steady_preview_map: "steady pages (preview_map fw pd k dt_size table line)"
  unfolding preview_map_def by (auto intro!: steady_intros split: prod.split)

lemma phased_kernel_drop:
  assumes "phased m q (\<lambda>r q. R r \<and> q = Running (Some (lk_allocation k, lk_pages k)))"
  shows "phased (with_drop m (kernel_drop fw k)) q (\<lambda>r q. R r \<and> q = Running None)"
proof -
  have "phased (free_pages fw (lk_allocation k) (lk_pages k))
      (Running (Some (lk_allocation k, lk_pages k))) (\<lambda>_ q. q = Running None)"
    unfolding free_pages_def by (rule moves_call) (simp add: phase_step_def)
  then have "phased (\<lambda>s. ((), kernel_drop fw k s)) (Running (Some (lk_allocation k, lk_pages k))) (\<lambda>_ q. q = Running None)"
    by (auto simp: moves_def extends_def kernel_drop_def)
  then show ?thesis
    unfolding with_drop_bindS
    by (intro moves_bindS [OF assms]) (auto intro!: moves_bindS moves_ret)
qed

text \<open>What the result says about the phase: a kernel is owned, a failure has given its pages back.\<close>

definition kept :: "('a \<Rightarrow> phase) \<Rightarrow> status fault + 'a \<Rightarrow> phase \<Rightarrow> bool" where
  "kept f r q \<longleftrightarrow> (case r of Inr a \<Rightarrow> q = f a | Inl (Fail _) \<Rightarrow> q = Running None | Inl Panic \<Rightarrow> True)"

lemma kept_simps [simp]: "kept f (Inr a) q \<longleftrightarrow> q = f a" "kept f (Inl (Fail e)) q \<longleftrightarrow> q = Running None"
    "kept f (Inl Panic) q"
  by (simp_all add: kept_def)

abbreviation owning :: "loaded_kernel \<Rightarrow> phase" where
  "owning k \<equiv> Running (Some (lk_allocation k, lk_pages k))"

lemma phased_discard: "phased (with_drop (fail (Fail e)) (kernel_drop fw k)) (owning k) (kept f)"
  by (rule moves_mono [OF phased_kernel_drop [where R = "\<lambda>r. r = Inl (Fail e)"]]) (auto intro: moves_fail)

lemma phased_bindE:
  assumes "phased m q (kept f)" "\<And>a. phased (n a) (f a) (kept g)"
  shows "phased (bindE m n) q (kept g)"
  by (rule moves_bindE [OF assms(1)]) (auto simp: kept_def assms(2) split: fault.splits)

lemma phased_failing: "steady None m \<Longrightarrow> phased (failing m) (Running None) (kept (\<lambda>_. Running None))"
  unfolding failing_def by (erule moves_then) (rule moves_ret, simp add: kept_def map_err_def split: sum.split)

lemma phased_lift: "phased (lift (map_err Fail r)) (Running None) (kept (\<lambda>_. Running None))"
  unfolding lift_def by (rule moves_ret) (simp add: kept_def map_err_def split: sum.split)

lemma phased_load_at: "phased (load_at fw mc ram plan source start base extra) (Running None) (kept owning)"
proof -
  have alloc: "phased (allocate_pages fw at mt n) (Running None)
      (\<lambda>r q. q = (case r of Inl _ \<Rightarrow> Running None | Inr p \<Rightarrow> Running (Some (p, n))))" for at mt n
    unfolding allocate_pages_def by (rule moves_call) (simp add: phase_step_def split: sum.split)
  show ?thesis
    unfolding load_at_def case_prod_beta
    by (rule phased_bindE [OF phased_lift], rule moves_bindS [OF alloc])
      (auto simp: Let_def intro!: moves_fail moves_ok phased_discard [where k = "\<lparr>lk_allocation = a, lk_pages = n,
         lk_image_size = i, lk_arena_size = b, lk_entry_offset = e, lk_memory = []\<rparr>" for a n i b e, simplified]
         split: sum.splits fault.splits)
qed

lemma phased_place_kernel: "phased (place_kernel fw kd source) (Running None) (kept owning)"
  unfolding place_kernel_def
  by (rule phased_bindE [OF phased_failing [OF steady_parse_source]], rule phased_bindE [OF phased_lift],
      rule phased_bindE [OF phased_load_at]) (auto intro!: moves_then [OF steady_report] moves_ok)

lemma phased_on_error:
  assumes "steady (Some (lk_allocation k, lk_pages k)) m"
  shows "phased (on_error (failing m) (kernel_drop fw k)) (owning k) (kept (\<lambda>_. owning k))"
proof -
  have eq: "on_error (failing m) (kernel_drop fw k) = bindS m (\<lambda>r. case r of
      Inl e \<Rightarrow> with_drop (fail (Fail e)) (kernel_drop fw k) | Inr a \<Rightarrow> ok a)"
    by (rule ext) (auto simp: on_error_def failing_def op_simps split: prod.split sum.split)
  show ?thesis
    unfolding eq by (rule moves_then [OF assms]) (auto intro!: phased_discard moves_ok split: sum.split)
qed

lemma phased_run_probe: "phased (run_probe fw pd k arguments) (owning k) (kept (\<lambda>_. Exited))"
  unfolding run_probe_def case_prod_beta
proof (rule phased_bindE [OF phased_on_error])
  show "steady (Some (lk_allocation k, lk_pages k)) (bindE (lift (stage_probe pd k arguments))
      (\<lambda>p. bindE (preview_map fw pd (fst p) (fst (snd p)) (fst (snd (snd p))) (utf8 arguments))
         (\<lambda>_. ok (fst p, fst (snd p), fst (snd (snd p)), snd (snd (snd p))))))"
    by (intro rests_bindE steady_ret steady_preview_map)
next
  fix p :: "loaded_kernel \<times> nat \<times> nat \<times> nat"
  have "phased (exit_boot_services pd) (owning k) (\<lambda>_ q. q = Exited)"
    unfolding exit_boot_services_def by (rule moves_call) (simp add: phase_step_def)
  then show "phased (bindS (report fw ''NXKERNEL: EXIT_BOOT_SERVICES'' []) (\<lambda>_. bindS (exit_boot_services pd)
      (\<lambda>map. ok (after_exit pd (fst p) (fst (snd p)) (fst (snd (snd p))) (snd (snd (snd p))) (utf8 arguments) map))))
    (owning k) (kept (\<lambda>_. Exited))"
    by (intro moves_then [OF steady_report] moves_bindS moves_ok) simp_all
qed

lemma phased_prepare_probe: "phased (prepare_probe fw io kd pd) (Running None) (kept (\<lambda>_. Exited))"
  unfolding prepare_probe_def case_prod_beta
  by (rule phased_bindE [OF phased_failing [OF steady_read_target]], rule phased_bindE [OF phased_place_kernel])
    (auto simp: fails_def intro!: phased_discard moves_then [OF steady_report] phased_run_probe)

subsection \<open>Properties\<close>

text \<open>Property C24: the probe leaves boot services at most once, owning the pages of the placed kernel, and
  calls no firmware afterwards; whatever fails before that, the pages are freed exactly once before
  it returns its error.\<close>

theorem boot_services_end_once:
  "moves phase_step (prepare_probe fw io kd pd) (Running None) (\<lambda>r q. case r of
     Inr handoff \<Rightarrow> q = Exited | Inl (Fail e) \<Rightarrow> q = Running None | Inl Panic \<Rightarrow> True)"
  by (rule phased_prepare_probe [unfolded kept_def])

lemma arena_write_lk [simp]:
  "lk_allocation (arena_write k off xs) = lk_allocation k" "lk_image_size (arena_write k off xs) = lk_image_size k"
  "lk_arena_size (arena_write k off xs) = lk_arena_size k"
  "lk_memory (arena_write k off xs) = overwrite (lk_image_size k + off) xs (lk_memory k)"
  by (simp_all add: arena_write_def)

lemmas probe_layout = DT_def MAP_def MAP_CAP_def TRAMPOLINE_def STACK_TOP_def

lemma copy_into_Inr:
  "copy_into (pd_code_start pd) (pd_code_end pd) (pd_code_bytes pd) room = Inr code
    \<longleftrightarrow> code = pd_code pd \<and> code \<noteq> [] \<and> length code \<le> room \<and> length code \<le> 4096"
  by (auto simp: copy_into_def and_then_Inr ok_or_Inr checked_sub_def pd_code_def split: if_splits)

lemma stage_probe_Inr:
  assumes "stage_probe pd k arguments = Inr (k', dt_size, table, entry)"
  obtains dt where "pd_encode pd (boot_tree arguments) = Some dt" "pd_validate pd dt" "length dt \<le> 8192"
    "147456 \<le> lk_arena_size k" "length (pd_code pd) \<le> 4096" "pd_code pd \<noteq> []"
    "k' = arena_write (arena_write k DT dt) TRAMPOLINE (pd_code pd)" "dt_size = length dt"
    "entry = physical_entry k" "entry < 2 ^ 32"
  using assms
  by (auto simp: stage_probe_def and_then_Inr copy_into_Inr probe_layout split: if_splits option.splits)

definition arena_part :: "nat \<Rightarrow> nat \<Rightarrow> loaded_kernel \<Rightarrow> u8 list" where
  "arena_part off n k = subrange (lk_image_size k + off) (lk_image_size k + off + n) (lk_memory k)"

lemma arena_part_same:
  "lk_image_size k + off + length xs \<le> length (lk_memory k) \<Longrightarrow> arena_part off (length xs) (arena_write k off xs) = xs"
  by (simp add: arena_part_def subrange_overwrite_same)

lemma arena_part_other:
  "lk_image_size k + off + length xs \<le> length (lk_memory k) \<Longrightarrow> lk_image_size k + a + n \<le> length (lk_memory k) \<Longrightarrow>
   a + n \<le> off \<or> off + length xs \<le> a \<Longrightarrow> arena_part a n (arena_write k off xs) = arena_part a n k"
  unfolding arena_part_def arena_write_lk by (rule subrange_overwrite_other) auto

lemma image_kept:
  "lk_image_size k + off + length xs \<le> length (lk_memory k) \<Longrightarrow>
   take (lk_image_size k) (lk_memory (arena_write k off xs)) = take (lk_image_size k) (lk_memory k)"
  by (simp add: overwrite_def)

text \<open>Property C25: what the kernel finds after the transition. The boot arguments, the device tree, the
  firmware's memory map and the transition code stand whole in the arena, none over another, the
  image is untouched, and the entry point, the trampoline, the argument pointer and the stack top name them.\<close>

theorem handoff_regions_are_intact:
  assumes staged: "stage_probe pd k arguments = Inr (k', dt_size, table, entry)"
    and entered: "after_exit pd k' dt_size table entry line (meta, ds, buffer) = Enter tramp target args stack_top k''"
    and mem: "length (lk_memory k) = lk_image_size k + lk_arena_size k"
    and page: "\<And>a bs. pd_boot_args pd a = Some bs \<Longrightarrow> length bs = 4096"
  shows "\<exists>dt ram. pd_encode pd (boot_tree arguments) = Some dt \<and> physical_ram ds = Some ram
    \<and> arena_part DT (length dt) k'' = dt
    \<and> pd_boot_args pd (arguments_input k (length dt) table line meta ram) = Some (arena_part 0 4096 k'')
    \<and> arena_part MAP (map_size meta) k'' = take (map_size meta) buffer
    \<and> arena_part TRAMPOLINE (length (pd_code pd)) k'' = pd_code pd
    \<and> take (lk_image_size k) (lk_memory k'') = take (lk_image_size k) (lk_memory k)
    \<and> target = physical_entry k \<and> tramp = lk_allocation k + lk_image_size k + TRAMPOLINE
    \<and> args = (lk_allocation k + lk_image_size k) mod 2 ^ 32
    \<and> stack_top = (lk_allocation k + lk_image_size k + STACK_TOP) mod 2 ^ 32"
proof -
  from staged obtain dt where dt: "pd_encode pd (boot_tree arguments) = Some dt" "length dt \<le> 8192"
      "147456 \<le> lk_arena_size k" "length (pd_code pd) \<le> 4096" "dt_size = length dt" "entry = physical_entry k"
    and k': "k' = arena_write (arena_write k DT dt) TRAMPOLINE (pd_code pd)" by (rule stage_probe_Inr) blast
  have same: "arguments_input k' = arguments_input k"
    by (rule ext)+ (simp add: k' arguments_input_def)
  from entered obtain ram encoded where r: "physical_ram ds = Some ram"
      "pd_boot_args pd (arguments_input k (length dt) table line meta ram) = Some encoded"
    and m: "map_size meta \<le> MAP_CAP" "map_size meta \<le> length buffer"
    and e: "k'' = arena_write (arena_write k' 0 encoded) MAP (take (map_size meta) buffer)"
      "target = entry" "tramp = lk_allocation k' + lk_image_size k' + TRAMPOLINE"
      "args = (lk_allocation k' + lk_image_size k') mod 2 ^ 32"
      "stack_top = (lk_allocation k' + lk_image_size k' + STACK_TOP) mod 2 ^ 32"
    by (auto simp: after_exit_def Let_def same dt split: if_splits option.splits)
  have len: "length encoded = 4096" by (rule page [OF r(2)])
  have lk': "lk_image_size k' = lk_image_size k" "lk_allocation k' = lk_allocation k" "length (lk_memory k') = length (lk_memory k)"
    using dt mem by (simp_all add: k' probe_layout)
  note bounds = dt len m(2) m(1) [unfolded probe_layout] mem lk' probe_layout
  have "arena_part MAP (map_size meta) k'' = take (map_size meta) buffer"
    using arena_part_same [of "arena_write k' 0 encoded" MAP "take (map_size meta) buffer"] bounds by (simp add: e)
  moreover have "arena_part 0 4096 k'' = encoded"
    using arena_part_same [of k' 0 encoded] bounds by (simp add: e arena_part_other)
  moreover have "arena_part TRAMPOLINE (length (pd_code pd)) k'' = pd_code pd"
    using arena_part_same [of "arena_write k DT dt" TRAMPOLINE "pd_code pd"] bounds
    by (simp add: e arena_part_other) (simp add: k')
  moreover have "arena_part DT (length dt) k'' = dt"
    using arena_part_same [of k DT dt] bounds by (simp add: e arena_part_other) (simp add: k' arena_part_other)
  moreover have "take (lk_image_size k) (lk_memory k'') = take (lk_image_size k) (lk_memory k)"
    using image_kept [of "arena_write k' 0 encoded" MAP "take (map_size meta) buffer"] image_kept [of k' 0 encoded]
      image_kept [of "arena_write k DT dt" TRAMPOLINE "pd_code pd"] image_kept [of k DT dt] bounds
    by (simp add: e k')
  ultimately show ?thesis using dt r e lk' by simp
qed

definition example_meta :: map_meta where
  "example_meta = \<lparr>desc_version = 1, desc_size = 48, map_size = 3\<rparr>"

definition example_probe :: "unit probe_deps" where
  "example_probe = \<lparr>pd_encode = (\<lambda>_. Some [1, 2]), pd_validate = (\<lambda>_. True), pd_boot_args = (\<lambda>_. Some (replicate 4096 7)),
     pd_system_table = Some 0x5000, pd_cr0 = 0x80000001, pd_cr4 = 0, pd_cs = 8, pd_code_start = 0x7000, pd_code_end = 0x7002,
     pd_code_bytes = (\<lambda>a. if a = 0x7000 then 0xfa else 0xfc),
     pd_exit = (\<lambda>w. ((example_meta, [], [4, 5, 6, 0]), w))\<rparr>"

definition example_kernel :: loaded_kernel where
  "example_kernel = \<lparr>lk_allocation = 0x200000, lk_pages = 65, lk_image_size = 4096, lk_arena_size = 262144, lk_entry_offset = 16,
     lk_memory = replicate 266240 9\<rparr>"

definition example_staged :: loaded_kernel where
  "example_staged = arena_write (arena_write example_kernel DT [1, 2]) TRAMPOLINE [0xfa, 0xfc]"

definition example_entered :: loaded_kernel where
  "example_entered = arena_write (arena_write example_staged 0 (replicate 4096 7)) MAP [4, 5, 6]"

theorem handoff_regions_are_intact_witness:
  "arena_part DT 2 example_entered = [1, 2] \<and> arena_part MAP 3 example_entered = [4, 5, 6]
    \<and> arena_part TRAMPOLINE 2 example_entered = [0xfa, 0xfc]"
proof -
  have code: "pd_code example_probe = [0xfa, 0xfc]"
    by (simp add: pd_code_def example_probe_def upt_rec)
  have "\<exists>dt ram. pd_encode example_probe (boot_tree []) = Some dt \<and> physical_ram [] = Some ram
    \<and> arena_part DT (length dt) example_entered = dt
    \<and> pd_boot_args example_probe (arguments_input example_kernel (length dt) 0x5000 [] example_meta ram)
        = Some (arena_part 0 4096 example_entered)
    \<and> arena_part MAP (map_size example_meta) example_entered
        = take (map_size example_meta) [4, 5, 6, 0]
    \<and> arena_part TRAMPOLINE (length (pd_code example_probe)) example_entered = pd_code example_probe
    \<and> take (lk_image_size example_kernel) (lk_memory example_entered) = take (lk_image_size example_kernel) (lk_memory example_kernel)
    \<and> (0x200010 :: nat) = physical_entry example_kernel
    \<and> (0x214000 :: nat) = lk_allocation example_kernel + lk_image_size example_kernel + TRAMPOLINE
    \<and> (0x201000 :: nat) = (lk_allocation example_kernel + lk_image_size example_kernel) mod 2 ^ 32
    \<and> (0x225000 :: nat) = (lk_allocation example_kernel + lk_image_size example_kernel + STACK_TOP) mod 2 ^ 32"
  proof (rule handoff_regions_are_intact [of example_probe example_kernel "[]" example_staged 2 "0x5000" "0x200010" "[]"])
    show "stage_probe example_probe example_kernel [] = Inr (example_staged, 2, 0x5000, 0x200010)"
      by (simp add: stage_probe_def transition_preflight_def copy_into_def checked_sub_def upt_rec ok_or_def and_then_def example_probe_def example_staged_def
          example_kernel_def physical_entry_def wrapping_add_def probe_layout)
    show "after_exit example_probe example_staged 2 0x5000 0x200010 []
        (example_meta, [], [4, 5, 6, 0])
      = Enter 0x214000 0x200010 0x201000 0x225000 example_entered"
      by (simp add: after_exit_def physical_ram_def example_probe_def example_entered_def example_meta_def Let_def)
        (simp add: example_staged_def example_kernel_def probe_layout)
  qed (simp_all add: example_kernel_def example_probe_def)
  then show ?thesis unfolding code by (simp add: example_probe_def example_meta_def numeral_2_eq_2)
qed

end
