(* ===== verification/Page_Tables.thy ===== *)
theory Page_Tables
  imports UEFI
begin

text \<open>
  The stage 1 translation tables that the processor probes build in an owned buffer: \<open>Tables\<close> of
  src/src/asid\_probe.rs, dt\_probe.rs, mmu\_probe.rs and dynamic\_probe.rs (the same code, with
  \<open>TABLE_PA\<close> as the parameter \<open>pa\<close>), and the variant of src/src/hierarchy\_probe.rs with
  hierarchical permissions. The buffer holds tables of one granule each; the first two are the
  roots of the lower and the upper address range. The builder is shown to refine a map from pages
  to leaf descriptors, as the translation walk of the architecture reads it.
\<close>

record tables =
  tb_bytes :: "u8 list"
  tb_granule :: nat
  tb_next :: nat

definition tb_read :: "tables \<Rightarrow> nat \<Rightarrow> nat" where
  "tb_read t offset = le_nat (subrange offset (offset + 8) (tb_bytes t))"

definition tb_write :: "tables \<Rightarrow> nat \<Rightarrow> nat \<Rightarrow> tables" where
  "tb_write t offset v = t\<lparr>tb_bytes := overwrite offset (le_bytes 8 v) (tb_bytes t)\<rparr>"

definition page_bits :: "nat \<Rightarrow> nat" where "page_bits granule = (if granule = 16384 then 14 else 12)"
definition index_bits :: "nat \<Rightarrow> nat" where "index_bits granule = (if granule = 16384 then 11 else 9)"
definition start_level :: "nat \<Rightarrow> nat" where "start_level granule = (if granule = 16384 then 1 else 0)"

definition level_index :: "nat \<Rightarrow> nat \<Rightarrow> nat \<Rightarrow> nat" where
  "level_index granule va level =
     drop_bit (page_bits granule + index_bits granule * (3 - level)) va AND (2 ^ index_bits granule - 1)"

definition root_table :: "nat \<Rightarrow> nat \<Rightarrow> nat" where
  "root_table granule va = (if drop_bit 63 va = 0 then 0 else granule)"

subsection \<open>The builder\<close>

text \<open>
  \<open>table\<close> is the offset of the current table. The sums are those of the release build, which wrap;
  a slot whose end has wrapped is out of range for the slice and panics.
\<close>

fun map_levels :: "nat \<Rightarrow> nat \<Rightarrow> nat \<Rightarrow> nat list \<Rightarrow> nat \<Rightarrow> tables \<Rightarrow> (status fault + unit) \<times> tables" where
  "map_levels pa va descriptor [] table t = (Inl (Fail COMPROMISED_DATA), t)"
| "map_levels pa va descriptor (level # levels) table t =
     (let offset = wrapping_add table (level_index (tb_granule t) va level * 8) in
      if wrapping_add offset 8 > length (tb_bytes t) then (Inl (Fail BAD_BUFFER_SIZE), t)
      else if offset + 8 > length (tb_bytes t) then (Inl Panic, t)
      else if level = 3 then (Inr (), tb_write t offset descriptor)
      else let previous = tb_read t offset in
        if previous = 0 then
          let fresh = tb_next t * tb_granule t in
          if fresh + tb_granule t > length (tb_bytes t) then (Inl (Fail OUT_OF_RESOURCES), t)
          else map_levels pa va descriptor levels fresh
            (tb_write (t\<lparr>tb_next := tb_next t + 1\<rparr>) offset ((pa + fresh) OR 3))
        else map_levels pa va descriptor levels (wrapping_sub (previous AND 0x0000fffffffff000) pa) t)"

definition map_va :: "nat \<Rightarrow> nat \<Rightarrow> nat \<Rightarrow> tables \<Rightarrow> (status fault + unit) \<times> tables" where
  "map_va pa va descriptor t =
     map_levels pa va descriptor [start_level (tb_granule t)..<4] (root_table (tb_granule t) va) t"

text \<open>
  The variant with hierarchical permissions: \<open>parent\<close> and \<open>xn\<close> are put into the table descriptors
  of the levels that \<open>choice\<close> selects. The result is the address of the leaf's slot.
\<close>

definition with_bits :: "bool \<Rightarrow> nat \<Rightarrow> nat \<Rightarrow> nat \<Rightarrow> nat" where
  "with_bits here n v descriptor = (if here then descriptor OR take_bit 64 (push_bit n v) else descriptor)"

definition address_mask :: "nat \<Rightarrow> nat" where
  "address_mask granule = (if granule = 4096 then 0x0000fffffffff000 else 0x0000ffffffffc000)"

fun hier_levels :: "nat \<Rightarrow> nat \<Rightarrow> nat \<Rightarrow> (nat \<Rightarrow> nat \<Rightarrow> nat) \<Rightarrow> nat list \<Rightarrow> nat \<Rightarrow> tables
    \<Rightarrow> (status fault + nat) \<times> tables" where
  "hier_levels pa va leaf mark [] table t = (Inl (Fail COMPROMISED_DATA), t)"
| "hier_levels pa va leaf mark (level # levels) table t =
     (let slot = wrapping_add table (level_index (tb_granule t) va level * 8) in
      if wrapping_add slot 8 > length (tb_bytes t) then (Inl (Fail BAD_BUFFER_SIZE), t)
      else if slot + 8 > length (tb_bytes t) then (Inl Panic, t)
      else if level = 3 then (Inr (pa + slot), tb_write t slot leaf)
      else let descriptor = tb_read t slot; fresh = tb_next t * tb_granule t in
        if descriptor = 0 \<and> fresh + tb_granule t > length (tb_bytes t) then (Inl (Fail OUT_OF_RESOURCES), t)
        else let (descriptor, t) = (if descriptor = 0 then ((pa + fresh) OR 3, t\<lparr>tb_next := tb_next t + 1\<rparr>)
                                    else (descriptor, t));
                 descriptor = mark level descriptor
          in hier_levels pa va leaf mark levels (wrapping_sub (descriptor AND address_mask (tb_granule t)) pa)
               (tb_write t slot descriptor))"

definition hier_mark :: "nat \<Rightarrow> nat \<Rightarrow> nat \<Rightarrow> nat \<Rightarrow> nat \<Rightarrow> nat \<Rightarrow> nat" where
  "hier_mark start parent xn choice level descriptor =
     (let ap_level = start + choice mod (3 - start); xn_level = start + (choice + 1) mod (3 - start) in
      with_bits (level = xn_level) 59 xn (with_bits (level = ap_level) 61 parent descriptor))"

definition hier_map :: "nat \<Rightarrow> nat \<Rightarrow> nat \<Rightarrow> nat \<Rightarrow> nat \<Rightarrow> nat \<Rightarrow> tables \<Rightarrow> (status fault + nat) \<times> tables" where
  "hier_map pa va leaf parent xn choice t =
     (let start = start_level (tb_granule t) in
      hier_levels pa va leaf (hier_mark start parent xn choice) [start..<4] (root_table (tb_granule t) va) t)"

subsection \<open>Tables as entries\<close>

text \<open>
  A buffer of tables is seen as a function from the number of a table and an index to the entry.
  \<open>look\<close> is the walk: \<open>n\<close> levels remain below table \<open>k\<close>, \<open>idx n va\<close> selects the entry there and
  \<open>child\<close> is the number of the table that an entry links. An address without a table has no leaf,
  which is the entry 0.
\<close>

fun look :: "(nat \<Rightarrow> nat \<Rightarrow> nat) \<Rightarrow> (nat \<Rightarrow> nat) \<Rightarrow> (nat \<Rightarrow> nat \<Rightarrow> nat) \<Rightarrow> nat \<Rightarrow> nat \<Rightarrow> nat \<Rightarrow> nat" where
  "look idx child ent 0 va k = ent k (idx 0 va)"
| "look idx child ent (Suc n) va k =
     (let e = ent k (idx (Suc n) va) in if e = 0 then 0 else look idx child ent n va (child e))"

fun key :: "(nat \<Rightarrow> nat \<Rightarrow> nat) \<Rightarrow> nat \<Rightarrow> nat \<Rightarrow> nat list" where
  "key idx 0 va = [idx 0 va]"
| "key idx (Suc n) va = idx (Suc n) va # key idx n va"

definition set_entry :: "(nat \<Rightarrow> nat \<Rightarrow> nat) \<Rightarrow> nat \<Rightarrow> nat \<Rightarrow> nat \<Rightarrow> nat \<Rightarrow> nat \<Rightarrow> nat" where
  "set_entry ent k i v = (\<lambda>k' i'. if k' = k \<and> i' = i then v else ent k' i')"

lemma set_entry_apply: "set_entry ent k i v k i = v" "k' \<noteq> k \<or> i' \<noteq> i \<Longrightarrow> set_entry ent k i v k' i' = ent k' i'"
  by (auto simp: set_entry_def)

text \<open>
  The shape of the tables: \<open>pth k\<close> is the root of table \<open>k\<close> and the indices that lead to it. Every
  table below the last allocated one is reached by exactly one path, so no table is shared, and
  the tables that are not allocated yet are empty.
\<close>

definition shaped :: "(nat \<Rightarrow> nat) \<Rightarrow> nat \<Rightarrow> (nat \<Rightarrow> nat \<Rightarrow> nat) \<Rightarrow> nat \<Rightarrow> (nat \<Rightarrow> nat \<times> nat list) \<Rightarrow> bool" where
  "shaped child N ent nxt pth \<longleftrightarrow> 2 \<le> nxt \<and> pth 0 = (0, []) \<and> pth 1 = (1, []) \<and> inj_on pth {..<nxt}
     \<and> (\<forall>k < nxt. length (snd (pth k)) \<le> N)
     \<and> (\<forall>k < nxt. \<forall>i. length (snd (pth k)) < N \<longrightarrow> ent k i \<noteq> 0 \<longrightarrow>
          2 \<le> child (ent k i) \<and> child (ent k i) < nxt \<and> pth (child (ent k i)) = (fst (pth k), snd (pth k) @ [i]))
     \<and> (\<forall>k \<ge> nxt. \<forall>i. ent k i = 0)
     \<and> (\<forall>k < nxt. 2 \<le> k \<longrightarrow> (\<exists>k0 < nxt. \<exists>i. length (snd (pth k0)) < N \<and> ent k0 i \<noteq> 0 \<and> child (ent k0 i) = k))"

lemma shaped_child:
  "shaped child N ent nxt pth \<Longrightarrow> k < nxt \<Longrightarrow> length (snd (pth k)) < N \<Longrightarrow> ent k i \<noteq> 0 \<Longrightarrow>
   2 \<le> child (ent k i) \<and> child (ent k i) < nxt \<and> pth (child (ent k i)) = (fst (pth k), snd (pth k) @ [i])"
  unfolding shaped_def by blast

lemma shaped_inj: "shaped child N ent nxt pth \<Longrightarrow> k < nxt \<Longrightarrow> k' < nxt \<Longrightarrow> pth k = pth k' \<Longrightarrow> k = k'"
  unfolding shaped_def by (meson inj_onD lessThan_iff)

lemma shaped_prefix:
  assumes sh: "shaped child N ent nxt pth" and k': "k' < nxt" "pth k' = (r, xs)"
  shows "k < nxt \<Longrightarrow> pth k = (r, xs @ j # ys) \<Longrightarrow> ent k' j \<noteq> 0"
proof (induction ys arbitrary: k rule: rev_induct)
  case (snoc y ys)
  then have "2 \<le> k" using sh unfolding shaped_def by (cases "k = 0"; cases "k = 1") auto
  with snoc.prems(1) sh obtain k0 i where k0: "k0 < nxt" "length (snd (pth k0)) < N" "ent k0 i \<noteq> 0" "child (ent k0 i) = k"
    unfolding shaped_def by blast
  from shaped_child [OF sh k0(1-3)] k0(4) snoc.prems(2) have "pth k0 = (r, xs @ j # ys)"
    by (cases "pth k0") auto
  with k0(1) show ?case by (rule snoc.IH)
next
  case Nil
  then have "2 \<le> k" using sh unfolding shaped_def by (cases "k = 0"; cases "k = 1") auto
  with Nil.prems(1) sh obtain k0 i where k0: "k0 < nxt" "length (snd (pth k0)) < N" "ent k0 i \<noteq> 0" "child (ent k0 i) = k"
    unfolding shaped_def by blast
  from shaped_child [OF sh k0(1-3)] k0(4) Nil.prems(2) have "pth k0 = (r, xs)" "i = j"
    by (cases "pth k0"; simp)+
  with shaped_inj [OF sh k0(1) k'(1)] k'(2) k0(3) show ?case by simp
qed

lemma look_empty: "(\<And>i. ent k i = 0) \<Longrightarrow> look idx child ent n va k = 0"
  by (cases n) simp_all

text \<open>Writing a leaf changes the walk for its own page only.\<close>

lemma look_leaf:
  assumes sh: "shaped child N ent nxt pth" and k: "k < nxt" "length (snd (pth k)) = N"
  shows "k' < nxt \<Longrightarrow> length (snd (pth k')) + n = N \<Longrightarrow>
    look idx child (set_entry ent k i d) n va k' =
      (if fst (pth k') = fst (pth k) \<and> snd (pth k') @ key idx n va = snd (pth k) @ [i] then d
       else look idx child ent n va k')"
proof (induction n arbitrary: k')
  case 0
  have "k' = k" if "pth k' = pth k" using shaped_inj [OF sh 0(1) k(1)] that by blast
  then show ?case by (cases "k' = k \<and> idx 0 va = i") (auto simp: set_entry_apply prod_eq_iff)
next
  case (Suc n)
  let ?j = "idx (Suc n) va" let ?e = "ent k' ?j"
  from Suc.prems k have ne: "k' \<noteq> k" by auto
  show ?case
  proof (cases "?e = 0")
    case True
    have "\<not> (fst (pth k') = fst (pth k) \<and> snd (pth k') @ key idx (Suc n) va = snd (pth k) @ [i])"
    proof
      assume a: "fst (pth k') = fst (pth k) \<and> snd (pth k') @ key idx (Suc n) va = snd (pth k) @ [i]"
      then have "snd (pth k) = butlast (snd (pth k') @ key idx (Suc n) va)" by simp
      moreover have "key idx n va \<noteq> []" by (cases n) auto
      ultimately have "snd (pth k) = snd (pth k') @ ?j # butlast (key idx n va)" by (simp add: butlast_append)
      with a have "pth k = (fst (pth k'), snd (pth k') @ ?j # butlast (key idx n va))" by (simp add: prod_eq_iff)
      from shaped_prefix [OF sh Suc.prems(1) _ k(1) this] True show False by (simp add: prod_eq_iff)
    qed
    moreover have "look idx child (set_entry ent k i d) (Suc n) va k' = look idx child ent (Suc n) va k'"
      using True ne by (simp add: set_entry_apply Let_def)
    ultimately show ?thesis by (simp only: if_False)
  next
    case False
    from shaped_child [OF sh Suc.prems(1) _ False] Suc.prems(2)
    have c: "child ?e < nxt" "pth (child ?e) = (fst (pth k'), snd (pth k') @ [?j])" by auto
    with Suc.prems(2) have "length (snd (pth (child ?e))) + n = N" by simp
    from Suc.IH [OF c(1) this] c(2) ne False show ?thesis by (simp add: set_entry_apply Let_def)
  qed
qed

text \<open>Changing the permission bits of a link changes no walk.\<close>

lemma look_mark:
  assumes sh: "shaped child N ent nxt pth" and e: "ent k i \<noteq> 0" "v \<noteq> 0" "child v = child (ent k i)"
    and k: "k < nxt" "length (snd (pth k)) < N"
  shows "k' < nxt \<Longrightarrow> length (snd (pth k')) + n = N \<Longrightarrow>
    look idx child (set_entry ent k i v) n va k' = look idx child ent n va k'"
proof (induction n arbitrary: k')
  case 0
  with k have "k' \<noteq> k" by auto
  then show ?case by (simp add: set_entry_apply)
next
  case (Suc n)
  let ?e = "ent k' (idx (Suc n) va)"
  have "look idx child (set_entry ent k i v) n va (child ?e) = look idx child ent n va (child ?e)" if "?e \<noteq> 0"
  proof -
    from shaped_child [OF sh Suc.prems(1) _ that] Suc.prems(2)
    have "child ?e < nxt" "length (snd (pth (child ?e))) + n = N" by auto
    then show ?thesis by (rule Suc.IH)
  qed
  with e show ?case by (cases "k' = k \<and> idx (Suc n) va = i") (auto simp: set_entry_apply Let_def)
qed

text \<open>Linking an empty table changes no walk.\<close>

lemma look_link:
  assumes sh: "shaped child N ent nxt pth" and e: "ent k i = 0" "v \<noteq> 0" "child v = nxt"
    and k: "k < nxt" "length (snd (pth k)) < N"
  shows "k' < nxt \<Longrightarrow> length (snd (pth k')) + n = N \<Longrightarrow>
    look idx child (set_entry ent k i v) n va k' = look idx child ent n va k'"
proof (induction n arbitrary: k')
  case 0
  with k have "k' \<noteq> k" by auto
  then show ?case by (simp add: set_entry_apply)
next
  case (Suc n)
  let ?j = "idx (Suc n) va" let ?e = "ent k' ?j"
  have "look idx child (set_entry ent k i v) n va nxt = 0"
    by (rule look_empty) (use sh k in \<open>auto simp: set_entry_apply shaped_def\<close>)
  moreover have "look idx child (set_entry ent k i v) n va (child ?e) = look idx child ent n va (child ?e)" if "?e \<noteq> 0"
  proof -
    from shaped_child [OF sh Suc.prems(1) _ that] Suc.prems(2)
    have "child ?e < nxt" "length (snd (pth (child ?e))) + n = N" by auto
    then show ?thesis by (rule Suc.IH)
  qed
  ultimately show ?case using e by (cases "k' = k \<and> ?j = i") (auto simp: set_entry_apply Let_def)
qed

lemma shaped_leaf:
  assumes "shaped child N ent nxt pth" "k < nxt" "length (snd (pth k)) = N"
  shows "shaped child N (set_entry ent k i d) nxt pth"
  using assms unfolding shaped_def set_entry_def by (auto, metis less_irrefl)

lemma shaped_mark:
  assumes "shaped child N ent nxt pth" "ent k i \<noteq> 0" "v \<noteq> 0" "child v = child (ent k i)" "k < nxt"
  shows "shaped child N (set_entry ent k i v) nxt pth"
  using assms unfolding shaped_def set_entry_def by (auto, metis+)

lemma shaped_link:
  assumes sh: "shaped child N ent nxt pth" and e: "ent k i = 0" "v \<noteq> 0" "child v = nxt"
    and k: "k < nxt" "length (snd (pth k)) < N"
  shows "shaped child N (set_entry ent k i v) (Suc nxt) (pth(nxt := (fst (pth k), snd (pth k) @ [i])))"
    (is "shaped child N ?ent _ ?pth")
proof -
  have fresh: "pth j \<noteq> (fst (pth k), snd (pth k) @ [i])" if "j < nxt" for j
    using shaped_prefix [OF sh k(1) _ that, of "fst (pth k)" "snd (pth k)" i "[]"] e(1) by auto
  have inj: "inj_on ?pth {..<Suc nxt}"
  proof (rule inj_onI)
    fix x y assume "x \<in> {..<Suc nxt}" "y \<in> {..<Suc nxt}" "?pth x = ?pth y"
    then show "x = y" using fresh [of x] fresh [of y] shaped_inj [OF sh, of x y]
      by (cases "x = nxt"; cases "y = nxt") (auto simp: less_Suc_eq)
  qed
  have parent: "\<exists>k0 < Suc nxt. \<exists>i. length (snd (?pth k0)) < N \<and> ?ent k0 i \<noteq> 0 \<and> child (?ent k0 i) = c"
    if c: "c < Suc nxt" "2 \<le> c" for c
  proof (cases "c = nxt")
    case True
    then show ?thesis using e k by (intro exI [of _ k]) (auto simp: set_entry_def)
  next
    case False
    with c sh obtain k0 j where "k0 < nxt" "length (snd (pth k0)) < N" "ent k0 j \<noteq> 0" "child (ent k0 j) = c"
      unfolding shaped_def by (metis less_Suc_eq)
    with e(1) show ?thesis by (intro exI [of _ k0] conjI exI [of _ j]) (auto simp: set_entry_def)
  qed
  have links: "2 \<le> child (?ent j l) \<and> child (?ent j l) < Suc nxt \<and> ?pth (child (?ent j l)) = (fst (?pth j), snd (?pth j) @ [l])"
    if "j < Suc nxt" "length (snd (?pth j)) < N" "?ent j l \<noteq> 0" for j l
  proof (cases "j = k \<and> l = i")
    case True
    then show ?thesis using sh e k by (auto simp: set_entry_def shaped_def)
  next
    case False
    with that sh have "j < nxt" unfolding shaped_def set_entry_def by (metis less_Suc_eq order_refl)
    with False that shaped_child [OF sh this, of l] show ?thesis by (auto simp: set_entry_def)
  qed
  from sh k have "2 \<le> nxt" "pth 0 = (0, [])" "pth 1 = (1, [])" "\<forall>k < nxt. length (snd (pth k)) \<le> N"
    "\<forall>k \<ge> nxt. \<forall>i. ent k i = 0"
    unfolding shaped_def by blast+
  with inj parent links k show ?thesis
    unfolding shaped_def by (auto simp: set_entry_def less_Suc_eq)
qed

subsection \<open>Both builders are one\<close>

text \<open>The common step: \<open>sel\<close> extracts the address of a link, \<open>mark\<close> adds its permission bits.\<close>

fun build_levels :: "nat \<Rightarrow> nat \<Rightarrow> nat \<Rightarrow> nat \<Rightarrow> (nat \<Rightarrow> nat \<Rightarrow> nat) \<Rightarrow> nat list \<Rightarrow> nat \<Rightarrow> tables
    \<Rightarrow> (status fault + nat) \<times> tables" where
  "build_levels sel pa va leaf mark [] table t = (Inl (Fail COMPROMISED_DATA), t)"
| "build_levels sel pa va leaf mark (level # levels) table t =
     (let slot = wrapping_add table (level_index (tb_granule t) va level * 8) in
      if wrapping_add slot 8 > length (tb_bytes t) then (Inl (Fail BAD_BUFFER_SIZE), t)
      else if slot + 8 > length (tb_bytes t) then (Inl Panic, t)
      else if level = 3 then (Inr (pa + slot), tb_write t slot leaf)
      else let descriptor = tb_read t slot; fresh = tb_next t * tb_granule t in
        if descriptor = 0 \<and> fresh + tb_granule t > length (tb_bytes t) then (Inl (Fail OUT_OF_RESOURCES), t)
        else if descriptor = 0 then
          build_levels sel pa va leaf mark levels (wrapping_sub (mark level ((pa + fresh) OR 3) AND sel) pa)
            (tb_write (t\<lparr>tb_next := tb_next t + 1\<rparr>) slot (mark level ((pa + fresh) OR 3)))
        else build_levels sel pa va leaf mark levels (wrapping_sub (mark level descriptor AND sel) pa)
            (tb_write t slot (mark level descriptor)))"

lemma tb_write_simps [simp]:
  "tb_granule (tb_write t off v) = tb_granule t" "tb_next (tb_write t off v) = tb_next t"
  "off + 8 \<le> length (tb_bytes t) \<Longrightarrow> length (tb_bytes (tb_write t off v)) = length (tb_bytes t)"
  by (simp_all add: tb_write_def)

lemma tb_write_read: "off + 8 \<le> length (tb_bytes t) \<Longrightarrow> tb_write t off (tb_read t off) = t"
proof -
  assume "off + 8 \<le> length (tb_bytes t)"
  then have len: "length (subrange off (off + 8) (tb_bytes t)) = 8" by (simp add: length_subrange)
  with le_bytes_le_nat [of "subrange off (off + 8) (tb_bytes t)"]
  have w: "le_bytes 8 (tb_read t off) = subrange off (off + 8) (tb_bytes t)" by (simp add: tb_read_def)
  have "take off (tb_bytes t) @ subrange off (off + 8) (tb_bytes t) @ drop (off + 8) (tb_bytes t) = tb_bytes t"
    by (simp add: subrange_append_drop)
  with w len show ?thesis by (simp add: tb_write_def overwrite_def)
qed

lemma hier_levels_build:
  "hier_levels pa va leaf mark levels table t = build_levels (address_mask (tb_granule t)) pa va leaf mark levels table t"
proof (induction levels arbitrary: table t)
  case (Cons level levels)
  then show ?case by (simp add: Let_def)
qed simp

lemma page_address: "x AND 0x0000fffffffff000 = x div 4096 mod 2 ^ 36 * 4096" for x :: nat
proof -
  have m: "(0x0000fffffffff000 :: nat) = push_bit 12 (mask 36)" by (simp add: mask_eq_exp_minus_1 push_bit_eq_mult)
  have "x AND push_bit 12 (mask 36) = push_bit 12 (take_bit 36 (drop_bit 12 x))"
    by (rule bit_eqI) (auto simp: bit_simps)
  also have "\<dots> = x div 2 ^ 12 mod 2 ^ 36 * 2 ^ 12" by (simp only: push_bit_eq_mult take_bit_eq_mod drop_bit_eq_div)
  finally show ?thesis unfolding m by simp
qed

lemma granule_address: "x AND 0x0000ffffffffc000 = x div 16384 mod 2 ^ 34 * 16384" for x :: nat
proof -
  have m: "(0x0000ffffffffc000 :: nat) = push_bit 14 (mask 34)" by (simp add: mask_eq_exp_minus_1 push_bit_eq_mult)
  have "x AND push_bit 14 (mask 34) = push_bit 14 (take_bit 34 (drop_bit 14 x))"
    by (rule bit_eqI) (auto simp: bit_simps)
  also have "\<dots> = x div 2 ^ 14 mod 2 ^ 34 * 2 ^ 14" by (simp only: push_bit_eq_mult take_bit_eq_mod drop_bit_eq_div)
  finally show ?thesis unfolding m by simp
qed

lemma or_3: "x mod 4 = 0 \<Longrightarrow> x OR 3 = x + 3" for x :: nat
proof -
  assume x: "x mod 4 = 0"
  have "(3 :: nat) = mask 2" by (simp add: mask_eq_exp_minus_1)
  then have "x AND 3 = take_bit 2 x" by (simp add: take_bit_eq_mask)
  with x have "x AND 3 = 0" by (simp add: take_bit_eq_mod)
  then show ?thesis by (simp add: disjunctive_add_eq_or)
qed

subsection \<open>The invariant of the buffer\<close>

definition entry :: "tables \<Rightarrow> nat \<Rightarrow> nat \<Rightarrow> nat" where
  "entry t k i = (if i < tb_granule t div 8 \<and> (k + 1) * tb_granule t \<le> length (tb_bytes t)
     then tb_read t (k * tb_granule t + i * 8) else 0)"

definition child :: "nat \<Rightarrow> nat \<Rightarrow> nat \<Rightarrow> nat \<Rightarrow> nat" where
  "child sel pa g e = ((e AND sel) - pa) div g"

definition idx :: "nat \<Rightarrow> nat \<Rightarrow> nat \<Rightarrow> nat" where
  "idx g n va = level_index g va (3 - n)"

definition depth :: "nat \<Rightarrow> nat" where
  "depth g = 3 - start_level g"

definition tables_ok :: "nat \<Rightarrow> nat \<Rightarrow> tables \<Rightarrow> (nat \<Rightarrow> nat \<times> nat list) \<Rightarrow> bool" where
  "tables_ok sel pa t pth \<longleftrightarrow> (let g = tb_granule t in g \<in> {4096, 16384} \<and> pa mod g = 0
     \<and> pa + length (tb_bytes t) \<le> 2 ^ 48 \<and> tb_next t * g \<le> length (tb_bytes t)
     \<and> shaped (child sel pa g) (depth g) (entry t) (tb_next t) pth
     \<and> (\<forall>k < tb_next t. \<forall>i. length (snd (pth k)) < depth g \<longrightarrow> entry t k i \<noteq> 0 \<longrightarrow>
          entry t k i AND sel = pa + child sel pa g (entry t k i) * g))"

text \<open>What the builder's parameters have to satisfy.\<close>

definition selects :: "nat \<Rightarrow> nat \<Rightarrow> bool" where
  "selects sel g \<longleftrightarrow> (\<forall>a. a mod g = 0 \<longrightarrow> a < 2 ^ 48 \<longrightarrow> (a + 3) AND sel = a)"

definition marks :: "nat \<Rightarrow> (nat \<Rightarrow> nat \<Rightarrow> nat) \<Rightarrow> bool" where
  "marks sel mark \<longleftrightarrow> (\<forall>level e. e \<noteq> 0 \<longrightarrow> e < 2 ^ 64 \<longrightarrow>
     mark level e \<noteq> 0 \<and> mark level e < 2 ^ 64 \<and> mark level e AND sel = e AND sel)"

lemma index_less: "g \<in> {4096, 16384} \<Longrightarrow> level_index g va level < g div 8"
proof -
  have "x AND (2 ^ n - 1) < 2 ^ n" for x n :: nat
    by (metis mask_eq_exp_minus_1 take_bit_eq_mask take_bit_nat_less_exp)
  then show "g \<in> {4096, 16384} \<Longrightarrow> level_index g va level < g div 8"
    using \<open>\<And>x n. x AND (2 ^ n - 1) < 2 ^ n\<close> [of _ 9] \<open>\<And>x n. x AND (2 ^ n - 1) < 2 ^ n\<close> [of _ 11]
    by (auto simp: level_index_def index_bits_def)
qed

lemma entry_write:
  assumes i: "i < tb_granule t div 8" and k: "(k + 1) * tb_granule t \<le> length (tb_bytes t)" and v: "v < 2 ^ 64"
  shows "entry (tb_write t (k * tb_granule t + i * 8) v) = set_entry (entry t) k i v"
proof (intro ext)
  fix k' i'
  let ?g = "tb_granule t"
  have room: "a * ?g + b * 8 + 8 \<le> (a + 1) * ?g" if "b < ?g div 8" for a b
  proof -
    have "8 * (b + 1) \<le> 8 * (?g div 8)" using that by (intro mult_le_mono2) simp
    moreover have "8 * (?g div 8) \<le> ?g" by (rule times_div_less_eq_dividend)
    ultimately show ?thesis by simp
  qed
  from room [OF i, of k] k have at: "k * ?g + i * 8 + 8 \<le> length (tb_bytes t)" by linarith
  show "entry (tb_write t (k * ?g + i * 8) v) k' i' = set_entry (entry t) k i v k' i'"
  proof (cases "k' = k \<and> i' = i")
    case True
    with at i k v subrange_overwrite_same [of "k * ?g + i * 8" "le_bytes 8 v" "tb_bytes t"] show ?thesis
      by (simp add: entry_def set_entry_apply tb_read_def tb_write_def le_simps)
  next
    case False
    have "tb_read (tb_write t (k * ?g + i * 8) v) (k' * ?g + i' * 8) = tb_read t (k' * ?g + i' * 8)"
      if i': "i' < ?g div 8" and k': "(k' + 1) * ?g \<le> length (tb_bytes t)"
    proof -
      have "k' * ?g + i' * 8 + 8 \<le> k * ?g + i * 8 \<or> k * ?g + i * 8 + 8 \<le> k' * ?g + i' * 8"
      proof (cases k k' rule: linorder_cases)
        case less
        then have "(k + 1) * ?g \<le> k' * ?g" by (intro mult_le_mono1) simp
        with room [OF i, of k] show ?thesis by linarith
      next
        case equal
        with False show ?thesis by auto
      next
        case greater
        then have "(k' + 1) * ?g \<le> k * ?g" by (intro mult_le_mono1) simp
        with room [OF i', of k'] show ?thesis by linarith
      qed
      moreover have "k' * ?g + i' * 8 + 8 \<le> length (tb_bytes t)" using room [OF i', of k'] k' by linarith
      ultimately show ?thesis using at
        by (simp add: tb_read_def tb_write_def subrange_overwrite_other)
    qed
    with False at show ?thesis by (simp add: entry_def set_entry_apply)
  qed
qed

abbreviation walk :: "nat \<Rightarrow> nat \<Rightarrow> tables \<Rightarrow> nat \<Rightarrow> nat \<Rightarrow> nat \<Rightarrow> nat" where
  "walk sel pa t n va k \<equiv> look (idx (tb_granule t)) (child sel pa (tb_granule t)) (entry t) n va k"

text \<open>What a run of the builder from table \<open>k\<close>, with \<open>n\<close> levels below it, does to the walks.\<close>

definition built :: "nat \<Rightarrow> nat \<Rightarrow> nat \<Rightarrow> nat \<Rightarrow> nat \<Rightarrow> nat \<Rightarrow> tables \<Rightarrow> (nat \<Rightarrow> nat \<times> nat list) \<Rightarrow>
    (status fault + 'a) \<times> tables \<Rightarrow> bool" where
  "built sel pa va d k n t pth = (\<lambda>(r, t'). let g = tb_granule t in
     (\<exists>pth'. tables_ok sel pa t' pth' \<and> (\<forall>j < tb_next t. pth' j = pth j))
     \<and> tb_granule t' = g \<and> length (tb_bytes t') = length (tb_bytes t)
     \<and> tb_next t \<le> tb_next t' \<and> tb_next t' \<le> tb_next t + n
     \<and> (\<forall>j < tb_next t. \<forall>m va'. length (snd (pth j)) + m = depth g \<longrightarrow>
          walk sel pa t' m va' j = (if is_ok r \<and> fst (pth j) = fst (pth k)
              \<and> snd (pth j) @ key (idx g) m va' = snd (pth k) @ key (idx g) n va
            then d else walk sel pa t m va' j))
     \<and> (\<forall>e. r = Inl e \<longrightarrow> e = Fail OUT_OF_RESOURCES \<and> length (tb_bytes t) < (tb_next t + n) * g))"

lemma tables_okD:
  assumes "tables_ok sel pa t pth"
  shows "tb_granule t \<in> {4096, 16384}" "pa mod tb_granule t = 0" "pa + length (tb_bytes t) \<le> 2 ^ 48"
    "tb_next t * tb_granule t \<le> length (tb_bytes t)"
    "shaped (child sel pa (tb_granule t)) (depth (tb_granule t)) (entry t) (tb_next t) pth"
  using assms by (simp_all add: tables_ok_def Let_def)

lemma slot_in_range:
  assumes ok: "tables_ok sel pa t pth" and k: "k < tb_next t"
  shows "(k + 1) * tb_granule t \<le> length (tb_bytes t)"
    and "k * tb_granule t + level_index (tb_granule t) va level * 8 + 8 \<le> length (tb_bytes t)"
    and "wrapping_add (k * tb_granule t) (level_index (tb_granule t) va level * 8)
      = k * tb_granule t + level_index (tb_granule t) va level * 8"
    and "tb_read t (k * tb_granule t + level_index (tb_granule t) va level * 8) = entry t k (level_index (tb_granule t) va level)"
proof -
  let ?g = "tb_granule t" let ?i = "level_index ?g va level"
  note D = tables_okD [OF ok]
  have "(k + 1) * ?g \<le> tb_next t * ?g" using k by (intro mult_le_mono1) simp
  with D(4) show room: "(k + 1) * ?g \<le> length (tb_bytes t)" by linarith
  from index_less [OF D(1)] have i: "?i < ?g div 8" .
  then have "8 * (?i + 1) \<le> 8 * (?g div 8)" by (intro mult_le_mono2) simp
  moreover have "8 * (?g div 8) \<le> ?g" by (rule times_div_less_eq_dividend)
  ultimately have "k * ?g + ?i * 8 + 8 \<le> (k + 1) * ?g" by simp
  with room show slot: "k * ?g + ?i * 8 + 8 \<le> length (tb_bytes t)" by linarith
  with D(3) show "wrapping_add (k * ?g) (?i * 8) = k * ?g + ?i * 8" by simp
  show "tb_read t (k * ?g + ?i * 8) = entry t k ?i" using i room by (simp add: entry_def)
qed

lemma build_levels_unfold:
  assumes ok: "tables_ok sel pa t pth" and k: "k < tb_next t" and n: "Suc n \<le> 3"
  shows "build_levels sel pa va leaf mark [3 - Suc n..<4] (k * tb_granule t) t =
    (let i = idx (tb_granule t) (Suc n) va; level = 3 - Suc n; slot = k * tb_granule t + i * 8;
         e = entry t k i; fresh = tb_next t * tb_granule t in
     if e = 0 \<and> fresh + tb_granule t > length (tb_bytes t) then (Inl (Fail OUT_OF_RESOURCES), t)
     else if e = 0 then
       build_levels sel pa va leaf mark [3 - n..<4] (wrapping_sub (mark level ((pa + fresh) OR 3) AND sel) pa)
         (tb_write (t\<lparr>tb_next := tb_next t + 1\<rparr>) slot (mark level ((pa + fresh) OR 3)))
     else build_levels sel pa va leaf mark [3 - n..<4] (wrapping_sub (mark level e AND sel) pa) (tb_write t slot (mark level e)))"
proof -
  have "Suc (3 - Suc n) = 3 - n" using n by simp
  then have list: "[3 - Suc n..<4] = (3 - Suc n) # [3 - n..<4]"
    by (subst upt_conv_Cons) simp_all
  note S = slot_in_range(2-4) [OF ok k, where va = va and level = "3 - Suc n"]
  have "wrapping_add (k * tb_granule t + level_index (tb_granule t) va (3 - Suc n) * 8) 8
    = k * tb_granule t + level_index (tb_granule t) va (3 - Suc n) * 8 + 8"
    using S(1) tables_okD(3) [OF ok] by simp
  moreover have "3 - Suc n \<noteq> 3" by arith
  ultimately show ?thesis using S unfolding list by (simp add: Let_def idx_def not_less)
qed

lemma built_step:
  assumes b: "built sel pa va d c n t1 pth1 (r, t')"
    and t1: "tb_granule t1 = tb_granule t" "length (tb_bytes t1) = length (tb_bytes t)"
      "tb_next t \<le> tb_next t1" "tb_next t1 \<le> tb_next t + 1" "\<And>j. j < tb_next t \<Longrightarrow> pth1 j = pth j"
    and walks: "\<And>j m va'. j < tb_next t \<Longrightarrow> length (snd (pth j)) + m = depth (tb_granule t) \<Longrightarrow>
      walk sel pa t1 m va' j = walk sel pa t m va' j"
    and c: "pth1 c = (fst (pth k), snd (pth k) @ [idx (tb_granule t) (Suc n) va])"
  shows "built sel pa va d k (Suc n) t pth (r, t')"
proof -
  let ?g = "tb_granule t"
  from b t1(1,2) obtain pth' where B: "tables_ok sel pa t' pth'" "\<And>j. j < tb_next t1 \<Longrightarrow> pth' j = pth1 j"
      "tb_granule t' = ?g" "length (tb_bytes t') = length (tb_bytes t)"
      "tb_next t1 \<le> tb_next t'" "tb_next t' \<le> tb_next t1 + n"
    and W: "\<And>j m va'. j < tb_next t1 \<Longrightarrow> length (snd (pth1 j)) + m = depth ?g \<Longrightarrow>
      walk sel pa t' m va' j = (if is_ok r \<and> fst (pth1 j) = fst (pth1 c)
          \<and> snd (pth1 j) @ key (idx ?g) m va' = snd (pth1 c) @ key (idx ?g) n va
        then d else walk sel pa t1 m va' j)"
    and E: "\<And>e. r = Inl e \<Longrightarrow> e = Fail OUT_OF_RESOURCES \<and> length (tb_bytes t) < (tb_next t1 + n) * ?g"
    by (auto simp: built_def Let_def)
  have "walk sel pa t' m va' j = (if is_ok r \<and> fst (pth j) = fst (pth k)
      \<and> snd (pth j) @ key (idx ?g) m va' = snd (pth k) @ key (idx ?g) (Suc n) va
    then d else walk sel pa t m va' j)"
    if j: "j < tb_next t" "length (snd (pth j)) + m = depth ?g" for j m va'
    using W [of j m va'] j t1(3) t1(5) [OF j(1)] walks [OF j] c by simp
  moreover have "e = Fail OUT_OF_RESOURCES \<and> length (tb_bytes t) < (tb_next t + Suc n) * ?g" if "r = Inl e" for e
  proof -
    have "(tb_next t1 + n) * ?g \<le> (tb_next t + Suc n) * ?g" using t1(4) by (intro mult_le_mono1) simp
    with E [OF that] show ?thesis by linarith
  qed
  moreover have "\<exists>pth'. tables_ok sel pa t' pth' \<and> (\<forall>j < tb_next t. pth' j = pth j)"
    using B(1,2) t1(3,5) by (intro exI [of _ pth']) auto
  ultimately show ?thesis
    unfolding built_def Let_def using B t1(3,4) by auto
qed

lemma ok_step_link:
  assumes ok: "tables_ok sel pa t pth" and k: "k < tb_next t" "length (snd (pth k)) < depth (tb_granule t)"
    and i: "i < tb_granule t div 8" "entry t k i = 0"
    and room: "tb_next t * tb_granule t + tb_granule t \<le> length (tb_bytes t)"
    and v: "v \<noteq> 0" "v < 2 ^ 64" "v AND sel = pa + tb_next t * tb_granule t"
  defines "t1 \<equiv> tb_write (t\<lparr>tb_next := tb_next t + 1\<rparr>) (k * tb_granule t + i * 8) v"
    and "pth1 \<equiv> pth(tb_next t := (fst (pth k), snd (pth k) @ [i]))"
  shows "tables_ok sel pa t1 pth1" "tb_granule t1 = tb_granule t" "length (tb_bytes t1) = length (tb_bytes t)"
    "tb_next t1 = Suc (tb_next t)" "entry t1 = set_entry (entry t) k i v"
    "j < tb_next t \<Longrightarrow> length (snd (pth j)) + m = depth (tb_granule t) \<Longrightarrow>
      walk sel pa t1 m va' j = walk sel pa t m va' j"
proof -
  let ?g = "tb_granule t" and ?c = "child sel pa (tb_granule t)"
  note D = tables_okD [OF ok]
  have "(k + 1) * ?g \<le> tb_next t * ?g" using k(1) by (intro mult_le_mono1) simp
  with D(4) have kroom: "(k + 1) * ?g \<le> length (tb_bytes t)" by linarith
  have "8 * (i + 1) \<le> 8 * (?g div 8)" using i(1) by (intro mult_le_mono2) simp
  moreover have "8 * (?g div 8) \<le> ?g" by (rule times_div_less_eq_dividend)
  ultimately have slot: "k * ?g + i * 8 + 8 \<le> length (tb_bytes t)" using kroom by simp
  have e0: "entry (t\<lparr>tb_next := tb_next t + 1\<rparr>) = entry t" by (intro ext) (simp add: entry_def tb_read_def)
  show E: "entry t1 = set_entry (entry t) k i v"
    unfolding t1_def using entry_write [of i "t\<lparr>tb_next := tb_next t + 1\<rparr>" k v] i kroom v(2) e0 by simp
  show G: "tb_granule t1 = ?g" "length (tb_bytes t1) = length (tb_bytes t)" "tb_next t1 = Suc (tb_next t)"
    unfolding t1_def using slot by simp_all
  have g: "0 < ?g" using D(1) by auto
  have cv: "?c v = tb_next t" using g by (simp add: child_def v(3))
  have sh: "shaped ?c (depth ?g) (set_entry (entry t) k i v) (Suc (tb_next t)) pth1"
    unfolding pth1_def by (rule shaped_link [OF D(5) i(2) v(1) cv k])
  have links: "entry t1 a b AND sel = pa + ?c (entry t1 a b) * ?g"
    if ab: "a < Suc (tb_next t)" "length (snd (pth1 a)) < depth ?g" "entry t1 a b \<noteq> 0" for a b
  proof (cases "a = k \<and> b = i")
    case True
    with E have e: "entry t1 a b = v" by (simp add: set_entry_apply)
    have "pa + ?c v * ?g = v AND sel" by (simp only: cv v(3))
    then show ?thesis unfolding e by simp
  next
    case False
    with E ab(3) have e: "entry t1 a b = entry t a b" "entry t a b \<noteq> 0" by (auto simp: set_entry_apply)
    with D(5) have "a \<noteq> tb_next t" by (auto simp: shaped_def)
    with ab have "a < tb_next t" "length (snd (pth a)) < depth ?g" by (auto simp: pth1_def)
    with ok e(2) show ?thesis unfolding e(1) by (simp add: tables_ok_def Let_def)
  qed
  have "tb_next t1 * ?g \<le> length (tb_bytes t1)" using room G by simp
  with D sh links show "tables_ok sel pa t1 pth1"
    by (simp add: tables_ok_def Let_def G E)
  show "walk sel pa t1 m va' j = walk sel pa t m va' j"
    if "j < tb_next t" "length (snd (pth j)) + m = depth ?g" for j m va'
    unfolding G E by (rule look_link [OF D(5) i(2) v(1) cv k that])
qed

lemma ok_step_mark:
  assumes ok: "tables_ok sel pa t pth" and k: "k < tb_next t" "length (snd (pth k)) < depth (tb_granule t)"
    and i: "i < tb_granule t div 8" "entry t k i \<noteq> 0"
    and v: "v \<noteq> 0" "v < 2 ^ 64" "v AND sel = entry t k i AND sel"
  defines "t1 \<equiv> tb_write t (k * tb_granule t + i * 8) v"
  shows "tables_ok sel pa t1 pth" "tb_granule t1 = tb_granule t" "length (tb_bytes t1) = length (tb_bytes t)"
    "tb_next t1 = tb_next t" "entry t1 = set_entry (entry t) k i v"
    "j < tb_next t \<Longrightarrow> length (snd (pth j)) + m = depth (tb_granule t) \<Longrightarrow>
      walk sel pa t1 m va' j = walk sel pa t m va' j"
proof -
  let ?g = "tb_granule t" and ?c = "child sel pa (tb_granule t)"
  note D = tables_okD [OF ok]
  have "(k + 1) * ?g \<le> tb_next t * ?g" using k(1) by (intro mult_le_mono1) simp
  with D(4) have kroom: "(k + 1) * ?g \<le> length (tb_bytes t)" by linarith
  have "8 * (i + 1) \<le> 8 * (?g div 8)" using i(1) by (intro mult_le_mono2) simp
  moreover have "8 * (?g div 8) \<le> ?g" by (rule times_div_less_eq_dividend)
  ultimately have slot: "k * ?g + i * 8 + 8 \<le> length (tb_bytes t)" using kroom by simp
  show E: "entry t1 = set_entry (entry t) k i v"
    unfolding t1_def by (rule entry_write [OF i(1) kroom v(2)])
  show G: "tb_granule t1 = ?g" "length (tb_bytes t1) = length (tb_bytes t)" "tb_next t1 = tb_next t"
    unfolding t1_def using slot by simp_all
  have cv: "?c v = ?c (entry t k i)" by (simp add: child_def v(3))
  have sh: "shaped ?c (depth ?g) (set_entry (entry t) k i v) (tb_next t) pth"
    by (rule shaped_mark [OF D(5) i(2) v(1) cv k(1)])
  have links: "entry t1 a b AND sel = pa + ?c (entry t1 a b) * ?g"
    if ab: "a < tb_next t" "length (snd (pth a)) < depth ?g" "entry t1 a b \<noteq> 0" for a b
  proof (cases "a = k \<and> b = i")
    case True
    with E have e: "entry t1 a b = v" by (simp add: set_entry_apply)
    have "entry t k i AND sel = pa + ?c (entry t k i) * ?g"
      using ok k i(2) by (simp add: tables_ok_def Let_def)
    then show ?thesis unfolding e cv v(3) .
  next
    case False
    with E ab(3) have e: "entry t1 a b = entry t a b" "entry t a b \<noteq> 0" by (auto simp: set_entry_apply)
    with ok ab show ?thesis unfolding e(1) by (simp add: tables_ok_def Let_def)
  qed
  with D sh show "tables_ok sel pa t1 pth" by (simp add: tables_ok_def Let_def G E)
  show "walk sel pa t1 m va' j = walk sel pa t m va' j"
    if "j < tb_next t" "length (snd (pth j)) + m = depth ?g" for j m va'
    unfolding G E by (rule look_mark [OF D(5) i(2) v(1) cv k that])
qed

lemma build_levels_built:
  assumes sel: "selects sel (tb_granule t)" and mark: "marks sel mark" and d: "d < 2 ^ 64"
  shows "tables_ok sel pa t pth \<Longrightarrow> k < tb_next t \<Longrightarrow> length (snd (pth k)) + n = depth (tb_granule t) \<Longrightarrow>
    built sel pa va d k n t pth (build_levels sel pa va d mark [3 - n..<4] (k * tb_granule t) t)"
  using sel
proof (induction n arbitrary: t pth k)
  case (0 t pth k)
  let ?g = "tb_granule t" let ?i = "level_index ?g va 3" let ?t = "tb_write t (k * ?g + ?i * 8) d"
  note ok = 0(1) and k = 0(2) and D = tables_okD [OF 0(1)] and S = slot_in_range [OF 0(1,2)]
  have len: "length (snd (pth k)) = depth ?g" using 0(3) by simp
  have list: "[3 - 0..<4] = [3 :: nat]" by (simp add: upt_rec)
  have "wrapping_add (k * ?g + ?i * 8) 8 = k * ?g + ?i * 8 + 8" using S(2) [of va 3] D(3) by simp
  with S(2-4) [of va 3] have run: "build_levels sel pa va d mark [3 - 0..<4] (k * ?g) t = (Inr (pa + (k * ?g + ?i * 8)), ?t)"
    unfolding list by (simp add: Let_def)
  have E: "entry ?t = set_entry (entry t) k ?i d"
    by (rule entry_write [OF index_less [OF D(1)] S(1) d])
  have G: "tb_granule ?t = ?g" "length (tb_bytes ?t) = length (tb_bytes t)" "tb_next ?t = tb_next t"
    using S(2) by simp_all
  have links: "entry ?t a b AND sel = pa + child sel pa ?g (entry ?t a b) * ?g"
    if ab: "a < tb_next t" "length (snd (pth a)) < depth ?g" "entry ?t a b \<noteq> 0" for a b
  proof -
    from ab len have "a \<noteq> k" by auto
    with E have e: "entry ?t a b = entry t a b" by (simp add: set_entry_apply)
    from ok ab show ?thesis unfolding e by (simp add: tables_ok_def Let_def)
  qed
  have "tables_ok sel pa ?t pth"
    using D shaped_leaf [OF D(5) k len, of ?i d] links by (simp add: tables_ok_def Let_def G E)
  moreover have "walk sel pa ?t m va' j = (if fst (pth j) = fst (pth k) \<and> snd (pth j) @ key (idx ?g) m va' = snd (pth k) @ [?i]
      then d else walk sel pa t m va' j)" if "j < tb_next t" "length (snd (pth j)) + m = depth ?g" for j m va'
    unfolding G E by (rule look_leaf [OF D(5) k len that])
  ultimately show ?case
    unfolding run built_def Let_def using G by (auto simp: idx_def)
next
  case (Suc n t pth k)
  let ?g = "tb_granule t" let ?i = "idx ?g (Suc n) va" let ?e = "entry t k ?i"
  let ?level = "3 - Suc n" let ?fresh = "tb_next t * ?g"
  note ok = Suc.prems(1) and k = Suc.prems(2) and D = tables_okD [OF Suc.prems(1)]
  have len: "length (snd (pth k)) < depth ?g" using Suc.prems(3) by simp
  have n3: "Suc n \<le> 3" using Suc.prems(3) by (simp add: depth_def)
  have i: "?i < ?g div 8" using index_less [OF D(1)] by (simp add: idx_def)
  have g: "0 < ?g" using D(1) by auto
  note run = build_levels_unfold [OF ok k n3, where va = va and mark = mark and leaf = d]
  show ?case
  proof (cases "?e = 0")
    case False
    have e64: "?e < 2 ^ 64"
    proof -
      have "tb_read t off < 256 ^ 8" for off
      proof -
        have "(256 :: nat) ^ length (subrange off (off + 8) (tb_bytes t)) \<le> 256 ^ 8"
          by (rule power_increasing) (simp_all add: subrange_def)
        with le_nat_bound [of "subrange off (off + 8) (tb_bytes t)"] show ?thesis unfolding tb_read_def by linarith
      qed
      then show ?thesis by (simp add: entry_def)
    qed
    let ?v = "mark ?level ?e" let ?t = "tb_write t (k * ?g + ?i * 8) ?v"
    have v: "?v \<noteq> 0" "?v < 2 ^ 64" "?v AND sel = ?e AND sel"
      using mark False e64 by (simp_all add: marks_def)
    note M = ok_step_mark [OF ok k len i False v]
    let ?c = "child sel pa ?g ?e"
    have c: "?c < tb_next t" "pth ?c = (fst (pth k), snd (pth k) @ [?i])"
      using shaped_child [OF D(5) k len False] by simp_all
    have link: "?e AND sel = pa + ?c * ?g" using ok k len False by (simp add: tables_ok_def Let_def)
    have "(?c + 1) * ?g \<le> tb_next t * ?g" using c(1) by (intro mult_le_mono1) simp
    with D(3,4) have "pa + ?c * ?g < 2 ^ 64" by simp
    then have "wrapping_sub (?v AND sel) pa = ?c * ?g" unfolding v(3) link by (simp add: wrapping_sub_exact)
    with False run have r: "build_levels sel pa va d mark [3 - Suc n..<4] (k * ?g) t
        = build_levels sel pa va d mark [3 - n..<4] (?c * tb_granule ?t) ?t"
      by (simp add: Let_def)
    have "length (snd (pth ?c)) + n = depth (tb_granule ?t)" using c(2) Suc.prems(3) by simp
    with Suc.IH [OF M(1) _ this] c(1) Suc.prems(4) M(4)
    have b: "built sel pa va d ?c n ?t pth (build_levels sel pa va d mark [3 - n..<4] (?c * tb_granule ?t) ?t)"
      by simp
    obtain res t' where rt: "build_levels sel pa va d mark [3 - n..<4] (?c * tb_granule ?t) ?t = (res, t')"
      by fastforce
    show ?thesis
      unfolding r rt
      by (rule built_step [OF b [unfolded rt] M(2,3) _ _ _ M(6)]) (use M(4) c(2) in simp_all)
  next
    case True
    show ?thesis
    proof (cases "?fresh + ?g > length (tb_bytes t)")
      case no_room: True
      have short: "length (tb_bytes t) < (tb_next t + Suc n) * ?g"
      proof -
        have "(tb_next t + 1) * ?g \<le> (tb_next t + Suc n) * ?g" by (intro mult_le_mono1) simp
        moreover have "(tb_next t + 1) * ?g = ?fresh + ?g" by simp
        ultimately show ?thesis using no_room by linarith
      qed
      from True no_room run have r: "build_levels sel pa va d mark [3 - Suc n..<4] (k * ?g) t = (Inl (Fail OUT_OF_RESOURCES), t)"
        by (simp add: Let_def)
      show ?thesis unfolding r using ok short by (auto simp: built_def Let_def)
    next
      case room: False
      let ?v = "mark ?level ((pa + ?fresh) OR 3)"
      let ?t = "tb_write (t\<lparr>tb_next := tb_next t + 1\<rparr>) (k * ?g + ?i * 8) ?v"
      let ?pth = "pth(tb_next t := (fst (pth k), snd (pth k) @ [?i]))"
      have a: "(pa + ?fresh) mod ?g = 0" "pa + ?fresh < 2 ^ 48" using D(2,3) room g by (simp_all add: mod_add_eq)
      have "?g mod 4 = 0" using D(1) by auto
      then have "(pa + ?fresh) mod 4 = 0" using a(1) by (metis mod_0_imp_dvd mod_mod_cancel mod_0)
      then have or3: "(pa + ?fresh) OR 3 = pa + ?fresh + 3" by (rule or_3)
      have "(pa + ?fresh + 3) AND sel = pa + ?fresh" using Suc.prems(4) a by (simp add: selects_def)
      with mark a(2) or3 have v: "?v \<noteq> 0" "?v < 2 ^ 64" "?v AND sel = pa + ?fresh"
        by (simp_all add: marks_def)
      have room': "?fresh + ?g \<le> length (tb_bytes t)" using room by simp
      note L = ok_step_link [OF ok k len i True room' v]
      have "wrapping_sub (?v AND sel) pa = ?fresh" unfolding v(3) using a(2) by (simp add: wrapping_sub_exact)
      with True room run have r: "build_levels sel pa va d mark [3 - Suc n..<4] (k * ?g) t
          = build_levels sel pa va d mark [3 - n..<4] (tb_next t * tb_granule ?t) ?t"
        by (simp add: Let_def)
      have b: "built sel pa va d (tb_next t) n ?t ?pth (build_levels sel pa va d mark [3 - n..<4] (tb_next t * tb_granule ?t) ?t)"
        by (rule Suc.IH [OF L(1)]) (use L(2,4) Suc.prems(3,4) in simp_all)
      obtain res t' where rt: "build_levels sel pa va d mark [3 - n..<4] (tb_next t * tb_granule ?t) ?t = (res, t')"
        by fastforce
      show ?thesis
        unfolding r rt
        by (rule built_step [OF b [unfolded rt] L(2,3) _ _ _ L(6)]) (use L(4) in simp_all)
    qed
  qed
qed

subsection \<open>The builders as maps from pages to descriptors\<close>

definition root_number :: "nat \<Rightarrow> nat" where
  "root_number va = (if drop_bit 63 va = 0 then 0 else 1)"

definition translate :: "nat \<Rightarrow> nat \<Rightarrow> tables \<Rightarrow> nat \<Rightarrow> nat" where
  "translate sel pa t va = walk sel pa t (depth (tb_granule t)) va (root_number va)"

definition page_of :: "nat \<Rightarrow> nat \<Rightarrow> nat \<times> nat" where
  "page_of g va = (root_number va, va div 2 ^ page_bits g mod 2 ^ (index_bits g * (depth g + 1)))"

definition well_formed :: "nat \<Rightarrow> nat \<Rightarrow> nat \<Rightarrow> tables \<Rightarrow> bool" where
  "well_formed sel pa g t \<longleftrightarrow> tb_granule t = g \<and> (\<exists>pth. tables_ok sel pa t pth)"

text \<open>How many tables are left.\<close>

definition room :: "tables \<Rightarrow> nat" where
  "room t = length (tb_bytes t) div tb_granule t - tb_next t"

lemma level_index_div:
  "level_index g va level = va div 2 ^ page_bits g div 2 ^ (index_bits g * (3 - level)) mod 2 ^ index_bits g"
proof -
  have "x AND (2 ^ n - 1) = x mod 2 ^ n" for x n :: nat
    by (metis mask_eq_exp_minus_1 take_bit_eq_mask take_bit_eq_mod)
  then show ?thesis by (simp add: level_index_def drop_bit_eq_div power_add div_mult2_eq)
qed

lemma mod_split:
  fixes x y :: nat
  assumes "0 < a"
  shows "x mod (a * b) = y mod (a * b) \<longleftrightarrow> x mod a = y mod a \<and> x div a mod b = y div a mod b"
proof
  assume e: "x mod (a * b) = y mod (a * b)"
  have "x mod (a * b) mod a = x mod a" "y mod (a * b) mod a = y mod a" by (simp_all add: mod_mod_cancel)
  with e have m: "x mod a = y mod a" by simp
  with e assms have "x div a mod b = y div a mod b" by (simp add: mod_mult2_eq)
  with m show "x mod a = y mod a \<and> x div a mod b = y div a mod b" by simp
qed (simp add: mod_mult2_eq)

lemma key_page:
  assumes "n \<le> 3"
  shows "key (idx g) n va = key (idx g) n va' \<longleftrightarrow>
    va div 2 ^ page_bits g mod 2 ^ (index_bits g * (n + 1)) = va' div 2 ^ page_bits g mod 2 ^ (index_bits g * (n + 1))"
  using assms
proof (induction n)
  case 0
  then show ?case by (simp add: idx_def level_index_div)
next
  case (Suc n)
  then have "3 - (3 - Suc n) = Suc n" by simp
  then have i: "idx g (Suc n) v = v div 2 ^ page_bits g div 2 ^ (index_bits g * Suc n) mod 2 ^ index_bits g" for v
    by (simp add: idx_def level_index_div)
  have "2 ^ (index_bits g * (Suc n + 1)) = 2 ^ (index_bits g * (n + 1)) * (2 ^ index_bits g :: nat)"
    by (simp flip: power_add)
  then show ?case
    unfolding key.simps list.inject i using Suc
    by (simp only: mod_split [of "2 ^ (index_bits g * (n + 1))"] zero_less_power) (auto simp: algebra_simps)
qed

lemma depth_le: "depth g \<le> 3" by (simp add: depth_def)

lemma page_of_key: "page_of g va = page_of g va' \<longleftrightarrow>
    root_number va = root_number va' \<and> key (idx g) (depth g) va = key (idx g) (depth g) va'"
  unfolding page_of_def key_page [OF depth_le] by simp

text \<open>A buffer of zeros is the empty map.\<close>

lemma subrange_zeros: "subrange a b (replicate n 0) = replicate (min (b - a) (n - a)) (0 :: u8)"
  by (simp add: subrange_def min.commute)

lemma fresh_tables:
  assumes "g \<in> {4096, 16384}" "pa mod g = 0" "pa + n * g \<le> 2 ^ 48" "2 \<le> n"
  defines "t \<equiv> \<lparr>tb_bytes = replicate (n * g) 0, tb_granule = g, tb_next = 2\<rparr>"
  shows "well_formed sel pa g t" "translate sel pa t va = 0" "room t = n - 2"
proof -
  have "tb_read t off = 0" for off by (simp add: t_def tb_read_def subrange_zeros)
  then have e: "entry t k i = 0" for k i by (simp add: entry_def)
  have "k = k'" if "k < 2" "k' < 2" "(if k = 0 then (0, []) else (1, [])) = (if k' = 0 then (0, []) else (1 :: nat, []))" for k k' :: nat
    using that by (cases "k = 0"; cases "k' = 0") auto
  then have "shaped c N (entry t) 2 (\<lambda>k. if k = 0 then (0, []) else (1, []))" for c N
    by (auto simp: shaped_def e inj_on_def)
  moreover have "2 * g \<le> n * g" using assms(4) by (rule mult_le_mono1)
  moreover have "tb_granule t = g" "length (tb_bytes t) = n * g" "tb_next t = 2" by (simp_all add: t_def)
  ultimately show "well_formed sel pa g t"
    using assms(1-3) e by (auto simp: well_formed_def tables_ok_def Let_def intro!: exI [of _ "\<lambda>k. if k = 0 then (0, []) else (1, [])"])
  show "translate sel pa t va = 0" unfolding translate_def by (rule look_empty) (rule e)
  show "room t = n - 2" using assms(1) by (auto simp: room_def t_def)
qed

text \<open>
  The interface of a builder: a step maps one page to its leaf, or reports that the buffer is
  full and changes no translation.
\<close>

locale table_builder =
  fixes step :: "'m \<Rightarrow> tables \<Rightarrow> (status fault + 'a) \<times> tables"
    and valid :: "'m \<Rightarrow> bool"
    and page :: "'m \<Rightarrow> nat \<times> nat"
    and leaf :: "'m \<Rightarrow> nat"
    and ok :: "tables \<Rightarrow> bool"
    and trans :: "tables \<Rightarrow> nat \<Rightarrow> nat"
    and pg :: "nat \<Rightarrow> nat \<times> nat"
    and cost :: nat
  assumes step_ok: "ok t \<Longrightarrow> valid m \<Longrightarrow> step m t = (r, t') \<Longrightarrow> ok t'"
    and step_maps: "ok t \<Longrightarrow> valid m \<Longrightarrow> step m t = (Inr a, t') \<Longrightarrow>
      trans t' va = (if pg va = page m then leaf m else trans t va)"
    and step_fails: "ok t \<Longrightarrow> valid m \<Longrightarrow> step m t = (Inl e, t') \<Longrightarrow>
      e = Fail OUT_OF_RESOURCES \<and> trans t' va = trans t va \<and> room t < cost"
    and step_room: "ok t \<Longrightarrow> valid m \<Longrightarrow> step m t = (r, t') \<Longrightarrow> room t \<le> room t' + cost"

fun build :: "('m \<Rightarrow> tables \<Rightarrow> (status fault + 'a) \<times> tables) \<Rightarrow> 'm list \<Rightarrow> tables \<Rightarrow> (status fault + unit) \<times> tables" where
  "build step [] t = (Inr (), t)"
| "build step (m # ms) t = (case step m t of (Inl e, t') \<Rightarrow> (Inl e, t') | (Inr _, t') \<Rightarrow> build step ms t')"

text \<open>The leaf that the last request for a page asks for.\<close>

fun requested_leaf :: "('m \<Rightarrow> nat \<times> nat) \<Rightarrow> ('m \<Rightarrow> nat) \<Rightarrow> 'm list \<Rightarrow> nat \<times> nat \<Rightarrow> nat \<Rightarrow> nat" where
  "requested_leaf page leaf [] p old = old"
| "requested_leaf page leaf (m # ms) p old = requested_leaf page leaf ms p (if p = page m then leaf m else old)"

context table_builder
begin

lemma build_translates:
  "ok t \<Longrightarrow> list_all valid ms \<Longrightarrow> build step ms t = (Inr (), t') \<Longrightarrow>
   ok t' \<and> trans t' va = requested_leaf page leaf ms (pg va) (trans t va)"
proof (induction ms arbitrary: t)
  case (Cons m ms)
  then obtain a t1 where s: "step m t = (Inr a, t1)" "build step ms t1 = (Inr (), t')"
    by (auto split: prod.splits sum.splits)
  with Cons step_ok [of t m "Inr a" t1] step_maps [of t m a t1 va] show ?case by auto
qed simp

lemma build_succeeds:
  "ok t \<Longrightarrow> list_all valid ms \<Longrightarrow> length ms * cost \<le> room t \<Longrightarrow> \<exists>t'. build step ms t = (Inr (), t')"
proof (induction ms arbitrary: t)
  case (Cons m ms)
  obtain r t1 where s: "step m t = (r, t1)" by fastforce
  have "\<not> room t < cost" using Cons.prems(3) by simp
  with step_fails [of t m _ t1] Cons.prems s obtain a where a: "r = Inr a" by (cases r) auto
  from Cons.prems s step_ok step_room have "ok t1" "room t \<le> room t1 + cost" by auto
  with Cons s a show ?case by simp
qed simp

end

lemma selects_page: "g \<in> {4096, 16384} \<Longrightarrow> selects 0x0000fffffffff000 g"
  unfolding selects_def page_address
proof (intro allI impI)
  fix a :: nat
  assume g: "g \<in> {4096, 16384}" and a: "a mod g = 0" "a < 2 ^ 48"
  have "(4096 :: nat) dvd g" using g by auto
  with a(1) have "a mod 4096 = 0" by (meson dvd_imp_mod_0 dvd_trans mod_0_imp_dvd)
  then obtain q where q: "a = 4096 * q" by auto
  with a(2) have "q < 2 ^ 36" by simp
  moreover have "(a + 3) div 4096 = q" by (simp add: q)
  ultimately show "(a + 3) div 4096 mod 2 ^ 36 * 4096 = a" by (simp add: q)
qed

lemma selects_granule: "selects 0x0000ffffffffc000 16384"
  unfolding selects_def granule_address
proof (intro allI impI)
  fix a :: nat
  assume a: "a mod 16384 = 0" "a < 2 ^ 48"
  then obtain q where q: "a = 16384 * q" by auto
  with a(2) have "q < 2 ^ 34" by simp
  moreover have "(a + 3) div 16384 = q" by (simp add: q)
  ultimately show "(a + 3) div 16384 mod 2 ^ 34 * 16384 = a" by (simp add: q)
qed

lemma selects_address_mask: "g \<in> {4096, 16384} \<Longrightarrow> selects (address_mask g) g"
  using selects_page [of g] selects_granule by (auto simp: address_mask_def)

lemma root_offset: "root_table g va = root_number va * g"
  by (simp add: root_table_def root_number_def)

text \<open>A run of the builder from the root, in terms of translations.\<close>

lemma build_from_root:
  assumes wf: "well_formed sel pa g t" and sel: "selects sel g" and mark: "marks sel mark" and d: "d < 2 ^ 64"
    and run: "build_levels sel pa va d mark [start_level g..<4] (root_table g va) t = (r, t')"
  shows "well_formed sel pa g t'" "room t \<le> room t' + depth g"
    "translate sel pa t' va' = (if is_ok r \<and> page_of g va' = page_of g va then d else translate sel pa t va')"
    "r = Inl e \<Longrightarrow> e = Fail OUT_OF_RESOURCES \<and> room t < depth g"
proof -
  from wf obtain pth where g: "tb_granule t = g" and ok: "tables_ok sel pa t pth" by (auto simp: well_formed_def)
  have sh: "2 \<le> tb_next t" "pth 0 = (0, [])" "pth (Suc 0) = (1, [])" using tables_okD(5) [OF ok] by (simp_all add: shaped_def)
  have root: "root_number v < 2" "pth (root_number v) = (root_number v, [])" for v
    using sh by (auto simp: root_number_def)
  have below: "root_number v < tb_next t" for v using root(1) [of v] sh(1) by linarith
  have "3 - depth g = start_level g" by (simp add: depth_def start_level_def)
  with build_levels_built [of sel t mark d pa pth "root_number va" "depth g" va] sel mark d ok root below run g
  have b: "built sel pa va d (root_number va) (depth g) t pth (r, t')"
    by (simp add: root_offset [of g va])
  then obtain pth' where B: "tables_ok sel pa t' pth'" "tb_granule t' = g" "length (tb_bytes t') = length (tb_bytes t)"
      "tb_next t' \<le> tb_next t + depth g"
    and W: "\<And>j m va'. j < tb_next t \<Longrightarrow> length (snd (pth j)) + m = depth g \<Longrightarrow>
      walk sel pa t' m va' j = (if is_ok r \<and> fst (pth j) = fst (pth (root_number va))
          \<and> snd (pth j) @ key (idx g) m va' = snd (pth (root_number va)) @ key (idx g) (depth g) va
        then d else walk sel pa t m va' j)"
    and E: "\<And>e. r = Inl e \<Longrightarrow> e = Fail OUT_OF_RESOURCES \<and> length (tb_bytes t) < (tb_next t + depth g) * g"
    by (auto simp: built_def Let_def g)
  have g0: "0 < g" using tables_okD(1) [OF ok] g by auto
  show "well_formed sel pa g t'" using B by (auto simp: well_formed_def)
  show "room t \<le> room t' + depth g" using B g by (simp add: room_def)
  show "translate sel pa t' va' = (if is_ok r \<and> page_of g va' = page_of g va then d else translate sel pa t va')"
    using W [of "root_number va'" "depth g" va'] root below B(2) g
    by (auto simp: translate_def page_of_key)
  assume "r = Inl e"
  then have e: "e = Fail OUT_OF_RESOURCES" "length (tb_bytes t) < (tb_next t + depth g) * g" using E by auto
  then have "length (tb_bytes t) div g < tb_next t + depth g" using g0 by (simp add: div_less_iff_less_mult)
  moreover have "0 < depth g" by (simp add: depth_def start_level_def)
  ultimately show "e = Fail OUT_OF_RESOURCES \<and> room t < depth g" using e(1) g by (simp add: room_def less_diff_conv2 less_diff_conv)
qed

lemma map_levels_build:
  assumes "tb_granule t \<in> {4096, 16384}" "pa mod tb_granule t = 0" "pa + length (tb_bytes t) \<le> 2 ^ 48"
  shows "map_levels pa va d levels table t =
    (case build_levels 0x0000fffffffff000 pa va d (\<lambda>_ e. e) levels table t of (r, t') \<Rightarrow> (map_sum id (\<lambda>_. ()) r, t'))"
  using assms
proof (induction levels arbitrary: table t)
  case (Cons level levels)
  let ?g = "tb_granule t" let ?fresh = "tb_next t * ?g"
  let ?off = "wrapping_add table (level_index ?g va level * 8)"
  show ?case
  proof (cases "wrapping_add ?off 8 > length (tb_bytes t) \<or> ?off + 8 > length (tb_bytes t) \<or> level = 3
      \<or> tb_read t ?off = 0 \<and> ?fresh + ?g > length (tb_bytes t)")
    case True
    then show ?thesis by (auto simp: Let_def)
  next
    case False
    then have in_range: "?off + 8 \<le> length (tb_bytes t)" "\<not> wrapping_add ?off 8 > length (tb_bytes t)" "level \<noteq> 3" by auto
    show ?thesis
    proof (cases "tb_read t ?off = 0")
      case True
      with False have room: "?fresh + ?g \<le> length (tb_bytes t)" by simp
      have a: "(pa + ?fresh) mod ?g = 0" "pa + ?fresh < 2 ^ 48"
        using Cons.prems room by (auto simp: mod_add_eq)
      have "?g mod 4 = 0" using Cons.prems(1) by auto
      then have "(pa + ?fresh) mod 4 = 0" using a(1) by (metis mod_0_imp_dvd mod_mod_cancel mod_0)
      then have o3: "(pa + ?fresh) OR 3 = pa + ?fresh + 3" by (rule or_3)
      have "((pa + ?fresh) OR 3) AND 0x0000fffffffff000 = pa + ?fresh"
        unfolding o3 by (rule selects_page [unfolded selects_def, rule_format, OF Cons.prems(1) a])
      then have "wrapping_sub (((pa + ?fresh) OR 3) AND 0x0000fffffffff000) pa = ?fresh"
        using a(2) by (simp add: wrapping_sub_exact)
      with True False in_range Cons show ?thesis by (simp add: Let_def)
    next
      case existing: False
      with in_range Cons tb_write_read [OF in_range(1)] show ?thesis by (simp add: Let_def)
    qed
  qed
qed simp

lemma well_formed_geometry:
  assumes "well_formed sel pa g t"
  shows "tb_granule t = g" "g \<in> {4096, 16384}" "pa mod g = 0" "pa + length (tb_bytes t) \<le> 2 ^ 48"
  using assms tables_okD [of sel pa t] by (auto simp: well_formed_def)

lemma marks_id: "marks sel (\<lambda>_ e. e)"
  by (simp add: marks_def)

lemma map_va_run:
  assumes wf: "well_formed 0x0000fffffffff000 pa g t" and d: "d < 2 ^ 64" and run: "map_va pa va d t = (r, t')"
  shows "well_formed 0x0000fffffffff000 pa g t'" "room t \<le> room t' + depth g"
    "translate 0x0000fffffffff000 pa t' va' =
      (if is_ok r \<and> page_of g va' = page_of g va then d else translate 0x0000fffffffff000 pa t va')"
    "r = Inl e \<Longrightarrow> e = Fail OUT_OF_RESOURCES \<and> room t < depth g"
proof -
  note G = well_formed_geometry [OF wf]
  obtain q u where b: "build_levels 0x0000fffffffff000 pa va d (\<lambda>_ e. e) [start_level g..<4] (root_table g va) t = (q, u)"
    by fastforce
  with run map_levels_build [of t pa va d "[start_level g..<4]" "root_table g va"] G
  have q: "r = map_sum id (\<lambda>_. ()) q" "u = t'" by (simp_all add: map_va_def)
  note R = build_from_root [OF wf selects_page [OF G(2)] marks_id d b]
  have ok: "is_ok q = is_ok r" by (cases q) (simp_all add: q is_ok_def)
  from R(1-3) ok q(2) show "well_formed 0x0000fffffffff000 pa g t'" "room t \<le> room t' + depth g"
    "translate 0x0000fffffffff000 pa t' va' =
      (if is_ok r \<and> page_of g va' = page_of g va then d else translate 0x0000fffffffff000 pa t va')" by simp_all
  assume "r = Inl e"
  with q(1) have "q = Inl e" by (cases q) simp_all
  then show "e = Fail OUT_OF_RESOURCES \<and> room t < depth g" by (rule R(4))
qed

interpretation pages: table_builder "\<lambda>(va, d). map_va pa va d" "\<lambda>(va, d). d < 2 ^ 64" "\<lambda>(va, d). page_of g va" snd
  "well_formed 0x0000fffffffff000 pa g" "translate 0x0000fffffffff000 pa" "page_of g" "depth g" for pa g
proof (unfold_locales, goal_cases)
  case (1 t m r t') then show ?case using map_va_run(1) by (cases m) auto
next
  case (2 t m a t' va) then show ?case using map_va_run(3) [of pa g t "snd m" "fst m" "Inr a" t' va] by (cases m) auto
next
  case (3 t m e t' va) then show ?case
    using map_va_run(3,4) [of pa g t "snd m" "fst m" "Inl e" t'] by (cases m) auto
next
  case (4 t m r t') then show ?case using map_va_run(2) by (cases m) auto
qed

subsection \<open>Hierarchical permissions\<close>

lemma and_or_absorb: "x AND sel = 0 \<Longrightarrow> (e OR x) AND sel = e AND sel" for x sel e :: nat
  by (rule bit_eqI) (auto simp: bit_eq_iff bit_simps)

lemma high_bits:
  fixes v sel :: nat
  assumes "59 \<le> n" "sel < 2 ^ 48"
  shows "take_bit 64 (push_bit n v) AND sel = 0"
proof (rule bit_eqI)
  fix m
  have "\<not> bit sel m" if "48 \<le> m"
  proof -
    have "sel < 2 ^ m" using assms(2) that by (meson less_le_trans one_le_numeral power_increasing)
    then show ?thesis by (simp add: bit_iff_odd)
  qed
  with assms(1) show "bit (take_bit 64 (push_bit n v) AND sel) m = bit 0 m" by (auto simp: bit_simps)
qed

lemma or_less: "x < 2 ^ n \<Longrightarrow> y < 2 ^ n \<Longrightarrow> x OR y < 2 ^ n" for x y :: nat
  by (metis take_bit_nat_eq_self_iff take_bit_or)

lemma with_bits_mark:
  assumes "e \<noteq> 0" "e < 2 ^ 64" "59 \<le> n" "sel < 2 ^ 48"
  shows "with_bits here n v e \<noteq> 0 \<and> with_bits here n v e < 2 ^ 64 \<and> with_bits here n v e AND sel = e AND sel"
proof -
  let ?x = "take_bit 64 (push_bit n v)"
  have "?x < 2 ^ 64" by (rule take_bit_nat_less_exp)
  with assms(2) have "e OR ?x < 2 ^ 64" by (rule or_less)
  moreover have "e OR ?x \<noteq> 0" using assms(1) by (simp only: or_eq_0_iff) simp
  ultimately show ?thesis using assms by (simp add: with_bits_def and_or_absorb high_bits)
qed

lemma marks_hier: "sel < 2 ^ 48 \<Longrightarrow> marks sel (hier_mark start parent xn choice)"
  unfolding marks_def hier_mark_def Let_def
proof (intro allI impI, goal_cases)
  case (1 level e)
  let ?a = "with_bits (level = start + choice mod (3 - start)) 61 parent e"
  from with_bits_mark [OF 1(2,3) _ 1(1), of 61 "level = start + choice mod (3 - start)" parent]
  have a: "?a \<noteq> 0" "?a < 2 ^ 64" "?a AND sel = e AND sel" by simp_all
  from with_bits_mark [OF a(1,2) _ 1(1), of 59 "level = start + (choice + 1) mod (3 - start)" xn] a(3)
  show ?case by simp
qed

interpretation hier_pages: table_builder "\<lambda>(va, d, parent, xn, choice). hier_map pa va d parent xn choice"
  "\<lambda>(va, d, parent, xn, choice). d < 2 ^ 64" "\<lambda>(va, d, parent, xn, choice). page_of g va" "\<lambda>(va, d, parent, xn, choice). d"
  "well_formed (address_mask g) pa g" "translate (address_mask g) pa" "page_of g" "depth g" for pa g
proof -
  have run: "well_formed (address_mask g) pa g t'" "room t \<le> room t' + depth g"
    "translate (address_mask g) pa t' va' =
      (if is_ok r \<and> page_of g va' = page_of g va then d else translate (address_mask g) pa t va')"
    "r = Inl e \<Longrightarrow> e = Fail OUT_OF_RESOURCES \<and> room t < depth g"
    if wf: "well_formed (address_mask g) pa g t" and d: "d < 2 ^ 64" and r: "hier_map pa va d parent xn choice t = (r, t')"
    for t t' va va' d parent xn choice r e
  proof -
    note G = well_formed_geometry [OF wf]
    have b: "build_levels (address_mask g) pa va d (hier_mark (start_level g) parent xn choice) [start_level g..<4] (root_table g va) t = (r, t')"
      using r by (simp add: hier_map_def Let_def hier_levels_build G(1))
    have sel: "address_mask g < 2 ^ 48" by (simp add: address_mask_def)
    note R = build_from_root [OF wf selects_address_mask [OF G(2)] marks_hier [OF sel] d b]
    show "well_formed (address_mask g) pa g t'" "room t \<le> room t' + depth g"
      "translate (address_mask g) pa t' va' =
        (if is_ok r \<and> page_of g va' = page_of g va then d else translate (address_mask g) pa t va')" by (rule R)+
    show "r = Inl e \<Longrightarrow> e = Fail OUT_OF_RESOURCES \<and> room t < depth g" by (rule R)
  qed
  show "table_builder (\<lambda>(va, d, parent, xn, choice). hier_map pa va d parent xn choice)
    (\<lambda>(va, d, parent, xn, choice). d < 2 ^ 64) (\<lambda>(va, d, parent, xn, choice). page_of g va) (\<lambda>(va, d, parent, xn, choice). d)
    (well_formed (address_mask g) pa g) (translate (address_mask g) pa) (page_of g) (depth g)"
  proof (unfold_locales, goal_cases)
    case (1 t m r t') then show ?case using run(1) by (cases m) auto
  next
    case (2 t m a t' va)
    obtain v d p x c where m: "m = (v, d, p, x, c)" by (metis prod_cases5)
    with 2 show ?case using run(3) [of t d v p x c "Inr a" t' va] by simp
  next
    case (3 t m e t' va)
    obtain v d p x c where m: "m = (v, d, p, x, c)" by (metis prod_cases5)
    with 3 show ?case using run(3,4) [of t d v p x c "Inl e" t'] by simp
  next
    case (4 t m r t') then show ?case using run(2) by (cases m) auto
  qed
qed

text \<open>An empty buffer of \<open>n\<close> tables.\<close>

definition empty_tables :: "nat \<Rightarrow> nat \<Rightarrow> tables" where
  "empty_tables g n = \<lparr>tb_bytes = replicate (n * g) 0, tb_granule = g, tb_next = 2\<rparr>"

lemmas empty_tables_ok = fresh_tables [folded empty_tables_def]

lemma build_from_empty:
  assumes "g \<in> {4096, 16384}" "pa mod g = 0" "pa + n * g \<le> 2 ^ 48"
    and "list_all (\<lambda>(va, d). d < 2 ^ 64) ms" "length ms * depth g + 2 \<le> n"
  shows "\<exists>t. build (\<lambda>(va, d). map_va pa va d) ms (empty_tables g n) = (Inr (), t)
    \<and> (\<forall>va. translate 0x0000fffffffff000 pa t va
         = requested_leaf (\<lambda>(va, d). page_of g va) snd ms (page_of g va) 0)"
proof (cases "2 \<le> n")
  case True
  note E = empty_tables_ok [OF assms(1-3) True]
  have "length ms * depth g \<le> room (empty_tables g n)" unfolding E(3) using assms(5) by linarith
  from pages.build_succeeds [OF E(1) assms(4) this]
  obtain t where t: "build (\<lambda>(va, d). map_va pa va d) ms (empty_tables g n) = (Inr (), t)" by auto
  with pages.build_translates [OF E(1) assms(4) t] E(2) show ?thesis by auto
qed (use assms(5) in simp)

subsection \<open>Properties\<close>

text \<open>Property C26: the page table builder refines a map from pages to leaf descriptors. From an empty
  buffer with room for the levels of every request it succeeds, and the translation walk then finds
  for every address the descriptor last requested for its page, and nothing for any other page.\<close>

theorem tables_translate_as_requested:
  assumes "g \<in> {4096, 16384}" "pa mod g = 0" "pa + n * g \<le> 2 ^ 48"
    and "list_all (\<lambda>(va, d). d < 2 ^ 64) ms" "length ms * depth g + 2 \<le> n"
  shows "\<exists>t. build (\<lambda>(va, d). map_va pa va d) ms (empty_tables g n) = (Inr (), t)
    \<and> (\<forall>va. translate 0x0000fffffffff000 pa t va
         = requested_leaf (\<lambda>(va, d). page_of g va) snd ms (page_of g va) 0)"
  using build_from_empty [OF assms] .

theorem tables_translate_as_requested_witness:
  "\<exists>t. build (\<lambda>(va, d). map_va 0x30000000 va d) [(0x20000000, 0x10000403)] (empty_tables 4096 16) = (Inr (), t)
    \<and> translate 0x0000fffffffff000 0x30000000 t 0x20000ff8 = 0x10000403
    \<and> translate 0x0000fffffffff000 0x30000000 t 0x20001000 = 0"
proof -
  have "\<exists>t. build (\<lambda>(va, d). map_va 0x30000000 va d) [(0x20000000, 0x10000403)] (empty_tables 4096 16) = (Inr (), t)
    \<and> (\<forall>va. translate 0x0000fffffffff000 0x30000000 t va
         = requested_leaf (\<lambda>(va, d). page_of 4096 va) snd [(0x20000000, 0x10000403)] (page_of 4096 va) 0)"
    by (rule tables_translate_as_requested) (simp_all add: depth_def start_level_def)
  then show ?thesis
    by (auto simp: page_of_def root_number_def page_bits_def index_bits_def depth_def start_level_def drop_bit_eq_div)
qed

text \<open>A mapping that does not fit is reported as such, and whatever tables were linked
  before the buffer ran out, no address translates differently.\<close>

theorem full_buffer_changes_nothing:
  assumes "well_formed 0x0000fffffffff000 pa g t" "d < 2 ^ 64" "map_va pa va d t = (Inl e, t')"
  shows "e = Fail OUT_OF_RESOURCES \<and> translate 0x0000fffffffff000 pa t' va' = translate 0x0000fffffffff000 pa t va'"
  using pages.step_fails [of pa g t "(va, d)" e t' va'] assms by simp

theorem full_buffer_changes_nothing_witness:
  "map_va 0x30000000 0x20000000 0x403 (empty_tables 4096 2) = (Inl (Fail OUT_OF_RESOURCES), empty_tables 4096 2)
    \<and> translate 0x0000fffffffff000 0x30000000 (empty_tables 4096 2) 0x20000000 = 0"
proof -
  have wf: "well_formed 0x0000fffffffff000 0x30000000 4096 (empty_tables 4096 2)"
    "translate 0x0000fffffffff000 0x30000000 (empty_tables 4096 2) 0x20000000 = 0"
    using empty_tables_ok [of 4096 "0x30000000" 2] by simp_all
  have levels: "[start_level 4096..<4] = [0, 1, 2, 3 :: nat]" by (simp add: start_level_def upt_rec)
  have run: "map_va 0x30000000 0x20000000 0x403 (empty_tables 4096 2) = (Inl (Fail OUT_OF_RESOURCES), empty_tables 4096 2)"
    by (simp add: map_va_def empty_tables_def levels Let_def root_table_def level_index_div page_bits_def
        index_bits_def drop_bit_eq_div tb_read_def subrange_zeros)
  from full_buffer_changes_nothing [OF wf(1) _ run, of "0x20000000"] wf(2) run show ?thesis by simp
qed

text \<open>The builder with hierarchical permissions translates like the plain one: the
  permission bits that it adds to the table descriptors change no translation.\<close>

theorem permissions_keep_translations:
  assumes "g \<in> {4096, 16384}" "pa mod g = 0" "pa + n * g \<le> 2 ^ 48"
    and "list_all (\<lambda>(va, d, parent, xn, choice). d < 2 ^ 64) ms" "length ms * depth g + 2 \<le> n"
  shows "\<exists>t. build (\<lambda>(va, d, parent, xn, choice). hier_map pa va d parent xn choice) ms (empty_tables g n) = (Inr (), t)
    \<and> (\<forall>va. translate (address_mask g) pa t va
         = requested_leaf (\<lambda>(va, d, parent, xn, choice). page_of g va) (\<lambda>(va, d, parent, xn, choice). d) ms (page_of g va) 0)"
proof (cases "2 \<le> n")
  case True
  note E = empty_tables_ok [OF assms(1-3) True]
  have "length ms * depth g \<le> room (empty_tables g n)" unfolding E(3) using assms(5) by linarith
  from hier_pages.build_succeeds [OF E(1) assms(4) this]
  obtain t where t: "build (\<lambda>(va, d, parent, xn, choice). hier_map pa va d parent xn choice) ms (empty_tables g n) = (Inr (), t)"
    by auto
  with hier_pages.build_translates [OF E(1) assms(4) t] E(2) show ?thesis by auto
qed (use assms(5) in simp)

theorem permissions_keep_translations_witness:
  "\<exists>t. build (\<lambda>(va, d, parent, xn, choice). hier_map 0x30000000 va d parent xn choice)
      [(0x20000000, 0x10004443, 3, 2, 1)] (empty_tables 16384 16) = (Inr (), t)
    \<and> translate (address_mask 16384) 0x30000000 t 0x20003ff8 = 0x10004443"
proof -
  have "\<exists>t. build (\<lambda>(va, d, parent, xn, choice). hier_map 0x30000000 va d parent xn choice)
      [(0x20000000, 0x10004443, 3, 2, 1)] (empty_tables 16384 16) = (Inr (), t)
    \<and> (\<forall>va. translate (address_mask 16384) 0x30000000 t va
         = requested_leaf (\<lambda>(va, d, parent, xn, choice). page_of 16384 va) (\<lambda>(va, d, parent, xn, choice). d)
             [(0x20000000, 0x10004443, 3 :: nat, 2 :: nat, 1 :: nat)] (page_of 16384 va) 0)"
    by (rule permissions_keep_translations) (simp_all add: depth_def start_level_def)
  then show ?thesis
    by (auto simp: page_of_def root_number_def page_bits_def index_bits_def depth_def start_level_def drop_bit_eq_div)
qed

end
