(* ===== verification/Owned_Pages.thy ===== *)
theory Owned_Pages
  imports Page_Owner Firmware_IO
begin

text \<open>
  Programs that read files and hold \<open>ArmPages\<close> (src/src/arm\_pages.rs) in nested scopes. An
  operation \<open>settles\<close> when it gives back every page allocation on every path on which it does not
  panic; a panic resets the machine without running a destructor. The lemmas compose the operations
  of the programs, so each program only shows what its own steps do.
\<close>

subsection \<open>Reading files keeps every allocation\<close>

text \<open>
  A kind of resource that reports, plain calls and the reading of files neither acquire nor release.
  The operations that are made of these only are neutral for it.
\<close>

locale quiet_events =
  fixes acq rel :: "event \<Rightarrow> 'k option"
  assumes quiet_report: "acq (EReport tag vs) = None \<and> rel (EReport tag vs) = None"
    and quiet_call: "acq (ECall tag vs st) = None \<and> rel (ECall tag vs st) = None"
    and quiet_files: "ignores_files (balance_step acq rel) held"
begin

lemma reports: "neutral acq rel (report fw tag vs)"
  unfolding report_def by (rule neutral_call) (simp_all add: quiet_report)

lemma calls: "(\<And>a. \<exists>tag vs st. ev a = ECall tag vs st) \<Longrightarrow> neutral acq rel (call f ev)"
  by (rule neutral_call) (metis quiet_call)+

lemma reads: "neutral acq rel (read_file fw io path maximum)"
  by (rule neutral_read_file) (rule quiet_files)

lemma or_reports: "neutral acq rel (or_report fw tag st r)"
  unfolding or_report_def by (intro neutral_intros reports)

lemmas quiet_intros = neutral_intros reports reads or_reports

end

interpretation page_quiet: quiet_events page_acq page_rel
  by unfold_locales (simp_all add: ignores_files_def balance_step_def page_acq_def page_rel_def)

lemmas page_neutral_read_file = page_quiet.reads

text \<open>A statement about the events of an operation that its last part establishes.\<close>

lemma extends_neutral: "neutral acq rel m \<Longrightarrow> extends m (\<lambda>_ _. True)"
  unfolding neutral_def shifts_def by (erule extends_mono) simp

lemma extends_later:
  assumes "neutral acq rel m" "\<And>a. extends (k a) Q" "\<And>r xs ys. Q r ys \<Longrightarrow> Q r (xs @ ys)"
  shows "extends (bindS m k) Q"
  by (rule extends_bindS [OF extends_neutral [OF assms(1)]]) (auto intro: extends_mono [OF assms(2)] assms(3))

lemma extends_laterE:
  assumes "neutral acq rel m" "\<And>a. extends (k a) Q" "\<And>r xs ys. Q r ys \<Longrightarrow> Q r (xs @ ys)" "\<And>e evs. Q (Inl e) evs"
  shows "extends (bindE m k) Q"
  by (rule extends_bindE [OF extends_neutral [OF assms(1)]]) (auto intro: extends_mono [OF assms(2)] assms(3,4))

subsection \<open>Scopes\<close>

definition drop_op :: "('w sys \<Rightarrow> 'w sys) \<Rightarrow> ('w, unit) op" where
  "drop_op d s = ((), d s)"

lemma scope_bindS:
  "scope m d = bindS m (\<lambda>r. if r = Inl Panic then ret r else bindS (drop_op d) (\<lambda>_. ret r))"
  by (rule ext) (auto simp: scope_def drop_op_def op_simps split: prod.splits sum.splits fault.splits)

lemma on_error_bindS:
  "on_error m d = bindS m (\<lambda>r. case r of Inl (Fail e) \<Rightarrow> bindS (drop_op d) (\<lambda>_. ret r) | _ \<Rightarrow> ret r)"
  by (rule ext) (auto simp: on_error_def drop_op_def op_simps split: prod.splits sum.splits fault.splits)

lemma failing_Inr [simp]: "fst (failing m s) = Inr a \<longleftrightarrow> fst (m s) = Inr a"
  by (auto simp: failing_def op_simps map_err_def split: prod.split sum.split)

definition settled :: "event list \<Rightarrow> bool" where
  "settled evs \<longleftrightarrow> (\<forall>held. balance page_acq page_rel evs held = Some held)"

definition settles :: "('w, status fault + 'a) op \<Rightarrow> bool" where
  "settles m \<longleftrightarrow> extends m (\<lambda>r evs. r \<noteq> Inl Panic \<longrightarrow> settled evs)"

lemma settled_append: "settled xs \<Longrightarrow> settled (xs @ ys) \<longleftrightarrow> settled ys"
  by (simp add: settled_def balance_append)

lemma settled_neutral: "neutral page_acq page_rel m \<Longrightarrow> extends m (\<lambda>_ evs. settled evs)"
  by (simp add: neutral_def shifts_def settled_def)

lemma settles_neutral: "neutral page_acq page_rel m \<Longrightarrow> settles m"
  unfolding settles_def by (rule extends_mono [OF settled_neutral]) auto

lemma settles_bindE:
  assumes "settles m" "\<And>a. settles (k a)"
  shows "settles (bindE m k)"
  unfolding settles_def
  by (rule extends_bindE [OF assms(1) [unfolded settles_def]])
    (auto simp: settled_append intro!: extends_mono [OF assms(2) [unfolded settles_def]])

lemma settles_bindS:
  assumes "neutral page_acq page_rel m" "\<And>a. settles (k a)"
  shows "settles (bindS m k)"
  unfolding settles_def
  by (rule extends_bindS [OF settled_neutral [OF assms(1)]])
    (auto simp: settled_append intro!: extends_mono [OF assms(2) [unfolded settles_def]])

lemma neutral_failing: "neutral acq rel m \<Longrightarrow> neutral acq rel (failing m)"
  unfolding failing_def by (intro neutral_intros)

lemma settles_case_option:
  "settles f \<Longrightarrow> (\<And>x. settles (g x)) \<Longrightarrow> settles (case r of None \<Rightarrow> f | Some x \<Rightarrow> g x)"
  by (cases r) simp_all

lemma settles_case_sum:
  "(\<And>x. settles (f x)) \<Longrightarrow> (\<And>x. settles (g x)) \<Longrightarrow> settles (case r of Inl x \<Rightarrow> f x | Inr x \<Rightarrow> g x)"
  by (cases r) simp_all

lemma settles_case_prod: "(\<And>x y. settles (f x y)) \<Longrightarrow> settles (case p of (x, y) \<Rightarrow> f x y)"
  by (cases p) simp

lemma settles_if: "(b \<Longrightarrow> settles m) \<Longrightarrow> (\<not> b \<Longrightarrow> settles n) \<Longrightarrow> settles (if b then m else n)"
  by simp

lemma settles_ret: "settles (ok a)" "settles (fail e)" "settles (lift r)"
  by (intro settles_neutral neutral_intros)+

lemmas settles_intros = settles_ret settles_bindE settles_bindS settles_case_option settles_case_sum settles_case_prod settles_if
  page_neutral_report page_neutral_map page_neutral_read_file neutral_query neutral_failing neutral_ret page_quiet.or_reports

text \<open>Pages that live until the end of a scope.\<close>

definition with_pages :: "'w firmware \<Rightarrow> ('w, arm_pages) res \<Rightarrow> (arm_pages \<Rightarrow> ('w, status fault + 'a) op) \<Rightarrow> ('w, status fault + 'a) op" where
  "with_pages fw alloc body = bindE (failing alloc) (\<lambda>p. scope (body p) (arm_drop fw p))"

lemma settles_with_pages:
  assumes "\<And>p. settles (body p)"
  shows "settles (with_pages fw (allocate_kind fw bytes fixed kind) body)"
proof -
  let ?own = "\<lambda>p. {#(ap_original p, ap_count p)#}"
  have alloc: "extends (failing (allocate_kind fw bytes fixed kind)) (\<lambda>r evs. \<forall>held.
      balance page_acq page_rel evs held = Some (case r of Inl _ \<Rightarrow> held | Inr p \<Rightarrow> ?own p + held))"
    unfolding failing_def
    by (rule extends_bindS [OF arm_memory.create_acquires [unfolded shifts_def]])
      (auto intro!: extends_ret simp: map_err_def arm_tokens_def split: sum.split)
  have drop: "extends (drop_op (arm_drop fw p)) (\<lambda>_ evs. \<forall>held.
      balance page_acq page_rel evs (?own p + held) = Some held)" for p
    using arm_memory.destroy_releases [of fw p] unfolding shifts_def drop_op_def arm_tokens_def by simp
  have "extends (scope (body p) (arm_drop fw p)) (\<lambda>r evs. r \<noteq> Inl Panic \<longrightarrow>
      (\<forall>held. balance page_acq page_rel evs (?own p + held) = Some held))" for p
    unfolding scope_bindS
    by (rule extends_bindS [OF assms [unfolded settles_def]])
      (auto intro!: extends_ret extends_bindS [OF drop] simp: settled_def balance_append)
  then show ?thesis
    unfolding settles_def with_pages_def
    by (intro extends_bindE [OF alloc]) (auto simp: settled_def balance_append elim!: extends_mono)
qed

end
