(* ===== verification/Kc_Stage.thy ===== *)
theory Kc_Stage
  imports Boot_Manager Owned_Pages Kernel_Entry
begin

text \<open>
  The staging instrument for a kernel collection (src/src/kc.rs): its load options select a mode
  and a path, the collection is read and loaded, and the pages are either released or first used
  to see that the readback rejects a corrupted byte. The staging plan is the parameter \<open>st\<close>.
  \<open>ko_raw\<close> and \<open>ko_text\<close> are the load options of the image's protocol, as bytes and, when they are
  a terminated UCS-2 string, as text; \<open>ko_source_base\<close> is the address of the source buffer.
\<close>

record 'w kc_io =
  ko_raw :: "nat \<Rightarrow> 'w \<Rightarrow> u8 list option"
  ko_text :: "nat \<Rightarrow> 'w \<Rightarrow> ustr option"
  ko_source_base :: "'w \<Rightarrow> nat"
  ko_reserve :: "'w \<Rightarrow> nat \<Rightarrow> bool"

abbreviation str :: "string \<Rightarrow> ustr" where
  "str s \<equiv> map of_char s"

subsection \<open>The options\<close>

text \<open>\<open>str::split_once\<close> and \<open>str::split\<close> on one character.\<close>

fun split_once :: "nat \<Rightarrow> ustr \<Rightarrow> (ustr \<times> ustr) option" where
  "split_once sep [] = None"
| "split_once sep (c # cs) =
     (if c = sep then Some ([], cs) else map_option (\<lambda>(a, b). (c # a, b)) (split_once sep cs))"

fun split_on :: "nat \<Rightarrow> ustr \<Rightarrow> ustr list" where
  "split_on sep [] = [[]]"
| "split_on sep (c # cs) =
     (if c = sep then [] # split_on sep cs
      else case split_on sep cs of [] \<Rightarrow> [[c]] | w # ws \<Rightarrow> (c # w) # ws)"

definition ascii_alnum :: "nat \<Rightarrow> bool" where
  "ascii_alnum c \<longleftrightarrow> 48 \<le> c \<and> c \<le> 57 \<or> 65 \<le> c \<and> c \<le> 90 \<or> 97 \<le> c \<and> c \<le> 122"

definition path_byte :: "nat \<Rightarrow> bool" where
  "path_byte b \<longleftrightarrow> ascii_alnum b \<or> b \<in> {0x5c, 0x2e, 0x5f, 0x2d}"

definition mode_of :: "ustr \<Rightarrow> status + bool" where
  "mode_of mode = (if mode = str ''stage'' then Inr False
     else if mode = str ''probe-readback-failure'' then Inr True else Inl UNSUPPORTED)"

definition path_rejected :: "ustr \<Rightarrow> bool" where
  "path_rejected path \<longleftrightarrow> length (utf8 path) > 1024 \<or> take 1 path \<noteq> [0x5c] \<or> length (utf8 path) < 2
     \<or> \<not> list_all path_byte (map unat (utf8 path))
     \<or> list_ex (\<lambda>c. c = [] \<or> c = [0x2e] \<or> c = [0x2e, 0x2e]) (split_on 0x5c (drop 1 path))"

definition parse_options :: "ustr \<Rightarrow> status + bool \<times> ustr" where
  "parse_options text =
     and_then (ok_or (split_once 32 text) INVALID_PARAMETER) (\<lambda>(mode, path).
     and_then (mode_of mode) (\<lambda>probe.
     if path_rejected path then Inl INVALID_PARAMETER
     else if \<not> ucs2 path then Inl INVALID_PARAMETER else Inr (probe, path)))"

definition kc_options :: "'w firmware \<Rightarrow> 'w kc_io \<Rightarrow> handle \<Rightarrow> ('w, bool \<times> ustr) res" where
  "kc_options fw ko self =
     exclusive fw self LoadedImageG (\<lambda>image.
     bindS (query (ko_raw ko image)) (\<lambda>raw.
     bindE (lift (ok_or raw INVALID_PARAMETER)) (\<lambda>raw.
     if length raw > 2 * 1100 then fail BAD_BUFFER_SIZE
     else bindS (query (ko_text ko image)) (\<lambda>text.
       bindE (lift (ok_or text INVALID_PARAMETER)) (\<lambda>text. lift (parse_options text))))))"

subsection \<open>The run\<close>

definition kc_loaded :: "'w firmware \<Rightarrow> ('p, 'v) staging \<Rightarrow> ('v \<Rightarrow> rvalue list) \<Rightarrow> bool \<Rightarrow> (nat \<Rightarrow> bool) \<Rightarrow> nat \<Rightarrow> u8 list
    \<Rightarrow> ('w, bool) res" where
  "kc_loaded fw st verified probe reserve source_base source =
     bindE (kc_load fw st reserve source_base source) (\<lambda>k.
     bindS (report fw ''NXKC: VERIFIED''
       (RNat (physical_base k) # verified (kc_verification k) @ [RNat (kc_descriptors k)])) (\<lambda>_.
     bindE (if probe then probe_readback_failure fw st k else kc_release fw k) (\<lambda>_.
     ok probe)))"

definition kc_run :: "'w firmware \<Rightarrow> 'w file_io \<Rightarrow> 'w kc_io \<Rightarrow> ('p, 'v) staging \<Rightarrow> ('v \<Rightarrow> rvalue list) \<Rightarrow> nat \<Rightarrow> handle
    \<Rightarrow> ('w, bool) res" where
  "kc_run fw io ko st verified max_input self =
     bindE (kc_options fw ko self) (\<lambda>(probe, path).
     bindS (report fw ''NXKC: OPTIONS'' [RText (if probe then ''probe-readback-failure'' else ''stage'')]) (\<lambda>_.
     bindE (read_file fw io path max_input) (\<lambda>source.
     bindS (report fw ''NXKC: SOURCE'' [RNat (length source)]) (\<lambda>_.
     bindS (query (ko_source_base ko)) (\<lambda>source_base.
     bindS (query (ko_reserve ko)) (\<lambda>reserve.
     kc_loaded fw st verified probe reserve source_base source))))))"

text \<open>The application ends in the debug port of the virtual machine; the result is the code it writes.\<close>

definition kc_main :: "'w firmware \<Rightarrow> 'w file_io \<Rightarrow> 'w kc_io \<Rightarrow> ('p, 'v) staging \<Rightarrow> ('v \<Rightarrow> rvalue list) \<Rightarrow> nat \<Rightarrow> handle
    \<Rightarrow> ('w, nat) op" where
  "kc_main fw io ko st verified max_input self =
     bindS (report fw ''NXKC: EFI_ENTRY'' []) (\<lambda>_.
     bindS (kc_run fw io ko st verified max_input self) (\<lambda>r. case r of
       Inr probe \<Rightarrow> bindS (report fw ''NXKC: DONE'' []) (\<lambda>_. ret (if probe then 0x2d else 0x2b))
     | Inl st \<Rightarrow> bindS (report fw ''NXKC: ERROR'' [RStat st]) (\<lambda>_. ret 0x2f)))"

subsection \<open>What the options accept\<close>

lemma split_once_iff:
  "split_once sep xs = Some (a, b) \<longleftrightarrow> xs = a @ sep # b \<and> sep \<notin> set a"
proof (induction xs arbitrary: a)
  case (Cons c cs)
  show ?case
  proof (cases "c = sep")
    case False
    with Cons.IH [of "tl a"] show ?thesis by (cases a) auto
  qed (cases a; auto)
qed simp

text \<open>The inverse of \<open>split_on\<close>: the components joined by the separator.\<close>

fun join_on :: "nat \<Rightarrow> ustr list \<Rightarrow> ustr" where
  "join_on sep [] = []"
| "join_on sep [w] = w"
| "join_on sep (w # v # ws) = w @ sep # join_on sep (v # ws)"

lemma split_on_nonempty: "split_on sep xs \<noteq> []"
  by (cases xs) (auto split: list.split)

lemma join_split: "join_on sep (split_on sep xs) = xs"
proof (induction xs)
  case (Cons c cs)
  then show ?case
    using split_on_nonempty [of sep cs]
    by (cases "split_on sep cs"; cases "tl (split_on sep cs)") auto
qed simp

lemma split_free: "w \<in> set (split_on sep xs) \<Longrightarrow> sep \<notin> set w"
proof (induction xs arbitrary: w)
  case (Cons c cs)
  then show ?case using split_on_nonempty [of sep cs]
    by (cases "split_on sep cs") (auto split: if_splits)
qed simp

lemma split_word: "sep \<notin> set w \<Longrightarrow> split_on sep w = [w]"
  by (induction w) auto

lemma split_append: "sep \<notin> set w \<Longrightarrow> split_on sep (w @ sep # xs) = w # split_on sep xs"
  by (induction w) auto

lemma split_join: "ws \<noteq> [] \<Longrightarrow> \<forall>w \<in> set ws. sep \<notin> set w \<Longrightarrow> split_on sep (join_on sep ws) = ws"
  by (induction sep ws rule: join_on.induct) (auto simp: split_word split_append)

lemma utf8_ascii: "list_all (\<lambda>c. c < 0x80) xs \<Longrightarrow> utf8 xs = map of_nat xs"
  by (induction xs) auto

lemma path_byte_small: "path_byte c \<Longrightarrow> c < 0x80"
  by (auto simp: path_byte_def ascii_alnum_def)

lemma path_bytes: "ucs2 path \<Longrightarrow> list_all path_byte (map unat (utf8 path)) \<longleftrightarrow> list_all path_byte path"
proof (induction path)
  case (Cons c cs)
  then have c: "c < 0x10000" "ucs2 cs" by (simp_all add: ucs2_def)
  show ?case
  proof (cases "c < 0x80")
    case True
    with Cons c(2) show ?thesis by simp
  next
    case False
    with path_byte_small have no: "\<not> path_byte c" by blast
    show ?thesis
    proof (cases "c < 0x800")
      case True
      then have "192 + c div 64 < 256" by simp
      moreover have "\<not> path_byte (192 + c div 64)" using path_byte_small [of "192 + c div 64"] by auto
      moreover have "unat (192 + of_nat (c div 64) :: u8) = 192 + c div 64"
        using unat_of_nat_byte [of "192 + c div 64"] calculation(1) by simp
      ultimately show ?thesis using False True no by simp
    next
      case big: False
      have "224 + c div 4096 < 256" using c(1) by simp
      moreover have "\<not> path_byte (224 + c div 4096)" using path_byte_small [of "224 + c div 4096"] by auto
      moreover have "unat (224 + of_nat (c div 4096) :: u8) = 224 + c div 4096"
        using unat_of_nat_byte [of "224 + c div 4096"] calculation(1) by simp
      ultimately show ?thesis using False big c(1) no by simp
    qed
  qed
qed simp

definition component :: "ustr \<Rightarrow> bool" where
  "component w \<longleftrightarrow> w \<notin> {[], [0x2e], [0x2e, 0x2e]} \<and> list_all (\<lambda>c. path_byte c \<and> c \<noteq> 0x5c) w"

text \<open>A path of at least one component, each preceded by a backslash.\<close>

definition safe_path :: "ustr \<Rightarrow> bool" where
  "safe_path path \<longleftrightarrow> (\<exists>ws. ws \<noteq> [] \<and> list_all component ws \<and> path = 0x5c # join_on 0x5c ws) \<and> length path \<le> 1024"

lemma join_bytes: "list_all path_byte (join_on 0x5c ws) \<longleftrightarrow> list_all (list_all path_byte) ws"
  by (induction "0x5c :: nat" ws rule: join_on.induct) (auto simp: path_byte_def)

lemma join_parts: "list_all component ws \<Longrightarrow> list_all path_byte (join_on 0x5c ws)"
  unfolding join_bytes by (auto simp: component_def list_all_iff)

lemma ascii_ucs2: "list_all path_byte path \<Longrightarrow> ucs2 path"
  using path_byte_small by (force simp: ucs2_def list_all_iff path_byte_def ascii_alnum_def)

lemma component_split:
  assumes "list_all path_byte p"
  shows "(\<not> list_ex (\<lambda>c. c = [] \<or> c = [0x2e] \<or> c = [0x2e, 0x2e]) (split_on 0x5c p)) = list_all component (split_on 0x5c p)"
proof -
  have "list_all (list_all path_byte) (split_on 0x5c p)"
    using assms join_bytes [of "split_on 0x5c p"] by (simp add: join_split)
  then have "list_all (\<lambda>c. path_byte c \<and> c \<noteq> 0x5c) w" if "w \<in> set (split_on 0x5c p)" for w
    using that split_free [OF that] by (auto simp: list_all_iff)
  then show ?thesis by (auto simp: list_ex_iff list_all_iff component_def)
qed

lemma path_accepted: "\<not> path_rejected path \<and> ucs2 path \<longleftrightarrow> safe_path path"
proof
  assume a: "\<not> path_rejected path \<and> ucs2 path"
  then have bytes: "list_all path_byte path" using path_bytes [of path] by (simp add: path_rejected_def)
  then have u: "utf8 path = map of_nat path"
    by (intro utf8_ascii) (auto simp: list_all_iff dest: path_byte_small)
  from a obtain p where p: "path = 0x5c # p" by (cases path) (auto simp: path_rejected_def)
  with bytes have "list_all path_byte p" by simp
  from component_split [OF this] a p have "list_all component (split_on 0x5c p)" by (simp add: path_rejected_def)
  moreover have "p = join_on 0x5c (split_on 0x5c p)" by (simp add: join_split)
  moreover have "length path \<le> 1024" using a u by (simp add: path_rejected_def)
  ultimately show "safe_path path" using split_on_nonempty p unfolding safe_path_def by blast
next
  assume "safe_path path"
  then obtain ws where ws: "ws \<noteq> []" "list_all component ws" "path = 0x5c # join_on 0x5c ws" and len: "length path \<le> 1024"
    by (auto simp: safe_path_def)
  have bytes: "list_all path_byte path" using join_parts [OF ws(2)] by (simp add: ws(3) path_byte_def)
  then have u: "utf8 path = map of_nat path"
    by (intro utf8_ascii) (auto simp: list_all_iff dest: path_byte_small)
  have s: "split_on 0x5c (join_on 0x5c ws) = ws"
    by (rule split_join [OF ws(1)]) (use ws(2) in \<open>auto simp: list_all_iff component_def\<close>)
  have ne: "join_on 0x5c ws \<noteq> []" using s ws by (metis component_def list.set_intros(1) list_all_iff split_on.simps(1) insertI1)
  then have "2 \<le> length path" by (cases "join_on 0x5c ws") (simp_all add: ws(3))
  moreover have "list_all path_byte (map unat (utf8 path))" using path_bytes [OF ascii_ucs2 [OF bytes]] bytes by simp
  moreover have "\<not> list_ex (\<lambda>c. c = [] \<or> c = [0x2e] \<or> c = [0x2e, 0x2e]) (split_on 0x5c (drop 1 path))"
    using ws s by (auto simp: list_ex_iff list_all_iff component_def)
  ultimately have "\<not> path_rejected path" using len u ne by (simp add: path_rejected_def ws(3))
  with ascii_ucs2 [OF bytes] show "\<not> path_rejected path \<and> ucs2 path" by simp
qed

definition mode_text :: "bool \<Rightarrow> ustr" where
  "mode_text probe = str (if probe then ''probe-readback-failure'' else ''stage'')"

lemma mode_of_Inr: "mode_of mode = Inr probe \<longleftrightarrow> mode = mode_text probe"
  by (auto simp: mode_of_def mode_text_def)

lemma mode_has_no_space: "32 \<notin> set (mode_text probe)"
  by (simp add: mode_text_def)

subsection \<open>What the run gives back and what it has seen\<close>

lemma page_neutral_exclusive:
  assumes "\<And>i. neutral page_acq page_rel (body i)"
  shows "neutral page_acq page_rel (exclusive fw h g body)"
proof -
  have "neutral page_acq page_rel (open_protocol fw h g)"
    unfolding open_protocol_def by (rule neutral_call) (auto simp: page_acq_def page_rel_def split: prod.split)
  moreover have "neutral page_acq page_rel (with_drop (body i) (scoped_drop fw h g))" for i
  proof -
    have "neutral page_acq page_rel (close_protocol fw h g)"
      unfolding close_protocol_def by (rule neutral_call) (auto simp: page_acq_def page_rel_def)
    then show ?thesis unfolding with_drop_bindS scoped_drop_op by (intro neutral_intros assms)
  qed
  ultimately show ?thesis unfolding exclusive_def by (intro neutral_intros)
qed

lemma page_neutral_options: "neutral page_acq page_rel (kc_options fw ko self)"
  unfolding kc_options_def by (intro page_neutral_exclusive neutral_intros)

lemma shifts_probe_readback: "shifts page_acq page_rel (probe_readback_failure fw st k) (kc_tokens k) (\<lambda>_. {#})"
  unfolding probe_readback_failure_def Let_def
  by (rule shifts_with_drop [OF _ kc_drop_gives_up]) (auto intro!: shifts_neutral neutral_intros page_neutral_report)

lemma page_neutral_loaded: "neutral page_acq page_rel (kc_loaded fw st verified probe reserve b source)"
  unfolding kc_loaded_def neutral_def
  by (intro shifts_bindE [OF shifts_kc_load] shifts_bindS_neutral page_neutral_report shifts_bindE [where mid = "\<lambda>_. {#}"])
    (auto simp: shifts_probe_readback shifts_kc_release intro: shifts_ok)

lemmas kc_neutral = page_neutral_options page_neutral_read_file page_neutral_report page_neutral_loaded

lemma page_neutral_kc_run: "neutral page_acq page_rel (kc_run fw io ko st verified max_input self)"
  unfolding kc_run_def by (intro neutral_intros kc_neutral)

text \<open>What a mode has to show before the run succeeds in it.\<close>

definition evidence :: "bool \<Rightarrow> event list \<Rightarrow> bool" where
  "evidence probe evs \<longleftrightarrow> (if probe then EReport ''NXKC: READBACK_REJECTION_OK'' [] \<in> set evs
     else \<exists>b n. EFreePages b n SUCCESS \<in> set evs)"

definition shown :: "status + bool \<Rightarrow> event list \<Rightarrow> bool" where
  "shown r evs \<longleftrightarrow> (case r of Inl _ \<Rightarrow> True | Inr probe \<Rightarrow> evidence probe evs)"

lemma shown_later: "shown r ys \<Longrightarrow> shown r (xs @ ys)"
  by (auto simp: shown_def evidence_def split: sum.splits if_splits)

lemma rejection_shown: "extends (probe_readback_failure fw st k) (\<lambda>r evs. is_ok r \<longrightarrow> evidence True evs)"
proof -
  have body: "extends (if st_verify st (kc_plan k) memory \<noteq> ReadbackMismatch then fail DEVICE_ERROR
      else bindS (report fw ''NXKC: READBACK_REJECTION_OK'' []) (\<lambda>_. ok ())) (\<lambda>r evs. is_ok r \<longrightarrow> evidence True evs)" for memory
    by (auto intro!: extends_fail extends_bindS extends_ok simp: report_def evidence_def)
      (rule extends_call, simp)
  have "extends (\<lambda>s. ((), kc_drop fw k s)) (\<lambda>_ _. True)"
    using kc_drop_gives_up [of fw k] unfolding shifts_def by (rule extends_mono) simp
  then show ?thesis
    unfolding probe_readback_failure_def Let_def with_drop_bindS
    by (intro extends_bindS [OF body] extends_bindS [where P = "\<lambda>_ _. True"] extends_ret)
      (auto simp: evidence_def)
qed

lemma release_shown:
  assumes "pg_pointer (kc_pages k) = Some base"
  shows "extends (kc_release fw k) (\<lambda>r evs. is_ok r \<longrightarrow> evidence False evs)"
proof -
  have "extends (\<lambda>s. ((), pages_drop fw p s)) (\<lambda>_ _. True)" for p
    using pages_drop_gives_up [of p _ fw] unfolding shifts_def by (rule extends_mono) auto
  then have drop: "extends (with_drop (ret r) (pages_drop fw p)) (\<lambda>r' _. r' = r)" for r :: "status + unit" and p
    unfolding with_drop_bindS
    by (intro extends_bindS [where P = "\<lambda>a _. a = r"] extends_bindS [where P = "\<lambda>_ _. True"] extends_ret) simp_all
  show ?thesis
    unfolding kc_release_def
    by (rule extends_bindS [OF release_inner_events [OF assms]])
      (auto intro!: extends_mono [OF drop] simp: evidence_def, blast+)
qed

lemma loaded_has_pages:
  "extends (kc_load fw st reserve b source) (\<lambda>r evs. \<forall>k. r = Inr k \<longrightarrow> (\<exists>base. pg_pointer (kc_pages k) = Some base))"
proof -
  have "extends (kc_load fw st reserve b source) (\<lambda>_ _. True)"
    using shifts_kc_load unfolding shifts_def by (rule extends_mono) simp
  moreover have "\<exists>base. pg_pointer (kc_pages k) = Some base" if "fst (kc_load fw st reserve b source s) = Inr k" for s k
    using kc_load_sound [of fw st reserve b source s k "snd (kc_load fw st reserve b source s)"] that
    by (auto simp: kc_sound_def Let_def prod_eq_iff)
  ultimately show ?thesis unfolding extends_def by blast
qed

lemma shown_loaded:
  fixes st :: "('p, 'v) staging"
  shows "extends (kc_loaded fw st verified probe reserve b source) shown"
  unfolding kc_loaded_def
proof (rule extends_bindE [OF loaded_has_pages], simp add: shown_def)
  fix k :: "('p, 'v) loaded_kc" and evs
  assume "\<forall>k'. Inr k = Inr k' \<longrightarrow> (\<exists>base. pg_pointer (kc_pages k') = Some base)"
  then obtain base where base: "pg_pointer (kc_pages k) = Some base" by blast
  have "extends (bindE (if probe then probe_readback_failure fw st k else kc_release fw k) (\<lambda>_. ok probe)) shown"
    by (cases probe)
      (auto intro!: extends_bindE [OF rejection_shown] extends_bindE [OF release_shown [OF base]] extends_ok simp: shown_def)
  then have "extends (bindS (report fw m vs) (\<lambda>_.
      bindE (if probe then probe_readback_failure fw st k else kc_release fw k) (\<lambda>_. ok probe))) shown" for m vs
    by (intro extends_later [OF page_neutral_report] shown_later)
  then show "extends (bindS (report fw ''NXKC: VERIFIED''
      (RNat (physical_base k) # verified (kc_verification k) @ [RNat (kc_descriptors k)])) (\<lambda>_.
      bindE (if probe then probe_readback_failure fw st k else kc_release fw k) (\<lambda>_. ok probe)))
    (\<lambda>r evs'. shown r (evs @ evs'))"
    by (rule extends_mono) (rule shown_later)
qed

lemma shown_run: "extends (kc_run fw io ko st verified max_input self) shown"
proof -
  note bindS = extends_later [where Q = shown] and bindE = extends_laterE [where Q = shown]
  have error: "shown (Inl e) evs" for e evs by (simp add: shown_def)
  show ?thesis
    unfolding kc_run_def case_prod_beta
    by (rule bindE [OF page_neutral_options _ shown_later error] bindS [OF page_neutral_report _ shown_later]
        bindE [OF page_neutral_read_file _ shown_later error] bindS [OF neutral_query _ shown_later] shown_loaded
      | assumption)+
qed

subsection \<open>Properties\<close>

text \<open>Property C27: the options are accepted exactly when they are one of the two modes, a space, and a
  path of at most 1024 characters that consists of non-empty components of letters, digits, dots,
  underscores and hyphens, each preceded by a backslash, none of them a dot or two dots.\<close>

theorem options_accept_safe_paths:
  "parse_options text = Inr (probe, path) \<longleftrightarrow> text = mode_text probe @ 32 # path \<and> safe_path path"
proof -
  have "parse_options text = Inr (probe, path) \<longleftrightarrow>
      split_once 32 text = Some (mode_text probe, path) \<and> \<not> path_rejected path \<and> ucs2 path"
    by (auto simp: parse_options_def and_then_Inr mode_of_Inr split: prod.splits)
  then show ?thesis using mode_has_no_space by (simp add: split_once_iff path_accepted)
qed

text \<open>Property C28: the code written to the debug port is evidence. Whatever fails, every page is given
  back; the code of the staging mode means that the pages were freed successfully, and the code of
  the probe mode that the readback rejected the corrupted collection.\<close>

theorem exit_code_is_evidence:
  "extends (kc_main fw io ko st verified max_input self) (\<lambda>code evs.
     (\<forall>held. balance page_acq page_rel evs held = Some held)
     \<and> (code = 0x2f \<or> code = 0x2d \<and> EReport ''NXKC: READBACK_REJECTION_OK'' [] \<in> set evs
        \<or> code = 0x2b \<and> (\<exists>b n. EFreePages b n SUCCESS \<in> set evs)))"
proof (rule extends_conj)
  have "neutral page_acq page_rel (kc_main fw io ko st verified max_input self)"
    unfolding kc_main_def by (intro neutral_intros kc_neutral page_neutral_kc_run)
  then show "extends (kc_main fw io ko st verified max_input self) (\<lambda>code evs.
      \<forall>held. balance page_acq page_rel evs held = Some held)"
    unfolding neutral_def shifts_def by simp
next
  let ?Q = "\<lambda>code evs. code = 0x2f \<or> code = 0x2d \<and> evidence True evs \<or> code = 0x2b \<and> evidence False evs"
  have step: "extends (bindS (report fw m vs) (\<lambda>_. ret code)) (\<lambda>c evs. c = code)" for m vs and code :: nat
    by (rule extends_bindS [OF extends_neutral [OF page_neutral_report]]) (rule extends_ret, rule refl)
  have "extends (kc_main fw io ko st verified max_input self) ?Q"
    unfolding kc_main_def
    by (rule extends_bindS [OF extends_neutral [OF page_neutral_report]], rule extends_bindS [OF shown_run])
      (auto simp: shown_def evidence_def intro!: extends_mono [OF step] split: sum.splits if_splits)
  then show "extends (kc_main fw io ko st verified max_input self) (\<lambda>code evs.
      code = 0x2f \<or> code = 0x2d \<and> EReport ''NXKC: READBACK_REJECTION_OK'' [] \<in> set evs
      \<or> code = 0x2b \<and> (\<exists>b n. EFreePages b n SUCCESS \<in> set evs))"
    by (simp add: evidence_def)
qed

end
