(* ===== verification/Arm_Entry.thy ===== *)
theory Arm_Entry
  imports Kernel_Entry Owned_Pages
begin

text \<open>
  The AArch64 boot application (src/src/arm64.rs) and the checks of its transition
  (src/src/arm\_transition.rs). It validates a kernel collection; the production build stages it
  into owned pages and stops, the probe build places it at its physical address, checks the
  translation of every page and hands over after ExitBootServices. The parsers, the staging plan
  and the handoff plan of the core library are parameters; so are the processor's registers, which
  the sources read with inline assembly. An operation that ends in \<open>Entered\<close> or \<open>Halted\<close> does not
  return.
\<close>

datatype kernel_profile = XnuArm64Uefi | QemuVirtArm64Probe | X86EfiArm64Trace | X86EfiArm64JitProbe | OtherProfile nat

record arm_target =
  at_path :: ustr
  at_arguments :: ustr
  at_profile :: kernel_profile

record staging_report =
  sr_arena_bytes :: nat
  sr_copied_bytes :: nat
  sr_zero_tail_bytes :: nat
  sr_hole_bytes :: nat

text \<open>The configuration parser and the staging plan of a kernel collection.\<close>

record 'p collection_core =
  cc_target :: "u8 list \<Rightarrow> string + arm_target"
  cc_max_input :: nat
  cc_new :: "u8 list \<Rightarrow> string + 'p"
  cc_subtype :: "'p \<Rightarrow> nat"
  cc_arena :: "'p \<Rightarrow> nat"
  cc_stage_into :: "'p \<Rightarrow> u8 list \<Rightarrow> staging_report option \<times> u8 list"

text \<open>The input of a handoff plan; its video description is the default one.\<close>

record placement =
  pi_physical_base :: nat
  pi_virtual_base :: nat
  pi_memory_size :: nat
  pi_actual_memory_size :: nat
  pi_kernel_phys :: nat
  pi_device_tree :: "u8 list"
  pi_command_line :: ustr
  pi_machine_type :: nat
  pi_boot_flags :: nat

record handoff_layout =
  la_allocation_bytes :: nat
  la_kernel_phys :: nat
  la_boot_args_phys :: nat
  la_entry_phys :: nat
  la_stack_top_phys :: nat
  la_occupied_end :: nat

record 'h handoff_core =
  hc_encode :: "flat_node \<Rightarrow> u8 list option"
  hc_plan :: "u8 list \<Rightarrow> placement \<Rightarrow> string + 'h"
  hc_layout :: "'h \<Rightarrow> handoff_layout"
  hc_stage_into :: "'h \<Rightarrow> u8 list \<Rightarrow> staging_report option \<times> u8 list"

subsection \<open>The processor's state\<close>

text \<open>\<open>cp_par a\<close> is PAR\_EL1 after a translation of address \<open>a\<close> for reading at EL1.\<close>

record cpu =
  cp_current_el :: u64
  cp_sctlr :: u64
  cp_features :: u64
  cp_par :: "u64 \<Rightarrow> u64"
  cp_code_start :: nat
  cp_code_end :: nat

definition identity :: "cpu \<Rightarrow> u64 \<Rightarrow> bool" where
  "identity c address \<longleftrightarrow> (let translated = cp_par c address in
     translated AND 1 = 0 \<and> translated AND 0x0000fffffffff000 = address AND NOT 4095)"

text \<open>The addresses from \<open>first\<close> below \<open>stop\<close> in steps of a page.\<close>

definition page_steps :: "nat \<Rightarrow> nat \<Rightarrow> nat list" where
  "page_steps first stop = map (\<lambda>i. first + 4096 * i) [0..<(stop - first + 4095) div 4096]"

definition preflight :: "cpu \<Rightarrow> nat \<Rightarrow> nat \<Rightarrow> status + unit" where
  "preflight c base bytes =
     (if cp_current_el c \<noteq> 4 then Inl UNSUPPORTED
      else if cp_sctlr c AND push_bit 25 1 \<noteq> 0 \<or> drop_bit 20 (cp_features c) AND 15 \<noteq> 0 then Inl UNSUPPORTED
      else and_then (ok_or (checked_add base bytes) INVALID_PARAMETER) (\<lambda>stop.
        if bytes = 0 \<or> base mod 4096 \<noteq> 0 \<or> bytes mod 4096 \<noteq> 0 \<or> stop > 2 ^ 48 then Inl INVALID_PARAMETER
        else if cp_sctlr c AND 1 = 0 then Inr ()
        else if list_ex (\<lambda>page. \<not> identity c (of_nat page)) (page_steps base stop) then Inl UNSUPPORTED
        else if list_ex (\<lambda>page. \<not> identity c (of_nat page))
            (page_steps (cp_code_start c div 4096 * 4096) (cp_code_end c + 1)) then Inl UNSUPPORTED
        else Inr ()))"

subsection \<open>Staging\<close>

definition staging_verified :: "staging_report \<Rightarrow> rvalue list" where
  "staging_verified v = [RNat (sr_arena_bytes v), RNat (sr_copied_bytes v), RNat (sr_zero_tail_bytes v), RNat (sr_hole_bytes v)]"

definition arm_staging :: "'w firmware \<Rightarrow> 'p collection_core \<Rightarrow> 'p \<Rightarrow> ('w, status fault + unit) op" where
  "arm_staging fw cc stage =
     with_pages fw (allocate_data fw (cc_arena cc stage)) (\<lambda>pages.
       case cc_stage_into cc stage (ap_memory pages) of
         (None, _) \<Rightarrow> fails COMPROMISED_DATA
       | (Some v, _) \<Rightarrow>
           bindS (report fw ''NXARM: STAGING_VERIFIED'' (staging_verified v)) (\<lambda>_.
           bindS (report fw ''NXARM: PROVIDERS_PENDING'' []) (\<lambda>_. fails NOT_READY)))"

subsection \<open>The probe\<close>

definition RAM_BASE :: nat where "RAM_BASE = 0x40000000"
definition RAM_SIZE :: nat where "RAM_SIZE = 0x20000000"
definition KERNEL_BASE :: nat where "KERNEL_BASE = 0x42000000"
definition VIRTUAL_BASE :: nat where "VIRTUAL_BASE = 0xfffffe0000000000"

definition arm_tree :: "ustr \<Rightarrow> flat_node" where
  "arm_tree arguments = FlatNode [] [] [FlatNode ''chosen''
     [(''dram-base'', le_bytes 8 RAM_BASE), (''dram-size'', le_bytes 8 RAM_SIZE), (''boot-args'', utf8 arguments @ [0])] []]"

definition arm_placement :: "u8 list \<Rightarrow> ustr \<Rightarrow> placement" where
  "arm_placement dt arguments = \<lparr>pi_physical_base = RAM_BASE, pi_virtual_base = VIRTUAL_BASE, pi_memory_size = RAM_SIZE,
     pi_actual_memory_size = RAM_SIZE, pi_kernel_phys = KERNEL_BASE, pi_device_tree = dt, pi_command_line = arguments,
     pi_machine_type = 0, pi_boot_flags = 0\<rparr>"

text \<open>\<open>ArmPages::validate_map\<close> on the map that is passed.\<close>

definition pages_validate :: "arm_pages \<Rightarrow> map_meta \<times> descriptor list \<Rightarrow> status + unit" where
  "pages_validate p = (\<lambda>(meta, ds). validate_map DESCRIPTOR_BYTES (ap_base p) (ap_bytes p) (ap_type p) meta ds)"

text \<open>The end of the probe: the pages and the final map are kept and the kernel is entered, or the processor halts.\<close>

datatype departure = Entered nat nat nat arm_pages "map_meta \<times> descriptor list" | Halted

text \<open>What happens with the owned pages while boot services run.\<close>

definition probe_staging :: "'w firmware \<Rightarrow> 'h handoff_core \<Rightarrow> cpu \<Rightarrow> 'h \<Rightarrow> arm_pages \<Rightarrow> ('w, arm_pages) res" where
  "probe_staging fw hc cpu plan pages = (case hc_stage_into hc plan (ap_memory pages) of
     (None, _) \<Rightarrow> fail COMPROMISED_DATA
   | (Some v, memory) \<Rightarrow>
       bindS (report fw ''NXARM: STAGING_VERIFIED'' (staging_verified v)) (\<lambda>_.
       case preflight cpu (ap_base pages) (ap_bytes pages) of
         Inl st \<Rightarrow> bindS (report fw ''NXARM: CPU_PREFLIGHT_REJECTED'' []) (\<lambda>_. fail st)
       | Inr _ \<Rightarrow>
           bindS (report fw ''NXARM: PROBE_ONLY'' []) (\<lambda>_.
           bindS (report fw ''NXARM: HANDOFF_READY'' [RNat (la_boot_args_phys (hc_layout hc plan)),
               RNat (la_entry_phys (hc_layout hc plan)), RNat (la_stack_top_phys (hc_layout hc plan))]) (\<lambda>_.
           bindE (memory_map fw) (\<lambda>preview.
           bindE (lift (pages_validate pages preview)) (\<lambda>_.
           bindS (report fw ''NXARM: EXIT_BOOT_SERVICES'' []) (\<lambda>_.
           ok (pages\<lparr>ap_memory := memory\<rparr>))))))))"

definition arm_exit :: "('w \<Rightarrow> (map_meta \<times> descriptor list) \<times> 'w) \<Rightarrow> ('w, map_meta \<times> descriptor list) op" where
  "arm_exit leave = call leave (\<lambda>_. ECall ''exit_boot_services'' [] SUCCESS)"

definition arm_probe :: "'w firmware \<Rightarrow> 'h handoff_core \<Rightarrow> cpu \<Rightarrow> ('w \<Rightarrow> (map_meta \<times> descriptor list) \<times> 'w)
    \<Rightarrow> u8 list \<Rightarrow> ustr \<Rightarrow> ('w, status fault + departure) op" where
  "arm_probe fw hc cpu leave source arguments =
     bindE (failing (lift (ok_or (hc_encode hc (arm_tree arguments)) INVALID_PARAMETER))) (\<lambda>dt.
     bindE (failing (or_report fw ''NXARM: PLACEMENT_INVALID'' LOAD_ERROR
       (hc_plan hc source (arm_placement dt arguments)))) (\<lambda>plan.
     let layout = hc_layout hc plan in
     bindE (failing (allocate fw (la_allocation_bytes layout) (Some (la_kernel_phys layout)))) (\<lambda>pages.
     bindE (on_error (failing (probe_staging fw hc cpu plan pages)) (arm_drop fw pages)) (\<lambda>pages.
     bindS (arm_exit leave) (\<lambda>final_map.
     ok (if pages_validate pages final_map \<noteq> Inr () then Halted
         else Entered (la_boot_args_phys layout) (la_entry_phys layout) (la_stack_top_phys layout) pages final_map))))))"

subsection \<open>The application\<close>

definition ARM_MARKER :: "u8 list" where
  "ARM_MARKER = map of_char ''NEXTCORE_AUTHORED_ARM64_HANDOFF_V1''"

text \<open>\<open>windows(n).filter(== m).count()\<close>\<close>

definition occurrences :: "u8 list \<Rightarrow> u8 list \<Rightarrow> nat" where
  "occurrences m s = length (filter (\<lambda>i. take (length m) (drop i s) = m) [0..<length s + 1 - length m])"

text \<open>\<open>probe\<close> is set in the build with the feature arm-kernel-probe.\<close>

definition arm_run :: "bool \<Rightarrow> 'w firmware \<Rightarrow> 'w file_io \<Rightarrow> 'p collection_core \<Rightarrow> 'h handoff_core \<Rightarrow> cpu
    \<Rightarrow> ('w \<Rightarrow> (map_meta \<times> descriptor list) \<times> 'w) \<Rightarrow> ('w, status fault + departure option) op" where
  "arm_run probe fw io cc hc cpu leave =
     bindE (failing (read_file fw io config_path (1024 * 1024))) (\<lambda>config.
     bindE (failing (or_report fw ''NXARM: CONFIG_INVALID'' INVALID_PARAMETER (cc_target cc config))) (\<lambda>target.
     bindS (report fw ''NXARM: CONFIG_PARSED'' []) (\<lambda>_.
     if \<not> ucs2 (at_path target) then fails INVALID_PARAMETER
     else bindE (failing (read_file fw io (at_path target) (cc_max_input cc))) (\<lambda>source.
     bindE (failing (or_report fw ''NXARM: KC_INVALID'' LOAD_ERROR (cc_new cc source))) (\<lambda>stage.
     bindS (report fw ''NXARM: KC_VALIDATED'' [RNat (cc_subtype cc stage), RNat (cc_arena cc stage)]) (\<lambda>_.
     if probe \<and> at_profile target = QemuVirtArm64Probe then
       if cc_subtype cc stage \<noteq> 0 \<or> occurrences ARM_MARKER source \<noteq> 1 then
         bindS (report fw ''NXARM: FIXTURE_REJECTED'' []) (\<lambda>_. fails UNSUPPORTED)
       else bindE (arm_probe fw hc cpu leave source (at_arguments target)) (\<lambda>d. ok (Some d))
     else bindE (arm_staging fw cc stage) (\<lambda>_. ok None)))))))"

text \<open>The result is the status returned to the firmware, or the departure that never returns.\<close>

definition arm_main :: "bool \<Rightarrow> bool \<Rightarrow> 'w firmware \<Rightarrow> ('w, status fault + departure option) op
    \<Rightarrow> ('w, status fault + status + departure) op" where
  "arm_main initialized aarch64 fw body =
     (if \<not> initialized then ok (Inl NOT_READY)
      else bindS (report fw ''NXARM: EFI_ENTRY'' []) (\<lambda>_.
        if \<not> aarch64 then bindS (report fw ''NXARM: UNSUPPORTED_ARCHITECTURE'' []) (\<lambda>_. ok (Inl UNSUPPORTED))
        else bindS body (\<lambda>r. case r of
          Inr None \<Rightarrow> ok (Inl SUCCESS)
        | Inr (Some d) \<Rightarrow> ok (Inr d)
        | Inl Panic \<Rightarrow> fail Panic
        | Inl (Fail st) \<Rightarrow> bindS (report fw ''NXARM: ERROR'' [RStat st]) (\<lambda>_. ok (Inl st)))))"

subsection \<open>The phases of the boot\<close>

abbreviation arm_owning :: "arm_pages \<Rightarrow> phase" where
  "arm_owning p \<equiv> Running (Some (ap_original p, ap_count p))"

lemma phased_free:
  "phased (drop_op (arm_drop fw p)) (arm_owning p) (\<lambda>_ q. q = Running None)"
proof -
  have "phased (free_pages fw (ap_original p) (ap_count p)) (arm_owning p) (\<lambda>_ q. q = Running None)"
    unfolding free_pages_def by (rule moves_call) (simp add: phase_step_def)
  then show ?thesis by (auto simp: moves_def extends_def arm_drop_def drop_op_def)
qed

lemma phased_allocate: "phased (failing (allocate_kind fw bytes fixed kind)) (Running None) (kept arm_owning)"
proof -
  have alloc: "phased (allocate_pages fw at mt n) (Running None)
      (\<lambda>r q. q = (case r of Inl _ \<Rightarrow> Running None | Inr p \<Rightarrow> Running (Some (p, n))))" for at mt n
    unfolding allocate_pages_def by (rule moves_call) (simp add: phase_step_def split: sum.split)
  have drop: "phased (with_drop (fail e) (arm_drop fw p)) (arm_owning p) (\<lambda>r q. q = (case r of Inl _ \<Rightarrow> Running None | Inr p \<Rightarrow> arm_owning p))"
    for e :: status and p
    unfolding with_drop_bindS drop_op_def [symmetric]
    by (rule moves_bindS [where mid = "\<lambda>r q. r = Inl e \<and> q = arm_owning p"])
      (auto intro: moves_fail intro!: moves_bindS [OF phased_free] moves_ret)
  have own: "phased (allocate_kind fw bytes fixed kind) (Running None)
      (\<lambda>r q. q = (case r of Inl _ \<Rightarrow> Running None | Inr p \<Rightarrow> arm_owning p))"
    unfolding allocate_kind_def Let_def
    by (auto intro!: moves_fail moves_ret moves_bindE [OF moves_ret [where P = "\<lambda>_ q. q = Running None"]] moves_bindE [OF alloc]
       moves_ok moves_then [OF steady_memory_map] drop [where p = "\<lparr>ap_original = a, ap_count = b, ap_base = c, ap_bytes = d, ap_type = e, ap_memory = f\<rparr>" for a b c d e f, simplified]
       simp: lift_def split: sum.split)
  show ?thesis
    unfolding failing_def by (rule moves_bindS [OF own]) (auto intro!: moves_ret simp: map_err_def split: sum.split)
qed

lemma phased_release:
  assumes "steady (Some (ap_original p, ap_count p)) m"
  shows "phased (on_error (failing m) (arm_drop fw p)) (arm_owning p) (kept (\<lambda>_. arm_owning p))"
proof -
  have eq: "on_error (failing m) (arm_drop fw p) =
      bindS m (\<lambda>r. case r of Inl e \<Rightarrow> bindS (drop_op (arm_drop fw p)) (\<lambda>_. fail (Fail e)) | Inr a \<Rightarrow> ok a)"
    by (rule ext) (auto simp: on_error_def failing_def drop_op_def op_simps split: prod.split sum.split)
  show ?thesis
    unfolding eq by (rule moves_then [OF assms]) (auto intro!: moves_bindS [OF phased_free] moves_fail moves_ok split: sum.split)
qed

lemma phased_with_pages:
  assumes "\<And>p. phased (body p) (arm_owning p) (\<lambda>_ q. q = arm_owning p)"
  shows "phased (with_pages fw (allocate_kind fw bytes fixed kind) body) (Running None) (kept (\<lambda>_. Running None))"
  unfolding with_pages_def scope_bindS
  by (rule phased_bindE [OF phased_allocate])
    (auto intro!: moves_bindS [OF assms] moves_bindS [OF phased_free] moves_ret simp: kept_def split: sum.split fault.split)

lemma steady_or_report: "steady pages (or_report fw tag st r)"
  unfolding or_report_def by (auto intro!: steady_intros split: sum.split)

lemma steady_probe_staging: "steady pages (probe_staging fw hc cpu plan p)"
  unfolding probe_staging_def by (auto intro!: steady_intros split: prod.split option.split sum.split)

lemma phased_arm_staging: "phased (arm_staging fw cc stage) (Running None) (kept (\<lambda>_. Running None))"
  unfolding arm_staging_def allocate_data_def
  by (rule phased_with_pages) (auto intro!: steady_intros simp: fails_def split: prod.split option.split)

lemma phased_arm_probe: "phased (arm_probe fw hc cpu leave source arguments) (Running None) (kept (\<lambda>_. Exited))"
proof -
  have exit: "phased (arm_exit leave) (arm_owning p) (\<lambda>_ q. q = Exited)" for p
    unfolding arm_exit_def by (rule moves_call) (simp add: phase_step_def)
  show ?thesis
    unfolding arm_probe_def Let_def allocate_def
    by (intro phased_bindE [OF phased_failing [OF steady_ret(4)]] phased_bindE [OF phased_failing [OF steady_or_report]]
        phased_bindE [OF phased_allocate] phased_bindE [OF phased_release [OF steady_probe_staging]] moves_bindS [OF exit] moves_ok) simp
qed

abbreviation after_run :: "departure option \<Rightarrow> phase" where
  "after_run d \<equiv> (case d of None \<Rightarrow> Running None | Some _ \<Rightarrow> Exited)"

lemma phased_fails: "phased (fails e) (Running None) (kept f)"
  by (simp add: fails_def moves_fail)

lemma phased_arm_run: "phased (arm_run probe fw io cc hc cpu leave) (Running None) (kept after_run)"
  unfolding arm_run_def
  by (auto intro!: phased_bindE [OF phased_failing [OF steady_read]] phased_bindE [OF phased_failing [OF steady_or_report]]
      phased_bindE [OF phased_arm_staging] phased_bindE [OF phased_arm_probe] moves_then [OF steady_report] phased_fails moves_ok)

subsection \<open>The translation of the handed over pages\<close>

lemma page_steps_all:
  assumes "first mod 4096 = 0"
  shows "list_all P (page_steps first stop) \<longleftrightarrow> (\<forall>a. first \<le> a \<and> a < stop \<longrightarrow> P (a div 4096 * 4096))"
proof -
  from assms obtain f where f: "first = 4096 * f" by auto
  have "list_all P (page_steps first stop) \<longleftrightarrow> (\<forall>i. i < (stop - first + 4095) div 4096 \<longrightarrow> P (first + 4096 * i))"
    by (auto simp: page_steps_def list_all_iff)
  also have "\<dots> \<longleftrightarrow> (\<forall>a. first \<le> a \<and> a < stop \<longrightarrow> P (a div 4096 * 4096))"
  proof (intro iffI allI impI)
    fix a
    assume all: "\<forall>i. i < (stop - first + 4095) div 4096 \<longrightarrow> P (first + 4096 * i)" and a: "first \<le> a \<and> a < stop"
    let ?k = "a div 4096" let ?i = "?k - f"
    have k: "f \<le> ?k" "4096 * ?k < stop" using a f by linarith+
    then have "4096 * (?i + 1) \<le> stop - first + 4095" using f by simp
    then have "?i < (stop - first + 4095) div 4096"
      by (simp add: Suc_le_eq [symmetric] less_eq_div_iff_mult_less_eq mult.commute)
    moreover have "first + 4096 * ?i = ?k * 4096" using k(1) f by simp
    ultimately show "P (a div 4096 * 4096)" using all by metis
  next
    fix i
    assume all: "\<forall>a. first \<le> a \<and> a < stop \<longrightarrow> P (a div 4096 * 4096)" and i: "i < (stop - first + 4095) div 4096"
    from i have "first + 4096 * i < stop" by linarith
    with all have "P ((first + 4096 * i) div 4096 * 4096)" using le_add1 by blast
    moreover have "(first + 4096 * i) div 4096 * 4096 = first + 4096 * i" unfolding f by simp
    ultimately show "P (first + 4096 * i)" by metis
  qed
  finally show ?thesis .
qed

text \<open>An address translates to itself when its page does.\<close>

definition to_itself :: "cpu \<Rightarrow> nat \<Rightarrow> bool" where
  "to_itself c a \<longleftrightarrow> (let par = cp_par c (of_nat (a div 4096 * 4096)) in
     \<not> bit par 0 \<and> unat (par AND 0x0000fffffffff000) = a div 4096 * 4096)"

lemma page_mask:
  assumes "P mod 4096 = 0" "P < 2 ^ 64"
  shows "(of_nat P :: u64) AND NOT 4095 = of_nat P"
proof -
  have "(of_nat P :: u64) AND 4095 = take_bit 12 (of_nat P)"
    by (simp add: take_bit_eq_mask mask_eq_exp_minus_1)
  also have "\<dots> = 0" using assms(1) by (simp only: take_bit_of_nat) (simp add: take_bit_eq_mod)
  finally have z: "(of_nat P :: u64) AND 4095 = 0" .
  have "(of_nat P :: u64) = (of_nat P AND 4095) OR (of_nat P AND NOT 4095)"
    by (metis and.right_neutral bit.conj_disj_distrib bit.disj_cancel_right)
  with z show ?thesis by simp
qed

lemma unat_small: "n < 2 ^ 64 \<Longrightarrow> unat (of_nat n :: u64) = n"
  by (simp add: unsigned_of_nat take_bit_nat_eq_self)

lemma identity_page:
  assumes "P mod 4096 = 0" "P < 2 ^ 64"
  shows "identity c (of_nat P) \<longleftrightarrow> (let par = cp_par c (of_nat P) in
    \<not> bit par 0 \<and> unat (par AND 0x0000fffffffff000) = P)"
proof -
  have "w = of_nat P \<longleftrightarrow> unat w = P" for w :: u64
    using unat_small [OF assms(2)] by (metis unsigned_word_eqI)
  moreover have "w AND 1 = 0 \<longleftrightarrow> \<not> bit w 0" for w :: u64
    by (simp add: and_one_eq bit_0 even_iff_mod_2_eq_zero)
  ultimately show ?thesis
    unfolding identity_def Let_def page_mask [OF assms] by blast
qed

lemma identity_to_itself:
  assumes "a < 2 ^ 64"
  shows "identity c (of_nat (a div 4096 * 4096)) \<longleftrightarrow> to_itself c a"
  unfolding to_itself_def by (rule identity_page) (use assms in \<open>simp_all add: le_less_trans [OF div_times_less_eq_dividend]\<close>)

lemma identity_steps:
  assumes "first mod 4096 = 0" "stop \<le> 2 ^ 64"
  shows "list_ex (\<lambda>page. \<not> identity c (of_nat page)) (page_steps first stop) \<longleftrightarrow>
    \<not> (\<forall>a. first \<le> a \<and> a < stop \<longrightarrow> to_itself c a)"
proof -
  have "list_ex (\<lambda>page. \<not> identity c (of_nat page)) (page_steps first stop) \<longleftrightarrow>
      \<not> list_all (\<lambda>page. identity c (of_nat page)) (page_steps first stop)"
    by (simp add: list_ex_iff list_all_iff)
  then show ?thesis
    using assms(2) by (simp only: page_steps_all [OF assms(1)]) (meson identity_to_itself less_le_trans)
qed

lemma to_itself_page: "to_itself c (a div 4096 * 4096) \<longleftrightarrow> to_itself c a"
  by (simp add: to_itself_def)

text \<open>Checking from the start of the first page is checking its page.\<close>

lemma from_page_start:
  assumes "first < stop"
  shows "(\<forall>a. first div 4096 * 4096 \<le> a \<and> a < stop \<longrightarrow> to_itself c a) \<longleftrightarrow> (\<forall>a. first \<le> a \<and> a < stop \<longrightarrow> to_itself c a)"
proof (intro iffI allI impI)
  fix a
  assume all: "\<forall>a. first \<le> a \<and> a < stop \<longrightarrow> to_itself c a" and a: "first div 4096 * 4096 \<le> a \<and> a < stop"
  show "to_itself c a"
  proof (cases "first \<le> a")
    case False
    with a have "a div 4096 = first div 4096" by (simp add: div_nat_eqI)
    with all assms have "to_itself c (a div 4096 * 4096)" by (simp add: to_itself_page)
    then show ?thesis by (simp add: to_itself_page)
  qed (use all a in blast)
qed (meson div_times_less_eq_dividend le_trans)

subsection \<open>What is entered\<close>

lemma failing_runs: "failing m s = (Inr a, t) \<longleftrightarrow> m s = (Inr a, t)"
  by (auto simp: failing_def op_simps map_err_def split: prod.split sum.splits)

lemma on_error_Inr: "on_error m d s = (Inr a, t) \<longleftrightarrow> m s = (Inr a, t)"
  by (auto simp: on_error_def split: prod.split sum.split fault.split)

lemma or_report_Inr: "or_report fw tag st r s = (Inr a, t) \<longleftrightarrow> r = Inr a \<and> t = s"
  by (auto simp: or_report_def op_simps split: sum.split prod.split)

lemma probe_staging_Inr:
  assumes "probe_staging fw hc cpu plan p s = (Inr p', t)"
  shows "preflight cpu (ap_base p) (ap_bytes p) = Inr ()
    \<and> (\<exists>v memory. hc_stage_into hc plan (ap_memory p) = (Some v, memory) \<and> p' = p\<lparr>ap_memory := memory\<rparr>)"
  using assms by (auto simp: probe_staging_def op_simps split: prod.splits option.splits sum.splits)

lemma bindE_Inr: "bindE m k s = (Inr b, t) \<longleftrightarrow> (\<exists>a u. m s = (Inr a, u) \<and> k a u = (Inr b, t))"
  by (auto simp: bindE_def split: prod.splits sum.splits)

lemma arm_probe_Inr:
  assumes "arm_probe fw hc cpu leave source arguments s = (Inr d, t)"
  obtains dt plan p u v p' w final_map where
    "hc_encode hc (arm_tree arguments) = Some dt" "hc_plan hc source (arm_placement dt arguments) = Inr plan"
    "allocate_kind fw (la_allocation_bytes (hc_layout hc plan)) (Some (la_kernel_phys (hc_layout hc plan))) LOADER_CODE u = (Inr p, v)"
    "probe_staging fw hc cpu plan p v = (Inr p', w)"
    "d = (if pages_validate p' final_map \<noteq> Inr () then Halted
      else Entered (la_boot_args_phys (hc_layout hc plan)) (la_entry_phys (hc_layout hc plan))
        (la_stack_top_phys (hc_layout hc plan)) p' final_map)"
proof -
  from assms obtain dt plan p u v p' w where h:
    "hc_encode hc (arm_tree arguments) = Some dt" "hc_plan hc source (arm_placement dt arguments) = Inr plan"
    "allocate_kind fw (la_allocation_bytes (hc_layout hc plan)) (Some (la_kernel_phys (hc_layout hc plan))) LOADER_CODE u = (Inr p, v)"
    "probe_staging fw hc cpu plan p v = (Inr p', w)"
    and rest: "bindS (arm_exit leave) (\<lambda>final_map. ok (if pages_validate p' final_map \<noteq> Inr () then Halted
      else Entered (la_boot_args_phys (hc_layout hc plan)) (la_entry_phys (hc_layout hc plan))
        (la_stack_top_phys (hc_layout hc plan)) p' final_map)) w = (Inr d :: status fault + departure, t)"
    unfolding arm_probe_def Let_def bindE_Inr failing_runs or_report_Inr on_error_Inr lift_eval allocate_def prod.inject ok_or_Inr
    by (elim exE conjE) (rule that, assumption+)
  from rest obtain final_map where "d = (if pages_validate p' final_map \<noteq> Inr () then Halted
      else Entered (la_boot_args_phys (hc_layout hc plan)) (la_entry_phys (hc_layout hc plan))
        (la_stack_top_phys (hc_layout hc plan)) p' final_map)"
    by (cases "arm_exit leave w") (auto simp: bindS_eval ok_eval)
  with h show thesis by (rule that)
qed

subsection \<open>Properties\<close>

text \<open>Property C29: the transition's preflight accepts a range exactly when the processor runs at EL1,
  little endian and without extended cache identifiers, the range consists of whole pages below
  2 to the 48, and, with the MMU on, every address of the range and of the transition's code
  translates to itself.\<close>

theorem preflight_decides_identity:
  assumes "cp_code_start c \<le> cp_code_end c" "cp_code_end c < 2 ^ 64"
  shows "preflight c base bytes = Inr () \<longleftrightarrow>
    cp_current_el c = 4 \<and> \<not> bit (cp_sctlr c) 25 \<and> drop_bit 20 (cp_features c) AND 15 = 0
    \<and> 0 < bytes \<and> 4096 dvd base \<and> 4096 dvd bytes \<and> base + bytes \<le> 2 ^ 48
    \<and> (bit (cp_sctlr c) 0 \<longrightarrow> (\<forall>a. base \<le> a \<and> a < base + bytes \<or> cp_code_start c \<le> a \<and> a \<le> cp_code_end c \<longrightarrow> to_itself c a))"
proof -
  have bits: "cp_sctlr c AND 33554432 = 0 \<longleftrightarrow> \<not> bit (cp_sctlr c) 25" "cp_sctlr c AND 1 = 0 \<longleftrightarrow> \<not> bit (cp_sctlr c) 0"
    using and_exp_eq_0_iff_not_bit [of "cp_sctlr c" 25] and_exp_eq_0_iff_not_bit [of "cp_sctlr c" 0]
    by simp_all
  have code: "list_ex (\<lambda>page. \<not> identity c (of_nat page)) (page_steps (cp_code_start c div 4096 * 4096) (cp_code_end c + 1)) \<longleftrightarrow>
      \<not> (\<forall>a. cp_code_start c \<le> a \<and> a \<le> cp_code_end c \<longrightarrow> to_itself c a)"
    using assms identity_steps [of "cp_code_start c div 4096 * 4096" "cp_code_end c + 1" c]
    by (simp only: from_page_start) (simp add: less_Suc_eq_le)
  have range: "list_ex (\<lambda>page. \<not> identity c (of_nat page)) (page_steps base (base + bytes)) \<longleftrightarrow>
      \<not> (\<forall>a. base \<le> a \<and> a < base + bytes \<longrightarrow> to_itself c a)" if "base mod 4096 = 0" "base + bytes \<le> 2 ^ 48"
    using that by (intro identity_steps) simp_all
  show ?thesis
  proof (cases "cp_current_el c = 4 \<and> \<not> bit (cp_sctlr c) 25 \<and> drop_bit 20 (cp_features c) AND 15 = 0
      \<and> 0 < bytes \<and> base mod 4096 = 0 \<and> bytes mod 4096 = 0 \<and> base + bytes \<le> 2 ^ 48")
    case True
    then have "preflight c base bytes = Inr () \<longleftrightarrow> (bit (cp_sctlr c) 0 \<longrightarrow>
        (\<forall>a. base \<le> a \<and> a < base + bytes \<longrightarrow> to_itself c a) \<and> (\<forall>a. cp_code_start c \<le> a \<and> a \<le> cp_code_end c \<longrightarrow> to_itself c a))"
      by (simp add: preflight_def checked_add_def bits code range del: One_nat_def)
    with True show ?thesis by (auto simp: dvd_eq_mod_eq_0)
  next
    case False
    then have "preflight c base bytes \<noteq> Inr ()"
      by (auto simp: preflight_def checked_add_def bits and_then_Inr split: if_splits)
    with False show ?thesis by (simp add: dvd_eq_mod_eq_0) blast
  qed
qed

text \<open>A processor without translation, and one page.\<close>

definition example_cpu :: cpu where
  "example_cpu = \<lparr>cp_current_el = 4, cp_sctlr = 0, cp_features = 0, cp_par = (\<lambda>_. 1), cp_code_start = 0x1000, cp_code_end = 0x1100\<rparr>"

theorem preflight_decides_identity_witness:
  "preflight example_cpu 0x42000000 16384 = Inr () \<and> preflight example_cpu 0x42000000 16385 \<noteq> Inr ()"
proof -
  have "cp_code_start example_cpu \<le> cp_code_end example_cpu" "cp_code_end example_cpu < 2 ^ 64"
    by (simp_all add: example_cpu_def)
  note decides = preflight_decides_identity [OF this]
  show ?thesis unfolding decides by (simp add: example_cpu_def dvd_eq_mod_eq_0)
qed

text \<open>Property C30: the boot application leaves boot services at most once, owning the pages of the placed
  kernel, and calls no firmware afterwards; on every path that returns, the pages it took were
  freed exactly once.\<close>

theorem arm_boot_services_end_once:
  "moves phase_step (arm_main initialized aarch64 fw (arm_run probe fw io cc hc cpu leave)) (Running None) (\<lambda>r q. case r of
     Inr (Inr d) \<Rightarrow> q = Exited | Inr (Inl st) \<Rightarrow> q = Running None | Inl e \<Rightarrow> e = Panic)"
  unfolding arm_main_def
  by (auto simp: kept_def intro!: moves_ok moves_fail moves_then [OF steady_report] moves_bindS [OF phased_arm_run]
      split: sum.split option.split fault.splits)

text \<open>Property C31: the kernel is entered only as it was planned. The pages lie at the planned address, they
  hold what the plan staged into zeroed memory, with the MMU on every address of them translates to
  itself, the final memory map still describes all of them as loader code, and the three addresses
  passed on are those of the plan.\<close>

theorem entered_kernel_is_the_plan:
  "post (arm_probe fw hc cpu leave source arguments) (\<lambda>r. case r of
     Inr (Entered args entry stack pages final_map) \<Rightarrow>
       (\<exists>dt plan v. hc_encode hc (arm_tree arguments) = Some dt
         \<and> hc_plan hc source (arm_placement dt arguments) = Inr plan
         \<and> (args, entry, stack) = (la_boot_args_phys (hc_layout hc plan), la_entry_phys (hc_layout hc plan), la_stack_top_phys (hc_layout hc plan))
         \<and> ap_base pages = la_kernel_phys (hc_layout hc plan) \<and> ap_bytes pages = la_allocation_bytes (hc_layout hc plan)
         \<and> hc_stage_into hc plan (replicate (ap_bytes pages) 0) = (Some v, ap_memory pages))
       \<and> preflight cpu (ap_base pages) (ap_bytes pages) = Inr ()
       \<and> tiled (snd final_map) (ap_base pages) (ap_base pages + ap_bytes pages) LOADER_CODE
   | _ \<Rightarrow> True)"
proof (rule postI)
  fix s r t
  assume run: "arm_probe fw hc cpu leave source arguments s = (r, t)"
  show "case r of Inr (Entered args entry stack pages final_map) \<Rightarrow>
       (\<exists>dt plan v. hc_encode hc (arm_tree arguments) = Some dt
         \<and> hc_plan hc source (arm_placement dt arguments) = Inr plan
         \<and> (args, entry, stack) = (la_boot_args_phys (hc_layout hc plan), la_entry_phys (hc_layout hc plan), la_stack_top_phys (hc_layout hc plan))
         \<and> ap_base pages = la_kernel_phys (hc_layout hc plan) \<and> ap_bytes pages = la_allocation_bytes (hc_layout hc plan)
         \<and> hc_stage_into hc plan (replicate (ap_bytes pages) 0) = (Some v, ap_memory pages))
       \<and> preflight cpu (ap_base pages) (ap_bytes pages) = Inr ()
       \<and> tiled (snd final_map) (ap_base pages) (ap_base pages + ap_bytes pages) LOADER_CODE
   | _ \<Rightarrow> True"
  proof (cases r)
    case (Inr d)
    from run [unfolded Inr] show ?thesis
    proof (rule arm_probe_Inr)
      fix dt plan p u v p' w final_map
      assume h: "hc_encode hc (arm_tree arguments) = Some dt" "hc_plan hc source (arm_placement dt arguments) = Inr plan"
        and a: "allocate_kind fw (la_allocation_bytes (hc_layout hc plan)) (Some (la_kernel_phys (hc_layout hc plan))) LOADER_CODE u = (Inr p, v)"
        and st: "probe_staging fw hc cpu plan p v = (Inr p', w)"
        and d: "d = (if pages_validate p' final_map \<noteq> Inr () then Halted
          else Entered (la_boot_args_phys (hc_layout hc plan)) (la_entry_phys (hc_layout hc plan))
            (la_stack_top_phys (hc_layout hc plan)) p' final_map)"
      note A = allocate_kind_Inr [OF a]
      then have base: "ap_base p = la_kernel_phys (hc_layout hc plan)" by (auto simp: place_Inr)
      from probe_staging_Inr [OF st] A obtain report memory where
        m: "hc_stage_into hc plan (replicate (ap_bytes p) 0) = (Some report, memory)" "p' = p\<lparr>ap_memory := memory\<rparr>"
          "preflight cpu (ap_base p) (ap_bytes p) = Inr ()" by auto
      have "tiled (snd final_map) (ap_base p') (ap_base p' + ap_bytes p') LOADER_CODE" if "pages_validate p' final_map = Inr ()"
        using that A m(2) by (auto simp: pages_validate_def dest!: validate_map_sound split: prod.splits)
      with Inr d h m A base show ?thesis by auto
    qed
  qed simp
qed

end
