(* ===== verification/Selected_Boot.thy ===== *)
theory Selected_Boot
  imports Arm_Entry Mapped_Trace
begin

text \<open>
  The inputs of a selected boot: the iBoot image and its decoded payload
  (src/src/selected\_boot\_efi.rs), the kernel collection (src/src/selected\_bootkc\_efi.rs) and the
  two startup companions (src/src/selected\_startup\_efi.rs). The record parsers, the digests, the
  placement of the companions and the seals that the build includes are parameters. The lemmas
  follow one question through all of them: what has been checked about the bytes that are returned.
\<close>

text \<open>
  \<open>'r\<close> is the selected record, \<open>'i\<close> the expected size and digest of an image, \<open>'c\<close>, \<open>'k\<close> and \<open>'s\<close> the
  records of the payload, the kernel collection and the companions, \<open>'m\<close> one companion's record and
  \<open>'d\<close> the digest that seals a record.
\<close>

record ('r, 'i, 'c) iboot_core =
  ib_parse :: "u8 list \<Rightarrow> string + 'r"
  ib_image_path :: "'r \<Rightarrow> ustr"
  ib_device_class :: "'r \<Rightarrow> ustr"
  ib_expected :: "'r \<Rightarrow> 'i"
  ib_verify_image :: "'i \<Rightarrow> u8 list \<Rightarrow> string + unit"
  ib_parse_payload :: "u8 list \<Rightarrow> string + 'c"
  ib_decoded_path :: "'c \<Rightarrow> ustr"
  ib_payload_bytes :: "'c \<Rightarrow> nat"
  ib_copy_payload :: "'r \<Rightarrow> u8 list \<Rightarrow> 'c \<Rightarrow> u8 list \<Rightarrow> u8 list \<Rightarrow> (string + nat) \<times> u8 list"
  ib_max_record :: nat
  ib_max_image :: nat
  ib_max_payload_record :: nat
  ib_max_bootkc :: nat

record ('r, 'i, 'k, 'd) bootkc_core =
  bk_seal :: "'d option"
  bk_verify_digest :: "'d \<Rightarrow> u8 list \<Rightarrow> string + unit"
  bk_parse :: "u8 list \<Rightarrow> string + 'k"
  bk_matches :: "'k \<Rightarrow> 'r \<Rightarrow> ustr \<Rightarrow> bool"
  bk_signed_path :: "'k \<Rightarrow> ustr"
  bk_signed :: "'k \<Rightarrow> 'i"
  bk_decoded_path :: "'k \<Rightarrow> ustr"
  bk_decoded :: "'k \<Rightarrow> 'i"

record placed_image =
  pl_physical_base :: nat
  pl_virtual_base :: nat
  pl_bytes :: nat

record ('r, 'i, 's, 'm, 'd) startup_core =
  su_seal :: "'d option"
  su_verify_digest :: "'d \<Rightarrow> u8 list \<Rightarrow> string + unit"
  su_parse :: "u8 list \<Rightarrow> string + 's"
  su_binds :: "'s \<Rightarrow> 'r \<Rightarrow> bool"
  su_disjoint :: "'s \<Rightarrow> ustr list \<Rightarrow> bool"
  su_sptm :: "'s \<Rightarrow> 'm"
  su_txm :: "'s \<Rightarrow> 'm"
  su_signed_path :: "'m \<Rightarrow> ustr"
  su_signed :: "'m \<Rightarrow> 'i"
  su_decoded_path :: "'m \<Rightarrow> ustr"
  su_decoded :: "'m \<Rightarrow> 'i"
  su_stage_images :: "u8 list \<Rightarrow> u8 list \<Rightarrow> nat \<Rightarrow> nat \<Rightarrow> u8 list \<Rightarrow> (string + placed_image \<times> placed_image) \<times> u8 list"

definition efi_path :: "string \<Rightarrow> ustr" where
  "efi_path name = map of_char (CHR 0x5C # ''EFI'' @ CHR 0x5C # ''NextCore'' @ CHR 0x5C # name)"

text \<open>A file whose read error is reported, and mapped by \<open>f\<close>.\<close>

definition read_or_report :: "'w firmware \<Rightarrow> 'w file_io \<Rightarrow> string \<Rightarrow> (status \<Rightarrow> status) \<Rightarrow> ustr \<Rightarrow> nat \<Rightarrow> ('w, u8 list) res" where
  "read_or_report fw io tag f path maximum =
     bindS (read_file fw io path maximum) (\<lambda>r. case r of
       Inl st \<Rightarrow> bindS (report fw tag [RStat st]) (\<lambda>_. fail (f st))
     | Inr bytes \<Rightarrow> ok bytes)"

definition checked_path :: "ustr \<Rightarrow> ('w, ustr) res" where
  "checked_path path = (if ucs2 path then ok path else fail COMPROMISED_DATA)"

subsection \<open>The selected image and its payload\<close>

record 'r selected_source =
  ss_record :: 'r
  ss_image :: "u8 list"

record selected_payload =
  sp_pages :: arm_pages
  sp_copied_bytes :: nat

definition load_selected :: "'w firmware \<Rightarrow> 'w file_io \<Rightarrow> ('r, 'i, 'c) iboot_core \<Rightarrow> ('w, 'r selected_source) res" where
  "load_selected fw io ib =
     bindE (read_or_report fw io ''NXARMJIT: SELECTED_IBOOT_RECORD_READ_FAILED'' (\<lambda>_. NOT_READY)
       (efi_path ''selected-iboot.txt'') (ib_max_record ib)) (\<lambda>record_bytes.
     bindE (or_report fw ''NXARMJIT: SELECTED_IBOOT_RECORD_INVALID'' COMPROMISED_DATA (ib_parse ib record_bytes)) (\<lambda>r.
     bindE (checked_path (ib_image_path ib r)) (\<lambda>path.
     bindE (read_or_report fw io ''NXARMJIT: SELECTED_IBOOT_IMAGE_READ_FAILED'' id path (ib_max_image ib)) (\<lambda>image.
     bindE (or_report fw ''NXARMJIT: SELECTED_IBOOT_IMAGE_INVALID'' COMPROMISED_DATA
       (ib_verify_image ib (ib_expected ib r) image)) (\<lambda>_.
     ok \<lparr>ss_record = r, ss_image = image\<rparr>)))))"

definition payload_allocation :: "nat \<Rightarrow> status + nat" where
  "payload_allocation bytes = ok_or (map_option (\<lambda>n. n div 16384 * 16384) (checked_add bytes 16383)) OUT_OF_RESOURCES"

text \<open>On failure the pages are dropped; on success they belong to the payload.\<close>

definition copy_payload :: "'w firmware \<Rightarrow> ('r, 'i, 'c) iboot_core \<Rightarrow> 'r selected_source \<Rightarrow> 'c \<Rightarrow> u8 list \<Rightarrow> arm_pages
    \<Rightarrow> ('w, selected_payload) res" where
  "copy_payload fw ib source companion decoded pages =
     (case ib_copy_payload ib (ss_record source) (ss_image source) companion decoded (ap_memory pages) of
        (Inl reason, _) \<Rightarrow> with_drop
          (bindS (report fw ''NXARMJIT: SELECTED_IBOOT_PAYLOAD_INVALID'' [RText reason]) (\<lambda>_. fail COMPROMISED_DATA))
          (arm_drop fw pages)
      | (Inr copied, memory) \<Rightarrow> ok \<lparr>sp_pages = pages\<lparr>ap_memory := memory\<rparr>, sp_copied_bytes = copied\<rparr>)"

definition load_payload :: "'w firmware \<Rightarrow> 'w file_io \<Rightarrow> ('r, 'i, 'c) iboot_core \<Rightarrow> 'r selected_source
    \<Rightarrow> ('w, selected_payload) res" where
  "load_payload fw io ib source =
     bindE (read_or_report fw io ''NXARMJIT: SELECTED_IBOOT_PAYLOAD_RECORD_READ_FAILED'' id
       (efi_path ''selected-iboot-payload.txt'') (ib_max_payload_record ib)) (\<lambda>companion_bytes.
     bindE (or_report fw ''NXARMJIT: SELECTED_IBOOT_PAYLOAD_RECORD_INVALID'' COMPROMISED_DATA
       (ib_parse_payload ib companion_bytes)) (\<lambda>companion.
     bindE (checked_path (ib_decoded_path ib companion)) (\<lambda>path.
     bindE (read_or_report fw io ''NXARMJIT: SELECTED_IBOOT_PAYLOAD_READ_FAILED'' id path (ib_max_image ib)) (\<lambda>decoded.
     bindE (lift (payload_allocation (ib_payload_bytes ib companion))) (\<lambda>allocation_bytes.
     bindE (allocate_data fw allocation_bytes) (\<lambda>pages.
     copy_payload fw ib source companion decoded pages))))))"

definition payload_drop :: "'w firmware \<Rightarrow> selected_payload \<Rightarrow> 'w sys \<Rightarrow> 'w sys" where
  "payload_drop fw p = arm_drop fw (sp_pages p)"

subsection \<open>Sealed records\<close>

text \<open>
  The part the kernel collection and the companions have in common: the signed image is read and
  checked, then the decoded one, which is kept. \<open>role\<close> is the name in the reports.
\<close>

definition read_pair :: "'w firmware \<Rightarrow> 'w file_io \<Rightarrow> ('r, 'i, 'c) iboot_core \<Rightarrow> string \<Rightarrow> ustr \<Rightarrow> 'i \<Rightarrow> ustr \<Rightarrow> 'i \<Rightarrow> nat
    \<Rightarrow> ('w, u8 list) res" where
  "read_pair fw io ib role signed_path signed_expected decoded_path decoded_expected max_decoded =
     bindE (checked_path signed_path) (\<lambda>path.
     bindE (read_file fw io path (ib_max_image ib)) (\<lambda>signed.
     bindE (or_report fw (''NXARMJIT: SELECTED_'' @ role @ ''_SIGNED_INVALID'') COMPROMISED_DATA
       (ib_verify_image ib signed_expected signed)) (\<lambda>_.
     bindE (checked_path decoded_path) (\<lambda>path.
     bindE (read_file fw io path max_decoded) (\<lambda>decoded.
     bindE (or_report fw (''NXARMJIT: SELECTED_'' @ role @ ''_DECODED_INVALID'') COMPROMISED_DATA
       (ib_verify_image ib decoded_expected decoded)) (\<lambda>_.
     bindS (report fw (''NXARMJIT: SELECTED_'' @ role @ ''_BOUND'') [RNat (length signed), RNat (length decoded)]) (\<lambda>_.
     ok decoded)))))))"

definition load_bootkc :: "'w firmware \<Rightarrow> 'w file_io \<Rightarrow> ('r, 'i, 'c) iboot_core \<Rightarrow> ('r, 'i, 'k, 'd) bootkc_core \<Rightarrow> 'r \<Rightarrow> ustr
    \<Rightarrow> ('w, u8 list) res" where
  "load_bootkc fw io ib bk selected configured_path = (case bk_seal bk of
     None \<Rightarrow> bindS (report fw ''NXARMJIT: SELECTED_BOOTKC_RECORD_UNSEALED'' []) (\<lambda>_. fail NOT_READY)
   | Some seal \<Rightarrow>
       bindE (read_file fw io (efi_path ''selected-bootkc.txt'') (ib_max_record ib)) (\<lambda>record_bytes.
       bindE (or_report fw ''NXARMJIT: SELECTED_BOOTKC_RECORD_SEAL_INVALID'' COMPROMISED_DATA
         (bk_verify_digest bk seal record_bytes)) (\<lambda>_.
       bindE (or_report fw ''NXARMJIT: SELECTED_BOOTKC_RECORD_INVALID'' COMPROMISED_DATA (bk_parse bk record_bytes)) (\<lambda>k.
       if \<not> bk_matches bk k selected configured_path then
         bindS (report fw ''NXARMJIT: SELECTED_BOOTKC_BINDING_INVALID'' []) (\<lambda>_. fail COMPROMISED_DATA)
       else read_pair fw io ib ''BOOTKC'' (bk_signed_path bk k) (bk_signed bk k) (bk_decoded_path bk k) (bk_decoded bk k)
         (ib_max_bootkc ib)))))"

record owned_companions =
  oc_sptm :: "u8 list"
  oc_txm :: "u8 list"

definition read_companion :: "'w firmware \<Rightarrow> 'w file_io \<Rightarrow> ('r, 'i, 'c) iboot_core \<Rightarrow> ('r, 'i, 's, 'm, 'd) startup_core
    \<Rightarrow> string \<Rightarrow> 'm \<Rightarrow> ('w, u8 list) res" where
  "read_companion fw io ib su role m =
     read_pair fw io ib role (su_signed_path su m) (su_signed su m) (su_decoded_path su m) (su_decoded su m) (ib_max_image ib)"

definition load_startup :: "'w firmware \<Rightarrow> 'w file_io \<Rightarrow> ('r, 'i, 'c) iboot_core \<Rightarrow> ('r, 'i, 's, 'm, 'd) startup_core \<Rightarrow> 'r
    \<Rightarrow> ('w, owned_companions) res" where
  "load_startup fw io ib su selected = (case su_seal su of
     None \<Rightarrow> bindS (report fw ''NXARMJIT: SELECTED_STARTUP_RECORD_UNSEALED'' []) (\<lambda>_. fail NOT_READY)
   | Some seal \<Rightarrow>
       bindE (read_file fw io (efi_path ''selected-startup.txt'') (ib_max_record ib)) (\<lambda>bytes.
       bindE (or_report fw ''NXARMJIT: SELECTED_STARTUP_RECORD_SEAL_INVALID'' COMPROMISED_DATA
         (su_verify_digest su seal bytes)) (\<lambda>_.
       bindE (or_report fw ''NXARMJIT: SELECTED_STARTUP_RECORD_INVALID'' COMPROMISED_DATA (su_parse su bytes)) (\<lambda>r.
       if \<not> su_binds su r selected \<or> \<not> su_disjoint su r [ib_image_path ib selected] then
         bindS (report fw ''NXARMJIT: SELECTED_STARTUP_BINDING_INVALID'' []) (\<lambda>_. fail COMPROMISED_DATA)
       else
         bindE (read_companion fw io ib su ''SPTM'' (su_sptm su r)) (\<lambda>sptm.
         bindE (read_companion fw io ib su ''TXM'' (su_txm su r)) (\<lambda>txm.
         bindS (report fw ''NXARMJIT: SELECTED_STARTUP_OWNED'' []) (\<lambda>_.
         ok \<lparr>oc_sptm = sptm, oc_txm = txm\<rparr>)))))))"

definition alias_of :: "placed_image \<Rightarrow> stage1_alias" where
  "alias_of p = \<lparr>al_virtual_base = pl_virtual_base p, al_physical_base = pl_physical_base p, al_bytes = pl_bytes p\<rparr>"

text \<open>The result is the aliases with the guest's memory after the copies.\<close>

definition stage_into_guest :: "'w firmware \<Rightarrow> ('r, 'i, 's, 'm, 'd) startup_core \<Rightarrow> owned_companions \<Rightarrow> nat \<Rightarrow> nat \<Rightarrow> u8 list
    \<Rightarrow> ('w, stage1_alias list \<times> u8 list) res" where
  "stage_into_guest fw su oc base occupied_end guest_ram =
     (case su_stage_images su (oc_sptm oc) (oc_txm oc) base occupied_end guest_ram of
        (Inl reason, _) \<Rightarrow>
          bindS (report fw ''NXARMJIT: SELECTED_STARTUP_PLACEMENT_INVALID'' [RText reason]) (\<lambda>_. fail COMPROMISED_DATA)
      | (Inr (sptm, txm), ram) \<Rightarrow>
          bindS (report fw ''NXARMJIT: SELECTED_STARTUP_PHYSICAL'' [RNat (pl_physical_base sptm), RNat (pl_bytes sptm),
            RNat (pl_physical_base txm), RNat (pl_bytes txm)]) (\<lambda>_.
          ok ([alias_of sptm, alias_of txm], ram)))"

subsection \<open>What has been checked\<close>

text \<open>The checks are rules of the form \<open>post\<close>: a property of the result whatever the firmware returns.\<close>

definition returns :: "('w, 'a) res \<Rightarrow> ('a \<Rightarrow> bool) \<Rightarrow> bool" where
  "returns m P \<longleftrightarrow> post m (\<lambda>r. case r of Inl _ \<Rightarrow> True | Inr a \<Rightarrow> P a)"

text \<open>
  When a sequence of fallible steps succeeds. These equivalences turn a loader into the list of
  what it has read and what it has found.
\<close>

named_theorems succeeds \<open>when an operation succeeds, and what it leaves\<close>

lemma bindE_succeeds [succeeds]:
  "bindE m k s = (Inr b, t) \<longleftrightarrow> (\<exists>a u. m s = (Inr a, u) \<and> k a u = (Inr b, t))"
  by (auto simp: op_simps split: prod.splits sum.splits)

lemma or_report_succeeds [succeeds]: "or_report fw tag st r s = (Inr a, t) \<longleftrightarrow> r = Inr a \<and> t = s"
  by (auto simp: or_report_def op_simps split: sum.splits prod.splits)

lemma read_or_report_succeeds [succeeds]:
  "read_or_report fw io tag f path n s = (Inr bytes, t) \<longleftrightarrow> read_file fw io path n s = (Inr bytes, t)"
  by (auto simp: read_or_report_def op_simps split: sum.splits prod.splits)

lemma checked_path_succeeds [succeeds]: "checked_path path s = (Inr q, t) \<longleftrightarrow> ucs2 path \<and> q = path \<and> t = s"
  by (auto simp: checked_path_def op_simps)

lemma simple_succeeds [succeeds]:
  "ok a s = (Inr b, t) \<longleftrightarrow> a = b \<and> s = t" "fail e s = (Inr b, t) \<longleftrightarrow> False" "lift r s = (Inr b, t) \<longleftrightarrow> r = Inr b \<and> s = t"
  by (auto simp: op_simps)

lemma report_succeeds [succeeds]:
  "bindS (report fw tag vs) (\<lambda>_. m) s = (Inr b, t) \<longleftrightarrow> m (snd (report fw tag vs s)) = (Inr b, t)"
  by (simp add: op_simps case_prod_beta)

text \<open>An image: the file of that name, read whole, with the expected size and digest.\<close>

definition verified_file :: "'w firmware \<Rightarrow> 'w file_io \<Rightarrow> ('r, 'i, 'c) iboot_core \<Rightarrow> ustr \<Rightarrow> nat \<Rightarrow> 'i \<Rightarrow> 'w sys \<Rightarrow> u8 list \<Rightarrow> 'w sys \<Rightarrow> bool" where
  "verified_file fw io ib path maximum expected s bytes t \<longleftrightarrow>
     ucs2 path \<and> read_file fw io path maximum s = (Inr bytes, t) \<and> ib_verify_image ib expected bytes = Inr ()"

text \<open>A signed and a decoded image, read one after the other; the second is kept.\<close>

definition verified_pair :: "'w firmware \<Rightarrow> 'w file_io \<Rightarrow> ('r, 'i, 'c) iboot_core \<Rightarrow> string \<Rightarrow> ustr \<Rightarrow> 'i \<Rightarrow> ustr \<Rightarrow> 'i \<Rightarrow> nat
    \<Rightarrow> 'w sys \<Rightarrow> u8 list \<Rightarrow> 'w sys \<Rightarrow> bool" where
  "verified_pair fw io ib role sp se dp de maximum s decoded t \<longleftrightarrow>
     (\<exists>signed u v. verified_file fw io ib sp (ib_max_image ib) se s signed u
        \<and> verified_file fw io ib dp maximum de u decoded v
        \<and> t = snd (report fw (''NXARMJIT: SELECTED_'' @ role @ ''_BOUND'') [RNat (length signed), RNat (length decoded)] v))"

text \<open>A sealed record: the file at the fixed path has the digest that the build includes.\<close>

definition sealed_record :: "'w firmware \<Rightarrow> 'w file_io \<Rightarrow> ('r, 'i, 'c) iboot_core \<Rightarrow> 'd option \<Rightarrow> ('d \<Rightarrow> u8 list \<Rightarrow> string + unit)
    \<Rightarrow> (u8 list \<Rightarrow> string + 'k) \<Rightarrow> string \<Rightarrow> 'w sys \<Rightarrow> 'k \<Rightarrow> 'w sys \<Rightarrow> bool" where
  "sealed_record fw io ib seal digest parse name s k t \<longleftrightarrow>
     (\<exists>d bytes. seal = Some d \<and> read_file fw io (efi_path name) (ib_max_record ib) s = (Inr bytes, t)
        \<and> digest d bytes = Inr () \<and> parse bytes = Inr k)"

definition selected_verified :: "'w firmware \<Rightarrow> 'w file_io \<Rightarrow> ('r, 'i, 'c) iboot_core \<Rightarrow> 'w sys \<Rightarrow> 'r selected_source \<Rightarrow> 'w sys \<Rightarrow> bool" where
  "selected_verified fw io ib s x t \<longleftrightarrow> (\<exists>bytes u.
     read_file fw io (efi_path ''selected-iboot.txt'') (ib_max_record ib) s = (Inr bytes, u) \<and> ib_parse ib bytes = Inr (ss_record x)
     \<and> verified_file fw io ib (ib_image_path ib (ss_record x)) (ib_max_image ib) (ib_expected ib (ss_record x)) u (ss_image x) t)"

definition payload_verified :: "'w firmware \<Rightarrow> 'w file_io \<Rightarrow> ('r, 'i, 'c) iboot_core \<Rightarrow> 'r selected_source
    \<Rightarrow> 'w sys \<Rightarrow> selected_payload \<Rightarrow> 'w sys \<Rightarrow> bool" where
  "payload_verified fw io ib source s p t \<longleftrightarrow> (\<exists>bytes companion u decoded v room pages.
     read_file fw io (efi_path ''selected-iboot-payload.txt'') (ib_max_payload_record ib) s = (Inr bytes, u)
     \<and> ib_parse_payload ib bytes = Inr companion \<and> ucs2 (ib_decoded_path ib companion)
     \<and> read_file fw io (ib_decoded_path ib companion) (ib_max_image ib) u = (Inr decoded, v)
     \<and> ib_payload_bytes ib companion + 16383 < 2 ^ 64 \<and> ib_payload_bytes ib companion \<le> room
     \<and> room < ib_payload_bytes ib companion + 16384 \<and> room mod 16384 = 0
     \<and> allocate_data fw room v = (Inr pages, t) \<and> ap_type pages = LOADER_DATA \<and> ap_memory pages = replicate room 0
     \<and> ib_copy_payload ib (ss_record source) (ss_image source) companion decoded (ap_memory pages)
         = (Inr (sp_copied_bytes p), ap_memory (sp_pages p))
     \<and> sp_pages p = pages\<lparr>ap_memory := ap_memory (sp_pages p)\<rparr>)"

definition bootkc_verified :: "'w firmware \<Rightarrow> 'w file_io \<Rightarrow> ('r, 'i, 'c) iboot_core \<Rightarrow> ('r, 'i, 'k, 'd) bootkc_core \<Rightarrow> 'r \<Rightarrow> ustr
    \<Rightarrow> 'w sys \<Rightarrow> u8 list \<Rightarrow> 'w sys \<Rightarrow> bool" where
  "bootkc_verified fw io ib bk selected path s decoded t \<longleftrightarrow> (\<exists>k u.
     sealed_record fw io ib (bk_seal bk) (bk_verify_digest bk) (bk_parse bk) ''selected-bootkc.txt'' s k u
     \<and> bk_matches bk k selected path
     \<and> verified_pair fw io ib ''BOOTKC'' (bk_signed_path bk k) (bk_signed bk k) (bk_decoded_path bk k) (bk_decoded bk k)
         (ib_max_bootkc ib) u decoded t)"

definition companion_verified :: "'w firmware \<Rightarrow> 'w file_io \<Rightarrow> ('r, 'i, 'c) iboot_core \<Rightarrow> ('r, 'i, 's, 'm, 'd) startup_core \<Rightarrow> string \<Rightarrow> 'm
    \<Rightarrow> 'w sys \<Rightarrow> u8 list \<Rightarrow> 'w sys \<Rightarrow> bool" where
  "companion_verified fw io ib su role c = verified_pair fw io ib role (su_signed_path su c) (su_signed su c)
     (su_decoded_path su c) (su_decoded su c) (ib_max_image ib)"

definition startup_verified :: "'w firmware \<Rightarrow> 'w file_io \<Rightarrow> ('r, 'i, 'c) iboot_core \<Rightarrow> ('r, 'i, 's, 'm, 'd) startup_core \<Rightarrow> 'r
    \<Rightarrow> 'w sys \<Rightarrow> owned_companions \<Rightarrow> 'w sys \<Rightarrow> bool" where
  "startup_verified fw io ib su selected s oc t \<longleftrightarrow> (\<exists>r u v w.
     sealed_record fw io ib (su_seal su) (su_verify_digest su) (su_parse su) ''selected-startup.txt'' s r u
     \<and> su_binds su r selected \<and> su_disjoint su r [ib_image_path ib selected]
     \<and> companion_verified fw io ib su ''SPTM'' (su_sptm su r) u (oc_sptm oc) v
     \<and> companion_verified fw io ib su ''TXM'' (su_txm su r) v (oc_txm oc) w
     \<and> t = snd (report fw ''NXARMJIT: SELECTED_STARTUP_OWNED'' [] w))"

lemma load_selected_succeeds: "load_selected fw io ib s = (Inr x, t) \<longleftrightarrow> selected_verified fw io ib s x t"
  unfolding load_selected_def selected_verified_def verified_file_def by (cases x) (auto simp: succeeds)

lemma read_pair_succeeds [succeeds]:
  "read_pair fw io ib role sp se dp de n s = (Inr decoded, t) \<longleftrightarrow> verified_pair fw io ib role sp se dp de n s decoded t"
  unfolding read_pair_def verified_pair_def verified_file_def by (auto simp: succeeds)

lemma sealed_succeeds:
  "bindE (read_file fw io (efi_path name) (ib_max_record ib)) (\<lambda>bytes.
     bindE (or_report fw tag1 st1 (digest d bytes)) (\<lambda>_.
     bindE (or_report fw tag2 st2 (parse bytes)) k)) s = (Inr b, t)
   \<longleftrightarrow> (\<exists>r u. sealed_record fw io ib (Some d) digest parse name s r u \<and> k r u = (Inr b, t))"
  by (auto simp: succeeds sealed_record_def)

lemma guard_succeeds:
  "(if b then bindS (report fw tag vs) (\<lambda>_. fail e) else m) u = (Inr x, t) \<longleftrightarrow> \<not> b \<and> m u = (Inr x, t)"
  by (simp add: succeeds)

lemma load_bootkc_succeeds:
  "load_bootkc fw io ib bk selected path s = (Inr decoded, t) \<longleftrightarrow> bootkc_verified fw io ib bk selected path s decoded t"
proof (cases "bk_seal bk")
  case None
  then show ?thesis by (simp add: load_bootkc_def bootkc_verified_def sealed_record_def succeeds)
next
  case (Some seal)
  then show ?thesis
    unfolding load_bootkc_def bootkc_verified_def
    by (simp only: option.case sealed_succeeds guard_succeeds read_pair_succeeds not_not)
qed

lemma load_startup_succeeds:
  "load_startup fw io ib su selected s = (Inr oc, t) \<longleftrightarrow> startup_verified fw io ib su selected s oc t"
proof (cases "su_seal su")
  case None
  then show ?thesis by (simp add: load_startup_def startup_verified_def sealed_record_def succeeds)
next
  case (Some seal)
  have tail: "bindE (read_companion fw io ib su ''SPTM'' c1) (\<lambda>sptm. bindE (read_companion fw io ib su ''TXM'' c2) (\<lambda>txm.
      bindS (report fw ''NXARMJIT: SELECTED_STARTUP_OWNED'' []) (\<lambda>_. ok \<lparr>oc_sptm = sptm, oc_txm = txm\<rparr>))) u = (Inr oc, t)
    \<longleftrightarrow> (\<exists>v w. companion_verified fw io ib su ''SPTM'' c1 u (oc_sptm oc) v \<and> companion_verified fw io ib su ''TXM'' c2 v (oc_txm oc) w
          \<and> t = snd (report fw ''NXARMJIT: SELECTED_STARTUP_OWNED'' [] w))" for c1 c2 u
    by (cases oc) (auto simp: succeeds read_companion_def companion_verified_def)
  from Some show ?thesis
    unfolding load_startup_def startup_verified_def
    by (simp only: option.case sealed_succeeds guard_succeeds tail not_not de_Morgan_disj) blast
qed

subsection \<open>The pages of the payload\<close>

context quiet_events
begin

lemma reads_or_reports: "neutral acq rel (read_or_report fw io tag f path maximum)"
  unfolding read_or_report_def by (intro quiet_intros)

lemma paths: "neutral acq rel (checked_path path)"
  unfolding checked_path_def by (intro quiet_intros)

lemma reads_pair: "neutral acq rel (read_pair fw io ib role sp se dp de n)"
  unfolding read_pair_def by (intro quiet_intros paths)

lemma loads_selected: "neutral acq rel (load_selected fw io ib)"
  unfolding load_selected_def by (intro quiet_intros paths reads_or_reports)

lemma loads_bootkc: "neutral acq rel (load_bootkc fw io ib bk selected path)"
  unfolding load_bootkc_def by (intro quiet_intros reads_pair)

lemma loads_startup: "neutral acq rel (load_startup fw io ib su selected)"
  unfolding load_startup_def read_companion_def by (intro quiet_intros reads_pair)

lemma stages_into_guest: "neutral acq rel (stage_into_guest fw su oc base stop ram)"
  unfolding stage_into_guest_def by (intro quiet_intros)

lemma report_many: "neutral acq rel (report_lines fw ls)"
proof (induction ls)
  case (Cons l ls)
  then show ?case by (cases l) (auto intro!: quiet_intros)
qed (simp add: neutral_intros)

end

lemmas selected_neutral = page_quiet.reads_or_reports page_quiet.or_reports page_quiet.paths

definition payload_tokens :: "selected_payload \<Rightarrow> (nat \<times> nat) multiset" where
  "payload_tokens p = arm_tokens (sp_pages p)"

lemma shifts_copy_payload:
  "shifts page_acq page_rel (copy_payload fw ib source companion decoded pages) (arm_tokens pages) (owned payload_tokens)"
proof -
  have "gives_up page_acq page_rel (arm_drop fw pages) (arm_tokens pages)" by (rule arm_memory.destroy_releases)
  then have "shifts page_acq page_rel (with_drop (bindS (report fw tag vs) (\<lambda>_. fail e)) (arm_drop fw pages))
      (arm_tokens pages) (owned payload_tokens)" for tag vs and e :: status
    by (rule shifts_with_drop [rotated])
      (auto intro!: shifts_bindS_neutral page_neutral_report shifts_neutral neutral_intros simp: fail_def intro: shifts_ret)
  then show ?thesis
    unfolding copy_payload_def
    by (auto simp: payload_tokens_def arm_tokens_def intro!: shifts_ok split: prod.split sum.split)
qed

lemma shifts_load_payload: "shifts page_acq page_rel (load_payload fw io ib source) {#} (owned payload_tokens)"
  unfolding load_payload_def allocate_data_def
  by (intro shifts_bindE_neutral selected_neutral neutral_lift shifts_bindE [OF shifts_allocate_kind])
    (simp_all add: shifts_copy_payload)

interpretation payload: owner page_acq page_rel "load_payload fw io ib source" "payload_drop fw" payload_tokens
  for fw io ib source
  by unfold_locales (simp_all add: shifts_load_payload payload_tokens_def payload_drop_def arm_memory.destroy_releases)

lemma payload_allocation_iff:
  "payload_allocation bytes = Inr n \<longleftrightarrow> bytes + 16383 < 2 ^ 64 \<and> bytes \<le> n \<and> n < bytes + 16384 \<and> n mod 16384 = 0"
proof -
  have "payload_allocation bytes = Inr n \<longleftrightarrow> bytes + 16383 < 2 ^ 64 \<and> n = (bytes + 16383) div 16384 * 16384"
    by (auto simp: payload_allocation_def checked_add_def)
  moreover have "n = (bytes + 16383) div 16384 * 16384" if "bytes \<le> n" "n < bytes + 16384" "n mod 16384 = 0"
  proof -
    from that(3) obtain q where q: "n = 16384 * q" by auto
    with that have "(bytes + 16383) div 16384 = q" by (intro div_nat_eqI) auto
    with q show ?thesis by simp
  qed
  ultimately show ?thesis using round_up_16k(1,2) [of bytes] by auto
qed

lemma returns_allocate:
  "returns (allocate_kind fw bytes fixed kind) (\<lambda>p. ap_bytes p = bytes \<and> ap_type p = kind \<and> ap_memory p = replicate bytes 0)"
  unfolding returns_def by (rule postI) (auto split: sum.split dest: allocate_kind_Inr)

lemma allocate_data_succeeds:
  "allocate_data fw n s = (Inr p, t) \<Longrightarrow> ap_bytes p = n \<and> ap_type p = LOADER_DATA \<and> ap_memory p = replicate n 0"
  unfolding allocate_data_def by (auto dest: allocate_kind_Inr)

lemma copy_payload_succeeds [succeeds]:
  "copy_payload fw ib source companion decoded pages s = (Inr p, t) \<longleftrightarrow> s = t
     \<and> ib_copy_payload ib (ss_record source) (ss_image source) companion decoded (ap_memory pages)
         = (Inr (sp_copied_bytes p), ap_memory (sp_pages p))
     \<and> sp_pages p = pages\<lparr>ap_memory := ap_memory (sp_pages p)\<rparr>"
  by (cases p) (auto simp: copy_payload_def op_simps split: prod.splits sum.splits)

lemma allocated_succeeds:
  "bindE (allocate_data fw n) k s = (Inr b, t) \<longleftrightarrow>
     (\<exists>p u. allocate_data fw n s = (Inr p, u) \<and> ap_type p = LOADER_DATA \<and> ap_memory p = replicate n 0 \<and> k p u = (Inr b, t))"
  unfolding bindE_succeeds using allocate_data_succeeds by metis

lemma load_payload_succeeds:
  "load_payload fw io ib source s = (Inr p, t) \<longleftrightarrow> payload_verified fw io ib source s p t"
proof -
  have tail: "bindE (lift (payload_allocation bytes)) (\<lambda>n. bindE (allocate_data fw n) (\<lambda>pages.
      copy_payload fw ib source companion decoded pages)) v = (Inr p, t)
    \<longleftrightarrow> (\<exists>room pages. bytes + 16383 < 2 ^ 64 \<and> bytes \<le> room \<and> room < bytes + 16384 \<and> room mod 16384 = 0
          \<and> allocate_data fw room v = (Inr pages, t) \<and> ap_type pages = LOADER_DATA \<and> ap_memory pages = replicate room 0
          \<and> ib_copy_payload ib (ss_record source) (ss_image source) companion decoded (ap_memory pages)
              = (Inr (sp_copied_bytes p), ap_memory (sp_pages p))
          \<and> sp_pages p = pages\<lparr>ap_memory := ap_memory (sp_pages p)\<rparr>)" for bytes companion decoded v
    unfolding bindE_succeeds [of "lift x" for x] allocated_succeeds simple_succeeds payload_allocation_iff copy_payload_succeeds
    by (intro iffI; elim exE conjE; hypsubst?; intro exI conjI; (assumption | rule refl))
  show ?thesis
    unfolding load_payload_def payload_verified_def bindE_succeeds [of "read_or_report a b c d e f" for a b c d e f]
      bindE_succeeds [of "or_report a b c d" for a b c d] bindE_succeeds [of "checked_path a" for a]
      tail read_or_report_succeeds or_report_succeeds checked_path_succeeds
    by (intro iffI; elim exE conjE; hypsubst?; intro exI conjI; (assumption | rule refl))
qed

subsection \<open>Properties\<close>

text \<open>Property C32: what a selected boot loads, and from what. Each loader succeeds with a result exactly
  when the files it reads, in this order, are as follows. The selected image: its record is read
  from the fixed path, and the image from the path in that record, with the size and digest in
  that record (the record itself is not sealed). The payload: its record is read from the fixed
  path and the decoded image from the path in it, and the core library's copy accepts them
  together with the selected record and image, into zeroed pages of loader data that hold the
  expected bytes rounded up to 16 KiB (this record is not sealed either). The kernel collection:
  the record at the fixed path has the digest that the build seals, is bound to the selected
  record and to the configured path, and both its signed and its decoded image are read from its
  paths with its digests. The companions: the same, for a record bound to the selected one whose
  paths differ from the image's, for each of the two pairs of images. In a build without a seal
  the last two never succeed.\<close>

theorem selected_inputs_are_verified:
  "(load_selected fw io ib s = (Inr x, t) \<longleftrightarrow> selected_verified fw io ib s x t)
   \<and> (load_payload fw io ib source s = (Inr p, t) \<longleftrightarrow> payload_verified fw io ib source s p t)
   \<and> (load_bootkc fw io ib bk selected path s = (Inr decoded, t) \<longleftrightarrow> bootkc_verified fw io ib bk selected path s decoded t)
   \<and> (load_startup fw io ib su selected s = (Inr oc, t) \<longleftrightarrow> startup_verified fw io ib su selected s oc t)"
  by (simp add: load_selected_succeeds load_payload_succeeds load_bootkc_succeeds load_startup_succeeds)

text \<open>The payload owns exactly one allocation, which its destructor gives back; a failure after
  the allocation gives it back at once.\<close>

theorem payload_owns_its_copy:
  "shifts page_acq page_rel (load_payload fw io ib source) {#}
     (\<lambda>r. case r of Inl _ \<Rightarrow> {#} | Inr p \<Rightarrow> {#(ap_original (sp_pages p), ap_count (sp_pages p))#})
   \<and> gives_up page_acq page_rel (payload_drop fw p) {#(ap_original (sp_pages p), ap_count (sp_pages p))#}"
  using payload.create_acquires [of fw io ib source] payload.destroy_releases [of fw p]
  by (simp add: owned_def [abs_def] payload_tokens_def [abs_def] arm_tokens_def)

end
