(* ===== verification/Arm_Jit.thy ===== *)
theory Arm_Jit
  imports Selected_Boot Boot_Framebuffer Picker "HOL-Library.Sublist"
begin

text \<open>
  The x86 application that runs an ARM guest in an emulator (src/src/arm\_jit.rs): it loads the
  selected images (Selected\_Boot), stages the kernel collection into owned pages (Page\_Owner), and
  either probes the emulator with an authored fixture or traces a guest, with or without the memory
  provider (Mapped\_Trace, Memory\_Observation), and shows the guest's framebuffer
  (Boot\_Framebuffer). The emulator, the protection of its code pages and the core library are
  parameters. An emulator that works on the RAM directly is a tree of its calls of the protection
  callback.
\<close>

subsection \<open>The build\<close>

text \<open>The trace tiers; each Cargo feature of a tier enables those of the tiers below it.\<close>

datatype tier = Basic | Tiered | Deep | Long | Initialization | Mapped

primrec tier_rank :: "tier \<Rightarrow> nat" where
  "tier_rank Basic = 0" | "tier_rank Tiered = 1" | "tier_rank Deep = 2" | "tier_rank Long = 3"
| "tier_rank Initialization = 4" | "tier_rank Mapped = 5"

instantiation tier :: linorder
begin

definition less_eq_tier :: "tier \<Rightarrow> tier \<Rightarrow> bool" where "s \<le> t \<longleftrightarrow> tier_rank s \<le> tier_rank t"
definition less_tier :: "tier \<Rightarrow> tier \<Rightarrow> bool" where "s < t \<longleftrightarrow> tier_rank s < tier_rank t"

instance
proof
  fix s t :: tier
  show "s \<le> t \<Longrightarrow> t \<le> s \<Longrightarrow> s = t" by (cases s; cases t) (simp_all add: less_eq_tier_def)
qed (auto simp: less_eq_tier_def less_tier_def)

end

record jit_build =
  jb_probe :: bool
  jb_trace :: bool
  jb_tier :: tier
  jb_provider :: bool
  jb_selected :: bool
  jb_memory_observation :: bool
  jb_protection_observation :: bool
  jb_video_readback :: bool

definition build_tier :: "jit_build \<Rightarrow> tier" where
  "build_tier b = (if jb_selected b then Mapped else jb_tier b)"

definition has_provider :: "jit_build \<Rightarrow> bool" where
  "has_provider b \<longleftrightarrow> jb_provider b \<or> jb_memory_observation b \<or> Deep \<le> build_tier b"

definition has_probe :: "jit_build \<Rightarrow> bool" where
  "has_probe b \<longleftrightarrow> jb_probe b \<or> has_provider b \<or> Tiered \<le> build_tier b"

definition has_trace :: "jit_build \<Rightarrow> bool" where
  "has_trace b \<longleftrightarrow> jb_trace b \<or> jb_protection_observation b \<or> jb_video_readback b \<or> has_provider b \<or> Tiered \<le> build_tier b"

subsection \<open>Results of the emulator\<close>

record jit_result =
  jr_status :: nat
  jr_fault_instruction :: nat
  jr_retired :: nat
  jr_pc :: nat
  jr_x0 :: nat
  jr_x1 :: nat
  jr_x2 :: nat
  jr_x3 :: nat
  jr_compiled_blocks :: nat

record boot_result =
  br_base :: jit_result
  br_platform_profile :: nat
  br_platform_override :: nat
  br_pending_lines :: nat
  br_pstate :: nat
  br_sp :: nat
  br_elr :: nat
  br_spsr :: nat
  br_exception_vector :: nat
  br_esr :: nat

record memory_result =
  mr_execution :: boot_result
  mr_abi_version :: nat
  mr_struct_size :: nat
  mr_provider_status :: nat
  mr_reserved0 :: nat
  mr_reserved1 :: nat
  mr_guest_far :: nat
  mr_last_address :: nat
  mr_fetch_requests :: nat
  mr_data_requests :: nat
  mr_completed_data_operations :: nat

datatype 'a native = Returned 'a | Protected nat nat u32 "int \<Rightarrow> 'a native"

primrec run_native :: "('c, 'w) protector \<Rightarrow> 'a native \<Rightarrow> 'c \<Rightarrow> ('w, 'a \<times> 'c) op" where
  "run_native prot (Returned a) c = ret (a, c)"
| "run_native prot (Protected p n x k) c = bindS (prot p n x c) (\<lambda>(r, c). run_native prot (k r) c)"

subsection \<open>Protection of the code pages\<close>

text \<open>What the program asks of the runtime and the hardware.\<close>

record 'w jit_host =
  jh_system_table :: "'w \<Rightarrow> bool"
  jh_open :: "'w \<Rightarrow> int \<times> 'w"
  jh_protect :: "nat \<Rightarrow> nat \<Rightarrow> u32 \<Rightarrow> 'w \<Rightarrow> int \<times> 'w"
  jh_present :: "u8 list \<Rightarrow> nat \<Rightarrow> 'w \<Rightarrow> status \<times> 'w"
  jh_readback :: "'w \<Rightarrow> (status \<times> u8 list) \<times> 'w"

definition int_status :: "int \<Rightarrow> status" where
  "int_status r = (if r = 0 then SUCCESS else DEVICE_ERROR)"

definition protection_open :: "'w jit_host \<Rightarrow> ('w, int) op" where
  "protection_open jh = call (jh_open jh) (\<lambda>r. ECall ''jit_protection_open'' [] (int_status r))"

definition jit_protect :: "'w jit_host \<Rightarrow> nat \<Rightarrow> nat \<Rightarrow> u32 \<Rightarrow> ('w, int) op" where
  "jit_protect jh p n x = call (jh_protect jh p n x) (\<lambda>r. ECall ''jit_protect'' [RNat p, RNat n, RNat (unat x)] (int_status r))"

record protection_observation =
  po_writable :: nat
  po_executable :: nat
  po_failures :: nat

definition plain_protect :: "'w jit_host \<Rightarrow> ('c, 'w) protector" where
  "plain_protect jh p n x c = bindS (jit_protect jh p n x) (\<lambda>r. ret (r, c))"

definition count_call :: "u32 \<Rightarrow> protection_observation \<Rightarrow> protection_observation" where
  "count_call x c = (if x = 0 then c\<lparr>po_writable := saturating_add (po_writable c) 1\<rparr>
     else if x = 1 then c\<lparr>po_executable := saturating_add (po_executable c) 1\<rparr> else c)"

definition count_result :: "int \<Rightarrow> protection_observation \<Rightarrow> protection_observation" where
  "count_result r c = (if r \<noteq> 0 then c\<lparr>po_failures := saturating_add (po_failures c) 1\<rparr> else c)"

definition observed_protect :: "'w jit_host \<Rightarrow> nat \<times> nat \<Rightarrow> (protection_observation, 'w) protector" where
  "observed_protect jh = (\<lambda>(align, ptr) p n x c.
     if \<not> aligned_ptr align ptr then ret (- 1, c)
     else bindS (jit_protect jh p n x) (\<lambda>r. ret (r, count_result r (count_call x c))))"

text \<open>The observation is a local variable of the trace, so its address is not null and aligned.\<close>

definition protect_callback :: "jit_build \<Rightarrow> 'w jit_host \<Rightarrow> (protection_observation, 'w) protector" where
  "protect_callback b jh = (if jb_protection_observation b then observed_protect jh (8, 8) else plain_protect jh)"

subsection \<open>The core library\<close>

record platform_configuration =
  pf_initial_override :: nat
  pf_initial_pstate :: nat
  pf_vector_base :: nat
  pf_irq_level :: nat
  pf_fiq_level :: nat

record trace_configuration =
  tc_physical_base :: nat
  tc_virtual_base :: nat
  tc_memory_size :: nat
  tc_actual_memory_size :: nat
  tc_kernel_phys :: nat
  tc_device_tree_path :: ustr
  tc_instruction_budget :: nat
  tc_video :: bool
  tc_memory_profile :: bool
  tc_platform :: "platform_configuration option"

record framebuffer =
  fb_width :: nat
  fb_height :: nat
  fb_row_bytes :: nat
  fb_base_phys :: nat
  fb_byte_len :: nat

datatype handoff_phase = DestinationInitialized | CollectionInitialized | CollectionSegmentsCopied | CollectionArenaVerified
  | CollectionMemberViewsVerified | CollectionVerified | TailVerified

text \<open>
  \<open>'h\<close> is a handoff plan, \<open>'t\<close> a parsed device tree, \<open>'n\<close> the plain memory service. \<open>jc_stage_observed\<close>
  gives the phases it has announced, whether it succeeded, and the memory.
\<close>

record ('h, 't, 'n) jit_core =
  jc_handoff :: "'h handoff_core"
  jc_parse :: "tier \<Rightarrow> u8 list \<Rightarrow> string + trace_configuration"
  jc_device_tree :: "u8 list \<Rightarrow> string + 't"
  jc_templates :: "'t \<Rightarrow> nat"
  jc_runtime_bytes :: "'t \<Rightarrow> string + unit"
  jc_plan_framebuffer :: "u8 list \<Rightarrow> placement \<Rightarrow> nat \<times> nat \<times> nat \<Rightarrow> string + 'h"
  jc_framebuffer :: "'h \<Rightarrow> framebuffer option"
  jc_stage_observed :: "'h \<Rightarrow> u8 list \<Rightarrow> (handoff_phase list \<times> bool) \<times> u8 list"
  jc_device_tree_va :: "'h \<Rightarrow> nat"
  jc_profile_irq_compat :: nat
  jc_options_size :: nat
  jc_result_size :: nat
  jc_service_new :: "u8 list \<Rightarrow> nat \<Rightarrow> 'n option"
  jc_service :: "'n service"
  jc_service_ram :: "'n \<Rightarrow> u8 list"
  jc_run_memory :: "run_args \<Rightarrow> memory_result guest"
  jc_run_native :: "run_args \<Rightarrow> u8 list \<Rightarrow> (int \<times> boot_result \<times> u8 list) native"
  jc_run_pauth :: "u8 list \<Rightarrow> nat \<Rightarrow> nat \<Rightarrow> nat \<Rightarrow> nat \<Rightarrow> u8 list \<Rightarrow> nat \<Rightarrow> (int \<times> jit_result \<times> u8 list) native"

subsection \<open>The probe of an authored fixture\<close>

definition JIT_RAM_SIZE :: nat where "JIT_RAM_SIZE = 64 * 1024 * 1024"
definition KERNEL_OFFSET :: nat where "KERNEL_OFFSET = 32 * 1024 * 1024"
definition FRAMEBUFFER_OFFSET :: nat where "FRAMEBUFFER_OFFSET = 0x30000"

definition probe_tree :: flat_node where
  "probe_tree = FlatNode [] [] [FlatNode ''chosen''
     [(''dram-base'', le_bytes 8 RAM_BASE), (''dram-size'', le_bytes 8 JIT_RAM_SIZE)] []]"

definition probe_placement :: "u8 list \<Rightarrow> ustr \<Rightarrow> placement" where
  "probe_placement dt arguments = \<lparr>pi_physical_base = RAM_BASE, pi_virtual_base = VIRTUAL_BASE, pi_memory_size = JIT_RAM_SIZE,
     pi_actual_memory_size = JIT_RAM_SIZE, pi_kernel_phys = RAM_BASE + KERNEL_OFFSET, pi_device_tree = dt,
     pi_command_line = arguments, pi_machine_type = 0, pi_boot_flags = 0\<rparr>"

fun chunks4 :: "u8 list \<Rightarrow> u8 list list" where
  "chunks4 (a # b # c # d # rest) = [a, b, c, d] # chunks4 rest"
| "chunks4 _ = []"

definition expected_boot_args :: "nat \<Rightarrow> u8 list" where
  "expected_boot_args dt_va = le_bytes 8 0x20002 @ le_bytes 8 dt_va @ le_bytes 8 RAM_BASE @ le_bytes 8 JIT_RAM_SIZE"

definition result_as_expected :: "('h, 't, 'n) jit_core \<Rightarrow> 'h \<Rightarrow> bool \<Rightarrow> int \<Rightarrow> jit_result \<Rightarrow> bool" where
  "result_as_expected jc plan pac st r \<longleftrightarrow> (let l = hc_layout (jc_handoff jc) plan; expected_retired = (if pac then 45 else 25) in
     st = 1 \<and> jr_status r = 1 \<and> jr_retired r = expected_retired
     \<and> jr_pc r = wrapping_add (la_entry_phys l) (expected_retired * 4) \<and> jr_compiled_blocks r \<noteq> 0
     \<and> jr_x0 r = la_boot_args_phys l \<and> jr_x1 r = 0x20002 \<and> jr_x2 r = RAM_BASE + 0x10000
     \<and> jr_x3 r = jc_device_tree_va jc plan)"

definition word_at :: "nat \<Rightarrow> u8 list \<Rightarrow> nat" where
  "word_at off ram = le_nat (subrange off (off + 8) ram)"

text \<open>A C int in a report: its 32 bits.\<close>

definition status_value :: "int \<Rightarrow> rvalue" where
  "status_value st = RNat (nat (st mod 2 ^ 32))"

text \<open>The checks of the guest's memory, in order, and the presentation of its pixels.\<close>

definition probe_verdict :: "'w firmware \<Rightarrow> 'w jit_host \<Rightarrow> nat \<Rightarrow> bool \<Rightarrow> u8 list \<Rightarrow> ('w, unit) res" where
  "probe_verdict fw jh dt_va pac ram =
     (if subrange 0x10000 0x10020 ram \<noteq> expected_boot_args dt_va then fail COMPROMISED_DATA
      else bindS (report fw ''NXARMJIT: BOOT_ARGS_READBACK_OK'' []) (\<lambda>_.
        bindE (if \<not> pac then ok ()
               else if word_at 0x10020 ram \<noteq> 0xbf36000000000130 \<or> word_at 0x10028 ram \<noteq> 0x130 then fail COMPROMISED_DATA
               else bindS (report fw ''NXARMJIT: ARM64E_PAC_READBACK_OK'' []) ok) (\<lambda>_.
        if \<not> list_all (\<lambda>p. p = [0x33, 0x22, 0x11, 0]) (chunks4 (subrange FRAMEBUFFER_OFFSET (FRAMEBUFFER_OFFSET + 64) ram))
        then fail COMPROMISED_DATA
        else bindS (report fw ''NXARMJIT: GUEST_FRAMEBUFFER_OK'' []) (\<lambda>_.
          bindS (call (jh_present jh ram FRAMEBUFFER_OFFSET) (ECall ''gop_present'' [])) (\<lambda>presented.
          if presented \<noteq> SUCCESS then bindS (report fw ''NXARMJIT: GOP_PRESENT_FAILED'' [RStat presented]) (\<lambda>_. fail presented)
          else bindS (call (jh_readback jh) (\<lambda>(st, _). ECall ''gop_readback'' [] st)) (\<lambda>(st, captured).
            if st \<noteq> SUCCESS then fail st
            else if \<not> list_all (\<lambda>p. take 3 p = [0x33, 0x22, 0x11]) (chunks4 captured) then fail COMPROMISED_DATA
            else bindS (report fw ''NXARMJIT: GOP_READBACK_OK'' []) (\<lambda>_.
              bindS (report fw ''NXARMJIT: AUTHORED_HANDOFF_OK'' []) (\<lambda>_. ok ()))))))))"

text \<open>The emulator runs on the staged RAM and the code pages; the code pages are made writable again before the verdict.\<close>

definition probe_engine :: "'w firmware \<Rightarrow> 'w jit_host \<Rightarrow> ('h, 't, 'n) jit_core \<Rightarrow> 'h \<Rightarrow> bool \<Rightarrow> u8 list \<Rightarrow> arm_pages
    \<Rightarrow> ('w, unit) res" where
  "probe_engine fw jh jc plan pac ram code =
     (let l = hc_layout (jc_handoff jc) plan in
      bindS (query (jh_system_table jh)) (\<lambda>table.
      if \<not> table then fail NOT_READY
      else bindS (protection_open jh) (\<lambda>opened.
      if opened \<noteq> 0 then bindS (report fw ''NXARMJIT: PROTECTION_UNAVAILABLE'' []) (\<lambda>_. fail UNSUPPORTED)
      else bindS (report_lines fw [(''NXARMJIT: STAGING_VERIFIED'', []),
          (''NXARMJIT: GUEST_ENTRY_READY'', [RNat (la_entry_phys l), RNat (la_boot_args_phys l), RNat RAM_BASE]),
          (''NXARMJIT: JIT_ENTER'', [])]) (\<lambda>_.
        bindS (run_native (plain_protect jh) (jc_run_pauth jc ram RAM_BASE (la_entry_phys l) (la_boot_args_phys l)
            (la_stack_top_phys l) (ap_memory code) 100000) ()) (\<lambda>((st, r, ram), _).
        bindS (jit_protect jh (ap_base code) (ap_bytes code) 0) (\<lambda>restored.
        bindS (report fw ''NXARMJIT: JIT_RETURN'' [status_value st, RNat (jr_retired r), RNat (jr_pc r),
          RNat (jr_compiled_blocks r), RNat (jr_fault_instruction r)]) (\<lambda>_.
        if restored \<noteq> 0 then fail DEVICE_ERROR
        else if \<not> result_as_expected jc plan pac st r then fail COMPROMISED_DATA
        else probe_verdict fw jh (jc_device_tree_va jc plan) pac ram)))))))"

text \<open>Pages that are dropped at the end of their scope, in operations that do not panic.\<close>

definition owning_pages :: "'w firmware \<Rightarrow> ('w, arm_pages) res \<Rightarrow> (arm_pages \<Rightarrow> ('w, 'a) res) \<Rightarrow> ('w, 'a) res" where
  "owning_pages fw alloc body = bindE alloc (\<lambda>p. with_drop (body p) (arm_drop fw p))"

definition jit_probe :: "'w firmware \<Rightarrow> 'w jit_host \<Rightarrow> ('h, 't, 'n) jit_core \<Rightarrow> u8 list \<Rightarrow> ustr \<Rightarrow> bool \<Rightarrow> ('w, unit) res" where
  "jit_probe fw jh jc source arguments pac =
     (let hc = jc_handoff jc in
      bindE (lift (ok_or (hc_encode hc probe_tree) INVALID_PARAMETER)) (\<lambda>dt.
      bindE (or_report fw ''NXARMJIT: PLACEMENT_INVALID'' LOAD_ERROR (hc_plan hc source (probe_placement dt arguments))) (\<lambda>plan.
      let l = hc_layout hc plan in
      bindE (lift (ok_or (case checked_add KERNEL_OFFSET (la_allocation_bytes l) of
          None \<Rightarrow> None | Some stop \<Rightarrow> if stop \<le> JIT_RAM_SIZE then Some stop else None) OUT_OF_RESOURCES)) (\<lambda>stop.
      owning_pages fw (allocate_data fw JIT_RAM_SIZE) (\<lambda>ram.
        case hc_stage_into hc plan (subrange KERNEL_OFFSET stop (ap_memory ram)) of
          (None, _) \<Rightarrow> fail COMPROMISED_DATA
        | (Some _, staged) \<Rightarrow>
            owning_pages fw (allocate fw (64 * 1024) None) (\<lambda>code.
              probe_engine fw jh jc plan pac (overwrite KERNEL_OFFSET staged (ap_memory ram)) code))))))"

subsection \<open>The trace: its configuration and its device tree\<close>

definition tier_lines :: "tier \<Rightarrow> line list" where
  "tier_lines t =
     (if Tiered \<le> t then [(''NXARMJIT: TRACE_TIERED_DIAGNOSTIC'', [RNat 4096])] else [])
     @ (if Deep \<le> t then [(''NXARMJIT: TRACE_DEEP_DIAGNOSTIC_BUILD'', [RNat 16384])] else [])
     @ (if Long \<le> t then [(''NXARMJIT: TRACE_LONG_DIAGNOSTIC_BUILD'', [RNat 65536])] else [])
     @ (if Initialization \<le> t then [(''NXARMJIT: TRACE_INITIALIZATION_DIAGNOSTIC_BUILD'', [RNat 67108864])] else [])
     @ (if Mapped \<le> t then [(''NXARMJIT: TRACE_MAPPED_DIAGNOSTIC_BUILD'', [])] else [])"

definition selected_tier_lines :: "tier \<Rightarrow> trace_configuration \<Rightarrow> line list" where
  "selected_tier_lines t c =
     (if Mapped \<le> t \<and> tc_memory_profile c then [(''NXARMJIT: TRACE_MAPPED_DIAGNOSTIC_SELECTED'', [])] else [])
     @ (if Deep \<le> t \<and> tc_instruction_budget c = 16384 then [(''NXARMJIT: TRACE_DEEP_DIAGNOSTIC_SELECTED'', [])] else [])
     @ (if Long \<le> t \<and> tc_instruction_budget c = 65536 then [(''NXARMJIT: TRACE_LONG_DIAGNOSTIC_SELECTED'', [])] else [])
     @ (if Initialization \<le> t \<and> tc_instruction_budget c = 67108864
        then [(''NXARMJIT: TRACE_INITIALIZATION_DIAGNOSTIC_SELECTED'', [])] else [])"

definition trace_config :: "jit_build \<Rightarrow> 'w firmware \<Rightarrow> ('h, 't, 'n) jit_core \<Rightarrow> u8 list \<Rightarrow> ('w, trace_configuration) res" where
  "trace_config b fw jc config =
     bindS (report_lines fw (tier_lines (build_tier b))) (\<lambda>_.
     bindE (or_report fw ''NXARMJIT: TRACE_CONFIG_INVALID'' INVALID_PARAMETER (jc_parse jc (build_tier b) config)) (\<lambda>c.
     if jb_selected b \<and> \<not> tc_memory_profile c then
       bindS (report fw ''NXARMJIT: SELECTED_TRACE_REQUIRES_MAPPED_MEMORY'' []) (\<lambda>_. fail INVALID_PARAMETER)
     else bindS (report_lines fw (selected_tier_lines (build_tier b) c)) (\<lambda>_. ok c)))"

definition trace_device_tree :: "'w firmware \<Rightarrow> 'w file_io \<Rightarrow> ('h, 't, 'n) jit_core \<Rightarrow> ustr \<Rightarrow> ('w, u8 list) res" where
  "trace_device_tree fw io jc path =
     (if \<not> ucs2 path then fail INVALID_PARAMETER
      else bindE (read_file fw io path (1024 * 1024)) (\<lambda>dt.
        bindE (or_report fw ''NXARMJIT: TRACE_DT_INVALID'' LOAD_ERROR (jc_device_tree jc dt)) (\<lambda>t.
        if jc_templates jc t \<noteq> 0 then
          bindS (report fw ''NXARMJIT: TRACE_DT_UNRESOLVED'' [RNat (jc_templates jc t)]) (\<lambda>_. fail UNSUPPORTED)
        else bindE (or_report fw ''NXARMJIT: TRACE_DT_INVALID'' LOAD_ERROR (jc_runtime_bytes jc t)) (\<lambda>_.
          bindS (report fw ''NXARMJIT: TRACE_DT_CHECKED'' []) (\<lambda>_. ok dt)))))"

definition trace_placement :: "trace_configuration \<Rightarrow> u8 list \<Rightarrow> ustr \<Rightarrow> placement" where
  "trace_placement c dt arguments = \<lparr>pi_physical_base = tc_physical_base c, pi_virtual_base = tc_virtual_base c,
     pi_memory_size = tc_memory_size c, pi_actual_memory_size = tc_actual_memory_size c, pi_kernel_phys = tc_kernel_phys c,
     pi_device_tree = dt, pi_command_line = arguments, pi_machine_type = 0, pi_boot_flags = 0\<rparr>"

text \<open>The display is optional: when it cannot be opened, or the framebuffer does not fit, the trace goes on without it.\<close>

definition trace_display :: "'w firmware \<Rightarrow> trace_configuration \<Rightarrow> ('w, current_gop option) op" where
  "trace_display fw c = (if tc_video c then bindS (open_gop fw) (\<lambda>r. case r of
       Inr gop \<Rightarrow> ret (Some gop)
     | Inl e \<Rightarrow> bindS (report fw ''NXARMJIT: TRACE_VIDEO_UNAVAILABLE'' [RStat e]) (\<lambda>_. ret None))
     else ret None)"

definition display_drop :: "'w firmware \<Rightarrow> current_gop option \<Rightarrow> 'w sys \<Rightarrow> 'w sys" where
  "display_drop fw dsp = (case dsp of None \<Rightarrow> id | Some gop \<Rightarrow> gop_drop fw (cg_handle gop))"

definition trace_plan :: "'w firmware \<Rightarrow> ('h, 't, 'n) jit_core \<Rightarrow> u8 list \<Rightarrow> placement \<Rightarrow> current_gop option
    \<Rightarrow> ('w, (string + 'h) \<times> current_gop option) op" where
  "trace_plan fw jc source input dsp = (case dsp of
     None \<Rightarrow> ret (hc_plan (jc_handoff jc) source input, None)
   | Some gop \<Rightarrow>
       let g = cg_geometry gop in
       (case jc_plan_framebuffer jc source input (ge_width g, ge_height g, ge_row_bytes g) of
          Inr plan \<Rightarrow> ret (Inr plan, Some gop)
        | Inl _ \<Rightarrow>
            bindS (report fw ''NXARMJIT: TRACE_VIDEO_UNAVAILABLE'' [RText ''FRAMEBUFFER_PLACEMENT'']) (\<lambda>_.
            bindS (drop_op (display_drop fw dsp)) (\<lambda>_.
            ret (hc_plan (jc_handoff jc) source input, None)))))"

definition phase_line :: "handoff_phase \<Rightarrow> line" where
  "phase_line ph = (case ph of
     DestinationInitialized \<Rightarrow> ''NXARMJIT: TRACE_HANDOFF_ZEROED''
   | CollectionInitialized \<Rightarrow> ''NXARMJIT: TRACE_KC_ZEROED''
   | CollectionSegmentsCopied \<Rightarrow> ''NXARMJIT: TRACE_KC_COPIED''
   | CollectionArenaVerified \<Rightarrow> ''NXARMJIT: TRACE_KC_ARENA_VERIFIED''
   | CollectionMemberViewsVerified \<Rightarrow> ''NXARMJIT: TRACE_KC_MEMBERS_VERIFIED''
   | CollectionVerified \<Rightarrow> ''NXARMJIT: TRACE_COLLECTION_VERIFIED''
   | TailVerified \<Rightarrow> ''NXARMJIT: TRACE_TAIL_VERIFIED'', [])"

text \<open>Where the plan goes in the guest's RAM; the end is checked before the pages are allocated.\<close>

definition trace_range :: "trace_configuration \<Rightarrow> handoff_layout \<Rightarrow> status + nat \<times> nat" where
  "trace_range c l =
     (let offset = wrapping_sub (la_kernel_phys l) (tc_physical_base c) in
      and_then (ok_or (case checked_add offset (la_allocation_bytes l) of
          None \<Rightarrow> None | Some stop \<Rightarrow> if stop \<le> tc_memory_size c then Some stop else None) BAD_BUFFER_SIZE) (\<lambda>stop.
      Inr (offset, stop)))"

definition trace_staging :: "'w firmware \<Rightarrow> ('h, 't, 'n) jit_core \<Rightarrow> ('r, 'i, 's, 'm, 'd) startup_core \<Rightarrow> owned_companions option
    \<Rightarrow> trace_configuration \<Rightarrow> 'h \<Rightarrow> nat \<times> nat \<Rightarrow> u8 list \<Rightarrow> ('w, u8 list \<times> stage1_alias list) res" where
  "trace_staging fw jc su companions c plan = (\<lambda>(offset, stop) memory.
     let l = hc_layout (jc_handoff jc) plan in
     bindS (report fw ''NXARMJIT: TRACE_RAM_READY'' []) (\<lambda>_.
     case jc_stage_observed jc plan (subrange offset stop memory) of
       ((phases, staged), part) \<Rightarrow>
         bindS (report_lines fw (map phase_line phases)) (\<lambda>_.
         if \<not> staged then fail COMPROMISED_DATA
         else let memory = overwrite offset part memory in
           bindE (case companions of
              None \<Rightarrow> ok ([], memory)
            | Some oc \<Rightarrow> stage_into_guest fw su oc (tc_physical_base c) (la_occupied_end l) memory) (\<lambda>(aliases, memory).
           bindS (report_lines fw (case jc_framebuffer jc plan of
              None \<Rightarrow> []
            | Some fb \<Rightarrow> [(''NXARMJIT: TRACE_VIDEO_READY'', [RNat (fb_width fb), RNat (fb_height fb), RNat (fb_base_phys fb),
                RNat (fb_row_bytes fb), RNat (fb_byte_len fb)])])) (\<lambda>_.
           ok (memory, aliases))))))"

subsection \<open>The trace: the run of the guest\<close>

definition trace_options :: "('h, 't, 'n) jit_core \<Rightarrow> trace_configuration \<Rightarrow> boot_options \<times> line" where
  "trace_options jc c =
     (let o0 = \<lparr>bo_abi_version = 2, bo_struct_size = jc_options_size jc, bo_initial_pstate = 0x3c5, bo_platform_profile = 0,
        bo_initial_override = 0, bo_vbar = 0, bo_irq_level = 0, bo_fiq_level = 0\<rparr> in
      case tc_platform c of
        None \<Rightarrow> (o0, ''NXARMJIT: TRACE_PLATFORM_PROFILE'', [RText ''absent''])
      | Some pf \<Rightarrow> (o0\<lparr>bo_platform_profile := jc_profile_irq_compat jc, bo_initial_override := pf_initial_override pf,
            bo_initial_pstate := pf_initial_pstate pf, bo_vbar := pf_vector_base pf, bo_irq_level := pf_irq_level pf,
            bo_fiq_level := pf_fiq_level pf\<rparr>,
          ''NXARMJIT: TRACE_PLATFORM_PROFILE'', [RText ''nextcore-irq-compat-v1'', RNat (pf_initial_override pf),
            RNat (pf_initial_pstate pf), RNat (pf_irq_level pf), RNat (pf_fiq_level pf)]))"

definition trace_entry :: "trace_configuration \<Rightarrow> handoff_layout \<Rightarrow> status + nat" where
  "trace_entry c l = (if tc_memory_profile c
     then ok_or (checked_add (tc_virtual_base c) (wrapping_sub (la_entry_phys l) (tc_physical_base c))) INVALID_PARAMETER
     else Inr (la_entry_phys l))"

definition trace_arguments :: "trace_configuration \<Rightarrow> handoff_layout \<Rightarrow> nat \<Rightarrow> arm_pages \<Rightarrow> boot_options \<Rightarrow> stage1_alias list
    \<Rightarrow> run_args" where
  "trace_arguments c l entry code options aliases = \<lparr>ra_base = tc_physical_base c, ra_size = tc_memory_size c,
     ra_virtual_base = tc_virtual_base c, ra_entry = entry, ra_args = la_boot_args_phys l, ra_stack = la_stack_top_phys l,
     ra_code = ap_memory code, ra_budget = tc_instruction_budget c, ra_initial = [0, la_boot_args_phys l, 0, 0],
     ra_options = options, ra_aliases = aliases\<rparr>"

text \<open>The plain memory provider, with the ring of its last requests in the build that observes it.\<close>

definition request_line :: "obs_entry \<Rightarrow> line" where
  "request_line e = (''NXARMJIT: TRACE_MEMORY_REQUEST'', [RNat (en_sequence e), RNat (unat (en_operation e)), RNat (en_pc e),
     RNat (en_address e), RNat (unat (en_width e)), RNat (unat (en_count e)), RNat (unat (en_result e))])"

definition plain_run :: "jit_build \<Rightarrow> 'w firmware \<Rightarrow> ('h, 't, 'n) jit_core \<Rightarrow> ('c, 'w) protector \<Rightarrow> run_args \<Rightarrow> u8 list \<Rightarrow> 'c
    \<Rightarrow> ('w, status + (int \<times> memory_result) \<times> u8 list \<times> 'c) op" where
  "plain_run b fw jc prot a ram ctx =
     bindS (report fw ''NXARMJIT: TRACE_MEMORY_PROVIDER'' [RText ''m0-only'']) (\<lambda>_.
     case jc_service_new jc ram (ra_base a) of
       None \<Rightarrow> fail INVALID_PARAMETER
     | Some n \<Rightarrow>
         if jb_memory_observation b then
           bindS (run_guest (execute (jc_service jc)) prot (jc_run_memory jc a) (new_observed n) ctx) (\<lambda>((st, mr, _), om, ctx).
           bindS (report_lines fw ((''NXARMJIT: TRACE_MEMORY_OBSERVATION'', [RNat (om_total om), RNat (length (entries om))])
             # map request_line (entries om))) (\<lambda>_.
           ok ((st, mr), jc_service_ram jc (om_service om), ctx)))
         else
           bindS (run_guest (jc_service jc) prot (jc_run_memory jc a) n ctx) (\<lambda>((st, mr, _), n, ctx).
           ok ((st, mr), jc_service_ram jc n, ctx)))"

text \<open>The emulator of the build, on the guest's RAM: its status, the provider's result, the platform's result, the RAM.\<close>

definition trace_engine :: "jit_build \<Rightarrow> 'w firmware \<Rightarrow> ('h, 't, 'n) jit_core \<Rightarrow> abi \<Rightarrow> trace_build
    \<Rightarrow> ('q, memory_result) trace_deps \<Rightarrow> ('c, 'w) protector \<Rightarrow> trace_configuration \<Rightarrow> run_args \<Rightarrow> handoff_layout \<Rightarrow> u8 list \<Rightarrow> 'c
    \<Rightarrow> ('w, status + (int \<times> memory_result option \<times> boot_result) \<times> u8 list \<times> 'c) op" where
  "trace_engine b fw jc abi tb td prot c a l ram ctx =
     (if \<not> has_provider b then
        bindS (run_native prot (jc_run_native jc (a\<lparr>ra_entry := la_entry_phys l\<rparr>) ram) ctx) (\<lambda>((st, br, ram), ctx).
        ok ((st, None, br), ram, ctx))
      else bindE (if Mapped \<le> build_tier b \<and> tc_memory_profile c
                  then trace_run fw abi (tb\<lparr>tr_observe := jb_memory_observation b\<rparr>) td a ram prot ctx
                  else plain_run b fw jc prot (a\<lparr>ra_entry := la_entry_phys l\<rparr>) ram ctx) (\<lambda>((st, mr), ram, ctx).
        ok ((st, Some mr, mr_execution mr), ram, ctx)))"

definition trace_launch :: "jit_build \<Rightarrow> 'w firmware \<Rightarrow> 'w jit_host \<Rightarrow> ('h, 't, 'n) jit_core \<Rightarrow> abi \<Rightarrow> trace_build
    \<Rightarrow> ('q, memory_result) trace_deps \<Rightarrow> trace_configuration \<Rightarrow> handoff_layout \<Rightarrow> stage1_alias list \<Rightarrow> u8 list \<Rightarrow> arm_pages
    \<Rightarrow> ('w, status + (int \<times> memory_result option \<times> boot_result) \<times> u8 list \<times> protection_observation) op" where
  "trace_launch b fw jh jc abi tb td c l aliases ram code =
     bindS (query (jh_system_table jh)) (\<lambda>table.
     if \<not> table then fail NOT_READY
     else bindS (protection_open jh) (\<lambda>opened.
     if opened \<noteq> 0 then fail UNSUPPORTED
     else bindS (report_lines fw [(''NXARMJIT: TRACE_JIT_PROTECTION_READY'', []), (''NXARMJIT: TRACE_STAGING_VERIFIED'', []),
         (''NXARMJIT: TRACE_HANDOFF_UNPROVISIONED'', []), snd (trace_options jc c)]) (\<lambda>_.
       bindE (lift (trace_entry c l)) (\<lambda>entry.
       bindS (report fw ''NXARMJIT: TRACE_ENTER'' [RNat entry, RNat (la_boot_args_phys l), RNat (tc_instruction_budget c)]) (\<lambda>_.
       trace_engine b fw jc abi tb td (protect_callback b jh) c
         (trace_arguments c l entry code (fst (trace_options jc c)) aliases) l ram
         \<lparr>po_writable = 0, po_executable = 0, po_failures = 0\<rparr>)))))"

subsection \<open>The trace: its report\<close>

definition result_lines :: "jit_build \<Rightarrow> protection_observation \<Rightarrow> int \<Rightarrow> memory_result option \<Rightarrow> boot_result \<Rightarrow> line list" where
  "result_lines b ctx st mr br =
     (let r = br_base br in
      (if jb_protection_observation b
       then [(''NXARMJIT: TRACE_PROTECTION_CALLS'', [RNat (po_writable ctx), RNat (po_executable ctx), RNat (po_failures ctx)])] else [])
      @ [(''NXARMJIT: TRACE_RETURN'', [status_value st, RNat (jr_retired r), RNat (jr_pc r), RNat (jr_compiled_blocks r),
            RNat (jr_fault_instruction r)]),
         (''NXARMJIT: TRACE_REGISTERS'', [RNat (jr_x0 r), RNat (jr_x1 r), RNat (jr_x2 r), RNat (jr_x3 r)]),
         (''NXARMJIT: TRACE_PLATFORM_STATE'', [RNat (br_platform_profile br), RNat (br_platform_override br),
            RNat (br_pending_lines br), RNat (br_pstate br), RNat (br_sp br)]),
         (''NXARMJIT: TRACE_EXCEPTION_STATE'', [RNat (br_elr br), RNat (br_spsr br), RNat (br_exception_vector br), RNat (br_esr br)])]
      @ (case mr of None \<Rightarrow> [] | Some m \<Rightarrow> [(''NXARMJIT: TRACE_MEMORY_RESULT'', [RNat (mr_abi_version m), RNat (mr_provider_status m),
            RNat (mr_guest_far m), RNat (mr_last_address m), RNat (mr_fetch_requests m), RNat (mr_data_requests m),
            RNat (mr_completed_data_operations m)])]))"

definition framebuffer_rgb_hash :: "u8 list \<Rightarrow> u64" where
  "framebuffer_rgb_hash bytes = fold (\<lambda>byte hash. (hash XOR ucast byte) * 0x100000001b3)
     (concat (map (take 3) (chunks4 bytes))) 0xcbf29ce484222325"

definition rgb_match :: "u8 list \<Rightarrow> u8 list \<Rightarrow> bool" where
  "rgb_match pixels observed \<longleftrightarrow> length pixels = length observed
     \<and> list_all (\<lambda>(a, b). take 3 a = take 3 b) (zip (chunks4 pixels) (chunks4 observed))"

definition readback_line :: "u8 list \<Rightarrow> status + u8 list \<Rightarrow> line" where
  "readback_line pixels r = (case r of
     Inl e \<Rightarrow> (''NXARMJIT: TRACE_VIDEO_READBACK_UNAVAILABLE'', [RStat e])
   | Inr observed \<Rightarrow> (''NXARMJIT: TRACE_VIDEO_READBACK'',
       [RNat (unat (framebuffer_rgb_hash pixels)), RNat (unat (framebuffer_rgb_hash observed)), RBool (rgb_match pixels observed),
        RNat (if length observed < 4 then 0 else le_nat (take 4 observed)),
        RNat (if length observed < 4 then 0 else le_nat (drop (length observed - 4) observed))]))"

text \<open>The guest's framebuffer is a slice of its RAM; the screen is read back before the report can draw over it.\<close>

definition trace_present :: "jit_build \<Rightarrow> 'w firmware \<Rightarrow> trace_configuration \<Rightarrow> current_gop option \<Rightarrow> framebuffer option \<Rightarrow> u8 list
    \<Rightarrow> ('w, unit) res" where
  "trace_present b fw c dsp fb ram = (case (dsp, fb) of
     (Some gop, Some f) \<Rightarrow>
       let start = wrapping_sub (fb_base_phys f) (tc_physical_base c) in
       bindE (lift (ok_or (checked_add start (fb_byte_len f)) BAD_BUFFER_SIZE)) (\<lambda>stop.
       if stop > length ram then fail BAD_BUFFER_SIZE
       else let pixels = subrange start stop ram in
         bindS (present fw gop pixels) (\<lambda>r. case r of
           Inl e \<Rightarrow> bindS (report fw ''NXARMJIT: TRACE_VIDEO_UNAVAILABLE'' [RStat e]) (\<lambda>_. ok ())
         | Inr _ \<Rightarrow>
             if jb_video_readback b then
               bindS (readback fw gop) (\<lambda>rb.
               bindS (report_lines fw [(''NXARMJIT: TRACE_VIDEO_PRESENTED'', []), readback_line pixels rb]) (\<lambda>_. ok ()))
             else bindS (report fw ''NXARMJIT: TRACE_VIDEO_PRESENTED'' []) (\<lambda>_. ok ())))
   | _ \<Rightarrow> ok ())"

definition trace_status :: "('h, 't, 'n) jit_core \<Rightarrow> trace_configuration \<Rightarrow> int \<Rightarrow> int \<Rightarrow> memory_result option \<Rightarrow> status" where
  "trace_status jc c restored st mr =
     (if restored \<noteq> 0 then DEVICE_ERROR
      else case mr of
        None \<Rightarrow> ABORTED
      | Some m \<Rightarrow>
          if mr_abi_version m \<noteq> (if tc_memory_profile c then 2 else 1)
             \<or> mr_struct_size m \<noteq> (if tc_memory_profile c then 320 else jc_result_size jc)
             \<or> mr_reserved0 m \<noteq> 0 \<or> mr_reserved1 m \<noteq> 0
             \<or> int (jr_status (br_base (mr_execution m))) \<noteq> st mod 2 ^ 32
          then COMPROMISED_DATA else ABORTED)"

subsection \<open>The trace: its scopes\<close>

text \<open>
  The display lives longer than the pages on an error and is dropped before them on the normal path.
  An error carries the drop flag of the display: whether it is still to be dropped.
\<close>

definition flagged :: "('w, 'a) res \<Rightarrow> ('w, status \<times> bool + 'a) op" where
  "flagged m = bindS m (\<lambda>r. ret (map_err (\<lambda>e. (e, True)) r))"

definition flagged_pages :: "'w firmware \<Rightarrow> ('w, arm_pages) res \<Rightarrow> (arm_pages \<Rightarrow> ('w, status \<times> bool + 'a) op)
    \<Rightarrow> ('w, status \<times> bool + 'a) op" where
  "flagged_pages fw alloc body = bindE (flagged alloc) (\<lambda>p. with_drop (body p) (arm_drop fw p))"

text \<open>The run of the guest in its code pages, the restored protection, the report and the display.\<close>

definition trace_guest :: "jit_build \<Rightarrow> 'w firmware \<Rightarrow> 'w jit_host \<Rightarrow> ('h, 't, 'n) jit_core \<Rightarrow> abi \<Rightarrow> trace_build
    \<Rightarrow> ('q, memory_result) trace_deps \<Rightarrow> trace_configuration \<Rightarrow> 'h \<Rightarrow> stage1_alias list \<Rightarrow> current_gop option \<Rightarrow> u8 list
    \<Rightarrow> arm_pages \<Rightarrow> ('w, status \<times> bool + unit) op" where
  "trace_guest b fw jh jc abi tb td c plan aliases dsp ram code =
     bindE (flagged (trace_launch b fw jh jc abi tb td c (hc_layout (jc_handoff jc) plan) aliases ram code))
       (\<lambda>((st, mr, br), ram, ctx).
     bindS (protect_callback b jh (ap_base code) (ap_bytes code) 0 ctx) (\<lambda>(restored, ctx).
     bindS (report_lines fw (result_lines b ctx st mr br)) (\<lambda>_.
     bindE (flagged (trace_present b fw c dsp (jc_framebuffer jc plan) ram)) (\<lambda>_.
     bindS (drop_op (display_drop fw dsp)) (\<lambda>_.
     bindS (report fw ''NXARMJIT: TRACE_ONLY'' []) (\<lambda>_.
     fail (trace_status jc c restored st mr, False)))))))"

definition trace_body :: "jit_build \<Rightarrow> 'w firmware \<Rightarrow> 'w jit_host \<Rightarrow> ('h, 't, 'n) jit_core \<Rightarrow> ('r, 'i, 's, 'm, 'd) startup_core
    \<Rightarrow> abi \<Rightarrow> trace_build \<Rightarrow> ('q, memory_result) trace_deps \<Rightarrow> owned_companions option \<Rightarrow> trace_configuration \<Rightarrow> string + 'h
    \<Rightarrow> current_gop option \<Rightarrow> ('w, status \<times> bool + unit) op" where
  "trace_body b fw jh jc su abi tb td companions c prepared dsp =
     bindE (flagged (or_report fw ''NXARMJIT: TRACE_PLACEMENT_INVALID'' LOAD_ERROR prepared)) (\<lambda>plan.
     bindS (report fw ''NXARMJIT: TRACE_PLAN_READY'' []) (\<lambda>_.
     bindE (flagged (lift (trace_range c (hc_layout (jc_handoff jc) plan)))) (\<lambda>range.
     flagged_pages fw (allocate_data fw (tc_memory_size c)) (\<lambda>ram.
       bindE (flagged (trace_staging fw jc su companions c plan range (ap_memory ram))) (\<lambda>(memory, aliases).
       flagged_pages fw (allocate fw (64 * 1024) None) (\<lambda>code.
         trace_guest b fw jh jc abi tb td c plan aliases dsp memory code))))))"

definition jit_trace :: "jit_build \<Rightarrow> 'w firmware \<Rightarrow> 'w file_io \<Rightarrow> 'w jit_host \<Rightarrow> ('h, 't, 'n) jit_core
    \<Rightarrow> ('r, 'i, 's, 'm, 'd) startup_core \<Rightarrow> abi \<Rightarrow> trace_build \<Rightarrow> ('q, memory_result) trace_deps \<Rightarrow> u8 list \<Rightarrow> ustr \<Rightarrow> u8 list
    \<Rightarrow> owned_companions option \<Rightarrow> ('w, unit) res" where
  "jit_trace b fw io jh jc su abi tb td source arguments config companions =
     bindE (trace_config b fw jc config) (\<lambda>c.
     bindE (trace_device_tree fw io jc (tc_device_tree_path c)) (\<lambda>dt.
     bindS (trace_display fw c) (\<lambda>dsp.
     bindS (trace_plan fw jc source (trace_placement c dt arguments) dsp) (\<lambda>(prepared, dsp).
     bindS (trace_body b fw jh jc su abi tb td companions c prepared dsp) (\<lambda>r. case r of
       Inr _ \<Rightarrow> ok ()
     | Inl (e, open_display) \<Rightarrow>
         bindS (if open_display then drop_op (display_drop fw dsp) else ret ()) (\<lambda>_. fail e))))))"

subsection \<open>The application\<close>

definition PLAIN_MARKER :: "u8 list" where
  "PLAIN_MARKER = map of_char ''NEXTCORE_AUTHORED_ARM64_JIT_V1''"

definition PAC_MARKER :: "u8 list" where
  "PAC_MARKER = map of_char ''NEXTCORE_AUTHORED_ARM64E_JIT_PAC_V1''"

text \<open>The fixture: \<open>Some pac\<close> when the source is one of the two authored fixtures.\<close>

definition fixture_kind :: "nat \<Rightarrow> u8 list \<Rightarrow> bool option" where
  "fixture_kind subtype source =
     (let plain_count = occurrences PLAIN_MARKER source; pac_count = occurrences PAC_MARKER source;
          pac = (subtype = 2 \<and> pac_count = 1 \<and> plain_count = 0) in
      if \<not> pac \<and> (subtype \<noteq> 0 \<or> plain_count \<noteq> 1 \<or> pac_count \<noteq> 0) then None else Some pac)"

definition jit_staging :: "'w firmware \<Rightarrow> 'p collection_core \<Rightarrow> 'p \<Rightarrow> ('w, unit) res" where
  "jit_staging fw cc stage = owning_pages fw (allocate_data fw (cc_arena cc stage)) (\<lambda>pages.
     case cc_stage_into cc stage (ap_memory pages) of
       (None, _) \<Rightarrow> fail COMPROMISED_DATA
     | (Some v, _) \<Rightarrow>
         bindS (report_lines fw [(''NXARMJIT: STAGING_VERIFIED'', [RNat (sr_arena_bytes v), RNat (sr_copied_bytes v),
           RNat (sr_zero_tail_bytes v)]), (''NXARMJIT: PROVIDERS_PENDING'', [])]) (\<lambda>_. fail NOT_READY))"

definition jit_target :: "jit_build \<Rightarrow> 'w firmware \<Rightarrow> 'w jit_host \<Rightarrow> 'p collection_core \<Rightarrow> ('h, 't, 'n) jit_core
    \<Rightarrow> (u8 list \<Rightarrow> ustr \<Rightarrow> u8 list \<Rightarrow> owned_companions option \<Rightarrow> ('w, unit) res) \<Rightarrow> arm_target \<Rightarrow> u8 list
    \<Rightarrow> owned_companions option \<Rightarrow> u8 list \<Rightarrow> ('w, unit) res" where
  "jit_target b fw jh cc jc run_trace target config companions source =
     bindE (or_report fw ''NXARMJIT: KC_INVALID'' LOAD_ERROR (cc_new cc source)) (\<lambda>stage.
     bindS (report fw ''NXARMJIT: KC_VALIDATED'' [RNat (cc_subtype cc stage), RNat (cc_arena cc stage)]) (\<lambda>_.
     if has_trace b \<and> at_profile target = X86EfiArm64Trace then
       bindS (if companions \<noteq> None then report fw ''NXARMJIT: SELECTED_BOOTKC_TRACE'' [] else ret ()) (\<lambda>_.
       run_trace source (at_arguments target) config companions)
     else if has_probe b \<and> at_profile target = X86EfiArm64JitProbe then
       (case fixture_kind (cc_subtype cc stage) source of
          None \<Rightarrow> bindS (report fw ''NXARMJIT: FIXTURE_REJECTED'' []) (\<lambda>_. fail UNSUPPORTED)
        | Some pac \<Rightarrow> jit_probe fw jh jc source (at_arguments target) pac)
     else jit_staging fw cc stage))"

definition selected_required :: "jit_build \<Rightarrow> arm_target \<Rightarrow> bool" where
  "selected_required b target \<longleftrightarrow> at_profile target = XnuArm64Uefi \<or> jb_selected b \<and> at_profile target = X86EfiArm64Trace"

text \<open>
  The images of a selected boot are loaded in this order; the payload's pages are kept until the
  application returns. The companions are loaded exactly when the image is.
\<close>

definition with_selected :: "'w firmware \<Rightarrow> 'w file_io \<Rightarrow> ('r, 'i, 'c) iboot_core \<Rightarrow> ('r, 'i, 'k, 'd) bootkc_core
    \<Rightarrow> ('r, 'i, 's, 'm, 'd) startup_core \<Rightarrow> ustr \<Rightarrow> (owned_companions option \<Rightarrow> u8 list \<Rightarrow> ('w, unit) res) \<Rightarrow> ('w, unit) res" where
  "with_selected fw io ib bk su path body =
     bindE (load_selected fw io ib) (\<lambda>selected.
     bindE (load_payload fw io ib selected) (\<lambda>payload. with_drop
       (bindS (report fw ''NXARMJIT: SELECTED_IBOOT_PAYLOAD_OWNED'' [RStr (ib_device_class ib (ss_record selected)),
          RNat (length (ss_image selected)), RNat (sp_copied_bytes payload), RNat (ap_bytes (sp_pages payload))]) (\<lambda>_.
        bindE (load_startup fw io ib su (ss_record selected)) (\<lambda>companions.
        bindE (load_bootkc fw io ib bk (ss_record selected) path) (\<lambda>source.
        body (Some companions) source))))
       (payload_drop fw payload)))"

definition jit_run :: "jit_build \<Rightarrow> 'w firmware \<Rightarrow> 'w file_io \<Rightarrow> 'p collection_core \<Rightarrow> ('r, 'i, 'c) iboot_core
    \<Rightarrow> ('r, 'i, 'k, 'd) bootkc_core \<Rightarrow> ('r, 'i, 's, 'm, 'd) startup_core
    \<Rightarrow> (arm_target \<Rightarrow> u8 list \<Rightarrow> owned_companions option \<Rightarrow> u8 list \<Rightarrow> ('w, unit) res) \<Rightarrow> ('w, unit) res" where
  "jit_run b fw io cc ib bk su body =
     bindE (read_file fw io config_path (1024 * 1024)) (\<lambda>config.
     bindE (or_report fw ''NXARMJIT: CONFIG_INVALID'' INVALID_PARAMETER (cc_target cc config)) (\<lambda>target.
     bindS (report fw ''NXARMJIT: CONFIG_PARSED'' []) (\<lambda>_.
     if selected_required b target then with_selected fw io ib bk su (at_path target) (body target config)
     else if \<not> ucs2 (at_path target) then fail INVALID_PARAMETER
     else bindE (read_file fw io (at_path target) (cc_max_input cc)) (\<lambda>source. body target config None source))))"

definition jit_main :: "bool \<Rightarrow> bool \<Rightarrow> 'w firmware \<Rightarrow> (nat \<Rightarrow> nat \<Rightarrow> 'w \<Rightarrow> (status + unit) \<times> 'w) \<Rightarrow> ('w, unit) res \<Rightarrow> ('w, status) op" where
  "jit_main initialized x86_64 fw set_watchdog body =
     (if \<not> initialized then ret NOT_READY
      else bindS (disable set_watchdog) (\<lambda>disabled.
        bindS (case disabled of
            Inr _ \<Rightarrow> report fw ''NXARMJIT: WATCHDOG_DISABLED'' []
          | Inl st \<Rightarrow> report fw ''NXARMJIT: WATCHDOG_DISABLE_FAILED'' [RStat st]) (\<lambda>_.
        bindS (report fw ''NXARMJIT: EFI_ENTRY'' []) (\<lambda>_.
        if \<not> x86_64 then ret UNSUPPORTED
        else bindS body (\<lambda>r. case r of
          Inr _ \<Rightarrow> ret SUCCESS
        | Inl st \<Rightarrow> bindS (report fw ''NXARMJIT: ERROR'' [RStat st]) (\<lambda>_. ret st))))))"

subsection \<open>What a run gives back\<close>

lemma neutral_run_native:
  assumes "\<And>p n x c. neutral acq rel (prot p n x c)"
  shows "neutral acq rel (run_native prot g c)"
proof (induction g arbitrary: c)
  case (Protected p n x k)
  then show ?case by (auto intro!: neutral_intros assms split: prod.split)
qed (simp add: neutral_intros)

lemma neutral_flagged: "neutral acq rel m \<Longrightarrow> neutral acq rel (flagged m)"
  unfolding flagged_def by (intro neutral_intros)

lemma neutral_with_drop: "neutral acq rel m \<Longrightarrow> neutral acq rel (drop_op d) \<Longrightarrow> neutral acq rel (with_drop m d)"
  unfolding with_drop_bindS drop_op_def [symmetric] by (intro neutral_intros)

text \<open>The parts of the application that only report, read files and call the runtime.\<close>

context quiet_events
begin

lemma protects: "neutral acq rel (plain_protect jh p n x c)" "neutral acq rel (protect_callback b jh p n x ctx)"
proof -
  have j: "neutral acq rel (jit_protect jh p n x)"
    unfolding jit_protect_def by (rule calls) blast
  then show "neutral acq rel (plain_protect jh p n x c)"
    unfolding plain_protect_def by (intro quiet_intros)
  with j show "neutral acq rel (protect_callback b jh p n x ctx)"
    by (cases "jb_protection_observation b")
      (auto simp: protect_callback_def observed_protect_def plain_protect_def intro!: quiet_intros)
qed

lemma opens_protection: "neutral acq rel (protection_open jh)"
  unfolding protection_open_def by (rule calls) blast

lemma presents: "neutral acq rel (call (jh_present jh ram off) (ECall ''gop_present'' []))"
  "neutral acq rel (call (jh_readback jh) (\<lambda>(st, _). ECall ''gop_readback'' [] st))"
  by (rule calls, auto)+

lemma probe_verdicts: "neutral acq rel (probe_verdict fw jh va pac ram)"
  unfolding probe_verdict_def by (intro quiet_intros presents)

lemma probe_engines: "neutral acq rel (probe_engine fw jh jc plan pac ram code)"
proof -
  have "neutral acq rel (jit_protect jh p n x)" for p n x
    unfolding jit_protect_def by (rule calls) blast
  then show ?thesis
    unfolding probe_engine_def Let_def
    by (intro quiet_intros probe_verdicts opens_protection report_many neutral_run_native protects)
qed

lemma traces_configuration: "neutral acq rel (trace_config b fw jc config)"
  unfolding trace_config_def by (intro quiet_intros report_many)

lemma traces_device_tree: "neutral acq rel (trace_device_tree fw io jc path)"
  unfolding trace_device_tree_def by (intro quiet_intros)

lemma traces_staging: "neutral acq rel (trace_staging fw jc su companions c plan part memory)"
  unfolding trace_staging_def Let_def by (intro quiet_intros report_many stages_into_guest)

lemma plain_runs: "(\<And>p n x ctx. neutral acq rel (prot p n x ctx)) \<Longrightarrow> neutral acq rel (plain_run b fw jc prot a ram ctx)"
  unfolding plain_run_def by (intro quiet_intros report_many neutral_run_guest)

lemma trace_runs: "(\<And>p n x ctx. neutral acq rel (prot p n x ctx)) \<Longrightarrow> neutral acq rel (trace_run fw abi tb td a ram prot ctx)"
  unfolding trace_run_def Let_def by (intro quiet_intros report_many neutral_run_guest)

lemma launches: "neutral acq rel (trace_launch b fw jh jc abi tb td c l aliases ram code)"
  unfolding trace_launch_def trace_engine_def
  by (intro quiet_intros report_many opens_protection neutral_run_native protects trace_runs plain_runs)

end

text \<open>The screen: opening the graphics protocol acquires it, closing it gives it back.\<close>

definition screen_acq :: "event \<Rightarrow> handle option" where
  "screen_acq e = (case e of EOpenProtocol h g st i \<Rightarrow> if g = GopG \<and> st = SUCCESS then Some h else None | _ \<Rightarrow> None)"

definition screen_rel :: "event \<Rightarrow> handle option" where
  "screen_rel e = (case e of ECloseProtocol h g st \<Rightarrow> if g = GopG then Some h else None | _ \<Rightarrow> None)"

interpretation screen_quiet: quiet_events screen_acq screen_rel
  by unfold_locales (simp_all add: ignores_files_def balance_step_def screen_acq_def screen_rel_def)

definition screen_tokens :: "current_gop option \<Rightarrow> handle multiset" where
  "screen_tokens dsp = (case dsp of None \<Rightarrow> {#} | Some gop \<Rightarrow> {#cg_handle gop#})"

lemma screen_tokens_simps [simp]: "screen_tokens None = {#}" "screen_tokens (Some gop) = {#cg_handle gop#}"
  by (simp_all add: screen_tokens_def)

lemma gop_drop_gives_up: "gives_up screen_acq screen_rel (gop_drop fw h) {#h#}"
proof (rule gives_upI [where after = "\<lambda>_. {#}"])
  show "shifts screen_acq screen_rel (close_protocol fw h GopG) {#h#} (\<lambda>_. {#})"
    unfolding shifts_def close_protocol_def by (rule extends_call) (simp add: screen_rel_def)
qed (simp_all add: gop_drop_def)

lemma shifts_open_gop: "shifts screen_acq screen_rel (open_gop fw) {#} (owned (\<lambda>g. {#cg_handle g#}))"
proof -
  have f: "neutral screen_acq screen_rel (find_handles fw GopG)"
    unfolding find_handles_def by (rule neutral_call) (simp_all add: screen_acq_def screen_rel_def)
  have p: "shifts screen_acq screen_rel (open_protocol fw h GopG) {#} (\<lambda>(st, i). if st = SUCCESS then {#h#} else {#})" for h
    unfolding shifts_def open_protocol_def by (rule extends_call) (auto simp: screen_acq_def screen_rel_def split: prod.split)
  show ?thesis
    unfolding open_gop_def
    by (auto intro!: shifts_bindE_neutral [OF f] shifts_bindS [OF p] shifts_fail shifts_ok shifts_bindS_neutral [OF neutral_query]
        shifts_drop_fail gop_drop_gives_up split: list.split sum.split prod.split)
qed

interpretation screen: owner screen_acq screen_rel "open_gop fw" "\<lambda>g. gop_drop fw (cg_handle g)" "\<lambda>g. {#cg_handle g#}" for fw
  by unfold_locales (simp_all add: shifts_open_gop gop_drop_gives_up)

lemma shifts_display_drop: "shifts screen_acq screen_rel (drop_op (display_drop fw dsp)) (screen_tokens dsp) (\<lambda>_. {#})"
  using gop_drop_gives_up
  by (cases dsp) (simp_all add: display_drop_def drop_op_def [abs_def] shifts_def extends_def)

lemma shifts_trace_display: "shifts screen_acq screen_rel (trace_display fw c) {#} screen_tokens"
  unfolding trace_display_def
  by (auto intro!: shifts_bindS [OF shifts_open_gop] shifts_ret shifts_bindS_neutral [OF screen_quiet.reports] split: sum.split)

lemma shifts_trace_plan: "shifts screen_acq screen_rel (trace_plan fw jc source input dsp) (screen_tokens dsp) (\<lambda>(r, d). screen_tokens d)"
  unfolding trace_plan_def Let_def
  by (cases dsp) (auto intro!: shifts_ret shifts_bindS_neutral [OF screen_quiet.reports] shifts_bindS [OF shifts_display_drop [of _ "Some g" for g, simplified]]
      split: sum.split)

text \<open>What an operation with a drop flag leaves of the display.\<close>

definition after_flag :: "current_gop option \<Rightarrow> status \<times> bool + 'a \<Rightarrow> handle multiset" where
  "after_flag dsp r = (case r of Inl (e, open_display) \<Rightarrow> if open_display then screen_tokens dsp else {#} | Inr _ \<Rightarrow> {#})"

lemma shifts_flagged:
  assumes "neutral screen_acq screen_rel m" "\<And>a. shifts screen_acq screen_rel (k a) (screen_tokens dsp) (after_flag dsp)"
  shows "shifts screen_acq screen_rel (bindE (flagged m) k) (screen_tokens dsp) (after_flag dsp)"
proof -
  have "bindE (flagged m) k = bindS m (\<lambda>r. case r of Inl e \<Rightarrow> ret (Inl (e, True)) | Inr a \<Rightarrow> k a)"
    by (rule ext) (auto simp: flagged_def op_simps map_err_def split: prod.split sum.split)
  then show ?thesis
    by (auto intro!: shifts_bindS_neutral [OF assms(1)] shifts_ret assms(2) simp: after_flag_def split: sum.split)
qed

lemma screen_events: "screen_acq (EAllocPages at mt n r) = None" "screen_rel (EAllocPages at mt n r) = None"
  "screen_acq (EFreePages p n st) = None" "screen_rel (EFreePages p n st) = None"
  "screen_acq (EMemoryMap m) = None" "screen_rel (EMemoryMap m) = None"
  "screen_acq (EBlt st) = None" "screen_rel (EBlt st) = None"
  by (simp_all add: screen_acq_def screen_rel_def)

lemma screen_arm_drop: "neutral screen_acq screen_rel (drop_op (arm_drop fw p))"
proof -
  have "neutral screen_acq screen_rel (free_pages fw a n)" for a n
    unfolding free_pages_def by (rule neutral_call) (simp_all add: screen_events)
  then show ?thesis by (auto simp: neutral_def shifts_def extends_def arm_drop_def drop_op_def)
qed

lemma screen_allocate_kind: "neutral screen_acq screen_rel (allocate_kind fw bytes fixed kind)"
proof -
  have "neutral screen_acq screen_rel (allocate_pages fw at mt n)" "neutral screen_acq screen_rel (memory_map fw)" for at mt n
    unfolding allocate_pages_def memory_map_def by (rule neutral_call; simp add: screen_events)+
  then show ?thesis
    unfolding allocate_kind_def Let_def by (intro neutral_intros neutral_with_drop screen_arm_drop)
qed

lemma shifts_flagged_pages:
  assumes "\<And>p. shifts screen_acq screen_rel (body p) (screen_tokens dsp) (after_flag dsp)"
  shows "shifts screen_acq screen_rel (flagged_pages fw (allocate_kind fw bytes fixed kind) body) (screen_tokens dsp) (after_flag dsp)"
  unfolding flagged_pages_def with_drop_bindS drop_op_def [symmetric]
  by (intro shifts_flagged [OF screen_allocate_kind] shifts_bindS [OF assms] shifts_bindS [OF shifts_neutral [OF screen_arm_drop]]
      shifts_ret) simp

lemma neutral_flagged_pages:
  assumes "\<And>p. neutral page_acq page_rel (body p)"
  shows "neutral page_acq page_rel (flagged_pages fw (allocate_kind fw bytes fixed kind) body)"
proof -
  have "shifts page_acq page_rel (flagged (allocate_kind fw bytes fixed kind)) {#} (owned arm_tokens)"
    unfolding flagged_def
    by (rule shifts_bindS [OF arm_memory.create_acquires]) (auto intro!: shifts_ret simp: map_err_def split: sum.split)
  then show ?thesis
    unfolding flagged_pages_def neutral_def
    by (rule shifts_bindE) (auto intro!: shifts_with_drop [OF _ arm_memory.destroy_releases] shifts_neutral assms)
qed

lemma screen_present: "neutral screen_acq screen_rel (present fw g bytes)"
proof -
  have "neutral screen_acq screen_rel (call (fw_blt fw ps) EBlt)" for ps
    by (rule neutral_call) (simp_all add: screen_events)
  then show ?thesis
    unfolding present_def blt_pixels_def check_current_geometry_def by (intro neutral_intros)
qed

context quiet_events
begin

lemma reads_back: "neutral acq rel (readback fw g)"
proof -
  have "neutral acq rel (call (fw_read_pixels fw n) (\<lambda>(st, ps). ECall ''read_pixels'' [RNat n] st))" for n
    by (rule calls) auto
  then show ?thesis unfolding readback_def check_current_geometry_def Let_def by (intro quiet_intros)
qed

lemma traces_present:
  assumes "\<And>g bytes. neutral acq rel (present fw g bytes)"
  shows "neutral acq rel (trace_present b fw c dsp fb ram)"
  unfolding trace_present_def Let_def by (intro quiet_intros report_many reads_back assms)

end

lemma page_present: "neutral page_acq page_rel (present fw g bytes)"
proof -
  have "neutral page_acq page_rel (call (fw_blt fw ps) EBlt)" for ps
    by (rule neutral_call) (simp_all add: page_acq_def page_rel_def)
  then show ?thesis
    unfolding present_def blt_pixels_def check_current_geometry_def by (intro neutral_intros)
qed

lemma shifts_trace_guest:
  "shifts screen_acq screen_rel (trace_guest b fw jh jc abi tb td c plan aliases dsp ram code) (screen_tokens dsp) (after_flag dsp)"
  unfolding trace_guest_def case_prod_beta
  by (intro shifts_flagged screen_quiet.launches shifts_bindS_neutral screen_quiet.protects screen_quiet.report_many
      screen_quiet.traces_present screen_present shifts_bindS [OF shifts_display_drop] screen_quiet.reports shifts_fail)
    (simp add: after_flag_def)

lemma shifts_trace_body:
  "shifts screen_acq screen_rel (trace_body b fw jh jc su abi tb td companions c prepared dsp) (screen_tokens dsp) (after_flag dsp)"
  unfolding trace_body_def allocate_def allocate_data_def case_prod_beta
  by (intro shifts_flagged screen_quiet.or_reports shifts_bindS_neutral screen_quiet.reports neutral_lift
      shifts_flagged_pages screen_quiet.traces_staging shifts_trace_guest)

lemma screen_jit_trace:
  "neutral screen_acq screen_rel (jit_trace b fw io jh jc su abi tb td source arguments config companions)"
  unfolding jit_trace_def
proof (intro neutral_bindE screen_quiet.traces_configuration screen_quiet.traces_device_tree)
  fix c dt
  have body: "shifts screen_acq screen_rel (bindS (trace_body b fw jh jc su abi tb td companions c prepared dsp)
      (\<lambda>r. case r of Inr _ \<Rightarrow> ok () | Inl (e, open_display) \<Rightarrow>
         bindS (if open_display then drop_op (display_drop fw dsp) else ret ()) (\<lambda>_. fail e)))
      (screen_tokens dsp) (\<lambda>_. {#})" for prepared dsp
    by (rule shifts_bindS [OF shifts_trace_body])
      (auto simp: after_flag_def intro!: shifts_ok shifts_bindS [OF shifts_display_drop] shifts_bindS_neutral [OF neutral_ret]
        shifts_fail split: sum.split)
  show "neutral screen_acq screen_rel (bindS (trace_display fw c) (\<lambda>dsp. bindS (trace_plan fw jc source (trace_placement c dt arguments) dsp)
      (\<lambda>(prepared, dsp). bindS (trace_body b fw jh jc su abi tb td companions c prepared dsp)
      (\<lambda>r. case r of Inr _ \<Rightarrow> ok () | Inl (e, open_display) \<Rightarrow>
         bindS (if open_display then drop_op (display_drop fw dsp) else ret ()) (\<lambda>_. fail e)))))"
    unfolding neutral_def
    by (rule shifts_bindS [OF shifts_trace_display], rule shifts_bindS [OF shifts_trace_plan])
      (unfold case_prod_beta, rule body [unfolded case_prod_beta])
qed

lemma page_screen_ops: "neutral page_acq page_rel (trace_display fw c)" "neutral page_acq page_rel (trace_plan fw jc source input dsp)"
  "neutral page_acq page_rel (drop_op (display_drop fw dsp))"
proof -
  have close: "neutral page_acq page_rel (close_protocol fw h GopG)" for h
    unfolding close_protocol_def by (rule neutral_call) (simp_all add: page_acq_def page_rel_def)
  then show drop: "neutral page_acq page_rel (drop_op (display_drop fw dsp))" for dsp
    by (cases dsp) (auto simp: display_drop_def drop_op_def gop_drop_def neutral_def shifts_def extends_def)
  show "neutral page_acq page_rel (trace_plan fw jc source input dsp)"
    unfolding trace_plan_def Let_def by (intro page_quiet.quiet_intros drop)
  have "neutral page_acq page_rel (find_handles fw GopG)" "neutral page_acq page_rel (open_protocol fw h GopG)" for h
    unfolding find_handles_def open_protocol_def
    by (rule neutral_call; auto simp: page_acq_def page_rel_def split: prod.split)+
  moreover have "neutral page_acq page_rel (drop_op (gop_drop fw h))" for h
    using drop [of "Some \<lparr>cg_handle = h, cg_geometry = undefined\<rparr>"] by (simp add: display_drop_def)
  ultimately show "neutral page_acq page_rel (trace_display fw c)"
    unfolding trace_display_def open_gop_def by (intro page_quiet.quiet_intros neutral_with_drop)
qed

lemma page_trace_guest: "neutral page_acq page_rel (trace_guest b fw jh jc abi tb td c plan aliases dsp ram code)"
  unfolding trace_guest_def case_prod_beta
  by (intro page_quiet.quiet_intros neutral_flagged page_quiet.launches page_quiet.protects page_quiet.report_many
      page_quiet.traces_present page_present page_screen_ops)

lemma page_jit_trace: "neutral page_acq page_rel (jit_trace b fw io jh jc su abi tb td source arguments config companions)"
  unfolding jit_trace_def trace_body_def allocate_def allocate_data_def
  by (intro page_quiet.quiet_intros neutral_flagged neutral_flagged_pages page_trace_guest page_screen_ops
      page_quiet.traces_configuration page_quiet.traces_device_tree page_quiet.traces_staging)

lemma page_owning: "(\<And>p. neutral page_acq page_rel (body p)) \<Longrightarrow> neutral page_acq page_rel (owning_pages fw (allocate_kind fw bytes fixed kind) body)"
  unfolding owning_pages_def by (rule arm_memory.scoped_neutral)

lemma screen_owning: "(\<And>p. neutral screen_acq screen_rel (body p)) \<Longrightarrow>
  neutral screen_acq screen_rel (owning_pages fw (allocate_kind fw bytes fixed kind) body)"
  unfolding owning_pages_def by (intro neutral_intros screen_allocate_kind neutral_with_drop screen_arm_drop)

lemma page_jit_target:
  assumes "\<And>source arguments config companions. neutral page_acq page_rel (run_trace source arguments config companions)"
  shows "neutral page_acq page_rel (jit_target b fw jh cc jc run_trace target config companions source)"
  unfolding jit_target_def jit_probe_def jit_staging_def Let_def allocate_def allocate_data_def
  by (intro page_quiet.quiet_intros page_owning page_quiet.report_many page_quiet.probe_engines assms)

lemma screen_jit_target:
  assumes "\<And>source arguments config companions. neutral screen_acq screen_rel (run_trace source arguments config companions)"
  shows "neutral screen_acq screen_rel (jit_target b fw jh cc jc run_trace target config companions source)"
  unfolding jit_target_def jit_probe_def jit_staging_def Let_def allocate_def allocate_data_def
  by (intro screen_quiet.quiet_intros screen_owning screen_quiet.report_many screen_quiet.probe_engines assms)

lemma page_with_selected:
  assumes "\<And>companions source. neutral page_acq page_rel (body companions source)"
  shows "neutral page_acq page_rel (with_selected fw io ib bk su path body)"
proof -
  have "neutral page_acq page_rel (bindE (load_payload fw io ib selected) (\<lambda>payload. with_drop
       (bindS (report fw ''NXARMJIT: SELECTED_IBOOT_PAYLOAD_OWNED'' [RStr (ib_device_class ib (ss_record selected)),
          RNat (length (ss_image selected)), RNat (sp_copied_bytes payload), RNat (ap_bytes (sp_pages payload))]) (\<lambda>_.
        bindE (load_startup fw io ib su (ss_record selected)) (\<lambda>companions.
        bindE (load_bootkc fw io ib bk (ss_record selected) path) (\<lambda>source.
        body (Some companions) source))))
       (payload_drop fw payload)))" for selected
    by (rule payload.scoped_neutral) (intro page_quiet.quiet_intros page_quiet.loads_startup page_quiet.loads_bootkc assms)
  then show ?thesis
    unfolding with_selected_def by (rule neutral_bindE [OF page_quiet.loads_selected])
qed

lemma screen_load_payload: "neutral screen_acq screen_rel (load_payload fw io ib source)"
  unfolding load_payload_def copy_payload_def allocate_data_def
  by (intro screen_quiet.quiet_intros screen_quiet.reads_or_reports screen_quiet.paths screen_allocate_kind neutral_with_drop screen_arm_drop)

lemma screen_with_selected:
  assumes "\<And>companions source. neutral screen_acq screen_rel (body companions source)"
  shows "neutral screen_acq screen_rel (with_selected fw io ib bk su path body)"
  unfolding with_selected_def payload_drop_def
  by (intro screen_quiet.quiet_intros screen_quiet.loads_selected screen_load_payload neutral_with_drop screen_arm_drop
      screen_quiet.loads_startup screen_quiet.loads_bootkc assms)

text \<open>The application itself only prints, sets the watchdog and reads files.\<close>

context quiet_events
begin

lemma runs_main:
  assumes "neutral acq rel (disable set_watchdog)" "neutral acq rel body"
  shows "neutral acq rel (jit_main initialized x86_64 fw set_watchdog body)"
  unfolding jit_main_def by (intro quiet_intros assms)

lemma runs_selected:
  assumes "\<And>target config companions source. neutral acq rel (body target config companions source)"
    and "\<And>path body'. (\<And>companions source. neutral acq rel (body' companions source)) \<Longrightarrow>
      neutral acq rel (with_selected fw io ib bk su path body')"
  shows "neutral acq rel (jit_run b fw io cc ib bk su body)"
  unfolding jit_run_def by (intro quiet_intros assms)

end

text \<open>The whole application, from the entry point.\<close>

definition jit_application :: "jit_build \<Rightarrow> 'w firmware \<Rightarrow> 'w file_io \<Rightarrow> 'w jit_host \<Rightarrow> 'p collection_core \<Rightarrow> ('r, 'i, 'c) iboot_core
    \<Rightarrow> ('r, 'i, 'k, 'd) bootkc_core \<Rightarrow> ('r, 'i, 's, 'm, 'd) startup_core \<Rightarrow> ('h, 't, 'n) jit_core \<Rightarrow> abi \<Rightarrow> trace_build
    \<Rightarrow> ('q, memory_result) trace_deps \<Rightarrow> ('w, unit) res" where
  "jit_application b fw io jh cc ib bk su jc abi tb td =
     jit_run b fw io cc ib bk su (jit_target b fw jh cc jc (jit_trace b fw io jh jc su abi tb td))"

lemma neutral_disable: "neutral page_acq page_rel (disable set_watchdog)" "neutral screen_acq screen_rel (disable set_watchdog)"
  unfolding disable_def disable_with_def by (rule neutral_call; simp add: page_acq_def page_rel_def screen_acq_def screen_rel_def)+

text \<open>Property C34: whatever the firmware, the emulator, the guest and the core library do, and on
  every path through the application, errors included, the pages it has allocated (for the
  selected payload, the guest's RAM and the code) have all been freed, each exactly once, and the
  graphics protocol it has opened has been closed exactly once.\<close>

theorem jit_gives_everything_back:
  "neutral page_acq page_rel (jit_main initialized x86_64 fw set_watchdog (jit_application b fw io jh cc ib bk su jc abi tb td))
   \<and> neutral screen_acq screen_rel (jit_main initialized x86_64 fw set_watchdog (jit_application b fw io jh cc ib bk su jc abi tb td))"
  unfolding jit_application_def
  by (intro conjI page_quiet.runs_main screen_quiet.runs_main neutral_disable page_quiet.runs_selected screen_quiet.runs_selected
      page_jit_target screen_jit_target page_jit_trace screen_jit_trace page_with_selected screen_with_selected)

subsection \<open>The code pages are made writable again before they are freed\<close>

text \<open>
  The state is the last call of the protection function since pages were freed, with its status.
  Pages may be freed when there was none, or when it asked to make a range of these pages writable.
  If that call was refused, the pages go back to the firmware in whatever protection they had:
  this is recorded for good, and from then on the protection function must not be called again.
\<close>

datatype guard = Unguarded | LastCall "rvalue list" status | Abandoned

definition restored_within :: "nat \<Rightarrow> nat \<Rightarrow> guard \<Rightarrow> bool" where
  "restored_within p n q = (case q of
     Unguarded \<Rightarrow> True
   | LastCall [RNat a, RNat k, RNat x] st \<Rightarrow> x = 0 \<and> k = 64 * 1024 \<and> p \<le> a \<and> a + k \<le> p + n * 4096
   | _ \<Rightarrow> False)"

definition refused :: "guard \<Rightarrow> bool" where
  "refused q = (case q of Unguarded \<Rightarrow> False | LastCall vs st \<Rightarrow> st \<noteq> SUCCESS | Abandoned \<Rightarrow> True)"

definition after_free :: "guard \<Rightarrow> guard" where
  "after_free q = (if refused q then Abandoned else Unguarded)"

definition guard_step :: "guard \<Rightarrow> event \<Rightarrow> guard option" where
  "guard_step q e = (case e of
     ECall tag vs st \<Rightarrow>
       if tag \<noteq> ''jit_protect'' then Some q else if q = Abandoned then None else Some (LastCall vs st)
   | EFreePages p n st \<Rightarrow> if q = Abandoned \<or> restored_within p n q then Some (after_free q) else None
   | _ \<Rightarrow> Some q)"

lemma refused_simps [simp]:
  "\<not> refused Unguarded" "refused Abandoned" "refused (LastCall vs st) \<longleftrightarrow> st \<noteq> SUCCESS"
  "after_free Unguarded = Unguarded" "after_free Abandoned = Abandoned"
  by (simp_all add: refused_def after_free_def)

lemma restored_none [simp]: "restored_within p n Unguarded" "\<not> restored_within p n Abandoned"
  by (simp_all add: restored_within_def)

lemma int_status_refused [simp]: "int_status r = SUCCESS \<longleftrightarrow> r = 0"
  by (simp add: int_status_def)

text \<open>An operation without such events leaves the state.\<close>

definition touch_rel :: "event \<Rightarrow> unit option" where
  "touch_rel e = (if (\<forall>q. guard_step q e = Some q) then None else Some ())"

lemma moves_untouched:
  assumes "neutral no_acq touch_rel m"
  shows "moves guard_step m q (\<lambda>_ q'. q' = q)"
proof -
  have "run guard_step q evs = Some q" if "balance no_acq touch_rel evs {#} = Some {#}" for evs
    using that by (induction evs) (auto simp: no_acq_def touch_rel_def split: if_splits)
  with assms show ?thesis
    unfolding moves_def neutral_def shifts_def by (elim extends_mono) (metis empty_neutral(1))
qed

lemma touch_call: "(\<And>a. touch_rel (ev a) = None) \<Longrightarrow> neutral no_acq touch_rel (call f ev)"
  by (rule neutral_call) (simp_all add: no_acq_def)

lemma touch_report: "neutral no_acq touch_rel (report fw tag vs)"
  unfolding report_def by (rule touch_call) (simp add: touch_rel_def guard_step_def)

lemma touch_reports: "neutral no_acq touch_rel (report_lines fw ls)"
  by (induction ls) (auto intro!: neutral_intros touch_report split: prod.split)

lemma touch_probe_verdict: "neutral no_acq touch_rel (probe_verdict fw jh va pac ram)"
proof -
  have "neutral no_acq touch_rel (call (jh_present jh ram off) (ECall ''gop_present'' []))"
    "neutral no_acq touch_rel (call (jh_readback jh) (\<lambda>(st, _). ECall ''gop_readback'' [] st))" for off
    by (rule touch_call, auto simp: touch_rel_def guard_step_def)+
  then show ?thesis unfolding probe_verdict_def by (intro neutral_intros touch_report)
qed

lemma touch_trace_present: "neutral no_acq touch_rel (trace_present b fw c dsp fb ram)"
proof -
  have "neutral no_acq touch_rel (call (fw_blt fw ps) EBlt)"
    "neutral no_acq touch_rel (call (fw_read_pixels fw n) (\<lambda>(st, ps). ECall ''read_pixels'' [RNat n] st))" for ps n
    by (rule touch_call, auto simp: touch_rel_def guard_step_def)+
  then show ?thesis
    unfolding trace_present_def present_def readback_def blt_pixels_def check_current_geometry_def Let_def
    by (intro neutral_intros touch_report touch_reports)
qed

lemma touch_display_drop: "neutral no_acq touch_rel (drop_op (display_drop fw dsp))"
proof -
  have "neutral no_acq touch_rel (close_protocol fw h GopG)" for h
    unfolding close_protocol_def by (rule touch_call) (simp add: touch_rel_def guard_step_def)
  then show ?thesis
    by (cases dsp) (auto simp: display_drop_def drop_op_def gop_drop_def neutral_def shifts_def extends_def)
qed

lemma moves_touchless:
  assumes "neutral no_acq touch_rel m" "\<And>a. moves guard_step (k a) q P"
  shows "moves guard_step (bindS m k) q P"
  by (rule moves_then [OF moves_untouched [OF assms(1)] assms(2)])

lemma moves_post:
  assumes "moves d m q P" "post m R"
  shows "moves d m q (\<lambda>r q'. P r q' \<and> R r)"
  using assms unfolding moves_def extends_def post_def by (fastforce split: prod.splits)

lemma moves_protect:
  "q \<noteq> Abandoned \<Longrightarrow> moves guard_step (jit_protect jh p n x) q (\<lambda>r q'. q' = LastCall [RNat p, RNat n, RNat (unat x)] (int_status r))"
  unfolding jit_protect_def by (rule moves_call) (simp add: guard_step_def)

lemma moves_plain_protect:
  "q \<noteq> Abandoned \<Longrightarrow> moves guard_step (plain_protect jh p n x c) q
     (\<lambda>(r, _) q'. q' = LastCall [RNat p, RNat n, RNat (unat x)] (int_status r))"
  unfolding plain_protect_def by (erule moves_bindS [OF moves_protect]) (simp add: moves_ret)

lemma moves_protect_callback:
  "q \<noteq> Abandoned \<Longrightarrow> moves guard_step (protect_callback b jh p n x ctx) q
     (\<lambda>(r, _) q'. q' = LastCall [RNat p, RNat n, RNat (unat x)] (int_status r))"
  by (cases "jb_protection_observation b")
    (auto simp: protect_callback_def observed_protect_def aligned_ptr_def moves_plain_protect
      intro!: moves_bindS [OF moves_protect] moves_ret)

text \<open>A guest that runs calls the protection function as it likes, but no pages are freed meanwhile.\<close>

abbreviation in_use :: "guard \<Rightarrow> bool" where
  "in_use q \<equiv> q \<noteq> Abandoned"

lemma moves_run_native:
  assumes "\<And>p n x c q. in_use q \<Longrightarrow> moves d (prot p n x c) q (\<lambda>_ q'. in_use q')"
  shows "in_use q \<Longrightarrow> moves d (run_native prot g c) q (\<lambda>_ q'. in_use q')"
proof (induction g arbitrary: c q)
  case (Protected p n x k)
  then show ?case by (auto intro!: moves_bindS [OF assms] split: prod.split)
qed (simp add: moves_ret)

lemma moves_flagged: "moves d m q P \<Longrightarrow> (\<And>e q'. P (Inl e) q' \<Longrightarrow> Q (Inl (e, True)) q') \<Longrightarrow> (\<And>a q'. P (Inr a) q' \<Longrightarrow> Q (Inr a) q')
    \<Longrightarrow> moves d (flagged m) q Q"
  unfolding flagged_def by (erule moves_bindS) (auto simp: map_err_def intro!: moves_ret split: sum.split)

lemma moves_with_drop:
  assumes "moves d m q mid" "\<And>a q'. mid a q' \<Longrightarrow> moves d (drop_op dr) q' (\<lambda>_ q''. P a q'')"
  shows "moves d (with_drop m dr) q P"
  unfolding with_drop_bindS drop_op_def [symmetric]
  by (rule moves_bindS [OF assms(1)], rule moves_bindS [OF assms(2)]) (auto intro: moves_ret)

lemma moves_arm_drop:
  assumes "q = Abandoned \<or> restored_within (ap_original p) (ap_count p) q"
  shows "moves guard_step (drop_op (arm_drop fw p)) q (\<lambda>_ q'. q' = after_free q)"
proof -
  have "moves guard_step (free_pages fw (ap_original p) (ap_count p)) q (\<lambda>_ q'. q' = after_free q)"
    unfolding free_pages_def using assms by (intro moves_call) (simp add: guard_step_def)
  then show ?thesis
    by (auto simp: moves_def extends_def drop_op_def arm_drop_def split: prod.splits)
qed

definition placed :: "nat \<Rightarrow> status + arm_pages \<Rightarrow> bool" where
  "placed bytes r = (case r of Inl _ \<Rightarrow> True | Inr p \<Rightarrow>
     ap_bytes p = bytes \<and> ap_original p \<le> ap_base p \<and> ap_base p + bytes \<le> ap_original p + ap_count p * 4096)"

lemma placed_restored:
  "placed (64 * 1024) (Inr p) \<Longrightarrow> restored_within (ap_original p) (ap_count p) (LastCall [RNat (ap_base p), RNat (ap_bytes p), RNat 0] st)"
  by (simp add: placed_def restored_within_def)

lemma moves_allocate: "moves guard_step (allocate_kind fw bytes fixed kind) Unguarded (\<lambda>r q'. q' = Unguarded \<and> placed bytes r)"
proof (rule moves_post)
  have t: "neutral no_acq touch_rel (allocate_pages fw at mt n)" "neutral no_acq touch_rel (memory_map fw)" for at mt n
    unfolding allocate_pages_def memory_map_def by (rule touch_call; simp add: touch_rel_def guard_step_def)+
  have r: "moves guard_step (with_drop (fail e) (arm_drop fw p)) Unguarded (\<lambda>_ q'. q' = Unguarded)" for e :: status and p
    by (rule moves_with_drop [OF moves_fail [where P = "\<lambda>_ q. q = Unguarded"]], simp, rule moves_mono [OF moves_arm_drop]) auto
  show "moves guard_step (allocate_kind fw bytes fixed kind) Unguarded (\<lambda>_ q'. q' = Unguarded)"
    unfolding allocate_kind_def Let_def
    by (auto intro!: moves_if moves_fail moves_bindE [OF moves_untouched [OF neutral_lift]] moves_bindE [OF moves_untouched [OF t(1)]]
        moves_touchless [OF t(2)] moves_case_sum r moves_ok)
  show "post (allocate_kind fw bytes fixed kind) (placed bytes)"
  proof (rule postI)
    fix s r t assume eq: "allocate_kind fw bytes fixed kind s = (r, t)"
    show "placed bytes r"
    proof (cases r)
      case (Inr p)
      with allocate_kind_Inr [OF eq [unfolded Inr]] round_up_16k(1) [of "ap_original p"] show ?thesis
        by (simp add: placed_def place_Inr)
    qed (simp add: placed_def)
  qed
qed

lemma moves_protection_open: "moves guard_step (protection_open jh) q (\<lambda>_ q'. q' = q)"
  unfolding protection_open_def by (rule moves_stay_call) (simp add: guard_step_def)

lemma moves_protectors:
  "in_use q \<Longrightarrow> moves guard_step (plain_protect jh p n x c) q (\<lambda>_ q'. in_use q')"
  "in_use q \<Longrightarrow> moves guard_step (protect_callback b jh p n x ctx) q (\<lambda>_ q'. in_use q')"
  by (erule moves_mono [OF moves_plain_protect] moves_mono [OF moves_protect_callback]; auto)+

abbreviation restored_pages :: "arm_pages \<Rightarrow> guard \<Rightarrow> bool" where
  "restored_pages code \<equiv> restored_within (ap_original code) (ap_count code)"

lemma moves_stop: "neutral no_acq touch_rel m \<Longrightarrow> P q \<Longrightarrow> moves guard_step m q (\<lambda>_ q'. P q')"
  by (erule moves_mono [OF moves_untouched]) simp

text \<open>What an operation leaves behind on the code pages: a refused restoration shows in its result.\<close>

definition leaves :: "arm_pages \<Rightarrow> ('r \<Rightarrow> bool) \<Rightarrow> 'r \<Rightarrow> guard \<Rightarrow> bool" where
  "leaves code bad r q \<longleftrightarrow> restored_pages code q \<and> (refused q \<longrightarrow> bad r)"

lemma leaves_untouched: "neutral no_acq touch_rel m \<Longrightarrow> restored_pages code q \<Longrightarrow> \<not> refused q \<Longrightarrow>
    moves guard_step m q (leaves code bad)"
  by (erule moves_mono [OF moves_untouched]) (simp add: leaves_def)

lemma leaves_bad: "neutral no_acq touch_rel m \<Longrightarrow> restored_pages code q \<Longrightarrow> post m bad \<Longrightarrow>
    moves guard_step m q (leaves code bad)"
  by (rule moves_mono [OF moves_post [OF moves_untouched, where R = bad]]) (auto simp: leaves_def)

lemma moves_probe_engine:
  assumes "placed (64 * 1024) (Inr code)"
  shows "moves guard_step (probe_engine fw jh jc plan pac ram code) Unguarded (leaves code (\<lambda>r. r = Inl DEVICE_ERROR))"
  unfolding probe_engine_def Let_def case_prod_beta
  by (rule moves_touchless [OF neutral_query] moves_touchless [OF touch_reports] moves_touchless [OF touch_report]
      moves_bindS [OF moves_protection_open] moves_bindS [OF moves_run_native [where prot = "plain_protect jh"]]
      moves_bindS [OF moves_protect] moves_protectors moves_if moves_case_prod
    | (rule leaves_bad; auto intro: neutral_intros post_fail simp: placed_restored [OF assms]; fail)
    | (rule leaves_untouched; auto intro: neutral_intros touch_report touch_probe_verdict simp: placed_restored [OF assms]; fail)
    | simp)+

text \<open>The guest's run is preceded by reports and followed by reports and a success.\<close>

abbreviation unrun :: "'e + 'a \<Rightarrow> guard \<Rightarrow> bool" where
  "unrun r q \<equiv> in_use q \<and> (\<not> is_ok r \<longrightarrow> q = Unguarded)"

lemma moves_unrun: "neutral no_acq touch_rel m \<Longrightarrow> moves guard_step m Unguarded unrun"
  by (erule moves_mono [OF moves_untouched]) simp

lemma moves_after_run: "in_use q \<Longrightarrow> neutral no_acq touch_rel m \<Longrightarrow> post m is_ok \<Longrightarrow> moves guard_step m q unrun"
  by (rule moves_mono [OF moves_post [OF moves_untouched, where R = is_ok]]) auto

lemma moves_guest:
  assumes "\<And>r. neutral no_acq touch_rel (k r)" "\<And>r. post (k r) is_ok"
  shows "moves guard_step (bindS (run_guest step (protect_callback b jh) g s ctx) k) Unguarded unrun"
  by (rule moves_bindS [OF moves_run_guest [where Q = in_use]])
    (auto intro: moves_protectors moves_after_run assms)

lemma moves_plain_run: "moves guard_step (plain_run b fw jc (protect_callback b jh) a ram ctx) Unguarded unrun"
  unfolding plain_run_def case_prod_beta
  by (intro moves_touchless [OF touch_report] moves_case_option moves_if moves_guest moves_unrun neutral_intros
      touch_report touch_reports post_after post_ok) simp_all

lemma moves_trace_run: "moves guard_step (trace_run fw abi tb td a ram (protect_callback b jh) ctx) Unguarded unrun"
  unfolding trace_run_def Let_def case_prod_beta
  by (intro moves_touchless [OF touch_report] moves_touchless [OF touch_reports] moves_case_sum moves_case_option moves_guest
     moves_unrun neutral_intros touch_report touch_reports post_after post_ok) simp_all

lemma moves_engine: "moves guard_step (trace_engine b fw jc abi tb td (protect_callback b jh) c a l ram ctx) Unguarded unrun"
proof -
  have ok: "moves guard_step (bindS (run_native (protect_callback b jh) g ctx) k) Unguarded unrun"
    if "\<And>r. neutral no_acq touch_rel (k r)" "\<And>r. post (k r) is_ok" for g and k
    by (rule moves_bindS [OF moves_run_native [where prot = "protect_callback b jh"]])
      (auto intro: moves_protectors moves_after_run that)
  show ?thesis
    unfolding trace_engine_def case_prod_beta
    by (rule moves_if ok neutral_intros post_ok moves_bindE [where mid = unrun] moves_trace_run moves_plain_run moves_ok | simp)+
qed

lemma moves_launch: "moves guard_step (trace_launch b fw jh jc abi tb td c l aliases ram code) Unguarded unrun"
  unfolding trace_launch_def
  by (rule moves_touchless [OF neutral_query] moves_touchless [OF touch_reports] moves_touchless [OF touch_report]
      moves_bindS [OF moves_protection_open] moves_bindE [OF moves_untouched [OF neutral_lift]]
      moves_if moves_engine moves_unrun neutral_intros touch_report | simp)+

lemma touch_flagged: "neutral no_acq touch_rel m \<Longrightarrow> neutral no_acq touch_rel (flagged m)"
  by (rule neutral_flagged)

text \<open>A trace whose pages could not be made writable ends in one of two errors.\<close>

definition trace_lost :: "status \<times> bool + unit \<Rightarrow> bool" where
  "trace_lost r \<longleftrightarrow> (\<exists>e flag. r = Inl (e, flag) \<and> (e = DEVICE_ERROR \<or> e = BAD_BUFFER_SIZE))"

lemma post_trace_present: "post (flagged (trace_present b fw c dsp fb ram)) (\<lambda>r. case r of Inl e \<Rightarrow> e = (BAD_BUFFER_SIZE, True) | Inr _ \<Rightarrow> True)"
proof -
  have "post (trace_present b fw c dsp fb ram) (\<lambda>r. case r of Inl e \<Rightarrow> e = BAD_BUFFER_SIZE | Inr _ \<Rightarrow> True)"
    unfolding trace_present_def Let_def
    by (auto intro!: post_ok post_fail post_after post_bindE [OF post_lift [where P = "\<lambda>r. case r of Inl e \<Rightarrow> e = BAD_BUFFER_SIZE | Inr _ \<Rightarrow> True"]] simp: ok_or_def split: option.split sum.split)
  then show ?thesis
    unfolding flagged_def by (rule post_bindS) (auto intro!: post_ret simp: map_err_def split: sum.splits)
qed

lemma moves_trace_tail:
  assumes "restored_pages code q" "refused q \<longleftrightarrow> restored \<noteq> 0"
  shows "moves guard_step (bindE (flagged (trace_present b fw c dsp fb ram)) (\<lambda>_.
     bindS (drop_op (display_drop fw dsp)) (\<lambda>_.
     bindS (report fw ''NXARMJIT: TRACE_ONLY'' []) (\<lambda>_.
     fail (trace_status jc c restored st mr, False))))) q (leaves code trace_lost)"
  by (rule moves_bindE [OF moves_post [OF moves_untouched post_trace_present]])
    (use assms in \<open>auto intro!: touch_flagged touch_trace_present moves_touchless [OF touch_display_drop]
      moves_touchless [OF touch_report] moves_fail simp: leaves_def trace_lost_def trace_status_def\<close>)

lemma moves_trace_guest:
  assumes "placed (64 * 1024) (Inr code)"
  shows "moves guard_step (trace_guest b fw jh jc abi tb td c plan aliases dsp ram code) Unguarded (leaves code trace_lost)"
proof -
  have launch: "moves guard_step (flagged (trace_launch b fw jh jc abi tb td c l aliases ram code)) Unguarded unrun" for l
    by (rule moves_flagged [OF moves_launch]) auto
  show ?thesis
    unfolding trace_guest_def case_prod_beta
    by (rule moves_bindE [OF launch], force simp: leaves_def, rule moves_bindS [OF moves_protect_callback], simp,
        rule moves_touchless [OF touch_reports], rule moves_trace_tail)
      (auto simp: placed_restored [OF assms])
qed

lemma leaves_freed:
  assumes "moves guard_step m Unguarded (leaves p bad)"
  shows "moves guard_step (with_drop m (arm_drop fw p)) Unguarded (\<lambda>r q. q = Unguarded \<or> (q = Abandoned \<and> bad r))"
  by (rule moves_with_drop [OF assms], rule moves_mono [OF moves_arm_drop]) (auto simp: leaves_def after_free_def)

text \<open>Property C35: the emulator's code pages are freed only after the application itself has, as the last
  call of the protection function, asked for the whole 64 KiB range inside these pages to be made
  writable again, or when that function was never called, on every path and whatever the guest
  does with the protection callback. If that call is refused the pages are freed all the same;
  then, and only then, they go back as they are, the protection function is not called again and
  the operation fails: the authored probe with \<open>DEVICE_ERROR\<close>, the trace with \<open>DEVICE_ERROR\<close> or,
  when its framebuffer lies outside the guest's memory, with \<open>BAD_BUFFER_SIZE\<close>. Every run of the
  emulator is in one of these two scopes.\<close>

theorem code_pages_are_restored:
  "moves guard_step (owning_pages fw (allocate fw (64 * 1024) None) (\<lambda>code. probe_engine fw jh jc plan pac ram code)) Unguarded
     (\<lambda>r q. q = Unguarded \<or> (q = Abandoned \<and> r = Inl DEVICE_ERROR))
   \<and> moves guard_step (flagged_pages fw (allocate fw (64 * 1024) None)
       (\<lambda>code. trace_guest b fw jh jc abi tb td c plan aliases dsp ram code)) Unguarded
     (\<lambda>r q. q = Unguarded \<or> (q = Abandoned \<and> trace_lost r))"
proof
  show "moves guard_step (owning_pages fw (allocate fw (64 * 1024) None) (\<lambda>code. probe_engine fw jh jc plan pac ram code)) Unguarded
     (\<lambda>r q. q = Unguarded \<or> (q = Abandoned \<and> r = Inl DEVICE_ERROR))"
    unfolding owning_pages_def allocate_def
    by (rule moves_bindE [OF moves_allocate]) (auto intro!: leaves_freed moves_probe_engine)
  show "moves guard_step (flagged_pages fw (allocate fw (64 * 1024) None)
       (\<lambda>code. trace_guest b fw jh jc abi tb td c plan aliases dsp ram code)) Unguarded
     (\<lambda>r q. q = Unguarded \<or> (q = Abandoned \<and> trace_lost r))"
    unfolding flagged_pages_def allocate_def
    by (rule moves_bindE [OF moves_flagged [OF moves_allocate,
            where Q = "\<lambda>r q. q = Unguarded \<and> (\<forall>p. r = Inr p \<longrightarrow> placed (64 * 1024) (Inr p))"]])
      (auto intro!: leaves_freed moves_trace_guest)
qed

subsection \<open>Observing the protection callback\<close>

text \<open>What the observation should count: the calls of the protection function in a list of events.\<close>

definition count_event :: "event \<Rightarrow> protection_observation \<Rightarrow> protection_observation" where
  "count_event e = (case e of
     ECall tag [p, n, RNat x] st \<Rightarrow>
       if tag = ''jit_protect'' then count_result (if st = SUCCESS then 0 else 1) \<circ> count_call (word_of_nat x) else id
   | _ \<Rightarrow> id)"

definition counted :: "protection_observation \<Rightarrow> event list \<Rightarrow> protection_observation" where
  "counted c evs = fold count_event evs c"

lemma counted_simps [simp]: "counted c [] = c" "counted c (xs @ ys) = counted (counted c xs) ys"
  by (simp_all add: counted_def)

lemma callback_counts:
  fixes d :: 'd
  assumes "aligned_ptr align ptr"
  obtains y e t where "observed_protect jh (align, ptr) p n x c sys = ((y, counted c [e]), t)"
    "plain_protect jh p n x d sys = ((y, d), t)" "trace t = trace sys @ [e]"
proof -
  obtain y w where protect: "jh_protect jh p n x (world sys) = (y, w)" by fastforce
  let ?e = "ECall ''jit_protect'' [RNat p, RNat n, RNat (unat x)] (int_status y)"
  let ?t = "sys\<lparr>world := w, trace := trace sys @ [?e]\<rparr>"
  have "observed_protect jh (align, ptr) p n x c sys = ((y, counted c [?e]), ?t)"
    using protect assms(1)
    by (simp add: observed_protect_def jit_protect_def op_simps call_eval counted_def count_event_def int_status_def count_result_def)
  moreover have "plain_protect jh p n x d sys = ((y, d), ?t)"
    using protect by (simp add: plain_protect_def jit_protect_def op_simps call_eval)
  ultimately show thesis using that by simp
qed

lemma run_guest_counts:
  fixes d :: 'd
  assumes "aligned_ptr align ptr" "run_guest step (observed_protect jh (align, ptr)) g s c sys = ((r, s', c'), sys')"
  shows "run_guest step (plain_protect jh) g s d sys = ((r, s', d), sys')
    \<and> (\<exists>evs. trace sys' = trace sys @ evs \<and> c' = counted c evs)"
  using assms(2)
proof (induction g arbitrary: s c sys)
  case (Protects p n x k)
  obtain y e t where cb: "observed_protect jh (align, ptr) p n x c sys = ((y, counted c [e]), t)"
    "plain_protect jh p n x d sys = ((y, d), t)" "trace t = trace sys @ [e]"
    using callback_counts [OF assms(1)] .
  with Protects.prems have "run_guest step (observed_protect jh (align, ptr)) (k y) s (counted c [e]) t = ((r, s', c'), sys')"
    by (simp add: run_guest_simps(3) bindS_eval)
  from Protects.IH [OF _ this] cb show ?case
    by (auto simp: run_guest_simps(3) bindS_eval counted_def)
next
  case (Asks q k)
  obtain y t where step: "step q s = (y, t)" by fastforce
  with Asks.prems have "run_guest step (observed_protect jh (align, ptr)) (k y) t c sys = ((r, s', c'), sys')"
    by (simp add: run_guest_simps(2))
  from Asks.IH [OF _ this] step show ?case by (simp add: run_guest_simps(2))
qed (auto simp: run_guest_simps op_simps)

lemma run_native_counts:
  fixes d :: 'd
  assumes "aligned_ptr align ptr" "run_native (observed_protect jh (align, ptr)) g c sys = ((r, c'), sys')"
  shows "run_native (plain_protect jh) g d sys = ((r, d), sys') \<and> (\<exists>evs. trace sys' = trace sys @ evs \<and> c' = counted c evs)"
  using assms(2)
proof (induction g arbitrary: c sys)
  case (Protected p n x k)
  obtain y e t where cb: "observed_protect jh (align, ptr) p n x c sys = ((y, counted c [e]), t)"
    "plain_protect jh p n x d sys = ((y, d), t)" "trace t = trace sys @ [e]"
    using callback_counts [OF assms(1)] .
  with Protected.prems have "run_native (observed_protect jh (align, ptr)) (k y) (counted c [e]) t = ((r, c'), sys')"
    by (simp add: bindS_eval)
  from Protected.IH [OF _ this] cb show ?case
    by (auto simp: bindS_eval counted_def)
qed (auto simp: op_simps)

text \<open>Observing the protection callback is transparent: a guest or an emulator run on it has the
  result, memory service, firmware state and events that it has on the plain callback, and the
  observation counts, saturating, exactly the calls made and the calls that failed.\<close>

theorem protection_observation_is_transparent:
  fixes d :: 'd
  shows "(case run_guest step (observed_protect jh (8, 8)) g s c sys of ((r, s', c'), sys') \<Rightarrow>
      run_guest step (plain_protect jh) g s d sys = ((r, s', d), sys')
      \<and> (\<exists>evs. trace sys' = trace sys @ evs \<and> c' = counted c evs))
    \<and> (case run_native (observed_protect jh (8, 8)) e c sys of ((r, c'), sys') \<Rightarrow>
      run_native (plain_protect jh) e d sys = ((r, d), sys')
      \<and> (\<exists>evs. trace sys' = trace sys @ evs \<and> c' = counted c evs))"
proof -
  have "aligned_ptr 8 8" by (simp add: aligned_ptr_def)
  then show ?thesis
    by (auto split: prod.split dest: run_guest_counts [where d = d] run_native_counts [where d = d])
qed

subsection \<open>Success is a verified run\<close>

text \<open>
  What the probe does with the guest before it judges it: the protection is opened, the emulator
  run and the code pages made writable again. The result holds what these returned.
\<close>

definition enter_guest :: "'w firmware \<Rightarrow> 'w jit_host \<Rightarrow> ('h, 't, 'n) jit_core \<Rightarrow> 'h \<Rightarrow> u8 list \<Rightarrow> arm_pages
    \<Rightarrow> ('w, int \<times> int \<times> jit_result \<times> u8 list \<times> int) op" where
  "enter_guest fw jh jc plan ram code =
     (let l = hc_layout (jc_handoff jc) plan in
      bindS (protection_open jh) (\<lambda>opened.
      bindS (report_lines fw [(''NXARMJIT: STAGING_VERIFIED'', []),
          (''NXARMJIT: GUEST_ENTRY_READY'', [RNat (la_entry_phys l), RNat (la_boot_args_phys l), RNat RAM_BASE]),
          (''NXARMJIT: JIT_ENTER'', [])]) (\<lambda>_.
      bindS (run_native (plain_protect jh) (jc_run_pauth jc ram RAM_BASE (la_entry_phys l) (la_boot_args_phys l)
          (la_stack_top_phys l) (ap_memory code) 100000) ()) (\<lambda>((st, r, ram), _).
      bindS (jit_protect jh (ap_base code) (ap_bytes code) 0) (\<lambda>restored.
      bindS (report fw ''NXARMJIT: JIT_RETURN'' [status_value st, RNat (jr_retired r), RNat (jr_pc r),
          RNat (jr_compiled_blocks r), RNat (jr_fault_instruction r)]) (\<lambda>_.
      ret (opened, st, r, ram, restored)))))))"

text \<open>The presentation of the guest's pixels and what is read back from the screen, with the reports in between.\<close>

definition show_guest :: "'w firmware \<Rightarrow> 'w jit_host \<Rightarrow> bool \<Rightarrow> u8 list \<Rightarrow> ('w, status \<times> status \<times> u8 list) op" where
  "show_guest fw jh pac ram =
     bindS (report fw ''NXARMJIT: BOOT_ARGS_READBACK_OK'' []) (\<lambda>_.
     bindS (if pac then report fw ''NXARMJIT: ARM64E_PAC_READBACK_OK'' [] else ret ()) (\<lambda>_.
     bindS (report fw ''NXARMJIT: GUEST_FRAMEBUFFER_OK'' []) (\<lambda>_.
     bindS (call (jh_present jh ram FRAMEBUFFER_OFFSET) (ECall ''gop_present'' [])) (\<lambda>presented.
     bindS (call (jh_readback jh) (\<lambda>(st, _). ECall ''gop_readback'' [] st)) (\<lambda>(st, captured).
     ret (presented, st, captured))))))"

text \<open>
  What a fixture must have left: the emulator's status and counters and its four argument
  registers; the boot arguments it copied, the two authenticated pointers of the arm64e fixture,
  and sixteen pixels of the authored colour in the guest's memory; the colour on the screen.
\<close>

definition guest_verified :: "('h, 't, 'n) jit_core \<Rightarrow> 'h \<Rightarrow> bool \<Rightarrow> int \<Rightarrow> jit_result \<Rightarrow> u8 list \<Rightarrow> bool" where
  "guest_verified jc plan pac st r ram \<longleftrightarrow>
     (let l = hc_layout (jc_handoff jc) plan; dt_va = jc_device_tree_va jc plan; instructions = (if pac then 45 else 25) in
      st = 1 \<and> jr_status r = 1 \<and> jr_retired r = instructions
      \<and> jr_pc r = wrapping_add (la_entry_phys l) (instructions * 4) \<and> 0 < jr_compiled_blocks r
      \<and> [jr_x0 r, jr_x1 r, jr_x2 r, jr_x3 r] = [la_boot_args_phys l, 0x20002, RAM_BASE + 0x10000, dt_va]
      \<and> subrange 0x10000 0x10020 ram = concat (map (le_bytes 8) [0x20002, dt_va, RAM_BASE, JIT_RAM_SIZE])
      \<and> (\<not> pac \<or> (word_at 0x10020 ram = 0xbf36000000000130 \<and> word_at 0x10028 ram = 0x130))
      \<and> (\<forall>p \<in> set (chunks4 (subrange FRAMEBUFFER_OFFSET (FRAMEBUFFER_OFFSET + 64) ram)). p = [0x33, 0x22, 0x11, 0]))"

definition verified_run :: "'w firmware \<Rightarrow> 'w jit_host \<Rightarrow> ('h, 't, 'n) jit_core \<Rightarrow> 'h \<Rightarrow> bool \<Rightarrow> u8 list \<Rightarrow> arm_pages
    \<Rightarrow> 'w sys \<Rightarrow> 'w sys \<Rightarrow> bool" where
  "verified_run fw jh jc plan pac ram code s t \<longleftrightarrow> jh_system_table jh (world s)
     \<and> (\<exists>st r ram' captured u v.
          enter_guest fw jh jc plan ram code s = ((0, st, r, ram', 0), u) \<and> guest_verified jc plan pac st r ram'
          \<and> show_guest fw jh pac ram' u = ((SUCCESS, SUCCESS, captured), v)
          \<and> (\<forall>p \<in> set (chunks4 captured). take 3 p = [0x33, 0x22, 0x11])
          \<and> snd (report_lines fw [(''NXARMJIT: GOP_READBACK_OK'', []), (''NXARMJIT: AUTHORED_HANDOFF_OK'', [])] v) = t)"

lemma probe_verdict_shown:
  "probe_verdict fw jh (jc_device_tree_va jc plan) pac ram u = (Inr (), t) \<longleftrightarrow>
     subrange 0x10000 0x10020 ram = expected_boot_args (jc_device_tree_va jc plan)
     \<and> (\<not> pac \<or> (word_at 0x10020 ram = 0xbf36000000000130 \<and> word_at 0x10028 ram = 0x130))
     \<and> (\<forall>p \<in> set (chunks4 (subrange FRAMEBUFFER_OFFSET (FRAMEBUFFER_OFFSET + 64) ram)). p = [0x33, 0x22, 0x11, 0])
     \<and> (\<exists>captured v. show_guest fw jh pac ram u = ((SUCCESS, SUCCESS, captured), v)
          \<and> (\<forall>p \<in> set (chunks4 captured). take 3 p = [0x33, 0x22, 0x11])
          \<and> snd (report_lines fw [(''NXARMJIT: GOP_READBACK_OK'', []), (''NXARMJIT: AUTHORED_HANDOFF_OK'', [])] v) = t)"
  by (cases pac)
    (auto simp: probe_verdict_def show_guest_def op_simps call_eval report_def list_all_iff split: prod.splits if_splits)

lemma expected_boot_args_words:
  "expected_boot_args dt_va = concat (map (le_bytes 8) [0x20002, dt_va, RAM_BASE, JIT_RAM_SIZE])"
  by (simp add: expected_boot_args_def)

lemma probe_engine_unfold:
  "probe_engine fw jh jc plan pac ram code s =
     (if \<not> jh_system_table jh (world s) then (Inl NOT_READY, s)
      else case protection_open jh s of (opened, _) \<Rightarrow>
        if opened \<noteq> 0 then probe_engine fw jh jc plan pac ram code s
        else case enter_guest fw jh jc plan ram code s of ((_, st, r, ram, restored), u) \<Rightarrow>
          if restored \<noteq> 0 then (Inl DEVICE_ERROR, u)
          else if \<not> result_as_expected jc plan pac st r then (Inl COMPROMISED_DATA, u)
          else probe_verdict fw jh (jc_device_tree_va jc plan) pac ram u)"
  by (simp add: probe_engine_def enter_guest_def Let_def op_simps query_def case_prod_beta del: report_lines.simps)

lemma probe_engine_verified:
  "probe_engine fw jh jc plan pac ram code s = (Inr (), t) \<longleftrightarrow> verified_run fw jh jc plan pac ram code s t"
proof (cases "jh_system_table jh (world s)")
  case False
  then show ?thesis by (subst probe_engine_unfold) (simp add: verified_run_def)
next
  case True
  obtain opened v where o: "protection_open jh s = (opened, v)" by fastforce
  obtain op st r ram' restored u where e: "enter_guest fw jh jc plan ram code s = ((op, st, r, ram', restored), u)"
    by (metis prod_cases5 surj_pair)
  have op: "op = opened"
    using e o by (auto simp: enter_guest_def op_simps Let_def split: prod.splits)
  show ?thesis
  proof (cases "opened = 0")
    case False
    then have "fst (probe_engine fw jh jc plan pac ram code s) = Inl UNSUPPORTED"
      using True o by (simp add: probe_engine_def Let_def op_simps query_def split: prod.split)
    with False op e show ?thesis by (auto simp: verified_run_def)
  next
    case opened: True
    have "probe_engine fw jh jc plan pac ram code s =
        (if restored \<noteq> 0 then (Inl DEVICE_ERROR, u)
         else if \<not> result_as_expected jc plan pac st r then (Inl COMPROMISED_DATA, u)
         else probe_verdict fw jh (jc_device_tree_va jc plan) pac ram' u)"
      using True o opened e by (subst probe_engine_unfold) simp
    moreover have "guest_verified jc plan pac st r ram' \<longleftrightarrow> result_as_expected jc plan pac st r
        \<and> subrange 0x10000 0x10020 ram' = expected_boot_args (jc_device_tree_va jc plan)
        \<and> (\<not> pac \<or> (word_at 0x10020 ram' = 0xbf36000000000130 \<and> word_at 0x10028 ram' = 0x130))
        \<and> (\<forall>p \<in> set (chunks4 (subrange FRAMEBUFFER_OFFSET (FRAMEBUFFER_OFFSET + 64) ram')). p = [0x33, 0x22, 0x11, 0])"
      by (simp only: guest_verified_def result_as_expected_def Let_def expected_boot_args_words list.inject neq0_conv
          conj_assoc simp_thms)
    ultimately show ?thesis
      unfolding verified_run_def using True e op opened by (simp add: probe_verdict_shown)
  qed
qed

text \<open>
  \<open>through m R\<close>: whenever \<open>m\<close> succeeds, a part of its run, a segment of its trace, goes from a state
  to a state that \<open>R\<close> relates.
\<close>

definition through :: "('w, 'e + 'a) op \<Rightarrow> ('w sys \<Rightarrow> 'w sys \<Rightarrow> bool) \<Rightarrow> bool" where
  "through m R \<longleftrightarrow> (\<forall>s. case m s of (Inl _, _) \<Rightarrow> True
     | (Inr _, t) \<Rightarrow> \<exists>s1 t1. R s1 t1 \<and> prefix (trace s) (trace s1) \<and> prefix (trace t1) (trace t))"

lemma throughI:
  "(\<And>s a t. m s = (Inr a, t) \<Longrightarrow> \<exists>s1 t1. R s1 t1 \<and> prefix (trace s) (trace s1) \<and> prefix (trace t1) (trace t)) \<Longrightarrow> through m R"
  unfolding through_def by (auto split: prod.split sum.split)

lemma throughE:
  "through m R \<Longrightarrow> m s = (Inr a, t) \<Longrightarrow> \<exists>s1 t1. R s1 t1 \<and> prefix (trace s) (trace s1) \<and> prefix (trace t1) (trace t)"
  unfolding through_def by (auto dest!: spec [of _ s])

lemma grows:
  assumes "neutral acq rel m" "m s = (a, t)"
  shows "prefix (trace s) (trace t)"
  using extendsD [OF extends_neutral [OF assms(1)] assms(2)] by (auto intro: prefixI)

lemma through_mono: "through m R \<Longrightarrow> (\<And>s t. R s t \<Longrightarrow> Q s t) \<Longrightarrow> through m Q"
  by (rule throughI) (blast dest: throughE)

lemma through_fail: "through (fail e) R"
  by (rule throughI) (simp add: op_simps)

lemma through_fruitless: "post m (\<lambda>r. \<not> is_ok r) \<Longrightarrow> through m R"
proof (rule throughI)
  fix s a t assume "post m (\<lambda>r. \<not> is_ok r)" "m s = (Inr a, t)"
  then have "\<not> is_ok (fst (m s))" unfolding post_def by blast
  with \<open>m s = (Inr a, t)\<close> show "\<exists>s1 t1. R s1 t1 \<and> prefix (trace s) (trace s1) \<and> prefix (trace t1) (trace t)" by simp
qed

lemma through_after:
  assumes "neutral acq rel m" "\<And>a. through (k a) R"
  shows "through (bindS m k) R"
proof (rule throughI)
  fix s b t assume "bindS m k s = (Inr b, t)"
  then obtain a u where m: "m s = (a, u)" "k a u = (Inr b, t)" by (auto simp: op_simps split: prod.splits)
  from throughE [OF assms(2) m(2)] grows [OF assms(1) m(1)]
  show "\<exists>s1 t1. R s1 t1 \<and> prefix (trace s) (trace s1) \<and> prefix (trace t1) (trace t)"
    by (meson prefix_order.trans)
qed

lemma through_afterE:
  assumes "neutral acq rel m" "\<And>a. through (k a) R"
  shows "through (bindE m k) R"
proof (rule throughI)
  fix s b t assume "bindE m k s = (Inr b, t)"
  then obtain a u where m: "m s = (Inr a, u)" "k a u = (Inr b, t)" by (auto simp: op_simps split: prod.splits sum.splits)
  from throughE [OF assms(2) m(2)] grows [OF assms(1) m(1)]
  show "\<exists>s1 t1. R s1 t1 \<and> prefix (trace s) (trace s1) \<and> prefix (trace t1) (trace t)"
    by (meson prefix_order.trans)
qed

text \<open>The result of a pure step is known.\<close>

lemma through_lift: "(\<And>a. r = Inr a \<Longrightarrow> through (k a) R) \<Longrightarrow> through (bindE (lift r) k) R"
  by (cases r) (auto simp: through_def op_simps)

lemma through_or_report:
  assumes "\<And>a. r = Inr a \<Longrightarrow> through (k a) R"
  shows "through (bindE (or_report fw tag st r) k) R"
proof (cases r)
  case (Inr a)
  then have "bindE (or_report fw tag st r) k = k a" by (auto simp: or_report_def op_simps)
  with assms Inr show ?thesis by simp
qed (auto simp: through_def or_report_def op_simps split: prod.split)

lemma through_with_drop:
  fixes m :: "('w, 'e + 'a) op"
  assumes "through m R" "neutral acq rel (drop_op d)"
  shows "through (with_drop m d) R"
proof (rule throughI)
  fix s b t assume "with_drop m d s = (Inr b, t)"
  then obtain u where m: "m s = (Inr b, u)" "drop_op d u = ((), t)"
    by (auto simp: op_simps drop_op_def split: prod.splits)
  from throughE [OF assms(1) m(1)] grows [OF assms(2) m(2)]
  show "\<exists>s1 t1. R s1 t1 \<and> prefix (trace s) (trace s1) \<and> prefix (trace t1) (trace t)"
    by (meson prefix_order.trans)
qed

lemma through_owning:
  "(\<And>p. through (body p) R) \<Longrightarrow> through (owning_pages fw (allocate_kind fw bytes fixed kind) body) R"
  unfolding owning_pages_def
  by (intro through_afterE [OF screen_allocate_kind] through_with_drop [OF _ screen_arm_drop])

text \<open>The run of an authored fixture: the source carries its marker exactly once, and is planned and staged.\<close>

definition authored_run :: "'w firmware \<Rightarrow> 'w jit_host \<Rightarrow> 'p collection_core \<Rightarrow> ('h, 't, 'n) jit_core \<Rightarrow> u8 list \<Rightarrow> 'w sys \<Rightarrow> 'w sys \<Rightarrow> bool" where
  "authored_run fw jh cc jc source s t \<longleftrightarrow>
     (\<exists>stage pac dt arguments plan stop mem staged copied code.
        cc_new cc source = Inr stage
        \<and> cc_subtype cc stage = (if pac then 2 else 0)
        \<and> occurrences PLAIN_MARKER source = (if pac then 0 else 1) \<and> occurrences PAC_MARKER source = (if pac then 1 else 0)
        \<and> hc_encode (jc_handoff jc) probe_tree = Some dt
        \<and> hc_plan (jc_handoff jc) source (probe_placement dt arguments) = Inr plan
        \<and> hc_stage_into (jc_handoff jc) plan (subrange KERNEL_OFFSET stop mem) = (Some copied, staged)
        \<and> verified_run fw jh jc plan pac (overwrite KERNEL_OFFSET staged mem) code s t)"

lemma fixture_kind_Some:
  "fixture_kind subtype source = Some pac \<longleftrightarrow> subtype = (if pac then 2 else 0)
     \<and> occurrences PLAIN_MARKER source = (if pac then 0 else 1) \<and> occurrences PAC_MARKER source = (if pac then 1 else 0)"
  by (auto simp: fixture_kind_def Let_def)

lemma through_jit_probe:
  assumes "cc_new cc source = Inr stage" "fixture_kind (cc_subtype cc stage) source = Some pac"
  shows "through (jit_probe fw jh jc source arguments pac) (authored_run fw jh cc jc source)"
proof -
  have run: "through (probe_engine fw jh jc plan pac (overwrite KERNEL_OFFSET staged mem) code) (authored_run fw jh cc jc source)"
    if "hc_encode (jc_handoff jc) probe_tree = Some dt"
      "hc_plan (jc_handoff jc) source (probe_placement dt arguments) = Inr plan"
      "hc_stage_into (jc_handoff jc) plan (subrange KERNEL_OFFSET stop mem) = (Some copied, staged)"
    for dt plan stop mem copied staged code
  proof (rule throughI)
    fix s and a :: unit and t
    assume "probe_engine fw jh jc plan pac (overwrite KERNEL_OFFSET staged mem) code s = (Inr a, t)"
    then have "verified_run fw jh jc plan pac (overwrite KERNEL_OFFSET staged mem) code s t"
      by (simp add: probe_engine_verified)
    with that assms have "authored_run fw jh cc jc source s t"
      unfolding authored_run_def fixture_kind_Some by blast
    then show "\<exists>s1 t1. authored_run fw jh cc jc source s1 t1 \<and> prefix (trace s) (trace s1) \<and> prefix (trace t1) (trace t)"
      by blast
  qed
  show ?thesis
    unfolding jit_probe_def Let_def allocate_def allocate_data_def
    by (intro through_lift through_or_report through_owning)
      (auto intro!: through_owning through_fail run split: prod.split option.split)
qed

text \<open>A trace, and a mere staging, never succeed.\<close>

lemma post_not_ok: "(\<And>a. post (k a) (\<lambda>r. \<not> is_ok r)) \<Longrightarrow> post (bindE m k) (\<lambda>r. \<not> is_ok r)"
  by (rule post_bindE [OF post_true]) auto

lemma post_jit_trace: "post (jit_trace b fw io jh jc su abi tb td source arguments config companions) (\<lambda>r. \<not> is_ok r)"
proof -
  have body: "post (trace_body b fw jh jc su abi tb td companions c prepared dsp) (\<lambda>r. \<not> is_ok r)" for c prepared dsp
    unfolding trace_body_def trace_guest_def flagged_pages_def case_prod_beta
    by (intro post_not_ok post_with_drop post_after post_fail) simp
  show ?thesis
    unfolding jit_trace_def case_prod_beta
    by (rule post_not_ok, rule post_not_ok, rule post_after, rule post_after, rule post_bindS [OF body])
      (auto intro!: post_after post_fail split: sum.split)
qed

lemma through_jit_target:
  "through (jit_target b fw jh cc jc (jit_trace b fw io jh jc su abi tb td) target config companions source)
     (authored_run fw jh cc jc source)"
proof -
  have trace: "through (jit_trace b fw io jh jc su abi tb td source arguments config companions) R" for source arguments config companions R
    by (rule through_fruitless [OF post_jit_trace])
  have staging: "through (jit_staging fw cc stage) R" for stage R
    unfolding jit_staging_def allocate_data_def
    by (auto intro!: through_owning through_fail through_after [OF screen_quiet.report_many] simp del: report_lines.simps
        split: prod.split option.split)
  have fixture: "through (case fixture_kind (cc_subtype cc stage) source of
       None \<Rightarrow> bindS (report fw ''NXARMJIT: FIXTURE_REJECTED'' []) (\<lambda>_. fail UNSUPPORTED)
     | Some pac \<Rightarrow> jit_probe fw jh jc source arguments pac) (authored_run fw jh cc jc source)"
    if "cc_new cc source = Inr stage" for stage arguments
    using that by (auto intro!: through_after [OF screen_quiet.reports] through_fail through_jit_probe split: option.split)
  show ?thesis
    unfolding jit_target_def
    by (rule through_or_report, rule through_after [OF screen_quiet.reports])
      (auto intro!: trace staging fixture through_after [OF screen_quiet.reports] through_after [OF neutral_ret])
qed

lemma through_application:
  "through (jit_application b fw io jh cc ib bk su jc abi tb td) (\<lambda>s t. \<exists>source. authored_run fw jh cc jc source s t)"
proof -
  have target: "through (jit_target b fw jh cc jc (jit_trace b fw io jh jc su abi tb td) target config companions source)
     (\<lambda>s t. \<exists>source. authored_run fw jh cc jc source s t)" for target config companions source
    by (rule through_mono [OF through_jit_target]) blast
  show ?thesis
    unfolding jit_application_def jit_run_def with_selected_def payload_drop_def
    by (auto intro!: through_afterE [OF screen_quiet.reads] through_or_report
        through_after [OF screen_quiet.reports] through_fail target
        through_afterE [OF screen_quiet.loads_selected] through_afterE [OF screen_load_payload]
        through_with_drop [OF _ screen_arm_drop] through_afterE [OF screen_quiet.loads_startup]
        through_afterE [OF screen_quiet.loads_bootkc])
qed

text \<open>Property C36: the application succeeds only by a verified run of an authored fixture. The probe of a
  fixture succeeds exactly when the protection was opened and restored, the emulator ended with the
  prescribed status, number of instructions, program counter and argument registers, the guest's
  memory holds the boot arguments, the authenticated pointers where the fixture makes them and the
  authored pixels, and the screen, once these were presented, reads back in their colour; its run
  is then the one described. Whenever the whole application succeeds, a segment of its own run is
  such a probe, of a source that the core library accepted as a kernel collection and that carries
  exactly one marker, that of its kind. A trace of a guest never succeeds.\<close>

theorem success_is_a_verified_fixture:
  "(probe_engine fw jh jc plan pac ram code s = (Inr (), t) \<longleftrightarrow> verified_run fw jh jc plan pac ram code s t)
   \<and> (case jit_application b fw io jh cc ib bk su jc abi tb td s of
        (Inl _, _) \<Rightarrow> True
      | (Inr _, u) \<Rightarrow> \<exists>source s1 t1. authored_run fw jh cc jc source s1 t1
          \<and> prefix (trace s) (trace s1) \<and> prefix (trace t1) (trace u))
   \<and> post (jit_trace b fw io jh jc su abi tb td source arguments config companions) (\<lambda>r. \<not> is_ok r)"
proof (intro conjI probe_engine_verified post_jit_trace)
  show "case jit_application b fw io jh cc ib bk su jc abi tb td s of
        (Inl _, _) \<Rightarrow> True
      | (Inr _, u) \<Rightarrow> \<exists>source s1 t1. authored_run fw jh cc jc source s1 t1
          \<and> prefix (trace s) (trace s1) \<and> prefix (trace t1) (trace u)"
    using throughE [OF through_application, of b fw io jh cc ib bk su jc abi tb td s]
    by (fastforce split: prod.split sum.split)
qed

subsection \<open>What the readback line says\<close>

lemma length_chunks4: "length (chunks4 bytes) = length bytes div 4"
  by (induction bytes rule: chunks4.induct) auto

lemma chunks4_elem: "c \<in> set (chunks4 bytes) \<Longrightarrow> length c = 4"
  by (induction bytes rule: chunks4.induct) auto

definition shown :: "u8 list \<Rightarrow> u8 list list" where
  "shown bytes = map (take 3) (chunks4 bytes)"

lemma shown_cleared: "shown (cleared bytes) = shown bytes"
  by (induction bytes rule: cleared.induct) (auto simp: shown_def)

lemma length_cleared: "length (cleared bytes) = length bytes div 4 * 4"
proof (induction bytes rule: cleared.induct)
  case (1 b g r x rest)
  have "length (b # g # r # x # rest) = length rest + 4" by simp
  with 1 show ?case by (simp only: cleared.simps list.size div_add_self2) simp
qed auto

lemma rgb_match_iff: "rgb_match p q \<longleftrightarrow> length p = length q \<and> shown p = shown q"
proof -
  have "list_all (\<lambda>(a, b). take 3 a = take 3 b) (zip xs ys) \<longleftrightarrow> map (take 3) xs = map (take 3) ys"
    if "length xs = length ys" for xs ys :: "u8 list list"
    using that by (induction xs ys rule: list_induct2) auto
  moreover have "length (chunks4 p) = length (chunks4 q)" if "length p = length q"
    using that by (simp add: length_chunks4)
  ultimately show ?thesis by (auto simp: rgb_match_def shown_def)
qed

lemma hash_shown: "shown p = shown q \<Longrightarrow> framebuffer_rgb_hash p = framebuffer_rgb_hash q"
  by (simp add: framebuffer_rgb_hash_def shown_def)

lemma reports_trace:
  "\<exists>u. report_lines fw ls s = ((), u) \<and> trace u = trace s @ map (\<lambda>(tag, vs). EReport tag vs) ls"
proof (induction ls arbitrary: s)
  case (Cons l ls)
  show ?case
    using Cons.IH [of "snd (report fw (fst l) (snd l) s)"]
    by (cases l) (auto simp: op_simps report_def call_eval)
qed (simp add: op_simps)

text \<open>The trace's video readback: on a display that shows what is copied to it, a guest's frame
  that lies in the guest's RAM and was presented is read back before anything is reported, and the
  line that is then printed says that the screen matches the frame, with equal hashes; and for
  any frame and readback whatever, the line says that they match exactly when they have the same
  length and the same visible bytes.\<close>

theorem readback_reports_the_screen:
  assumes "displays fw" "\<And>w n. fw_reserve fw w n" "new_geometry width height = Inr (cg_geometry gop)"
    and "jb_video_readback b" "checked_add (wrapping_sub (fb_base_phys f) (tc_physical_base c)) (fb_byte_len f) = Some stop"
    and "stop \<le> length ram" "pixels = subrange (wrapping_sub (fb_base_phys f) (tc_physical_base c)) stop ram"
    and "present fw gop pixels s = (Inr (), t)"
  shows "(\<exists>u h x y. trace_present b fw c (Some gop) (Some f) ram s = (Inr (), u)
      \<and> trace u = trace t @ [ECall ''read_pixels'' [RNat (length pixels div 4)] SUCCESS, EReport ''NXARMJIT: TRACE_VIDEO_PRESENTED'' [],
          EReport ''NXARMJIT: TRACE_VIDEO_READBACK'' [RNat h, RNat h, RBool True, RNat x, RNat y]])
    \<and> (rgb_match p q \<longleftrightarrow> length p = length q \<and> shown p = shown q)"
proof (rule conjI [OF _ rgb_match_iff])
  note rb = readback_presented [OF assms(1,2,3,8)]
  have "length (cleared pixels) = length pixels" using rb(2) by (simp add: length_cleared)
  then have m: "rgb_match pixels (cleared pixels)" "framebuffer_rgb_hash (cleared pixels) = framebuffer_rgb_hash pixels"
    by (simp_all add: rgb_match_iff shown_cleared hash_shown [OF shown_cleared])
  let ?ls = "[(''NXARMJIT: TRACE_VIDEO_PRESENTED'', []), readback_line pixels (Inr (cleared pixels))]"
  let ?t = "t\<lparr>trace := trace t @ [ECall ''read_pixels'' [RNat (length pixels div 4)] SUCCESS]\<rparr>"
  obtain u where u: "report_lines fw ?ls ?t = ((), u)" "trace u = trace ?t @ map (\<lambda>(tag, vs). EReport tag vs) ?ls"
    using reports_trace by blast
  have "trace_present b fw c (Some gop) (Some f) ram s = (Inr (), u)"
    using assms(4,6) u(1)
    by (simp add: trace_present_def Let_def op_simps assms(5,8) assms(7) [symmetric] rb(1) del: report_lines.simps)
  with u(2) m show "\<exists>u h x y. trace_present b fw c (Some gop) (Some f) ram s = (Inr (), u)
      \<and> trace u = trace t @ [ECall ''read_pixels'' [RNat (length pixels div 4)] SUCCESS, EReport ''NXARMJIT: TRACE_VIDEO_PRESENTED'' [],
          EReport ''NXARMJIT: TRACE_VIDEO_READBACK'' [RNat h, RNat h, RBool True, RNat x, RNat y]]"
    by (simp add: readback_line_def)
qed

theorem readback_reports_the_screen_witness:
  "\<exists>u h x y. trace_present \<lparr>jb_probe = True, jb_trace = True, jb_tier = Basic, jb_provider = False, jb_selected = False,
      jb_memory_observation = False, jb_protection_observation = False, jb_video_readback = True\<rparr> screen
     \<lparr>tc_physical_base = 0x1000, tc_virtual_base = 0, tc_memory_size = 16, tc_actual_memory_size = 16, tc_kernel_phys = 0,
      tc_device_tree_path = [], tc_instruction_budget = 1, tc_video = True, tc_memory_profile = False, tc_platform = None\<rparr>
     (Some \<lparr>cg_handle = 1, cg_geometry = \<lparr>ge_width = 2, ge_height = 1, ge_row_bytes = 8, ge_byte_len = 8\<rparr>\<rparr>)
     (Some \<lparr>fb_width = 2, fb_height = 1, fb_row_bytes = 8, fb_base_phys = 0x1004, fb_byte_len = 8\<rparr>)
     [9, 9, 9, 9, 1, 2, 3, 4, 5, 6, 7, 8] \<lparr>world = [], trace = []\<rparr> = (Inr (), u)
   \<and> trace u = [EBlt SUCCESS, ECall ''read_pixels'' [RNat 2] SUCCESS, EReport ''NXARMJIT: TRACE_VIDEO_PRESENTED'' [],
       EReport ''NXARMJIT: TRACE_VIDEO_READBACK'' [RNat h, RNat h, RBool True, RNat x, RNat y]]"
proof -
  let ?b = "\<lparr>jb_probe = True, jb_trace = True, jb_tier = Basic, jb_provider = False, jb_selected = False,
      jb_memory_observation = False, jb_protection_observation = False, jb_video_readback = True\<rparr>"
  let ?c = "\<lparr>tc_physical_base = 0x1000, tc_virtual_base = 0, tc_memory_size = 16, tc_actual_memory_size = 16, tc_kernel_phys = 0,
      tc_device_tree_path = [], tc_instruction_budget = 1, tc_video = True, tc_memory_profile = False, tc_platform = None\<rparr>"
  let ?g = "\<lparr>cg_handle = 1, cg_geometry = \<lparr>ge_width = 2, ge_height = 1, ge_row_bytes = 8, ge_byte_len = 8\<rparr>\<rparr>"
  let ?f = "\<lparr>fb_width = 2, fb_height = 1, fb_row_bytes = 8, fb_base_phys = 0x1004, fb_byte_len = 8\<rparr>"
  let ?ram = "[9, 9, 9, 9, 1, 2, 3, 4, 5, 6, 7, 8] :: u8 list"
  have d: "displays screen" by (simp add: displays_def screen_def)
  have r: "fw_reserve screen w n" for w n by (simp add: screen_def example_firmware_def)
  have g: "new_geometry 2 1 = Inr (cg_geometry ?g)" by (simp add: new_geometry_Inr)
  have v: "jb_video_readback ?b" by simp
  have start: "wrapping_sub (fb_base_phys ?f) (tc_physical_base ?c) = 4" by (simp add: wrapping_sub_def)
  have stop: "checked_add (wrapping_sub (fb_base_phys ?f) (tc_physical_base ?c)) (fb_byte_len ?f) = Some 12"
    unfolding start by (simp add: checked_add_def)
  have l: "12 \<le> length ?ram" by simp
  have px: "[1, 2, 3, 4, 5, 6, 7, 8] = subrange (wrapping_sub (fb_base_phys ?f) (tc_physical_base ?c)) 12 ?ram"
    unfolding start by (simp add: subrange_def)
  have p: "present screen ?g [1, 2, 3, 4, 5, 6, 7, 8] \<lparr>world = [], trace = []\<rparr> =
      (Inr (), \<lparr>world = [(3, 2, 1), (7, 6, 5)], trace = [EBlt SUCCESS]\<rparr>)"
    by (simp add: present_def check_current_geometry_def blt_pixels_def reserve_heap_def query_def op_simps call_eval
        screen_def example_firmware_def)
  from readback_reports_the_screen [OF d r g v stop l px p, THEN conjunct1] show ?thesis by simp
qed

end
