(* ===== verification/Probe_Engine.thy ===== *)
theory Probe_Engine
  imports Arm_Jit Page_Tables
begin

text \<open>
  What the processor probes have in common (src/src/asid\_probe.rs, hierarchy\_probe.rs,
  mmu\_probe.rs): a case fills RAM and translation tables in owned pages, opens the protection of
  the code pages, creates the memory service over RAM and tables, lets the emulator run the guest,
  makes the code pages writable again, and compares what it finds with what it expected; the main
  loop stops at the first case that fails. The emulator and the memory service are parameters.
\<close>

definition RAM_PA :: nat where "RAM_PA = 0x10000000"
definition TABLE_PA :: nat where "TABLE_PA = 0x30000000"
definition LEAF :: nat where "LEAF = 0x403"
definition LOW :: nat where "LOW = 0x20000000"
definition HIGH :: nat where "HIGH = 0xffff800020000000"
definition VALUE :: nat where "VALUE = 0x11223344c0deab81"

lemmas probe_constants = RAM_PA_def TABLE_PA_def LEAF_def LOW_def HIGH_def VALUE_def

text \<open>The codes of the second version of the service's interface.\<close>

record probe_abi = abi +
  abi_UNAVAILABLE :: u32
  abi_UNSUPPORTED :: u32
  abi_GUEST_FAULT :: u32
  abi_LEAF :: u32
  abi_CACHED_LEAF :: u32
  abi_PROFILE_FIXED_NC :: u32

text \<open>A request that a probe makes itself, with the fields that the emulator fills in for a guest.\<close>

record direct_request = request +
  dq_abi_version :: nat
  dq_struct_size :: nat
  dq_current_el :: nat
  dq_pstate :: nat
  dq_controls :: controls

text \<open>The result record of the emulator, without the last reply, which a stopped guest has apart.\<close>

record probe_result =
  px_base :: memory_result
  px_fsc :: nat

text \<open>
  \<open>'m\<close> is the memory service: its creation over RAM and tables, its step, a request made directly,
  and the RAM and the tables when it is dropped. \<open>pc_runner\<close> is the emulator.
\<close>

record 'm probe_core =
  pc_service :: "u8 list \<Rightarrow> nat \<Rightarrow> u8 list \<Rightarrow> nat \<Rightarrow> controls \<Rightarrow> 'm option"
  pc_execute :: "'m service"
  pc_direct :: "direct_request \<Rightarrow> 'm \<Rightarrow> reply \<times> 'm"
  pc_ram :: "'m \<Rightarrow> u8 list"
  pc_tables :: "'m \<Rightarrow> u8 list"
  pc_runner :: "run_args \<Rightarrow> controls \<Rightarrow> probe_result guest"

subsection \<open>The case\<close>

definition image_of :: "nat list \<Rightarrow> u8 list" where
  "image_of words = concat (map (le_bytes 4) words)"

definition translation_size :: "nat \<Rightarrow> nat" where
  "translation_size granule = (if granule = 16384 then 17 else 16)"

definition granule_bits :: "nat \<Rightarrow> nat" where
  "granule_bits granule = (if granule = 16384 then push_bit 14 2 OR push_bit 30 1 else push_bit 30 2)"

definition probe_options :: "nat \<Rightarrow> boot_options" where
  "probe_options pstate = \<lparr>bo_abi_version = 2, bo_struct_size = 64, bo_initial_pstate = pstate, bo_platform_profile = 0,
     bo_initial_override = 0, bo_vbar = 0, bo_irq_level = 0, bo_fiq_level = 0\<rparr>"

definition probe_arguments :: "nat \<Rightarrow> nat \<Rightarrow> nat \<Rightarrow> arm_pages \<Rightarrow> nat \<Rightarrow> nat list \<Rightarrow> nat \<Rightarrow> run_args" where
  "probe_arguments granule start stack code budget initial pstate = \<lparr>ra_base = RAM_PA, ra_size = 16 * granule, ra_virtual_base = 0,
     ra_entry = start, ra_args = initial ! 0, ra_stack = stack, ra_code = ap_memory code, ra_budget = budget,
     ra_initial = initial, ra_options = probe_options pstate, ra_aliases = []\<rparr>"

record outcome =
  on_restored :: int
  on_status :: int
  on_result :: probe_result
  on_reply :: last_reply
  on_ram :: "u8 list"
  on_tables :: "u8 list"

text \<open>\<open>warm\<close> is what the probe does with the service before the run.\<close>

definition run_engine :: "'w firmware \<Rightarrow> 'w jit_host \<Rightarrow> 'm probe_core \<Rightarrow> u8 list \<Rightarrow> u8 list \<Rightarrow> arm_pages \<Rightarrow> controls
    \<Rightarrow> ('m \<Rightarrow> status + 'm) \<Rightarrow> run_args \<Rightarrow> ('w, status fault + outcome) op" where
  "run_engine fw jh pc ram tables code ctrl warm args =
     bindS (query (jh_system_table jh)) (\<lambda>table.
     if \<not> table then fails NOT_READY
     else bindS (protection_open jh) (\<lambda>opened.
     if opened \<noteq> 0 then fails UNSUPPORTED
     else case pc_service pc ram RAM_PA tables TABLE_PA ctrl of
       None \<Rightarrow> fails INVALID_PARAMETER
     | Some m \<Rightarrow>
         (case warm m of
            Inl e \<Rightarrow> fails e
          | Inr m \<Rightarrow>
              bindS (run_guest (pc_execute pc) (plain_protect jh) (pc_runner pc args ctrl) m ()) (\<lambda>((st, r, l), m, _).
              bindS (jit_protect jh (ap_base code) (ap_bytes code) 0) (\<lambda>restored.
              ok \<lparr>on_restored = restored, on_status = st, on_result = r, on_reply = l,
                  on_ram = pc_ram pc m, on_tables = pc_tables pc m\<rparr>)))))"

definition verdict :: "bool \<Rightarrow> ('w, status fault + unit) op" where
  "verdict passed = (if passed then ok () else fails COMPROMISED_DATA)"

text \<open>The three allocations of a case; RAM and tables have the same type.\<close>

definition case_pages :: "'w firmware \<Rightarrow> nat \<Rightarrow> memory_type \<Rightarrow> (arm_pages \<Rightarrow> arm_pages \<Rightarrow> arm_pages \<Rightarrow> ('w, status fault + unit) op)
    \<Rightarrow> ('w, status fault + unit) op" where
  "case_pages fw bytes kind body =
     with_pages fw (allocate_kind fw bytes None kind) (\<lambda>ram.
     with_pages fw (allocate_kind fw bytes None kind) (\<lambda>tables.
     with_pages fw (allocate fw (64 * 1024) None) (\<lambda>code. body ram tables code)))"

subsection \<open>The main loop\<close>

fun run_cases :: "'w firmware \<Rightarrow> string \<Rightarrow> string \<Rightarrow> (nat \<Rightarrow> 'c \<Rightarrow> ('w, status fault + unit) op) \<Rightarrow> nat \<Rightarrow> 'c list
    \<Rightarrow> ('w, status fault + status) op" where
  "run_cases fw passed failed body n [] = bindS (report fw passed [RNat n]) (\<lambda>_. ok SUCCESS)"
| "run_cases fw passed failed body n (c # cs) = bindS (body n c) (\<lambda>r. case r of
     Inl Panic \<Rightarrow> fail Panic
   | Inl (Fail e) \<Rightarrow> bindS (report fw failed [RNat n, RStat e]) (\<lambda>_. ok e)
   | Inr _ \<Rightarrow> run_cases fw passed failed body (n + 1) cs)"

definition probe_main :: "bool \<Rightarrow> bool \<Rightarrow> 'w firmware \<Rightarrow> string \<Rightarrow> ('w, status fault + status) op \<Rightarrow> ('w, status fault + status) op" where
  "probe_main initialized supported fw started body =
     (if \<not> initialized then ok NOT_READY
      else bindS (report fw started []) (\<lambda>_. if \<not> supported then ok UNSUPPORTED else body))"

subsection \<open>What every probe keeps\<close>

lemma run_engine_neutral: "neutral page_acq page_rel (run_engine fw jh pc ram tables code ctrl warm args)"
proof -
  have "neutral page_acq page_rel (jit_protect jh p n x)" for p n x
    unfolding jit_protect_def by (rule page_quiet.calls) blast
  then show ?thesis
    unfolding run_engine_def fails_def
    by (intro page_quiet.quiet_intros page_quiet.opens_protection neutral_run_guest page_quiet.protects)
qed

lemma verdict_neutral: "neutral page_acq page_rel (verdict passed)"
  unfolding verdict_def fails_def by (intro neutral_intros)

lemma settles_case_pages: "(\<And>ram tables code. settles (body ram tables code)) \<Longrightarrow> settles (case_pages fw bytes kind body)"
  unfolding case_pages_def allocate_def by (intro settles_with_pages)

lemma settles_run_cases: "(\<And>n c. settles (body n c)) \<Longrightarrow> settles (run_cases fw passed failed body n cs)"
proof (induction cs arbitrary: n)
  case (Cons c cs)
  have k: "settles (case r of Inl Panic \<Rightarrow> fail Panic | Inl (Fail e) \<Rightarrow> bindS (report fw failed [RNat n, RStat e]) (\<lambda>_. ok e)
      | Inr _ \<Rightarrow> run_cases fw passed failed body (n + 1) cs)" for r
    using Cons by (auto split: sum.split fault.split intro!: settles_intros)
  show ?case
    unfolding run_cases.simps settles_def
  proof (rule extends_bindS [OF Cons.prems [of n c, unfolded settles_def]])
    fix r :: "status fault + unit" and evs assume r: "r \<noteq> Inl Panic \<longrightarrow> settled evs"
    show "extends (case r of Inl Panic \<Rightarrow> fail Panic | Inl (Fail e) \<Rightarrow> bindS (report fw failed [RNat n, RStat e]) (\<lambda>_. ok e)
        | Inr _ \<Rightarrow> run_cases fw passed failed body (n + 1) cs) (\<lambda>b evs'. b \<noteq> Inl Panic \<longrightarrow> settled (evs @ evs'))"
    proof (cases "r = Inl Panic")
      case False
      with r show ?thesis by (intro extends_mono [OF k [of r, unfolded settles_def]]) (simp add: settled_append)
    qed (simp add: extends_fail)
  qed
qed (auto intro!: settles_intros)

text \<open>Panics: the only code of a probe that can panic is what computes its cases.\<close>

definition calm :: "('w, status fault + 'a) op \<Rightarrow> bool" where
  "calm m \<longleftrightarrow> post m (\<lambda>r. r \<noteq> Inl Panic)"

lemma calm_basic: "calm (ok a)" "calm (fails st)" "e \<noteq> Panic \<Longrightarrow> calm (fail e)" "calm (failing m)"
  by (auto simp: calm_def fails_def failing_def map_err_def intro!: post_ok post_fail post_after post_ret split: sum.splits)

lemma calm_after: "(\<And>a. calm (k a)) \<Longrightarrow> calm (bindS m k)"
  unfolding calm_def by (rule post_after)

lemma calm_bindE: "calm m \<Longrightarrow> (\<And>a. calm (k a)) \<Longrightarrow> calm (bindE m k)"
  unfolding calm_def by (erule post_bindE) auto

lemma calm_scope: "calm m \<Longrightarrow> calm (scope m d)"
  unfolding calm_def scope_bindS by (erule post_bindS) (auto intro!: post_after post_ret)

lemma calm_with_pages:
  assumes "\<And>p. ap_memory p = replicate bytes 0 \<Longrightarrow> calm (body p)"
  shows "calm (with_pages fw (allocate_kind fw bytes fixed kind) body)"
proof -
  have "post (failing (allocate_kind fw bytes fixed kind)) (\<lambda>r. case r of Inl e \<Rightarrow> e \<noteq> Panic | Inr p \<Rightarrow> ap_memory p = replicate bytes 0)"
    unfolding failing_def
    by (rule post_bindS [OF returns_allocate [unfolded returns_def]]) (auto intro!: post_ret simp: map_err_def split: sum.splits)
  then show ?thesis
    unfolding with_pages_def calm_def
    by (rule post_bindE) (use assms in \<open>auto intro!: calm_scope [unfolded calm_def] simp: calm_def\<close>)
qed

lemma calm_case_pages:
  assumes "\<And>ram tables code. ap_memory ram = replicate bytes 0 \<Longrightarrow> ap_memory tables = replicate bytes 0
    \<Longrightarrow> calm (body ram tables code)"
  shows "calm (case_pages fw bytes kind body)"
  unfolding case_pages_def allocate_def by (intro calm_with_pages assms)

lemma calm_run_cases: "(\<And>n c. c \<in> set cs \<Longrightarrow> calm (body n c)) \<Longrightarrow> calm (run_cases fw passed failed body n cs)"
proof (induction cs arbitrary: n)
  case (Cons c cs)
  have k: "calm (run_cases fw passed failed body (n + 1) cs)" using Cons by simp
  show ?case
    unfolding run_cases.simps calm_def
    by (rule post_bindS [OF Cons.prems [of c n, unfolded calm_def]])
      (use k in \<open>auto simp: calm_def split: sum.split fault.split intro!: post_after post_ok\<close>)
qed (auto intro!: calm_basic calm_after)

lemma calm_run_engine: "calm (run_engine fw jh pc ram tables code ctrl warm args)"
  unfolding run_engine_def
  by (auto intro!: calm_after calm_basic split: option.split sum.split prod.split)

lemma calm_verdict: "calm (verdict passed)"
  by (simp add: verdict_def calm_basic)

lemma settles_calm: "settles m \<Longrightarrow> calm m \<Longrightarrow> neutral page_acq page_rel m"
  unfolding settles_def calm_def neutral_def shifts_def extends_def post_def settled_def
  by (fastforce split: prod.splits)

text \<open>The code pages: the discipline of \<open>guard_step\<close> in a case.\<close>

lemma touch_verdict: "neutral no_acq touch_rel (verdict passed)"
  unfolding verdict_def fails_def by (intro neutral_intros)

text \<open>An engine has run: if the restoration was refused its outcome says so.\<close>

definition shows_refusal :: "('o \<Rightarrow> int) \<Rightarrow> status fault + 'o \<Rightarrow> bool" where
  "shows_refusal restored r \<longleftrightarrow> (case r of Inl e \<Rightarrow> False | Inr o' \<Rightarrow> restored o' \<noteq> 0)"

definition corrupted :: "status fault + 'a \<Rightarrow> bool" where
  "corrupted r \<longleftrightarrow> r = Inl (Fail COMPROMISED_DATA) \<or> r = Inl Panic"

lemma leaves_fail: "restored_pages code q \<Longrightarrow> \<not> refused q \<Longrightarrow> moves guard_step (fail e) q (leaves code bad)"
  by (rule moves_fail) (simp add: leaves_def)

lemma moves_run_engine:
  assumes "placed (64 * 1024) (Inr code)"
  shows "moves guard_step (run_engine fw jh pc ram tables code ctrl warm args) Unguarded (leaves code (shows_refusal on_restored))"
  unfolding run_engine_def case_prod_beta fails_def
  by (rule moves_touchless [OF neutral_query] moves_bindS [OF moves_protection_open] moves_if moves_case_option moves_case_sum
      moves_bindS [OF moves_run_guest [where Q = in_use]] moves_protectors moves_bindS [OF moves_protect] leaves_fail moves_ok
    | simp add: leaves_def shows_refusal_def placed_restored [OF assms])+

text \<open>The end of a case: unless it panicked, the pages went back writable or it failed as corrupted.\<close>

definition handed :: "status fault + 'a \<Rightarrow> guard \<Rightarrow> bool" where
  "handed r q \<longleftrightarrow> r = Inl Panic \<or> q = Unguarded \<or> (q = Abandoned \<and> corrupted r)"

lemma moves_scope:
  assumes "moves guard_step m Unguarded (\<lambda>r q. r = Inl Panic \<or> (q = Abandoned \<or> restored_pages p q) \<and> (refused q \<longrightarrow> corrupted r))"
  shows "moves guard_step (scope m (arm_drop fw p)) Unguarded handed"
  unfolding scope_bindS
proof (rule moves_bindS [OF assms])
  fix r q
  assume r: "r = Inl Panic \<or> (q = Abandoned \<or> restored_pages p q) \<and> (refused q \<longrightarrow> corrupted r)"
  show "moves guard_step (if r = Inl Panic then ret r else bindS (drop_op (arm_drop fw p)) (\<lambda>_. ret r)) q handed"
  proof (cases "r = Inl Panic")
    case False
    with r show ?thesis
      by (auto intro!: moves_bindS [OF moves_arm_drop] moves_ret simp: handed_def after_free_def)
  qed (auto intro: moves_ret simp: handed_def)
qed

lemma moves_with_pages:
  assumes "\<And>p. placed bytes (Inr p) \<Longrightarrow>
    moves guard_step (body p) Unguarded (\<lambda>r q. r = Inl Panic \<or> (q = Abandoned \<or> restored_pages p q) \<and> (refused q \<longrightarrow> corrupted r))"
  shows "moves guard_step (with_pages fw (allocate_kind fw bytes fixed kind) body) Unguarded handed"
proof -
  have "moves guard_step (failing (allocate_kind fw bytes fixed kind)) Unguarded
      (\<lambda>r q. q = Unguarded \<and> (\<forall>p. r = Inr p \<longrightarrow> placed bytes (Inr p)))"
    unfolding failing_def by (rule moves_bindS [OF moves_allocate]) (auto intro!: moves_ret simp: map_err_def split: sum.split)
  then show ?thesis
    unfolding with_pages_def by (rule moves_bindE) (auto intro: moves_scope assms simp: handed_def)
qed

lemma moves_case_pages:
  assumes "\<And>ram tables code. placed (64 * 1024) (Inr code) \<Longrightarrow> moves guard_step (body ram tables code) Unguarded (leaves code corrupted)"
  shows "moves guard_step (case_pages fw bytes kind body) Unguarded handed"
  unfolding case_pages_def allocate_def
  by (rule moves_with_pages, rule moves_mono [OF moves_with_pages], rule moves_mono [OF moves_with_pages], rule moves_mono [OF assms])
    (auto simp: handed_def leaves_def)

text \<open>The end of a probe: the status tells when pages went back as they were.\<close>

definition reported_back :: "status fault + status \<Rightarrow> guard \<Rightarrow> bool" where
  "reported_back r q \<longleftrightarrow> q = Unguarded \<or> (q = Abandoned \<and> r = Inr COMPROMISED_DATA)"

lemma moves_run_cases:
  assumes "\<And>n c. moves guard_step (body n c) Unguarded handed"
  shows "moves guard_step (run_cases fw passed failed body n cs) Unguarded (\<lambda>r q. r = Inl Panic \<or> reported_back r q)"
proof (induction cs arbitrary: n)
  case (Cons c cs)
  show ?case
    unfolding run_cases.simps
    by (rule moves_bindS [OF assms])
      (use Cons in \<open>auto split: sum.split fault.split intro!: moves_fail moves_touchless [OF touch_report] moves_ok
        simp: handed_def reported_back_def corrupted_def\<close>)
qed (auto intro!: moves_touchless [OF touch_report] moves_ok simp: reported_back_def)

lemma moves_probe_main:
  "moves guard_step body Unguarded (\<lambda>r q. r = Inl Panic \<or> reported_back r q) \<Longrightarrow>
   moves guard_step (probe_main initialized supported fw started body) Unguarded (\<lambda>r q. r = Inl Panic \<or> reported_back r q)"
  unfolding probe_main_def by (auto intro!: moves_ok moves_touchless [OF touch_report] simp: reported_back_def)

lemma settles_probe_main: "settles body \<Longrightarrow> settles (probe_main initialized supported fw started body)"
  unfolding probe_main_def by (auto intro!: settles_intros)

lemma calm_probe_main: "calm body \<Longrightarrow> calm (probe_main initialized supported fw started body)"
  unfolding probe_main_def by (auto intro!: calm_basic calm_after)

text \<open>
  The contract of a probe: its cases free what they allocate and hand the code pages back writable,
  or fail as corrupted when the firmware does not let them.
  A probe that keeps it gives everything back unless it panics, and if none of its cases panics it
  always does.
\<close>

locale probe_cases =
  fixes body :: "nat \<Rightarrow> 'c \<Rightarrow> ('w, status fault + unit) op" and cases :: "'c list"
  assumes case_settles: "settles (body n c)"
    and case_guards: "moves guard_step (body n c) Unguarded handed"
begin

lemma frees: "settles (probe_main initialized supported fw started (run_cases fw passed failed body n cases))"
  by (intro settles_probe_main settles_run_cases case_settles)

lemma guards:
  "moves guard_step (probe_main initialized supported fw started (run_cases fw passed failed body n cases)) Unguarded
     (\<lambda>r q. r = Inl Panic \<or> reported_back r q)"
  by (intro moves_probe_main moves_run_cases case_guards)

end

locale calm_cases = probe_cases body cases for body :: "nat \<Rightarrow> 'c \<Rightarrow> ('w, status fault + unit) op" and cases +
  assumes case_calm: "c \<in> set cases \<Longrightarrow> calm (body n c)"
begin

lemma sound:
  "neutral page_acq page_rel (probe_main initialized supported fw started (run_cases fw passed failed body n cases))
    \<and> moves guard_step (probe_main initialized supported fw started (run_cases fw passed failed body n cases)) Unguarded
       (\<lambda>r q. r \<noteq> Inl Panic \<and> reported_back r q)"
proof -
  let ?m = "probe_main initialized supported fw started (run_cases fw passed failed body n cases)"
  have c: "calm ?m" by (intro calm_probe_main calm_run_cases case_calm)
  have "moves guard_step ?m Unguarded (\<lambda>r q. (r = Inl Panic \<or> reported_back r q) \<and> r \<noteq> Inl Panic)"
    by (intro moves_post guards c [unfolded calm_def])
  then have "moves guard_step ?m Unguarded (\<lambda>r q. r \<noteq> Inl Panic \<and> reported_back r q)"
    by (rule moves_mono) auto
  with settles_calm [OF frees c] show ?thesis by simp
qed

end

text \<open>The body of a case: the tables are built first, then the emulator runs and its outcome is judged.\<close>

definition with_tables :: "(status fault + 'a) \<times> tables \<Rightarrow> ('a \<Rightarrow> tables \<Rightarrow> ('w, status fault + unit) op) \<Rightarrow> ('w, status fault + unit) op" where
  "with_tables bt k = (case bt of (Inl e, _) \<Rightarrow> fail e | (Inr a, t) \<Rightarrow> k a t)"

lemma settles_with_tables: "(\<And>a t. settles (k a t)) \<Longrightarrow> settles (with_tables bt k)"
  by (auto simp: with_tables_def intro: settles_ret split: prod.split sum.split)

lemma calm_with_tables: "bt = (Inr a, t) \<Longrightarrow> calm (k a t) \<Longrightarrow> calm (with_tables bt k)"
  by (simp add: with_tables_def)

lemma moves_with_tables:
  "(\<And>a t. moves guard_step (k a t) Unguarded (leaves code corrupted)) \<Longrightarrow>
   moves guard_step (with_tables bt k) Unguarded (leaves code corrupted)"
  by (auto simp: with_tables_def intro!: leaves_fail split: prod.split sum.split)

definition judged :: "('w, status fault + 'o) op \<Rightarrow> 'w firmware \<Rightarrow> ('o \<Rightarrow> line list) \<Rightarrow> ('o \<Rightarrow> bool) \<Rightarrow> ('w, status fault + unit) op" where
  "judged m fw ls passed = bindE m (\<lambda>x. bindS (report_lines fw (ls x)) (\<lambda>_. verdict (passed x)))"

lemma settles_judging: "neutral page_acq page_rel m \<Longrightarrow> settles (judged m fw ls passed)"
  unfolding judged_def by (intro settles_intros settles_neutral verdict_neutral page_quiet.report_many)

lemma calm_judging: "calm m \<Longrightarrow> calm (judged m fw ls passed)"
  unfolding judged_def by (intro calm_bindE calm_after calm_verdict)

lemma moves_judging:
  "(\<And>x. passed x \<Longrightarrow> restored x = 0) \<Longrightarrow> moves guard_step m Unguarded (leaves code (shows_refusal restored)) \<Longrightarrow>
   moves guard_step (judged m fw ls passed) Unguarded (leaves code corrupted)"
  unfolding judged_def
  by (rule moves_bindE, assumption)
    (auto intro!: moves_touchless [OF touch_reports] moves_ok moves_fail
      simp: leaves_def shows_refusal_def verdict_def fails_def corrupted_def)

lemmas settles_judged = settles_judging [OF run_engine_neutral]
lemmas calm_judged = calm_judging [OF calm_run_engine]
lemmas moves_judged = moves_judging [where restored = on_restored, OF _ moves_run_engine]

end
