(* ===== verification/Guest_Cpu.thy ===== *)
theory Guest_Cpu
  imports Probe_Engine
begin

text \<open>
  A reference for the guest programs of the probes: an interpreter of the few AArch64 instructions
  that they consist of, over RAM that is reached through translation tables. It is not part of the
  sources; the expectations that the probes compute are compared with what it returns. An access is
  translated byte by byte, so it may cross into a page that is elsewhere in RAM or not mapped; a
  transfer that cannot be completed changes nothing.
\<close>

subsection \<open>Pages\<close>

text \<open>
  What the leaf descriptor of a page makes of an access: nothing mapped, an attribute index that the
  memory service does not support, a clear access flag, a permission that is missing, or an output
  page outside RAM.
\<close>

datatype access_result = Through | Fault nat | Unsupported_attribute | No_backing

definition leaf_output :: "nat \<Rightarrow> nat" where
  "leaf_output leaf = leaf div 2 ^ 12 mod 2 ^ 36 * 2 ^ 12"

definition page_access :: "nat \<Rightarrow> nat \<Rightarrow> nat \<Rightarrow> bool \<Rightarrow> bool \<Rightarrow> nat \<Rightarrow> access_result" where
  "page_access granule base bytes fetch store leaf =
     (if leaf mod 4 \<noteq> 3 then Fault 7
      else if leaf div 4 mod 8 \<noteq> 0 then Unsupported_attribute
      else if leaf div 2 ^ 10 mod 2 = 0 then Fault 11
      else if fetch \<and> leaf div 2 ^ 53 mod 2 = 1 \<or> store \<and> leaf div 2 ^ 7 mod 2 = 1 then Fault 15
      else if base \<le> leaf_output leaf \<and> leaf_output leaf + granule \<le> base + bytes then Through else No_backing)"

text \<open>The offset in RAM that a byte access reaches, from the leaf descriptor of its page.\<close>

type_synonym walk = "bool \<Rightarrow> bool \<Rightarrow> nat \<Rightarrow> access_result + nat"

definition page_walk :: "nat \<Rightarrow> nat \<Rightarrow> nat \<Rightarrow> (nat \<Rightarrow> nat) \<Rightarrow> walk" where
  "page_walk granule base bytes leaf fetch store va =
     (case page_access granule base bytes fetch store (leaf va) of
        Through \<Rightarrow> Inr (leaf_output (leaf va) - base + va mod granule)
      | r \<Rightarrow> Inl r)"

fun offsets :: "(nat \<Rightarrow> access_result + nat) \<Rightarrow> nat \<Rightarrow> nat \<Rightarrow> (nat \<times> access_result) + nat list" where
  "offsets tr va 0 = Inr []"
| "offsets tr va (Suc n) = (case tr va of
     Inl r \<Rightarrow> Inl (va, r)
   | Inr off \<Rightarrow> (case offsets tr (va + 1) n of Inl e \<Rightarrow> Inl e | Inr offs \<Rightarrow> Inr (off # offs)))"

definition gather :: "nat list \<Rightarrow> u8 list \<Rightarrow> u8 list" where
  "gather offs ram = map (nth ram) offs"

definition scatter :: "nat list \<Rightarrow> u8 list \<Rightarrow> u8 list \<Rightarrow> u8 list" where
  "scatter offs bs ram = fold (\<lambda>(off, b) ram. ram[off := b]) (zip offs bs) ram"

subsection \<open>Instructions\<close>

datatype instruction =
    Halts
  | Barrier
  | Add_Immediate nat nat nat
  | Move_Wide nat nat
  | Transfer nat nat nat nat nat
  | Transfer_Pair bool nat int nat nat nat
  | Read_Control nat
  | Write_Control nat

definition decode :: "nat \<Rightarrow> instruction option" where
  "decode w =
     (if w = 0xd4400000 then Some Halts
      else if w = 0xd5033fdf \<or> w = 0xd5033f9f \<or> w = 0xd508871f then Some Barrier
      else if w div 2 ^ 5 = 0x6a9c080 then Some (Read_Control (w mod 32))
      else if w div 2 ^ 5 = 0x6a8c080 then Some (Write_Control (w mod 32))
      else if w div 2 ^ 22 = 0x244 then Some (Add_Immediate (w mod 32) (w div 2 ^ 5 mod 32) (w div 2 ^ 10 mod 2 ^ 12))
      else if w div 2 ^ 21 = 0x294 then Some (Move_Wide (w mod 32) (w div 2 ^ 5 mod 2 ^ 16))
      else if w div 2 ^ 24 mod 64 = 0x39
      then Some (Transfer (w div 2 ^ 22 mod 4) (2 ^ (w div 2 ^ 30)) (w div 2 ^ 10 mod 2 ^ 12 * 2 ^ (w div 2 ^ 30))
             (w div 2 ^ 5 mod 32) (w mod 32))
      else if w div 2 ^ 25 = 0x54
      then Some (Transfer_Pair (w div 2 ^ 22 mod 2 = 1) (w div 2 ^ 23 mod 4)
             (let imm = w div 2 ^ 15 mod 2 ^ 7 in (if imm < 64 then int imm else int imm - 128) * 8)
             (w div 2 ^ 5 mod 32) (w mod 32) (w div 2 ^ 10 mod 32))
      else None)"

text \<open>Sign extension of a value of \<open>width\<close> bytes to \<open>sign\<close> bits; 0 stands for none.\<close>

definition extended :: "nat \<Rightarrow> nat \<Rightarrow> nat \<Rightarrow> nat" where
  "extended sign width v =
     (if sign = 0 \<or> v < 2 ^ (8 * width - 1) then v else v + 2 ^ sign - 2 ^ (8 * width))"

record guest_cpu =
  gc_x :: "nat list"
  gc_pc :: nat
  gc_control :: nat
  gc_ram :: "u8 list"
  gc_retired :: nat
  gc_fetches :: nat
  gc_data :: nat
  gc_completed :: nat

datatype guest_end = Halted | Aborted bool nat access_result | Undefined nat | Unfinished

definition retire :: "guest_cpu \<Rightarrow> guest_cpu" where
  "retire c = c\<lparr>gc_pc := gc_pc c + 4, gc_retired := gc_retired c + 1\<rparr>"

definition transferred :: "guest_cpu \<Rightarrow> guest_cpu" where
  "transferred c = retire (c\<lparr>gc_completed := gc_completed c + 1\<rparr>)"

text \<open>A load or store of \<open>n\<close> bytes at \<open>va\<close>; \<open>f\<close> is what it does with the offsets.\<close>

definition access :: "walk \<Rightarrow> bool \<Rightarrow> nat \<Rightarrow> nat \<Rightarrow> (nat list \<Rightarrow> guest_cpu \<Rightarrow> guest_cpu) \<Rightarrow> guest_cpu \<Rightarrow> guest_end option \<times> guest_cpu" where
  "access tr store va n f c = (let c = c\<lparr>gc_data := gc_data c + 1\<rparr> in
     case offsets (tr False store) va n of
       Inl (far, r) \<Rightarrow> (Some (Aborted False far r), c)
     | Inr offs \<Rightarrow> (None, transferred (f offs c)))"

definition set_x :: "nat \<Rightarrow> nat \<Rightarrow> guest_cpu \<Rightarrow> guest_cpu" where
  "set_x r v c = c\<lparr>gc_x := (gc_x c)[r := v]\<rparr>"

definition extension :: "nat \<Rightarrow> nat" where
  "extension opc = (if opc = 2 then 64 else if opc = 3 then 32 else 0)"

definition execute :: "(nat \<Rightarrow> walk) \<Rightarrow> instruction \<Rightarrow> guest_cpu \<Rightarrow> guest_end option \<times> guest_cpu" where
  "execute tr i c = (let x = gc_x c in case i of
     Halts \<Rightarrow> (Some Halted, retire c)
   | Barrier \<Rightarrow> (None, retire c)
   | Add_Immediate d s imm \<Rightarrow> (None, retire (set_x d ((x ! s + imm) mod 2 ^ 64) c))
   | Move_Wide d imm \<Rightarrow> (None, retire (set_x d imm c))
   | Read_Control d \<Rightarrow> (None, retire (set_x d (gc_control c) c))
   | Write_Control s \<Rightarrow> (None, retire (c\<lparr>gc_control := x ! s\<rparr>))
   | Transfer opc width imm b r \<Rightarrow>
       access (tr (gc_control c)) (opc = 0) (x ! b + imm) width (\<lambda>offs c.
         if opc = 0 then c\<lparr>gc_ram := scatter offs (le_bytes width (x ! r)) (gc_ram c)\<rparr>
         else set_x r (extended (extension opc) width (le_nat (gather offs (gc_ram c)))) c) c
   | Transfer_Pair load mode imm b r1 r2 \<Rightarrow>
       let moved = nat (int (x ! b) + imm); va = (if mode = 1 then x ! b else moved) in
       access (tr (gc_control c)) (\<not> load) va 16 (\<lambda>offs c.
         let c = (if load
               then set_x r2 (le_nat (gather (drop 8 offs) (gc_ram c))) (set_x r1 (le_nat (gather (take 8 offs) (gc_ram c))) c)
               else c\<lparr>gc_ram := scatter offs (le_bytes 8 (x ! r1) @ le_bytes 8 (x ! r2)) (gc_ram c)\<rparr>)
         in if mode = 2 then c else set_x b moved c) c)"

fun uses :: "instruction \<Rightarrow> nat list" where
  "uses Halts = []"
| "uses Barrier = []"
| "uses (Add_Immediate d s imm) = [d, s]"
| "uses (Move_Wide d imm) = [d]"
| "uses (Transfer opc width imm b r) = [b, r]"
| "uses (Transfer_Pair load mode imm b r1 r2) = [b, r1, r2]"
| "uses (Read_Control d) = [d]"
| "uses (Write_Control s) = [s]"

definition guest_step :: "(nat \<Rightarrow> walk) \<Rightarrow> guest_cpu \<Rightarrow> guest_end option \<times> guest_cpu" where
  "guest_step tr c = (let c = c\<lparr>gc_fetches := gc_fetches c + 1\<rparr> in
     case offsets (tr (gc_control c) True False) (gc_pc c) 4 of
       Inl (far, r) \<Rightarrow> (Some (Aborted True far r), c)
     | Inr offs \<Rightarrow> (let w = le_nat (gather offs (gc_ram c)) in
         case decode w of
           None \<Rightarrow> (Some (Undefined w), c)
         | Some i \<Rightarrow> if list_all (\<lambda>r. r < length (gc_x c)) (uses i) then execute tr i c else (Some (Undefined w), c)))"

fun guest_runs :: "(nat \<Rightarrow> walk) \<Rightarrow> nat \<Rightarrow> guest_cpu \<Rightarrow> guest_end \<times> guest_cpu" where
  "guest_runs tr 0 c = (Unfinished, c)"
| "guest_runs tr (Suc n) c = (case guest_step tr c of (Some e, c) \<Rightarrow> (e, c) | (None, c) \<Rightarrow> guest_runs tr n c)"

definition reset_cpu :: "nat list \<Rightarrow> nat \<Rightarrow> nat \<Rightarrow> u8 list \<Rightarrow> guest_cpu" where
  "reset_cpu x pc control ram = \<lparr>gc_x = x, gc_pc = pc, gc_control = control, gc_ram = ram, gc_retired = 0, gc_fetches = 0,
     gc_data = 0, gc_completed = 0\<rparr>"

subsection \<open>Accesses\<close>

lemma offsets_linear: "(\<And>i. i < n \<Longrightarrow> tr (va + i) = Inr (off + i)) \<Longrightarrow> offsets tr va n = Inr [off..<off + n]"
proof (induction n arbitrary: va off)
  case (Suc n)
  from Suc.prems [of 0] have t: "tr va = Inr off" by simp
  have "offsets tr (va + 1) n = Inr [off + 1..<off + 1 + n]"
    by (rule Suc.IH) (use Suc.prems [of "Suc _"] in simp)
  with t show ?case by (simp add: upt_conv_Cons)
qed simp

lemma offsets_append:
  "offsets tr va (m + n) = (case offsets tr va m of Inl e \<Rightarrow> Inl e
     | Inr a \<Rightarrow> (case offsets tr (va + m) n of Inl e \<Rightarrow> Inl e | Inr b \<Rightarrow> Inr (a @ b)))"
proof (induction m arbitrary: va)
  case (Suc m)
  have "va + Suc m = va + 1 + m" by simp
  with Suc show ?case by (auto split: sum.splits)
qed (simp split: sum.split)

lemma offsets_fault: "tr va = Inl r \<Longrightarrow> 0 < n \<Longrightarrow> offsets tr va n = Inl (va, r)"
  by (cases n) auto

lemma gather_upt: "off + n \<le> length ram \<Longrightarrow> gather [off..<off + n] ram = subrange off (off + n) ram"
  by (rule nth_equalityI) (auto simp: gather_def nth_subrange length_subrange)

lemma gather_append: "gather (a @ b) ram = gather a ram @ gather b ram"
  by (simp add: gather_def)

lemma scatter_append: "length a = length x \<Longrightarrow> scatter (a @ b) (x @ y) ram = scatter b y (scatter a x ram)"
  by (simp add: scatter_def)

lemma scatter_upt: "off + length bs \<le> length ram \<Longrightarrow> scatter [off..<off + length bs] bs ram = overwrite off bs ram"
proof (induction bs arbitrary: off ram)
  case (Cons b bs)
  have u: "[off..<off + length (b # bs)] = off # [off + 1..<off + 1 + length bs]" by (simp add: upt_conv_Cons del: upt_Suc)
  have "scatter [off..<off + length (b # bs)] (b # bs) ram = scatter [off + 1..<off + 1 + length bs] bs (ram[off := b])"
    unfolding u by (simp add: scatter_def)
  also have "\<dots> = overwrite (off + 1) bs (ram[off := b])" by (rule Cons.IH) (use Cons.prems in simp)
  also have "\<dots> = overwrite off (b # bs) ram"
    by (rule nth_equalityI) (use Cons.prems in \<open>auto simp: nth_overwrite nth_Cons' nth_list_update\<close>)
  finally show ?case .
qed (simp add: scatter_def overwrite_def)

text \<open>Accesses within one page, and across two.\<close>

lemma access_ok: "offsets (tr False store) va n = Inr offs \<Longrightarrow>
    access tr store va n f c = (None, transferred (f offs (c\<lparr>gc_data := gc_data c + 1\<rparr>)))"
  by (simp add: access_def)

lemma access_fault: "offsets (tr False store) va n = Inl (far, r) \<Longrightarrow>
    access tr store va n f c = (Some (Aborted False far r), c\<lparr>gc_data := gc_data c + 1\<rparr>)"
  by (simp add: access_def)

lemma offsets_across:
  assumes "\<And>i. i < m \<Longrightarrow> tr (va + i) = Inr (a + i)" "\<And>i. i < n \<Longrightarrow> tr (va + m + i) = Inr (b + i)"
  shows "offsets tr va (m + n) = Inr ([a..<a + m] @ [b..<b + n])"
  unfolding offsets_append using offsets_linear [of m tr va a] offsets_linear [of n tr "va + m" b] assms by simp

lemma offsets_across_fault:
  assumes "\<And>i. i < m \<Longrightarrow> tr (va + i) = Inr (a + i)" "tr (va + m) = Inl r" "0 < n"
  shows "offsets tr va (m + n) = Inl (va + m, r)"
  unfolding offsets_append using offsets_linear [of m tr va a] offsets_fault [of tr "va + m" r n] assms by simp

subsection \<open>Programs\<close>

definition holds_words :: "u8 list \<Rightarrow> nat \<Rightarrow> nat list \<Rightarrow> bool" where
  "holds_words ram off ws \<longleftrightarrow> off + 4 * length ws \<le> length ram
     \<and> (\<forall>k < length ws. ws ! k < 2 ^ 32 \<and> le_nat (subrange (off + 4 * k) (off + 4 * k + 4) ram) = ws ! k)"

lemma length_image_of [simp]: "length (image_of ws) = 4 * length ws"
  by (induction ws) (simp_all add: image_of_def)

lemma subrange_image_of: "k < length ws \<Longrightarrow> subrange (4 * k) (4 * k + 4) (image_of ws) = le_bytes 4 (ws ! k)"
proof (induction ws arbitrary: k)
  case (Cons w ws)
  then show ?case by (cases k) (auto simp: image_of_def subrange_def)
qed simp

lemma holds_words_overwrite:
  assumes "off + 4 * length ws \<le> length ram" "list_all (\<lambda>w. w < 2 ^ 32) ws"
  shows "holds_words (overwrite off (image_of ws) ram) off ws"
proof -
  have "le_nat (subrange (off + 4 * k) (off + 4 * k + 4) (overwrite off (image_of ws) ram)) = ws ! k" if k: "k < length ws" for k
  proof -
    have "subrange (off + 4 * k) (off + 4 * k + 4) (overwrite off (image_of ws) ram) = subrange (4 * k) (4 * k + 4) (image_of ws)"
      by (rule nth_equalityI) (use assms k in \<open>auto simp: length_subrange nth_subrange nth_overwrite\<close>)
    moreover have "ws ! k < 2 ^ 32" using assms(2) k by (simp add: list_all_length)
    ultimately show ?thesis by (simp add: subrange_image_of [OF k] le_nat_le_bytes)
  qed
  with assms show ?thesis by (simp add: holds_words_def list_all_length)
qed

lemma holds_words_keep:
  assumes "holds_words ram off ws" "at + length bs \<le> length ram" "at + length bs \<le> off \<or> off + 4 * length ws \<le> at"
  shows "holds_words (overwrite at bs ram) off ws"
proof -
  have "subrange (off + 4 * k) (off + 4 * k + 4) (overwrite at bs ram) = subrange (off + 4 * k) (off + 4 * k + 4) ram"
    if "k < length ws" for k
    by (rule subrange_overwrite_other) (use assms that in \<open>auto simp: holds_words_def\<close>)
  with assms show ?thesis by (simp add: holds_words_def)
qed

lemma guest_step_at:
  assumes "holds_words (gc_ram c) off ws" "k < length ws" "\<And>i. i < 4 \<Longrightarrow> tr (gc_control c) True False (gc_pc c + i) = Inr (off + 4 * k + i)"
    and "decode (ws ! k) = Some i" "list_all (\<lambda>r. r < length (gc_x c)) (uses i)"
  shows "guest_step tr c = execute tr i (c\<lparr>gc_fetches := gc_fetches c + 1\<rparr>)"
proof -
  have "off + 4 * k + 4 \<le> length (gc_ram c)" using assms(1,2) by (simp add: holds_words_def)
  then have "le_nat (gather [off + 4 * k..<off + 4 * k + 4] (gc_ram c)) = ws ! k"
    using gather_upt [of "off + 4 * k" 4] assms(1,2) by (simp add: holds_words_def)
  with offsets_linear [of 4 "tr (gc_control c) True False" "gc_pc c" "off + 4 * k"] assms(3-5) show ?thesis
    by (simp add: guest_step_def)
qed

lemma guest_step_fault:
  "tr (gc_control c) True False (gc_pc c) = Inl r \<Longrightarrow> guest_step tr c = (Some (Aborted True (gc_pc c) r), c\<lparr>gc_fetches := gc_fetches c + 1\<rparr>)"
  by (simp add: guest_step_def offsets_fault)

lemma guest_runs_step: "guest_step tr c = (None, c') \<Longrightarrow> guest_runs tr (Suc n) c = guest_runs tr n c'"
  by simp

lemma guest_runs_stop: "guest_step tr c = (Some e, c') \<Longrightarrow> guest_runs tr (Suc n) c = (e, c')"
  by simp

lemma guest_runs_enough: "guest_runs tr n c = (e, c') \<Longrightarrow> e \<noteq> Unfinished \<Longrightarrow> n \<le> m \<Longrightarrow> guest_runs tr m c = (e, c')"
proof (induction n arbitrary: m c)
  case (Suc n)
  then show ?case by (cases m) (auto split: prod.splits option.splits)
qed simp

text \<open>A processor that has come to word \<open>k\<close> of its program, one word after the other.\<close>

definition at_word :: "nat list \<Rightarrow> nat \<Rightarrow> nat \<Rightarrow> nat \<Rightarrow> u8 list \<Rightarrow> nat \<Rightarrow> nat \<Rightarrow> guest_cpu" where
  "at_word xs va k m ram d q = \<lparr>gc_x = xs, gc_pc = va + 4 * k, gc_control = m, gc_ram = ram, gc_retired = k, gc_fetches = k,
     gc_data = d, gc_completed = q\<rparr>"

definition program_at :: "(nat \<Rightarrow> walk) \<Rightarrow> nat \<Rightarrow> nat \<Rightarrow> u8 list \<Rightarrow> nat \<Rightarrow> nat list \<Rightarrow> bool" where
  "program_at tr va m ram off ws \<longleftrightarrow> holds_words ram off ws \<and> (\<forall>i < 4 * length ws. tr m True False (va + i) = Inr (off + i))"

lemma program_at_keep:
  "program_at tr va m ram off ws \<Longrightarrow> at + length bs \<le> length ram \<Longrightarrow> at + length bs \<le> off \<or> off + 4 * length ws \<le> at \<Longrightarrow>
   program_at tr va m (overwrite at bs ram) off ws"
  by (simp add: program_at_def holds_words_keep)

lemma at_step:
  assumes "program_at tr va m ram off ws" "k < length ws" "decode (ws ! k) = Some i" "list_all (\<lambda>r. r < length xs) (uses i)"
  shows "guest_step tr (at_word xs va k m ram d q) = execute tr i (at_word xs va k m ram d q\<lparr>gc_fetches := k + 1\<rparr>)"
proof -
  have f: "tr m True False (va + 4 * k + j) = Inr (off + 4 * k + j)" if "j < 4" for j
  proof -
    have "4 * k + j < 4 * length ws" using that assms(2) by linarith
    then show ?thesis using assms(1) by (auto simp: program_at_def add.assoc)
  qed
  have "guest_step tr (at_word xs va k m ram d q)
      = execute tr i (at_word xs va k m ram d q\<lparr>gc_fetches := gc_fetches (at_word xs va k m ram d q) + 1\<rparr>)"
    by (rule guest_step_at [where ws = ws and k = k and off = off]) (use assms f in \<open>auto simp: at_word_def program_at_def\<close>)
  then show ?thesis by (simp add: at_word_def)
qed

lemmas at_defs = at_word_def execute_def retire_def transferred_def set_x_def Let_def

lemma at_halt:
  "program_at tr va m ram off ws \<Longrightarrow> k < length ws \<Longrightarrow> decode (ws ! k) = Some Halts \<Longrightarrow>
   guest_step tr (at_word xs va k m ram d q) = (Some Halted, at_word xs va (k + 1) m ram d q)"
  by (simp add: at_step) (simp add: at_defs)

lemma at_plain:
  assumes "program_at tr va m ram off ws" "k < length ws" "decode (ws ! k) = Some i" "list_all (\<lambda>r. r < length xs) (uses i)"
  shows "i = Barrier \<Longrightarrow> guest_step tr (at_word xs va k m ram d q) = (None, at_word xs va (k + 1) m ram d q)"
    "i = Add_Immediate r s imm \<Longrightarrow> guest_step tr (at_word xs va k m ram d q) = (None, at_word (xs[r := (xs ! s + imm) mod 2 ^ 64]) va (k + 1) m ram d q)"
    "i = Move_Wide r imm \<Longrightarrow> guest_step tr (at_word xs va k m ram d q) = (None, at_word (xs[r := imm]) va (k + 1) m ram d q)"
    "i = Read_Control r \<Longrightarrow> guest_step tr (at_word xs va k m ram d q) = (None, at_word (xs[r := m]) va (k + 1) m ram d q)"
    "i = Write_Control r \<Longrightarrow> guest_step tr (at_word xs va k m ram d q) = (None, at_word xs va (k + 1) (xs ! r) ram d q)"
  using at_step [OF assms] by (simp_all add: at_defs)

lemma at_transfer:
  assumes "program_at tr va m ram off ws" "k < length ws" "decode (ws ! k) = Some (Transfer opc w imm b r)" "b < length xs" "r < length xs"
  shows "offsets (tr m False (opc = 0)) (xs ! b + imm) w = Inr offs \<Longrightarrow> guest_step tr (at_word xs va k m ram d q)
      = (None, at_word (if opc = 0 then xs else xs[r := extended (extension opc) w (le_nat (gather offs ram))]) va (k + 1) m
          (if opc = 0 then scatter offs (le_bytes w (xs ! r)) ram else ram) (d + 1) (q + 1))"
    "offsets (tr m False (opc = 0)) (xs ! b + imm) w = Inl (far, e) \<Longrightarrow> guest_step tr (at_word xs va k m ram d q)
      = (Some (Aborted False far e), at_word xs va k m ram (d + 1) q\<lparr>gc_fetches := k + 1\<rparr>)"
proof -
  have u: "list_all (\<lambda>r. r < length xs) (uses (Transfer opc w imm b r))" using assms(4,5) by simp
  note s = at_step [OF assms(1-3) u]
  show "guest_step tr (at_word xs va k m ram d q)
      = (None, at_word (if opc = 0 then xs else xs[r := extended (extension opc) w (le_nat (gather offs ram))]) va (k + 1) m
          (if opc = 0 then scatter offs (le_bytes w (xs ! r)) ram else ram) (d + 1) (q + 1))"
    if "offsets (tr m False (opc = 0)) (xs ! b + imm) w = Inr offs"
    unfolding s using that by (simp add: at_defs access_ok)
  show "guest_step tr (at_word xs va k m ram d q)
      = (Some (Aborted False far e), at_word xs va k m ram (d + 1) q\<lparr>gc_fetches := k + 1\<rparr>)"
    if "offsets (tr m False (opc = 0)) (xs ! b + imm) w = Inl (far, e)"
    unfolding s using that by (simp add: at_defs access_fault)
qed

lemma at_pair:
  assumes "program_at tr va m ram off ws" "k < length ws" "decode (ws ! k) = Some (Transfer_Pair load mode imm b r1 r2)"
    and "b < length xs" "r1 < length xs" "r2 < length xs" and moved: "moved = nat (int (xs ! b) + imm)"
    and at: "start = (if mode = 1 then xs ! b else moved)"
  shows "offsets (tr m False (\<not> load)) start 16 = Inr offs \<Longrightarrow> guest_step tr (at_word xs va k m ram d q)
      = (None, at_word
          (let ys = (if load then xs[r1 := le_nat (gather (take 8 offs) ram), r2 := le_nat (gather (drop 8 offs) ram)] else xs)
           in if mode = 2 then ys else ys[b := moved]) va (k + 1) m
          (if load then ram else scatter offs (le_bytes 8 (xs ! r1) @ le_bytes 8 (xs ! r2)) ram) (d + 1) (q + 1))"
    "offsets (tr m False (\<not> load)) start 16 = Inl (far, e) \<Longrightarrow> guest_step tr (at_word xs va k m ram d q)
      = (Some (Aborted False far e), at_word xs va k m ram (d + 1) q\<lparr>gc_fetches := k + 1\<rparr>)"
proof -
  have u: "list_all (\<lambda>r. r < length xs) (uses (Transfer_Pair load mode imm b r1 r2))" using assms(4-6) by simp
  note s = at_step [OF assms(1-3) u]
  show "guest_step tr (at_word xs va k m ram d q)
      = (None, at_word
          (let ys = (if load then xs[r1 := le_nat (gather (take 8 offs) ram), r2 := le_nat (gather (drop 8 offs) ram)] else xs)
           in if mode = 2 then ys else ys[b := moved]) va (k + 1) m
          (if load then ram else scatter offs (le_bytes 8 (xs ! r1) @ le_bytes 8 (xs ! r2)) ram) (d + 1) (q + 1))"
    if "offsets (tr m False (\<not> load)) start 16 = Inr offs"
    unfolding s using that at by (cases load; cases "mode = 2"; cases "mode = 1") (simp_all add: at_defs access_ok moved [symmetric])
  show "guest_step tr (at_word xs va k m ram d q)
      = (Some (Aborted False far e), at_word xs va k m ram (d + 1) q\<lparr>gc_fetches := k + 1\<rparr>)"
    if "offsets (tr m False (\<not> load)) start 16 = Inl (far, e)"
    unfolding s using that at by (cases load; cases "mode = 2"; cases "mode = 1") (simp_all add: at_defs access_fault moved [symmetric])
qed

subsection \<open>Walks\<close>

lemma page_of_offset:
  assumes "g \<in> {4096, 16384}" "va mod g = 0" "i < g"
  shows "page_of g (va + i) = page_of g va"
proof -
  obtain q where q: "va = g * q" using assms(2) by auto
  have "(g * q + i) div g = q" using assms(3) by simp
  then have d: "(va + i) div g = va div g" using assms(3) by (simp add: q)
  have g: "2 ^ page_bits g = g" "g dvd 2 ^ 63" using assms(1) by (auto simp: page_bits_def)
  then obtain m where m: "(2 :: nat) ^ 63 = g * m" by (elim dvdE)
  have "(va + i) div 2 ^ 63 = va div 2 ^ 63" unfolding m div_mult2_eq d ..
  then show ?thesis using d g(1) by (simp add: page_of_def root_number_def drop_bit_eq_div)
qed

lemma page_walk_in:
  assumes "page_access granule base bytes fetch store (leaf (va + i)) = Through" "leaf_output (leaf (va + i)) = base + off"
    and "va mod granule = 0" "i < granule"
  shows "page_walk granule base bytes leaf fetch store (va + i) = Inr (off + i)"
  using assms by (simp add: page_walk_def mod_add_left_eq [symmetric])

definition maps_page :: "nat \<Rightarrow> (nat \<Rightarrow> nat) \<Rightarrow> nat \<Rightarrow> nat \<Rightarrow> bool" where
  "maps_page granule leaf va d \<longleftrightarrow> va mod granule = 0 \<and> (\<forall>i < granule. leaf (va + i) = d)"

lemma page_walk_page:
  "maps_page granule leaf va d \<Longrightarrow> page_access granule base bytes fetch store d = Through \<Longrightarrow> leaf_output d = base + off \<Longrightarrow>
   i < granule \<Longrightarrow> page_walk granule base bytes leaf fetch store (va + i) = Inr (off + i)"
  by (rule page_walk_in) (simp_all add: maps_page_def)

lemma page_walk_stop:
  "page_access granule base bytes fetch store (leaf va) = r \<Longrightarrow> r \<noteq> Through \<Longrightarrow> page_walk granule base bytes leaf fetch store va = Inl r"
  by (auto simp: page_walk_def split: access_result.split)

lemma page_walk_unmapped:
  "maps_page granule leaf va d \<Longrightarrow> 0 < granule \<Longrightarrow> page_access granule base bytes fetch store d = r \<Longrightarrow> r \<noteq> Through \<Longrightarrow>
   page_walk granule base bytes leaf fetch store va = Inl r"
  by (rule page_walk_stop) (auto simp: maps_page_def dest: spec [of _ 0])

end
