(* ===== verification/Guest_Programs.thy ===== *)
theory Guest_Programs
  imports Guest_Cpu
begin

text \<open>
  Lemmas for the comparisons with the reference interpreter: pages of RAM and the descriptors that
  map them, consecutive writes, and programs that go on at another address.
\<close>

subsection \<open>Memory\<close>

lemma overwrite_append:
  "at + length a + length b \<le> length xs \<Longrightarrow> overwrite (at + length a) b (overwrite at a xs) = overwrite at (a @ b) xs"
  by (rule nth_equalityI) (auto simp: nth_overwrite nth_append)

lemma overwrite_Nil [simp]: "overwrite at [] xs = xs"
  by (simp add: overwrite_def)

lemma subrange_append: "a \<le> b \<Longrightarrow> b \<le> c \<Longrightarrow> subrange a b xs @ subrange b c xs = subrange a c xs"
  using take_add [of "b - a" "c - b" "drop a xs"] by (simp add: subrange_def)

lemma apart_pages:
  fixes j k g :: nat
  assumes "j \<noteq> k" "n \<le> g"
  shows "j * g + g \<le> k * g \<or> k * g + n \<le> j * g"
proof -
  have "Suc j \<le> k \<or> Suc k \<le> j" using assms(1) by arith
  then have "Suc j * g \<le> k * g \<or> Suc k * g \<le> j * g" using mult_le_mono1 by blast
  with assms(2) show ?thesis by auto
qed

text \<open>The descriptor of a page of RAM.\<close>

lemma leaf_sum: "A * 4096 OR 0x403 = A * 4096 + 0x403" for A :: nat
proof -
  have "take_bit 12 (0x403 :: nat) = 0x403" by (rule take_bit_nat_eq_self) simp
  then have "bit (0x403 :: nat) n \<Longrightarrow> n < 12" for n by (metis bit_take_bit_iff)
  then have "push_bit 12 A AND 0x403 = 0"
    by (intro bit_eqI) (auto simp only: bit_and_iff bit_push_bit_iff_nat bit_0_eq bot_apply bot_bool_def not_less dest: leD)
  then have "push_bit 12 A OR 0x403 = push_bit 12 A + 0x403" by (simp only: disjunctive_add_eq_or)
  then show ?thesis by (simp add: push_bit_eq_mult)
qed

lemma base_leaf:
  assumes g: "granule \<in> {4096, 16384}" and base: "base mod 16384 = 0" "base < 2 ^ 40" and k: "k < n" "n \<le> 16"
  shows "page_access granule base (n * granule) fetch store ((base + k * granule) OR 0x403) = Through"
    "leaf_output ((base + k * granule) OR 0x403) = base + k * granule" "(base + k * granule) OR 0x403 < 2 ^ 64"
proof -
  obtain b where b: "base = 16384 * b" using base(1) by (metis mod_0_imp_dvd dvdE)
  obtain A where A: "base + k * granule = A * 4096" "A < 2 ^ 30"
  proof -
    have "k * (granule div 4096) \<le> 16 * 4" by (rule mult_le_mono) (use g k in auto)
    then have "4 * b + k * (granule div 4096) < 2 ^ 30" using b base(2) by simp
    moreover have "base + k * granule = (4 * b + k * (granule div 4096)) * 4096" using g b by auto
    ultimately show thesis using that by blast
  qed
  have "Suc k * granule \<le> n * granule" by (rule mult_le_mono1) (use k in simp)
  then have room: "base \<le> A * 4096" "A * 4096 + granule \<le> base + n * granule" unfolding A(1) [symmetric] by simp_all
  define x where "x = A * 4096 + 1027"
  have x: "(base + k * granule) OR 0x403 = x" unfolding A(1) x_def by (rule leaf_sum)
  have l: "x < 2 ^ 53" using A(2) by (simp add: x_def)
  have o': "leaf_output x = A * 4096" unfolding leaf_output_def x_def using A(2) by (simp add: div_add1_eq)
  have qr: "(q * n + r) div n = q" "(q * n + r) mod n = r" if "r < n" for q n r :: nat using that by simp_all
  have e: "x = (A * 1024 + 256) * 4 + 3" "x = (A * 4 + 1) * 1024 + 3" "x = (A * 32 + 8) * 128 + 3" by (simp_all add: x_def)
  have "x mod 4 = 3" "x div 4 = A * 1024 + 256" by (simp only: e(1), rule qr, simp)+
  moreover have "x div 2 ^ 10 = A * 4 + 1" using qr(1) [of 3 1024 "A * 4 + 1"] by (simp only: e(2)) simp
  moreover have "x div 2 ^ 7 = A * 32 + 8" using qr(1) [of 3 128 "A * 32 + 8"] by (simp only: e(3)) simp
  moreover have "(A * 1024 + 256) mod 8 = 0" using qr(2) [of 0 8 "A * 128 + 32"] by simp
  moreover have "(A * 4 + 1) mod 2 = 1" by presburger
  moreover have "(A * 32 + 8) mod 2 = 0" using qr(2) [of 0 2 "A * 16 + 4"] by simp
  moreover have "x div 2 ^ 53 = 0" using l by simp
  ultimately show "page_access granule base (n * granule) fetch store ((base + k * granule) OR 0x403) = Through"
    unfolding x page_access_def o' using room by simp
  show "leaf_output ((base + k * granule) OR 0x403) = base + k * granule" by (simp only: x o') (simp only: A(1))
  show "(base + k * granule) OR 0x403 < 2 ^ 64" unfolding x using l by simp
qed

subsection \<open>Programs in two places\<close>

text \<open>The counts of instructions do not influence a run.\<close>

definition later :: "nat \<Rightarrow> guest_cpu \<Rightarrow> guest_cpu" where
  "later n c = c\<lparr>gc_retired := gc_retired c + n, gc_fetches := gc_fetches c + n\<rparr>"

lemma execute_later: "execute tr i (later n c) = (case execute tr i c of (e, c) \<Rightarrow> (e, later n c))"
  by (cases i) (auto simp: execute_def later_def retire_def transferred_def set_x_def access_def Let_def split: sum.split)

lemma guest_step_later: "guest_step tr (later n c) = (case guest_step tr c of (e, c) \<Rightarrow> (e, later n c))"
proof -
  have f: "later n c\<lparr>gc_fetches := gc_fetches (later n c) + 1\<rparr> = later n (c\<lparr>gc_fetches := gc_fetches c + 1\<rparr>)"
    and g: "gc_control (later n c) = gc_control c" "gc_pc (later n c) = gc_pc c" "gc_ram (later n c) = gc_ram c" "gc_x (later n c) = gc_x c" for c
    by (simp_all add: later_def)
  show ?thesis
    unfolding guest_step_def Let_def f g by (auto simp: execute_later split: sum.split option.split prod.split)
qed

lemma guest_runs_later: "guest_runs tr m (later n c) = (case guest_runs tr m c of (e, c) \<Rightarrow> (e, later n c))"
proof (induction m arbitrary: c)
  case (Suc m)
  then show ?case by (auto simp: guest_step_later split: prod.split option.split)
qed simp

lemma at_word_later: "at_word xs va k m ram d q = later k (at_word xs (va + 4 * k) 0 m ram d q)"
  by (simp add: at_word_def later_def)

end
