(* ===== verification/Asid_Probe.thy ===== *)
theory Asid_Probe
  imports Probe_Engine
begin

text \<open>
  The probe of address space identifiers (src/src/asid\_probe.rs): in every case the guest reads
  back the feature register and the translation registers, with a tag in each of the two table
  base registers, from a program mapped in both address ranges. A case is a granule, a profile of
  the memory service, the range the program runs in, the choice of the tag and the tag.
\<close>

definition ASID_WORDS :: "nat list" where
  "ASID_WORDS = [0xf9000002, 0xf9400023, 0xeb02007f, 0x540000c1, 0xd5380700, 0xd5382041, 0xd5382002, 0xd5382023,
     0xd4400000, 0x14000000]"

definition asid_maps :: "nat \<Rightarrow> (nat \<times> nat) list" where
  "asid_maps granule = concat (map (\<lambda>va. [(va, RAM_PA OR LEAF), (va + 4 * granule, (RAM_PA + 4 * granule) OR LEAF)]) [LOW, HIGH])"

definition asid_tcr :: "nat \<Rightarrow> bool \<Rightarrow> nat" where
  "asid_tcr granule a1 = (let tsz = translation_size granule in
     tsz OR push_bit 16 tsz OR push_bit 32 5 OR push_bit 22 (of_bool a1) OR granule_bits granule)"

definition asid_controls :: "nat \<Rightarrow> u32 \<Rightarrow> bool \<Rightarrow> nat \<Rightarrow> controls" where
  "asid_controls granule profile a1 tag = \<lparr>ct_abi_version = 2, ct_struct_size = 80, ct_profile = profile,
     ct_sctlr = (if profile = 1 then 0x30d00803 else 0x30d00801),
     ct_ttbr0 = TABLE_PA OR push_bit 48 tag, ct_ttbr1 = (TABLE_PA + granule) OR push_bit 48 (tag XOR 0xff),
     ct_tcr = asid_tcr granule a1, ct_mair = 0x44, ct_epoch = 1\<rparr>"

definition asid_passed :: "nat \<Rightarrow> nat \<Rightarrow> controls \<Rightarrow> u8 list \<Rightarrow> u8 list \<Rightarrow> outcome \<Rightarrow> bool" where
  "asid_passed start stack ctrl expected_ram tables_before o' \<longleftrightarrow>
     (let base = px_base (on_result o'); execution = mr_execution base; state = br_base execution in
      on_restored o' = 0 \<and> on_status o' = 1 \<and> jr_status state = 1 \<and> jr_retired state = 9
      \<and> jr_pc state = start + 36 \<and> jr_fault_instruction state = 0 \<and> jr_compiled_blocks state > 0
      \<and> [jr_x0 state, jr_x1 state, jr_x2 state, jr_x3 state] = [0x0f100005, ct_tcr ctrl, ct_ttbr0 ctrl, ct_ttbr1 ctrl]
      \<and> br_sp execution = stack \<and> br_esr execution = 0 \<and> mr_abi_version base = 2 \<and> mr_struct_size base = 320
      \<and> mr_provider_status base = 0 \<and> mr_fetch_requests base = 9 \<and> mr_data_requests base = 2
      \<and> mr_completed_data_operations base = 2 \<and> lr_result (on_reply o') = 0
      \<and> on_ram o' = expected_ram \<and> on_tables o' = tables_before)"

definition asid_line :: "nat \<Rightarrow> u32 \<Rightarrow> bool \<Rightarrow> bool \<Rightarrow> nat \<Rightarrow> outcome \<Rightarrow> bool \<Rightarrow> line" where
  "asid_line granule profile upper a1 tag o' passed =
     (let base = px_base (on_result o'); state = br_base (mr_execution base) in
      (''NXASID: CASE'', [RNat granule, RNat (unat profile), RBool upper, RBool a1, RNat tag, RNat (tag XOR 0xff),
         status_value (on_status o'), RNat (jr_retired state), RNat (mr_fetch_requests base), RNat (mr_data_requests base),
         RNat (mr_completed_data_operations base), RNat (mr_provider_status base), RNat (jr_x0 state), RNat (jr_x1 state),
         RNat (jr_x2 state), RNat (jr_x3 state), RBool passed]))"

definition asid_image :: "nat \<Rightarrow> u8 list" where
  "asid_image n = overwrite 0 (image_of ASID_WORDS) (replicate n 0)"

type_synonym asid_case = "nat \<times> u32 \<times> bool \<times> bool \<times> nat"

definition asid_case :: "'w firmware \<Rightarrow> 'w jit_host \<Rightarrow> 'm probe_core \<Rightarrow> nat \<Rightarrow> asid_case \<Rightarrow> ('w, status fault + unit) op" where
  "asid_case fw jh pc n = (\<lambda>(granule, profile, upper, a1, tag).
     case_pages fw (16 * granule) LOADER_CODE (\<lambda>ram tables code.
       let image = asid_image (length (ap_memory ram)) in
       with_tables (build (\<lambda>(va, d). map_va TABLE_PA va d) (asid_maps granule)
           \<lparr>tb_bytes = replicate (length (ap_memory tables)) 0, tb_granule = granule, tb_next = 2\<rparr>) (\<lambda>_ bt.
         let expected_ram = overwrite (4 * granule) (le_bytes 8 VALUE) image;
             ctrl = asid_controls granule profile a1 tag;
             start = (if upper then HIGH else LOW); low_data = LOW + 4 * granule; stack = low_data + granule;
             passed = asid_passed start stack ctrl expected_ram (tb_bytes bt)
         in judged (run_engine fw jh pc image (tb_bytes bt) code ctrl Inr
              (probe_arguments granule start stack code 32 [low_data, HIGH + 4 * granule, VALUE, 0] 0x3c5)) fw
            (\<lambda>o'. [asid_line granule profile upper a1 tag o' (passed o')]) passed)))"

definition asid_cases :: "asid_case list" where
  "asid_cases = concat (map (\<lambda>granule. concat (map (\<lambda>profile. concat (map (\<lambda>upper. concat (map (\<lambda>a1. map (\<lambda>tag.
     (granule, profile, upper, a1, tag)) [0, 1, 127, 255]) [False, True])) [False, True])) [1, 3])) [4096, 16384])"

definition asid_main :: "bool \<Rightarrow> bool \<Rightarrow> 'w firmware \<Rightarrow> 'w jit_host \<Rightarrow> 'm probe_core \<Rightarrow> ('w, status fault + status) op" where
  "asid_main initialized x86_64 fw jh pc = probe_main initialized x86_64 fw ''NXASID: ENTRY''
     (run_cases fw ''NXASID: PASS'' ''NXASID: FAIL'' (asid_case fw jh pc) 0 asid_cases)"

subsection \<open>The tables of a case\<close>

lemma asid_maps_eq: "asid_maps granule = [(LOW, RAM_PA OR LEAF), (LOW + 4 * granule, (RAM_PA + 4 * granule) OR LEAF),
    (HIGH, RAM_PA OR LEAF), (HIGH + 4 * granule, (RAM_PA + 4 * granule) OR LEAF)]"
  by (simp add: asid_maps_def)

lemma asid_granules: "(granule, rest) \<in> set asid_cases \<Longrightarrow> granule \<in> {4096, 16384}"
  by (cases rest) (auto simp: asid_cases_def)

lemma asid_build:
  assumes "granule \<in> {4096, 16384}"
  shows "\<exists>t. build (\<lambda>(va, d). map_va TABLE_PA va d) (asid_maps granule) (empty_tables granule 16) = (Inr (), t)
    \<and> (\<forall>va. translate 0x0000fffffffff000 TABLE_PA t va
         = requested_leaf (\<lambda>(va, d). page_of granule va) snd (asid_maps granule) (page_of granule va) 0)"
  by (rule build_from_empty) (use assms in \<open>auto simp: asid_maps_eq probe_constants depth_def start_level_def\<close>)

lemma asid_built: "granule \<in> {4096, 16384} \<Longrightarrow> ap_memory tables = replicate (16 * granule) 0 \<Longrightarrow>
    \<exists>t. build (\<lambda>(va, d). map_va TABLE_PA va d) (asid_maps granule)
      \<lparr>tb_bytes = replicate (length (ap_memory tables)) 0, tb_granule = granule, tb_next = 2\<rparr> = (Inr (), t)"
  using asid_build [of granule] by (auto simp: empty_tables_def)

lemma asid_case_engine:
  "settles (asid_case fw jh pc n c)" "c \<in> set asid_cases \<Longrightarrow> calm (asid_case fw jh pc n c)"
  "moves guard_step (asid_case fw jh pc n c) Unguarded handed"
proof -
  obtain granule profile upper a1 tag where c: "c = (granule, profile, upper, a1, tag)" by (metis prod_cases5)
  show "settles (asid_case fw jh pc n c)"
    unfolding asid_case_def c prod.case Let_def
    by (intro settles_case_pages settles_with_tables settles_judged)
  show "moves guard_step (asid_case fw jh pc n c) Unguarded handed"
    unfolding asid_case_def c prod.case Let_def
    by (intro moves_case_pages moves_with_tables moves_judged) (auto simp: asid_passed_def Let_def)
  assume "c \<in> set asid_cases"
  with c have "granule \<in> {4096, 16384}" using asid_granules by blast
  then show "calm (asid_case fw jh pc n c)"
    unfolding asid_case_def c prod.case Let_def
    by (intro calm_case_pages) (use asid_built in \<open>blast intro: calm_with_tables calm_judged\<close>)
qed

interpretation asid_probe: calm_cases "asid_case fw jh pc" asid_cases for fw jh pc
  by unfold_locales (fact asid_case_engine)+

end
