(* ===== verification/Hierarchy_Probe.thy ===== *)
theory Hierarchy_Probe
  imports Probe_Engine
begin

text \<open>
  The probe of hierarchical permissions (src/src/hierarchy\_probe.rs): for every combination of the
  access permissions of a page, of those its table descriptors add, of the exception level and of
  the operation, the guest must be let through or stopped as the rows of a table say. The table is
  compared with the rule of the architecture, applied to what the page table walk finds.
\<close>

definition HIER_WORDS :: "nat list" where
  "HIER_WORDS = [0xf9400002, 0xd4400000, 0xf9000001, 0xd4400000, 0xd4400000]"

definition MATRIX :: "nat list list" where
  "MATRIX = [[9, 9, 8, 8], [7, 9, 10, 8], [8, 8, 8, 8], [10, 8, 10, 8]]"

text \<open>A case: granule, profile, access permissions, those of the tables, execute never, level, warm, operation.\<close>

datatype operation = Fetch | Load | Store

type_synonym hier_case = "nat \<times> u32 \<times> nat \<times> nat \<times> nat \<times> nat \<times> bool \<times> operation"

definition operation_code :: "probe_abi \<Rightarrow> operation \<Rightarrow> u32" where
  "operation_code a op = (case op of Fetch \<Rightarrow> abi_FETCH a | Load \<Rightarrow> abi_LOAD a | Store \<Rightarrow> abi_STORE a)"

definition hier_upper :: "nat \<Rightarrow> nat \<Rightarrow> nat \<Rightarrow> bool" where
  "hier_upper ap parent el \<longleftrightarrow> (ap XOR parent XOR el) AND 1 \<noteq> 0"

definition hier_allowed :: "nat \<Rightarrow> nat \<Rightarrow> nat \<Rightarrow> nat \<Rightarrow> operation \<Rightarrow> bool" where
  "hier_allowed ap parent xn el op = (let row = MATRIX ! ap ! parent in case op of
     Load \<Rightarrow> el = 1 \<or> row AND 2 \<noteq> 0
   | Store \<Rightarrow> if el = 1 then row AND 1 \<noteq> 0 else row AND 4 \<noteq> 0
   | Fetch \<Rightarrow> if el = 1 then row AND 8 \<noteq> 0 \<and> xn AND 1 = 0 else xn AND 2 = 0)"

definition hier_image :: "nat \<Rightarrow> operation \<Rightarrow> u8 list \<Rightarrow> u8 list" where
  "hier_image granule op memory =
     overwrite (4 * granule) (le_bytes 4 (HIER_WORDS ! 4))
       (overwrite 0 (image_of (if op = Store then take 2 (drop 2 HIER_WORDS) else take 2 HIER_WORDS)) memory)"

definition hier_build :: "nat \<Rightarrow> nat \<Rightarrow> nat \<Rightarrow> nat \<Rightarrow> nat \<Rightarrow> tables \<Rightarrow> (status fault + nat) \<times> tables" where
  "hier_build granule ap parent xn el t =
     (let upper = hier_upper ap parent el; target = (if upper then HIGH else LOW); program = (if upper then LOW else HIGH);
          target_pa = RAM_PA + 4 * granule in
      case hier_map TABLE_PA program (RAM_PA OR 0x403) 0 0 0 t of
        (Inl e, t) \<Rightarrow> (Inl e, t)
      | (Inr _, t) \<Rightarrow> hier_map TABLE_PA target (target_pa OR 0x403 OR push_bit 6 ap) parent xn (ap + parent) t)"

definition hier_tcr :: "nat \<Rightarrow> nat" where
  "hier_tcr granule = (let tsz = translation_size granule in
     tsz OR push_bit 16 tsz OR push_bit 32 5 OR granule_bits granule)"

definition hier_controls :: "nat \<Rightarrow> u32 \<Rightarrow> controls" where
  "hier_controls granule profile = \<lparr>ct_abi_version = 2, ct_struct_size = 80, ct_profile = profile,
     ct_sctlr = (if profile = 1 then 0x30d00803 else 0x30d00801),
     ct_ttbr0 = TABLE_PA OR push_bit 48 0x21, ct_ttbr1 = (TABLE_PA + granule) OR push_bit 48 0x87,
     ct_tcr = hier_tcr granule, ct_mair = 0x44, ct_epoch = 1\<rparr>"

definition hier_esr :: "bool \<Rightarrow> nat \<Rightarrow> operation \<Rightarrow> nat" where
  "hier_esr allowed el op = (if allowed then 0
     else push_bit 26 (if op = Fetch then 0x20 + el else 0x24 + el) OR push_bit 25 1 OR 15 OR (if op = Store then 64 else 0))"

text \<open>One load through the service before the run, at level 1, so that the translation is cached.\<close>

definition hier_warm :: "probe_abi \<Rightarrow> 'm probe_core \<Rightarrow> bool \<Rightarrow> nat \<Rightarrow> nat \<Rightarrow> controls \<Rightarrow> 'm \<Rightarrow> status + 'm" where
  "hier_warm a pc warm target program ctrl m =
     (if \<not> warm then Inr m
      else case pc_direct pc \<lparr>rq_operation = abi_LOAD a, rq_pc = program, rq_address = target, rq_width = 8, rq_count = 1,
          rq_value0 = 0, dq_abi_version = 2, dq_struct_size = 160, dq_current_el = 1, dq_pstate = 0x3c5, dq_controls = ctrl\<rparr> m of
        (r, m) \<Rightarrow> if rp_result r \<noteq> abi_OK a then Inl COMPROMISED_DATA else Inr m)"

definition hier_passed :: "probe_abi \<Rightarrow> hier_case \<Rightarrow> nat \<Rightarrow> u8 list \<Rightarrow> u8 list \<Rightarrow> outcome \<Rightarrow> bool" where
  "hier_passed a = (\<lambda>(granule, profile, ap, parent, xn, el, warm, op) descriptor_pa expected_ram tables_before o'.
     let upper = hier_upper ap parent el; target = (if upper then HIGH else LOW); program = (if upper then LOW else HIGH);
         start = (if op = Fetch then target else program); target_pa = RAM_PA + 4 * granule;
         allowed = hier_allowed ap parent xn el op; pstate = (if el = 0 then 0x3c0 else 0x3c5);
         base = px_base (on_result o'); execution = mr_execution base; state = br_base execution; reply = on_reply o';
         retired = (if allowed then if op = Fetch then 1 else 2 else 0);
         expected_status = (if allowed then 1 else if op = Fetch then 16 else 17);
         fault_ok = (allowed \<or> lr_result reply = unat (abi_GUEST_FAULT a) \<and> px_fsc (on_result o') = 15 \<and> lr_level reply = 3
           \<and> lr_context reply = unat (if warm then abi_CACHED_LEAF a else abi_LEAF a)
           \<and> lr_descriptor_pa reply = descriptor_pa \<and> lr_output_pa reply = target_pa \<and> lr_address reply = target
           \<and> br_elr execution = start \<and> br_spsr execution = pstate \<and> mr_guest_far base = target)
     in on_restored o' = 0 \<and> on_status o' = int expected_status \<and> jr_status state = expected_status
        \<and> jr_retired state = retired \<and> jr_pc state = start + 4 * retired
        \<and> jr_fault_instruction state = (if \<not> allowed \<and> op \<noteq> Fetch then HIER_WORDS ! (if op = Store then 2 else 0) else 0)
        \<and> [jr_x0 state, jr_x1 state, jr_x2 state, jr_x3 state]
          = [target, VALUE, if allowed \<and> op = Load then HIER_WORDS ! 4 else 0x8877665544332211, 0x1020304050607080]
        \<and> br_sp execution = program + 8 * granule \<and> br_esr execution = hier_esr allowed el op
        \<and> mr_provider_status base = 0 \<and> mr_fetch_requests base = retired + of_bool (\<not> allowed)
        \<and> mr_data_requests base = of_bool (op \<noteq> Fetch)
        \<and> mr_completed_data_operations base = of_bool (allowed \<and> op \<noteq> Fetch)
        \<and> fault_ok \<and> on_ram o' = expected_ram \<and> on_tables o' = tables_before)"

definition hier_line :: "probe_abi \<Rightarrow> nat \<Rightarrow> hier_case \<Rightarrow> outcome \<Rightarrow> bool \<Rightarrow> line" where
  "hier_line a n = (\<lambda>(granule, profile, ap, parent, xn, el, warm, op) o' passed.
     let base = px_base (on_result o'); execution = mr_execution base; reply = on_reply o' in
     (''NXPERM: CASE'', [RNat n, RNat granule, RNat (unat profile), RNat ap, RNat parent, RNat xn, RNat el, RBool warm,
        RNat (unat (operation_code a op)), RBool (hier_upper ap parent el), RBool (hier_allowed ap parent xn el op),
        status_value (on_status o'), RNat (jr_retired (br_base execution)), RNat (mr_fetch_requests base),
        RNat (mr_data_requests base), RNat (mr_completed_data_operations base), RNat (mr_provider_status base),
        RNat (lr_result reply), RNat (lr_level reply), RNat (lr_context reply), RNat (br_esr execution), RBool passed]))"

definition hier_case :: "'w firmware \<Rightarrow> 'w jit_host \<Rightarrow> 'm probe_core \<Rightarrow> probe_abi \<Rightarrow> nat \<Rightarrow> hier_case \<Rightarrow> ('w, status fault + unit) op" where
  "hier_case fw jh pc a n = (\<lambda>(granule, profile, ap, parent, xn, el, warm, op).
     case_pages fw (16 * granule) LOADER_DATA (\<lambda>ram tables code.
       let upper = hier_upper ap parent el; target = (if upper then HIGH else LOW); program = (if upper then LOW else HIGH);
           start = (if op = Fetch then target else program); image = hier_image granule op (ap_memory ram) in
       with_tables (hier_build granule ap parent xn el \<lparr>tb_bytes = ap_memory tables, tb_granule = granule, tb_next = 2\<rparr>)
         (\<lambda>descriptor_pa bt.
         let allowed = hier_allowed ap parent xn el op;
             expected_ram = (if allowed \<and> op = Store then overwrite (4 * granule) (le_bytes 8 VALUE) image else image);
             ctrl = hier_controls granule profile;
             c = (granule, profile, ap, parent, xn, el, warm, op);
             passed = hier_passed a c descriptor_pa expected_ram (tb_bytes bt)
         in judged (run_engine fw jh pc image (tb_bytes bt) code ctrl (hier_warm a pc warm target program ctrl)
              (probe_arguments granule start (program + 8 * granule) code 8 [target, VALUE, 0x8877665544332211, 0x1020304050607080]
                (if el = 0 then 0x3c0 else 0x3c5))) fw
            (\<lambda>o'. [hier_line a n c o' (passed o')]) passed)))"

definition hier_cases :: "hier_case list" where
  "hier_cases = (4096, 1, 1, 2, 0, 1, False, Fetch) # concat (map (\<lambda>granule. concat (map (\<lambda>profile.
     concat (map (\<lambda>ap. concat (map (\<lambda>parent. concat (map (\<lambda>el. concat (map (\<lambda>warm. map (\<lambda>op.
       (granule, profile, ap, parent, 0, el, warm, op)) [Fetch, Load, Store]) [False, True])) [0, 1])) [0, 1, 2, 3])) [0, 1, 2, 3])
     @ concat (map (\<lambda>xn. concat (map (\<lambda>parent. concat (map (\<lambda>el. concat (map (\<lambda>warm. map (\<lambda>op.
       (granule, profile, 1, parent, xn, el, warm, op)) [Fetch, Load, Store]) [False, True])) [0, 1])) [0, 2])) [1, 2]))
     [1, 3])) [4096, 16384])"

definition hier_main :: "bool \<Rightarrow> 'w firmware \<Rightarrow> 'w jit_host \<Rightarrow> 'm probe_core \<Rightarrow> probe_abi \<Rightarrow> ('w, status fault + status) op" where
  "hier_main initialized fw jh pc a = probe_main initialized True fw ''NXPERM: ENTRY''
     (run_cases fw ''NXPERM: PASS'' ''NXPERM: FAIL'' (hier_case fw jh pc a) 0 hier_cases)"

subsection \<open>The table descriptors of a walk\<close>

fun links :: "(nat \<Rightarrow> nat \<Rightarrow> nat) \<Rightarrow> (nat \<Rightarrow> nat) \<Rightarrow> (nat \<Rightarrow> nat \<Rightarrow> nat) \<Rightarrow> nat \<Rightarrow> nat \<Rightarrow> nat \<Rightarrow> nat list" where
  "links index below ent 0 va k = []"
| "links index below ent (Suc n) va k = (let e = ent k (index (Suc n) va) in e # links index below ent n va (below e))"

text \<open>What the builder links below a table that is empty: new tables, marked for their level.\<close>

fun fresh_links :: "(nat \<Rightarrow> nat \<Rightarrow> nat) \<Rightarrow> nat \<Rightarrow> nat \<Rightarrow> nat \<Rightarrow> nat \<Rightarrow> nat list" where
  "fresh_links mark pa g nxt 0 = []"
| "fresh_links mark pa g nxt (Suc n) = mark (3 - Suc n) ((pa + nxt * g) OR 3) # fresh_links mark pa g (Suc nxt) n"

lemma fresh_build:
  assumes sel: "selects sel (tb_granule t)" and mark: "marks sel mark" and d: "d < 2 ^ 64"
  shows "tables_ok sel pa t pth \<Longrightarrow> k < tb_next t \<Longrightarrow> length (snd (pth k)) + n = depth (tb_granule t) \<Longrightarrow>
    (\<And>i. entry t k i = 0) \<Longrightarrow> (tb_next t + n) * tb_granule t \<le> length (tb_bytes t) \<Longrightarrow>
    \<exists>slot t'. build_levels sel pa va d mark [3 - n..<4] (k * tb_granule t) t = (Inr (pa + slot), t') \<and> tb_read t' slot = d
      \<and> (\<forall>j < tb_next t. j \<noteq> k \<longrightarrow> entry t' j = entry t j)
      \<and> links (idx (tb_granule t)) (child sel pa (tb_granule t)) (entry t') n va k = fresh_links mark pa (tb_granule t) (tb_next t) n"
  using sel
proof (induction n arbitrary: t pth k)
  case (0 t pth k)
  let ?g = "tb_granule t" let ?i = "level_index ?g va 3" let ?s = "k * ?g + ?i * 8" let ?t = "tb_write t ?s d"
  note D = tables_okD [OF 0(1)] and S = slot_in_range [OF 0(1,2)]
  have list: "[3 - 0..<4] = [3 :: nat]" by (simp add: upt_rec)
  have "wrapping_add ?s 8 = ?s + 8" using S(2) [of va 3] D(3) by simp
  with S(2-4) [of va 3] have run: "build_levels sel pa va d mark [3 - 0..<4] (k * ?g) t = (Inr (pa + ?s), ?t)"
    unfolding list by (simp add: Let_def)
  have "entry ?t = set_entry (entry t) k ?i d" by (rule entry_write [OF index_less [OF D(1)] S(1) d])
  moreover have "tb_read ?t ?s = d"
    using S(2) [of va 3] d subrange_overwrite_same [of ?s "le_bytes 8 d" "tb_bytes t"]
    by (simp add: tb_read_def tb_write_def le_simps)
  ultimately show ?case unfolding run by (intro exI [of _ ?s] exI [of _ ?t]) (auto simp: set_entry_apply)
next
  case (Suc n t pth k)
  let ?g = "tb_granule t" let ?i = "idx ?g (Suc n) va" let ?fresh = "tb_next t * ?g"
  note ok = Suc.prems(1) and k = Suc.prems(2) and D = tables_okD [OF Suc.prems(1)]
  have len: "length (snd (pth k)) < depth ?g" using Suc.prems(3) by simp
  have n3: "Suc n \<le> 3" using Suc.prems(3) by (simp add: depth_def)
  have i: "?i < ?g div 8" using index_less [OF D(1)] by (simp add: idx_def)
  have g: "0 < ?g" using D(1) by auto
  have room: "?fresh + ?g \<le> length (tb_bytes t)"
  proof -
    have "(tb_next t + 1) * ?g \<le> (tb_next t + Suc n) * ?g" by (intro mult_le_mono1) simp
    moreover have "(tb_next t + 1) * ?g = ?fresh + ?g" by simp
    ultimately show ?thesis using Suc.prems(5) by linarith
  qed
  let ?v = "mark (3 - Suc n) ((pa + ?fresh) OR 3)"
  define t1 where "t1 = tb_write (t\<lparr>tb_next := tb_next t + 1\<rparr>) (k * ?g + ?i * 8) ?v"
  have a: "(pa + ?fresh) mod ?g = 0" "pa + ?fresh < 2 ^ 48" using D(2,3) room g by (simp_all add: mod_add_eq)
  have "?g mod 4 = 0" using D(1) by auto
  then have "(pa + ?fresh) mod 4 = 0" using a(1) by (metis mod_0_imp_dvd mod_mod_cancel mod_0)
  then have or3: "(pa + ?fresh) OR 3 = pa + ?fresh + 3" by (rule or_3)
  have "(pa + ?fresh + 3) AND sel = pa + ?fresh" using Suc.prems(6) a by (simp add: selects_def)
  with mark a(2) or3 have v: "?v \<noteq> 0" "?v < 2 ^ 64" "?v AND sel = pa + ?fresh" by (simp_all add: marks_def)
  note L = ok_step_link [OF ok k len i Suc.prems(4) room v, folded t1_def]
  have "wrapping_sub (?v AND sel) pa = ?fresh" unfolding v(3) using a(2) by (simp add: wrapping_sub_exact)
  with room build_levels_unfold [OF ok k n3, where va = va and mark = mark and leaf = d] Suc.prems(4) [of ?i]
  have r: "build_levels sel pa va d mark [3 - Suc n..<4] (k * ?g) t
      = build_levels sel pa va d mark [3 - n..<4] (tb_next t * tb_granule t1) t1"
    by (simp add: Let_def t1_def)
  have fresh0: "entry t1 (tb_next t) j = 0" for j
    using D(5) k by (simp add: L(5) set_entry_apply shaped_def)
  have "length (snd ((pth(tb_next t := (fst (pth k), snd (pth k) @ [?i]))) (tb_next t))) + n = depth (tb_granule t1)"
    using Suc.prems(3) L(2) by simp
  moreover have "(tb_next t1 + n) * tb_granule t1 \<le> length (tb_bytes t1)" using Suc.prems(5) L(2-4) by simp
  ultimately obtain slot t' where B: "build_levels sel pa va d mark [3 - n..<4] (tb_next t * tb_granule t1) t1 = (Inr (pa + slot), t')"
      "tb_read t' slot = d" "\<forall>j < tb_next t1. j \<noteq> tb_next t \<longrightarrow> entry t' j = entry t1 j"
      "links (idx (tb_granule t1)) (child sel pa (tb_granule t1)) (entry t') n va (tb_next t)
        = fresh_links mark pa (tb_granule t1) (tb_next t1) n"
    using Suc.IH [OF L(1) _ _ fresh0] Suc.prems(6) L(2,4) by auto
  have ek: "entry t' k ?i = ?v" using B(3) k L(4,5) by (simp add: set_entry_apply)
  have c: "child sel pa ?g ?v = tb_next t" unfolding child_def v(3) using g by simp
  have "\<forall>j < tb_next t. j \<noteq> k \<longrightarrow> entry t' j = entry t j"
    using B(3) L(4,5) by (auto simp: set_entry_def fun_eq_iff)
  moreover have "links (idx ?g) (child sel pa ?g) (entry t') (Suc n) va k = fresh_links mark pa ?g (tb_next t) (Suc n)"
    unfolding links.simps fresh_links.simps Let_def ek c using B(4) L(2,4) by simp
  ultimately show ?case unfolding r B(1) using B(2) by blast
qed

definition table_links :: "nat \<Rightarrow> tables \<Rightarrow> nat \<Rightarrow> nat list" where
  "table_links granule t va =
     links (idx granule) (child (address_mask granule) TABLE_PA granule) (entry t) (depth granule) va (root_number va)"

text \<open>The permission bits of the table descriptors of a walk add up.\<close>

definition table_attributes :: "nat list \<Rightarrow> nat" where
  "table_attributes es = fold (OR) es 0"

lemma bit_table_attributes: "bit (table_attributes es) b \<longleftrightarrow> (\<exists>e \<in> set es. bit e b)"
proof -
  have "bit (fold (OR) es x) b \<longleftrightarrow> bit x b \<or> (\<exists>e \<in> set es. bit e b)" for x
    by (induction es arbitrary: x) (auto simp: bit_or_iff)
  then show ?thesis by (simp add: table_attributes_def)
qed

lemma bit_hier_mark:
  assumes "e < 2 ^ 59" "59 \<le> b" "b < 64"
  shows "bit (hier_mark start parent xn choice level e) b \<longleftrightarrow>
    level = start + choice mod (3 - start) \<and> bit (push_bit 61 parent) b
    \<or> level = start + (choice + 1) mod (3 - start) \<and> bit (push_bit 59 xn) b"
proof -
  have "\<not> bit e b"
  proof -
    have "e < 2 ^ b" using assms by (meson less_le_trans one_le_numeral power_increasing)
    then show ?thesis by (simp add: bit_iff_odd)
  qed
  with assms(3) show ?thesis by (auto simp: hier_mark_def with_bits_def Let_def bit_simps)
qed

lemma depth_start: "granule \<in> {4096, 16384} \<Longrightarrow> depth granule = 3 \<and> start_level granule = 0 \<or> depth granule = 2 \<and> start_level granule = 1"
  by (auto simp: depth_def start_level_def)

lemma fresh_links_3: "fresh_links mark pa g nxt 3 = [mark 0 ((pa + nxt * g) OR 3), mark 1 ((pa + (nxt + 1) * g) OR 3),
    mark 2 ((pa + (nxt + 2) * g) OR 3)]"
  by (simp only: numeral_3_eq_3 fresh_links.simps) (simp add: numeral_2_eq_2)

lemma fresh_links_2: "fresh_links mark pa g nxt 2 = [mark 1 ((pa + nxt * g) OR 3), mark 2 ((pa + (nxt + 1) * g) OR 3)]"
  by (simp only: numeral_2_eq_2 fresh_links.simps) (simp add: numeral_2_eq_2)

lemma hier_attributes:
  assumes g: "granule \<in> {4096, 16384}" and fits: "pa + (nxt + depth granule) * granule \<le> 2 ^ 48" and b: "59 \<le> b" "b < 64"
  shows "bit (table_attributes (fresh_links (hier_mark (start_level granule) parent xn choice) pa granule nxt (depth granule))) b
    \<longleftrightarrow> bit (push_bit 61 parent) b \<or> bit (push_bit 59 xn) b"
proof -
  have small: "(pa + k * granule) OR 3 < 2 ^ 59" if "k < nxt + depth granule" for k
  proof (rule or_less)
    have "k * granule < (nxt + depth granule) * granule" using that g by (intro mult_strict_right_mono) auto
    with fits have "pa + k * granule < 2 ^ 48" by linarith
    then show "pa + k * granule < 2 ^ 59" by simp
  qed simp
  note m = bit_hier_mark [OF small b]
  have m3: "bit (hier_mark start parent xn choice level ((pa + (nxt + k) * granule) OR 3)) b \<longleftrightarrow>
      level = start + choice mod (3 - start) \<and> bit (push_bit 61 parent) b
      \<or> level = start + (choice + 1) mod (3 - start) \<and> bit (push_bit 59 xn) b" if "k < depth granule" for k start level
    using that by (intro bit_hier_mark small b) simp
  from depth_start [OF g] show ?thesis
  proof
    assume d: "depth granule = 3 \<and> start_level granule = 0"
    then have l: "fresh_links mark pa granule nxt (depth granule) = [mark 0 ((pa + nxt * granule) OR 3),
        mark 1 ((pa + (nxt + 1) * granule) OR 3), mark 2 ((pa + (nxt + 2) * granule) OR 3)]" for mark
      by (simp only: fresh_links_3)
    have "choice mod 3 = 0 \<and> (choice + 1) mod 3 = 1 \<or> choice mod 3 = 1 \<and> (choice + 1) mod 3 = 2
      \<or> choice mod 3 = 2 \<and> (choice + 1) mod 3 = 0" by presburger
    then show ?thesis
      unfolding l bit_table_attributes by (elim disjE conjE) (simp_all only: set_simps bex_simps m3 m3 [of 0, simplified] d, auto)
  next
    assume d: "depth granule = 2 \<and> start_level granule = 1"
    then have l: "fresh_links mark pa granule nxt (depth granule) = [mark 1 ((pa + nxt * granule) OR 3),
        mark 2 ((pa + (nxt + 1) * granule) OR 3)]" for mark
      by (simp only: fresh_links_2)
    have "choice mod 2 = 0 \<and> (choice + 1) mod 2 = 1 \<or> choice mod 2 = 1 \<and> (choice + 1) mod 2 = 0" by presburger
    then show ?thesis
      unfolding l bit_table_attributes by (elim disjE conjE) (simp_all only: set_simps bex_simps m3 m3 [of 0, simplified] d, auto)
  qed
qed

lemma hier_map_fresh:
  assumes wf: "well_formed (address_mask g) TABLE_PA g t" and d: "d < 2 ^ 64" and empty: "\<And>i. entry t (root_number va) i = 0"
    and room: "depth g \<le> room t"
  obtains slot t' where "hier_map TABLE_PA va d parent xn choice t = (Inr (TABLE_PA + slot), t')" "tb_read t' slot = d"
    "well_formed (address_mask g) TABLE_PA g t'" "room t \<le> room t' + depth g"
    "\<And>j. j < 2 \<Longrightarrow> j \<noteq> root_number va \<Longrightarrow> entry t' j = entry t j"
    "\<And>b. 59 \<le> b \<Longrightarrow> b < 64 \<Longrightarrow> bit (table_attributes (table_links g t' va)) b
      \<longleftrightarrow> bit (push_bit 61 parent) b \<or> bit (push_bit 59 xn) b"
    "translate (address_mask g) TABLE_PA t' va = d"
proof -
  from wf obtain pth where g: "tb_granule t = g" and ok: "tables_ok (address_mask g) TABLE_PA t pth" by (auto simp: well_formed_def)
  note D = tables_okD [OF ok, unfolded g]
  have sh: "2 \<le> tb_next t" "pth 0 = (0, [])" "pth (Suc 0) = (1, [])" using D(5) by (simp_all add: shaped_def)
  have root: "root_number va < tb_next t" "length (snd (pth (root_number va))) + depth g = depth g"
    using sh by (auto simp: root_number_def)
  have sel: "address_mask g < 2 ^ 48" by (simp add: address_mask_def)
  have "tb_next t + depth g \<le> length (tb_bytes t) div g"
    using room root(1) g by (simp add: room_def depth_def start_level_def split: if_splits)
  then have fits: "(tb_next t + depth g) * g \<le> length (tb_bytes t)"
    using div_times_less_eq_dividend [of "length (tb_bytes t)" g] mult_le_mono1 by (meson le_trans)
  have "selects (address_mask g) (tb_granule t)" "marks (address_mask g) (hier_mark (start_level g) parent xn choice)"
    using selects_address_mask [OF D(1)] marks_hier [OF sel] by (simp_all add: g)
  with fits obtain slot t' where R: "build_levels (address_mask g) TABLE_PA va d (hier_mark (start_level g) parent xn choice)
        [3 - depth g..<4] (root_number va * g) t = (Inr (TABLE_PA + slot), t')" "tb_read t' slot = d"
      "\<forall>j < tb_next t. j \<noteq> root_number va \<longrightarrow> entry t' j = entry t j"
      "links (idx g) (child (address_mask g) TABLE_PA g) (entry t') (depth g) va (root_number va)
        = fresh_links (hier_mark (start_level g) parent xn choice) TABLE_PA g (tb_next t) (depth g)"
    using fresh_build [OF _ _ d ok root(1), where n = "depth g" and va = va
      and mark = "hier_mark (start_level g) parent xn choice"] root(2) empty by (simp add: g) blast
  have "3 - depth g = start_level g" by (simp add: depth_def start_level_def)
  with R(1) have b: "build_levels (address_mask g) TABLE_PA va d (hier_mark (start_level g) parent xn choice)
      [start_level g..<4] (root_table g va) t = (Inr (TABLE_PA + slot), t')"
    by (simp add: root_offset)
  note B = build_from_root [OF wf selects_address_mask [OF D(1)] marks_hier [OF sel] d b]
  show thesis
  proof (rule that)
    show "hier_map TABLE_PA va d parent xn choice t = (Inr (TABLE_PA + slot), t')"
      using b by (simp add: hier_map_def Let_def hier_levels_build g)
    show "entry t' j = entry t j" if "j < 2" "j \<noteq> root_number va" for j
      using that R(3) sh(1) by (meson less_le_trans)
    have l: "table_links g t' va = fresh_links (hier_mark (start_level g) parent xn choice) TABLE_PA g (tb_next t) (depth g)"
      using R(4) by (simp add: table_links_def)
    have "TABLE_PA + (tb_next t + depth g) * g \<le> 2 ^ 48" using fits D(3) by linarith
    from hier_attributes [OF D(1) this]
    show "bit (table_attributes (table_links g t' va)) b \<longleftrightarrow> bit (push_bit 61 parent) b \<or> bit (push_bit 59 xn) b"
      if "59 \<le> b" "b < 64" for b using that by (simp add: l)
    show "translate (address_mask g) TABLE_PA t' va = d" using B(3) [of va] by (simp add: is_ok_def)
  qed (rule R(2) B(1) B(2))+
qed

subsection \<open>The rule of the architecture\<close>

text \<open>
  Whether an access is permitted, from the leaf descriptor and the permission bits that the table
  descriptors add: AP[1] lets level 0 in unless APTable[0] forbids it, AP[2] and APTable[1] forbid
  writing, execute never is per level, and level 1 does not execute what level 0 can write.
\<close>

definition architecture_permits :: "nat \<Rightarrow> nat \<Rightarrow> nat \<Rightarrow> operation \<Rightarrow> bool" where
  "architecture_permits leaf attrs el op =
     (let el0 = (bit leaf 6 \<and> \<not> bit attrs 61); read_only = (bit leaf 7 \<or> bit attrs 62);
          pxn = (bit leaf 53 \<or> bit attrs 59); uxn = (bit leaf 54 \<or> bit attrs 60)
      in case op of
           Load \<Rightarrow> el = 1 \<or> el0
         | Store \<Rightarrow> \<not> read_only \<and> (el = 1 \<or> el0)
         | Fetch \<Rightarrow> if el = 1 then \<not> pxn \<and> \<not> (el0 \<and> \<not> read_only) else \<not> uxn)"

lemma matrix_rows:
  assumes "ap \<in> {0, 1, 2, 3}" "parent \<in> {0, 1, 2, 3}"
  shows "MATRIX ! ap ! parent AND 2 \<noteq> 0 \<longleftrightarrow> odd ap \<and> even parent"
    and "MATRIX ! ap ! parent AND 1 \<noteq> 0 \<longleftrightarrow> even (ap div 2) \<and> even (parent div 2)"
    and "MATRIX ! ap ! parent AND 4 \<noteq> 0 \<longleftrightarrow> odd ap \<and> even parent \<and> even (ap div 2) \<and> even (parent div 2)"
    and "MATRIX ! ap ! parent AND 8 \<noteq> 0 \<longleftrightarrow> \<not> (odd ap \<and> even parent \<and> even (ap div 2) \<and> even (parent div 2))"
  using assms by (auto simp: MATRIX_def)

lemma matrix_rule:
  assumes "ap \<in> {0, 1, 2, 3}" "parent \<in> {0, 1, 2, 3}" "xn \<in> {0, 1, 2}" "el \<in> {0, 1}"
    and "bit leaf 6 \<longleftrightarrow> odd ap" "bit leaf 7 \<longleftrightarrow> odd (ap div 2)" "\<not> bit leaf 53" "\<not> bit leaf 54"
    and "bit attrs 61 \<longleftrightarrow> odd parent" "bit attrs 62 \<longleftrightarrow> odd (parent div 2)" "bit attrs 59 \<longleftrightarrow> odd xn" "bit attrs 60 \<longleftrightarrow> odd (xn div 2)"
  shows "hier_allowed ap parent xn el op \<longleftrightarrow> architecture_permits leaf attrs el op"
proof -
  have "xn AND 1 = 0 \<longleftrightarrow> even xn" "xn AND 2 = 0 \<longleftrightarrow> even (xn div 2)"
    using assms(3) by auto
  note xn = this
  show ?thesis
    unfolding hier_allowed_def architecture_permits_def Let_def xn matrix_rows [OF assms(1,2)] assms(5-6,9-)
    using assms(4,7,8) by (cases op) auto
qed

subsection \<open>The cases\<close>

definition hier_leaf :: "nat \<Rightarrow> nat \<Rightarrow> nat" where
  "hier_leaf granule ap = (RAM_PA + 4 * granule) OR 0x403 OR push_bit 6 ap"

lemma hier_case_values:
  "(granule, profile, ap, parent, xn, el, warm, op) \<in> set hier_cases \<Longrightarrow>
    granule \<in> {4096, 16384} \<and> ap \<in> {0, 1, 2, 3} \<and> parent \<in> {0, 1, 2, 3} \<and> xn \<in> {0, 1, 2} \<and> el \<in> {0, 1}"
  unfolding hier_cases_def by auto

lemma hier_leaf_bits:
  assumes "granule \<in> {4096, 16384}" "ap \<in> {0, 1, 2, 3}"
  shows "hier_leaf granule ap < 2 ^ 64" "bit (hier_leaf granule ap) 6 \<longleftrightarrow> odd ap" "bit (hier_leaf granule ap) 7 \<longleftrightarrow> odd (ap div 2)"
    "\<not> bit (hier_leaf granule ap) 53" "\<not> bit (hier_leaf granule ap) 54"
  using assms by (auto simp: hier_leaf_def probe_constants push_bit_eq_mult bit_iff_odd)

lemma table_bits:
  assumes "parent \<in> {0, 1, 2, 3 :: nat}" "xn \<in> {0, 1, 2 :: nat}"
    and "\<And>b. 59 \<le> b \<Longrightarrow> b < 64 \<Longrightarrow> bit attrs b \<longleftrightarrow> bit (push_bit 61 parent) b \<or> bit (push_bit 59 xn) b"
  shows "bit attrs 61 \<longleftrightarrow> odd parent" "bit attrs 62 \<longleftrightarrow> odd (parent div 2)" "bit attrs 59 \<longleftrightarrow> odd xn" "bit attrs 60 \<longleftrightarrow> odd (xn div 2)"
proof -
  have x: "\<not> bit xn 2" "\<not> bit xn 3" using assms(2) by (auto simp: bit_iff_odd)
  have odds: "bit n 0 \<longleftrightarrow> odd n" "bit n 1 \<longleftrightarrow> odd (n div 2)" for n :: nat by (simp_all add: bit_iff_odd)
  show "bit attrs 61 \<longleftrightarrow> odd parent" "bit attrs 62 \<longleftrightarrow> odd (parent div 2)" "bit attrs 59 \<longleftrightarrow> odd xn" "bit attrs 60 \<longleftrightarrow> odd (xn div 2)"
    using assms(3) [of 61] assms(3) [of 62] assms(3) [of 59] assms(3) [of 60]
    by (simp_all add: bit_push_bit_iff_nat x odds [unfolded One_nat_def])
qed

lemma hier_empty:
  assumes "granule \<in> {4096, 16384}"
  shows "well_formed (address_mask granule) TABLE_PA granule (empty_tables granule 16)"
    "entry (empty_tables granule 16) k i = 0" "room (empty_tables granule 16) = 14"
proof -
  have "TABLE_PA mod granule = 0" "TABLE_PA + 16 * granule \<le> 2 ^ 48" using assms by (auto simp: probe_constants)
  note E = empty_tables_ok [OF assms this]
  show "well_formed (address_mask granule) TABLE_PA granule (empty_tables granule 16)" "room (empty_tables granule 16) = 14"
    using E by simp_all
  show "entry (empty_tables granule 16) k i = 0" by (simp add: entry_def empty_tables_def tb_read_def subrange_zeros)
qed

lemma hier_build_fresh:
  assumes g: "granule \<in> {4096, 16384}" and ap: "ap \<in> {0, 1, 2, 3}"
    and target: "target = (if hier_upper ap parent el then HIGH else LOW)"
  obtains slot t where "hier_build granule ap parent xn el (empty_tables granule 16) = (Inr (TABLE_PA + slot), t)"
    "tb_read t slot = hier_leaf granule ap"
    "translate (address_mask granule) TABLE_PA t target = hier_leaf granule ap"
    "\<And>b. 59 \<le> b \<Longrightarrow> b < 64 \<Longrightarrow>
      bit (table_attributes (table_links granule t target)) b
      \<longleftrightarrow> bit (push_bit 61 parent) b \<or> bit (push_bit 59 xn) b"
proof -
  define program where "program = (if hier_upper ap parent el then LOW else HIGH)"
  let ?e = "empty_tables granule 16"
  note E = hier_empty [OF g]
  have d3: "depth granule \<le> 3" by (simp add: depth_def)
  have roots: "root_number target \<noteq> root_number program" "root_number target < 2"
    by (simp_all add: target program_def root_number_def probe_constants)
  have d: "RAM_PA OR 0x403 < 2 ^ 64" by (simp add: probe_constants)
  obtain s1 t1 where A: "hier_map TABLE_PA program (RAM_PA OR 0x403) 0 0 0 ?e = (Inr (TABLE_PA + s1), t1)"
      "well_formed (address_mask granule) TABLE_PA granule t1" "room ?e \<le> room t1 + depth granule"
      "\<And>j. j < 2 \<Longrightarrow> j \<noteq> root_number program \<Longrightarrow> entry t1 j = entry ?e j"
    by (rule hier_map_fresh [OF E(1) d, of program 0 0 0]) (use E(2,3) d3 in auto)
  have "entry t1 (root_number target) i = 0" for i using A(4) roots E(2) by auto
  moreover have "depth granule \<le> room t1" using A(3) E(3) d3 by linarith
  ultimately obtain slot t where B: "hier_map TABLE_PA target (hier_leaf granule ap) parent xn (ap + parent) t1 = (Inr (TABLE_PA + slot), t)"
      "tb_read t slot = hier_leaf granule ap" "translate (address_mask granule) TABLE_PA t target = hier_leaf granule ap"
      "\<And>b. 59 \<le> b \<Longrightarrow> b < 64 \<Longrightarrow> bit (table_attributes (table_links granule t target)) b
        \<longleftrightarrow> bit (push_bit 61 parent) b \<or> bit (push_bit 59 xn) b"
    using hier_map_fresh [OF A(2) hier_leaf_bits(1) [OF g ap], of target parent xn "ap + parent"] by metis
  show thesis
  proof (rule that)
    show "hier_build granule ap parent xn el ?e = (Inr (TABLE_PA + slot), t)"
      using A(1) B(1) by (simp add: hier_build_def Let_def target program_def hier_leaf_def)
  qed (rule B(2-))+
qed

lemma hier_built:
  assumes "granule \<in> {4096, 16384}" "ap \<in> {0, 1, 2, 3}" "ap_memory tables = replicate (16 * granule) 0"
  shows "\<exists>r t. hier_build granule ap parent xn el \<lparr>tb_bytes = ap_memory tables, tb_granule = granule, tb_next = 2\<rparr> = (Inr r, t)"
proof -
  obtain slot t where "hier_build granule ap parent xn el (empty_tables granule 16) = (Inr (TABLE_PA + slot), t)"
    by (rule hier_build_fresh [OF assms(1,2) refl])
  then show ?thesis unfolding assms(3) empty_tables_def by blast
qed

lemma hier_case_engine:
  "settles (hier_case fw jh pc a n c)" "c \<in> set hier_cases \<Longrightarrow> calm (hier_case fw jh pc a n c)"
  "moves guard_step (hier_case fw jh pc a n c) Unguarded handed"
proof -
  obtain granule profile ap parent xn el warm op where c: "c = (granule, profile, ap, parent, xn, el, warm, op)"
    by (cases c) (metis prod_cases7)
  show "settles (hier_case fw jh pc a n c)"
    unfolding hier_case_def c prod.case Let_def
    by (intro settles_case_pages settles_with_tables settles_judged)
  show "moves guard_step (hier_case fw jh pc a n c) Unguarded handed"
    unfolding hier_case_def c prod.case Let_def
    by (intro moves_case_pages moves_with_tables moves_judged) (auto simp: hier_passed_def Let_def)
  assume "c \<in> set hier_cases"
  with c hier_case_values have v: "granule \<in> {4096, 16384}" "ap \<in> {0, 1, 2, 3}" by blast+
  show "calm (hier_case fw jh pc a n c)"
    unfolding hier_case_def c prod.case Let_def
    by (intro calm_case_pages) (use hier_built [OF v] in \<open>blast intro: calm_with_tables calm_judged\<close>)
qed

interpretation hier_probe: calm_cases "hier_case fw jh pc a" hier_cases for fw jh pc a
  by unfold_locales (fact hier_case_engine)+

text \<open>Property C38: every case expects what the architecture prescribes for the tables that it builds: the builder
  succeeds on the zeroed pages, the descriptor address that a fault is compared with holds the leaf,
  the walk of the target ends in that leaf, and the access is expected to be let through exactly if the
  leaf and the attributes of the table descriptors on the way permit it.\<close>

theorem expectations_follow_the_architecture:
  assumes "(granule, profile, ap, parent, xn, el, warm, op) \<in> set hier_cases"
    and "target = (if hier_upper ap parent el then HIGH else LOW)"
  shows "\<exists>slot t. hier_build granule ap parent xn el (empty_tables granule 16) = (Inr (TABLE_PA + slot), t)
    \<and> tb_read t slot = hier_leaf granule ap
    \<and> translate (address_mask granule) TABLE_PA t target = hier_leaf granule ap
    \<and> (hier_allowed ap parent xn el op
         \<longleftrightarrow> architecture_permits (hier_leaf granule ap) (table_attributes (table_links granule t target)) el op)"
proof -
  have v: "granule \<in> {4096, 16384}" "ap \<in> {0, 1, 2, 3}" "parent \<in> {0, 1, 2, 3}" "xn \<in> {0, 1, 2}" "el \<in> {0, 1}"
    using hier_case_values [OF assms(1)] by blast+
  obtain slot t where B: "hier_build granule ap parent xn el (empty_tables granule 16) = (Inr (TABLE_PA + slot), t)"
      "tb_read t slot = hier_leaf granule ap"
      "translate (address_mask granule) TABLE_PA t target = hier_leaf granule ap"
      "\<And>b. 59 \<le> b \<Longrightarrow> b < 64 \<Longrightarrow> bit (table_attributes (table_links granule t target)) b
        \<longleftrightarrow> bit (push_bit 61 parent) b \<or> bit (push_bit 59 xn) b"
    by (rule hier_build_fresh [OF v(1,2) assms(2), where xn = xn]) (rule that)
  have "hier_allowed ap parent xn el op
      \<longleftrightarrow> architecture_permits (hier_leaf granule ap) (table_attributes (table_links granule t target)) el op"
    by (rule matrix_rule [OF v(2-) hier_leaf_bits(2-) [OF v(1,2)] table_bits [OF v(3,4) B(4)]])
  with B(1-3) show ?thesis by blast
qed

theorem expectations_follow_the_architecture_witness:
  "hier_upper 1 2 1 = False \<and> hier_allowed 1 2 0 1 Fetch = True
    \<and> (\<exists>slot t. hier_build 4096 1 2 0 1 (empty_tables 4096 16) = (Inr (TABLE_PA + slot), t)
       \<and> tb_read t slot = 0x10004443 \<and> architecture_permits 0x10004443 (table_attributes (table_links 4096 t LOW)) 1 Fetch)"
proof -
  have u: "hier_upper 1 2 1 = False" by (simp add: hier_upper_def)
  have a: "hier_allowed 1 2 0 1 Fetch = True" by (simp add: hier_allowed_def MATRIX_def)
  have l: "hier_leaf 4096 1 = 0x10004443" by (simp add: hier_leaf_def probe_constants push_bit_eq_mult)
  have c: "(4096, 1, 1, 2, 0, 1, False, Fetch) \<in> set hier_cases" unfolding hier_cases_def by (rule list.set_intros)
  have "LOW = (if hier_upper 1 2 1 then HIGH else LOW)" unfolding u by simp
  from expectations_follow_the_architecture [OF c this, unfolded a l] u a show ?thesis by blast
qed

end
