(* ===== verification/Mmu_Probe.thy ===== *)
theory Mmu_Probe
  imports Guest_Cpu
begin

text \<open>
  The probe of the memory management unit (src/src/mmu\_probe.rs): loads and stores of every size,
  pairs and unaligned transfers across two pages that are not adjacent in RAM, and the faults of the
  second page and of the first fetch. The expectations of a case are computed before it runs; they
  are compared with what the translation tables of the case prescribe, and those of the loads with
  the encoding of the instruction.
\<close>

definition HLT :: nat where "HLT = 0xd4400000"
definition KEEP_X1 :: nat where "KEEP_X1 = 0x91000021"
definition SEED :: nat where "SEED = 0x88776655ffeeaa80"
definition PAIR0 :: nat where "PAIR0 = 0xabcdef0187654321"
definition PAIR1 :: nat where "PAIR1 = 0x76543210fedcba98"

datatype kind =
    Scalar (kd_word: nat) (kd_width: nat) (kd_sign: nat) (kd_store: bool)
  | Pair nat nat bool
  | Fetch bool
  | Unaligned bool nat

record probe_case =
  cs_name :: string
  cs_kind :: kind

definition SCALARS :: "probe_case list" where
  "SCALARS =
    [\<lparr>cs_name = ''strb'', cs_kind = Scalar 0x39000001 1 0 True\<rparr>,
     \<lparr>cs_name = ''ldrb'', cs_kind = Scalar 0x39400001 1 0 False\<rparr>,
     \<lparr>cs_name = ''ldrsb-w'', cs_kind = Scalar 0x39c00001 1 32 False\<rparr>,
     \<lparr>cs_name = ''ldrsb-x'', cs_kind = Scalar 0x39800001 1 64 False\<rparr>,
     \<lparr>cs_name = ''strh'', cs_kind = Scalar 0x79000001 2 0 True\<rparr>,
     \<lparr>cs_name = ''ldrh'', cs_kind = Scalar 0x79400001 2 0 False\<rparr>,
     \<lparr>cs_name = ''ldrsh-w'', cs_kind = Scalar 0x79c00001 2 32 False\<rparr>,
     \<lparr>cs_name = ''ldrsh-x'', cs_kind = Scalar 0x79800001 2 64 False\<rparr>,
     \<lparr>cs_name = ''str-w'', cs_kind = Scalar 0xb9000001 4 0 True\<rparr>,
     \<lparr>cs_name = ''ldr-w'', cs_kind = Scalar 0xb9400001 4 0 False\<rparr>,
     \<lparr>cs_name = ''ldrsw'', cs_kind = Scalar 0xb9800001 4 64 False\<rparr>,
     \<lparr>cs_name = ''str-x'', cs_kind = Scalar 0xf9000001 8 0 True\<rparr>,
     \<lparr>cs_name = ''ldr-x'', cs_kind = Scalar 0xf9400001 8 0 False\<rparr>]"

definition failure_descriptor :: "nat \<Rightarrow> nat \<Rightarrow> nat" where
  "failure_descriptor failure normal =
     (if failure = 1 then 0
      else if failure = 2 then normal AND 0xfffffffffffffbff
      else if failure = 3 then normal OR push_bit 7 1
      else if failure = 4 then 0x50000000 OR LEAF
      else if failure = 5 then normal OR push_bit 2 1
      else normal)"

subsection \<open>The expectations of a case\<close>

record expectation =
  ex_initial :: "nat list"
  ex_registers :: "nat list"
  ex_words :: "nat list"
  ex_status :: nat
  ex_retired :: nat
  ex_provider :: nat
  ex_fsc :: nat
  ex_reply :: u32
  ex_far :: nat
  ex_data :: nat
  ex_completed :: nat
  ex_second :: nat
  ex_code :: nat
  ex_load :: bool

definition plain_expectation :: "probe_abi \<Rightarrow> nat \<Rightarrow> nat \<Rightarrow> expectation" where
  "plain_expectation a granule data_va =
     \<lparr>ex_initial = [data_va, VALUE, PAIR0, PAIR1], ex_registers = [data_va, VALUE, PAIR0, PAIR1], ex_words = [KEEP_X1],
      ex_status = 1, ex_retired = 3, ex_provider = 0, ex_fsc = 0, ex_reply = abi_OK a, ex_far = 0, ex_data = 1,
      ex_completed = 1, ex_second = (RAM_PA + 9 * granule) OR LEAF, ex_code = RAM_PA OR LEAF, ex_load = False\<rparr>"

definition scalar_value :: "nat \<Rightarrow> nat \<Rightarrow> nat" where
  "scalar_value width sign =
     (let raw = (if width = 8 then SEED else SEED AND (push_bit (width * 8) 1 - 1));
          shift = (8 - width) * 8;
          v = (if sign = 0 then raw else unat (signed_drop_bit shift (push_bit shift (word_of_nat raw :: u64))))
      in if sign = 32 then v mod 2 ^ 32 else v)"

text \<open>The second page fails: the same for a pair and for an unaligned transfer.\<close>

definition expect_failure :: "probe_abi \<Rightarrow> nat \<Rightarrow> nat \<Rightarrow> bool \<Rightarrow> expectation \<Rightarrow> expectation" where
  "expect_failure a failure far load e =
     (let e = e\<lparr>ex_retired := 1, ex_completed := 0, ex_load := load, ex_far := far\<rparr> in
      if failure \<le> 3
      then e\<lparr>ex_status := 17, ex_reply := abi_GUEST_FAULT a,
             ex_fsc := (if failure = 1 then 7 else if failure = 2 then 11 else 15)\<rparr>
      else e\<lparr>ex_status := 4, ex_provider := (if failure = 4 then 5 else 1),
             ex_reply := (if failure = 4 then abi_UNAVAILABLE a else abi_UNSUPPORTED a)\<rparr>)"

definition expect_pair :: "probe_abi \<Rightarrow> nat \<Rightarrow> nat \<Rightarrow> nat \<Rightarrow> nat \<Rightarrow> bool \<Rightarrow> expectation \<Rightarrow> expectation" where
  "expect_pair a granule data_va mode failure load e =
     (let split_va = data_va + granule - 8; start = (if mode = 1 then split_va - 8 else split_va);
          initial = (ex_initial e)[0 := start];
          e = e\<lparr>ex_initial := initial, ex_registers := initial, ex_second := failure_descriptor failure (ex_second e)\<rparr> in
      if failure = 0
      then e\<lparr>ex_words := ex_words e @ [if mode = 1 then 0xa9808c02 else if mode = 2 then 0xa8810c02 else 0xa9000c02,
                                        if mode = 2 then 0xa97f0c02 else 0xa9400c02],
             ex_registers := initial[0 := start + (if mode = 1 then 8 else if mode = 2 then 16 else 0)],
             ex_retired := 4, ex_data := 2, ex_completed := 2\<rparr>
      else expect_failure a failure (data_va + granule) load
             (e\<lparr>ex_words := ex_words e @ [if load then 0xa9400c02 else 0xa9000c02], ex_data := 1\<rparr>))"

definition expect_unaligned :: "probe_abi \<Rightarrow> nat \<Rightarrow> nat \<Rightarrow> bool \<Rightarrow> nat \<Rightarrow> expectation \<Rightarrow> expectation" where
  "expect_unaligned a granule data_va store failure e =
     (let initial = (ex_initial e)[0 := data_va + granule - 4];
          e = e\<lparr>ex_initial := initial, ex_registers := initial,
                 ex_words := ex_words e @ [if store then 0xf9000001 else 0xf9400001],
                 ex_second := failure_descriptor failure (ex_second e)\<rparr> in
      if failure = 0 then (if store then e else e\<lparr>ex_registers := initial[1 := SEED]\<rparr>)
      else expect_failure a failure (data_va + granule) (\<not> store) e)"

definition expect_fetch :: "probe_abi \<Rightarrow> nat \<Rightarrow> bool \<Rightarrow> expectation \<Rightarrow> expectation" where
  "expect_fetch a va permission e =
     e\<lparr>ex_code := (if permission then RAM_PA OR LEAF OR push_bit 53 1 else 0), ex_status := 16, ex_retired := 0,
       ex_data := 0, ex_completed := 0, ex_reply := abi_GUEST_FAULT a, ex_fsc := (if permission then 15 else 7), ex_far := va\<rparr>"

definition expect :: "probe_abi \<Rightarrow> nat \<Rightarrow> nat \<Rightarrow> kind \<Rightarrow> expectation" where
  "expect a granule va k =
     (let data_va = va + 4 * granule; e = plain_expectation a granule data_va in case k of
        Scalar word width sign store \<Rightarrow>
          (let e = e\<lparr>ex_words := ex_words e @ [word]\<rparr> in
           if store then e else e\<lparr>ex_registers := (ex_registers e)[1 := scalar_value width sign]\<rparr>)
      | Pair mode failure load \<Rightarrow> expect_pair a granule data_va mode failure load e
      | Fetch permission \<Rightarrow> expect_fetch a va permission e
      | Unaligned store failure \<Rightarrow> expect_unaligned a granule data_va store failure e)"

subsection \<open>RAM and tables\<close>

definition is_unaligned :: "kind \<Rightarrow> bool" where
  "is_unaligned k = (case k of Unaligned _ _ \<Rightarrow> True | _ \<Rightarrow> False)"

definition mmu_image :: "nat \<Rightarrow> kind \<Rightarrow> nat list \<Rightarrow> u8 list \<Rightarrow> u8 list" where
  "mmu_image granule k words memory =
     (let ram = overwrite 0 (image_of (words @ [HLT])) memory;
          ram = overwrite (4 * granule) (le_bytes 8 SEED) ram;
          ram = overwrite (5 * granule - 8) (le_bytes 8 SEED) ram;
          ram = overwrite (9 * granule) (le_bytes 8 VALUE) ram
      in if is_unaligned k
         then overwrite (9 * granule) (drop 4 (le_bytes 8 SEED)) (overwrite (5 * granule - 4) (take 4 (le_bytes 8 SEED)) ram)
         else ram)"

definition mmu_expected_ram :: "nat \<Rightarrow> kind \<Rightarrow> u8 list \<Rightarrow> u8 list" where
  "mmu_expected_ram granule k ram = (case k of
     Scalar _ width _ store \<Rightarrow> if store then overwrite (4 * granule) (take width (le_bytes 8 VALUE)) ram else ram
   | Pair _ failure _ \<Rightarrow>
       if failure = 0 then overwrite (9 * granule) (le_bytes 8 PAIR1) (overwrite (5 * granule - 8) (le_bytes 8 PAIR0) ram) else ram
   | Fetch _ \<Rightarrow> ram
   | Unaligned store failure \<Rightarrow>
       if store \<and> failure = 0
       then overwrite (9 * granule) (drop 4 (le_bytes 8 VALUE)) (overwrite (5 * granule - 4) (take 4 (le_bytes 8 VALUE)) ram)
       else ram)"

definition mmu_maps :: "nat \<Rightarrow> nat \<Rightarrow> expectation \<Rightarrow> (nat \<times> nat) list" where
  "mmu_maps granule va e = [(va, ex_code e), (va + 4 * granule, (RAM_PA + 4 * granule) OR LEAF),
     (va + 4 * granule + granule, ex_second e)]"

definition mmu_tcr :: "nat \<Rightarrow> nat" where
  "mmu_tcr granule = (let tsz = translation_size granule in tsz OR push_bit 16 tsz OR granule_bits granule)"

definition mmu_controls :: "probe_abi \<Rightarrow> nat \<Rightarrow> kind \<Rightarrow> controls" where
  "mmu_controls a granule k = \<lparr>ct_abi_version = 2, ct_struct_size = 80,
     ct_profile = (if is_unaligned k then abi_PROFILE_FIXED_NC_UNALIGNED a else abi_PROFILE_FIXED_NC a),
     ct_sctlr = (if is_unaligned k then 0x30d00801 else 0x30d00803),
     ct_ttbr0 = TABLE_PA, ct_ttbr1 = TABLE_PA + granule, ct_tcr = mmu_tcr granule, ct_mair = 0x44, ct_epoch = 1\<rparr>"

subsection \<open>The judgement\<close>

definition expected_esr :: "probe_abi \<Rightarrow> expectation \<Rightarrow> nat" where
  "expected_esr a e =
     (if ex_reply e = abi_GUEST_FAULT a
      then if ex_status e = 16 then 0x86000000 OR ex_fsc e else 0x96000000 OR ex_fsc e OR (if ex_load e then 0 else 64)
      else 0)"

definition mmu_passed :: "probe_abi \<Rightarrow> nat \<Rightarrow> nat \<Rightarrow> expectation \<Rightarrow> u8 list \<Rightarrow> u8 list \<Rightarrow> outcome \<Rightarrow> bool" where
  "mmu_passed a va stack e expected_ram tables_before o' \<longleftrightarrow>
     (let base = px_base (on_result o'); execution = mr_execution base; state = br_base execution; reply = on_reply o';
          expected_pc = va + 4 * ex_retired e; faulted = (ex_reply e = abi_GUEST_FAULT a)
      in on_restored o' = 0 \<and> on_status o' = int (ex_status e) \<and> jr_status state = ex_status e
         \<and> mr_abi_version base = 2 \<and> mr_struct_size base = 320 \<and> mr_provider_status base = ex_provider e
         \<and> jr_retired state = ex_retired e \<and> jr_pc state = expected_pc
         \<and> jr_fault_instruction state = (if ex_status e = 17 then (ex_words e @ [HLT]) ! 1 else 0)
         \<and> [jr_x0 state, jr_x1 state, jr_x2 state, jr_x3 state] = ex_registers e
         \<and> br_sp execution = stack \<and> br_esr execution = expected_esr a e
         \<and> mr_guest_far base = (if faulted then ex_far e else 0)
         \<and> mr_fetch_requests base = ex_retired e + of_bool (ex_status e \<noteq> 1)
         \<and> mr_data_requests base = ex_data e \<and> mr_completed_data_operations base = ex_completed e
         \<and> (ex_retired e = 0 \<and> jr_compiled_blocks state = 0 \<or> ex_retired e > 0 \<and> jr_compiled_blocks state > 0)
         \<and> lr_result reply = unat (ex_reply e) \<and> px_fsc (on_result o') = ex_fsc e
         \<and> (\<not> faulted \<or> lr_level reply = 3 \<and> br_elr execution = expected_pc \<and> br_spsr execution = 0x3c5)
         \<and> (ex_reply e = abi_OK a \<or> lr_address reply = ex_far e)
         \<and> (ex_reply e = abi_OK a \<or> mr_last_address base = ex_far e)
         \<and> on_ram o' = expected_ram \<and> on_tables o' = tables_before)"

definition mmu_lines :: "probe_case \<Rightarrow> nat \<Rightarrow> bool \<Rightarrow> nat \<Rightarrow> expectation \<Rightarrow> u8 list \<Rightarrow> u8 list \<Rightarrow> outcome \<Rightarrow> bool \<Rightarrow> line list" where
  "mmu_lines c granule upper va e expected_ram tables_before o' passed =
     (let base = px_base (on_result o'); execution = mr_execution base; state = br_base execution; reply = on_reply o' in
      (''NXMMU: CASE'', [RText (cs_name c), RNat granule, RBool upper, status_value (on_status o'),
         RNat (mr_provider_status base), RNat (jr_retired state), RNat (jr_compiled_blocks state), RNat (mr_fetch_requests base),
         RNat (mr_data_requests base), RNat (mr_completed_data_operations base), RNat (br_esr execution),
         RNat (mr_guest_far base), RNat (lr_result reply), RNat (px_fsc (on_result o')), RBool passed])
      # (if passed then [] else
         [(''NXMMU: MISMATCH_ABI'', [RNat (mr_abi_version base), RNat (mr_struct_size base), RNat (jr_fault_instruction state),
             RNat (br_elr execution), RNat (br_spsr execution), RNat (br_sp execution), RNat (mr_last_address base),
             RNat (lr_level reply), RNat (lr_context reply), status_value (on_restored o')]),
          (''NXMMU: MISMATCH'', [RNat (jr_pc state), RNat (va + 4 * ex_retired e)]
             @ map RNat [jr_x0 state, jr_x1 state, jr_x2 state, jr_x3 state] @ map RNat (ex_registers e)
             @ [RBool (on_ram o' = expected_ram), RBool (on_tables o' = tables_before)])]))"

definition mmu_case :: "'w firmware \<Rightarrow> 'w jit_host \<Rightarrow> 'm probe_core \<Rightarrow> probe_abi \<Rightarrow> nat \<Rightarrow> nat \<times> bool \<times> probe_case
    \<Rightarrow> ('w, status fault + unit) op" where
  "mmu_case fw jh pc a n = (\<lambda>(granule, upper, c).
     case_pages fw (16 * granule) LOADER_DATA (\<lambda>ram tables code.
       let va = (if upper then HIGH else LOW); k = cs_kind c; e = expect a granule va k;
           image = mmu_image granule k (ex_words e) (ap_memory ram); expected_ram = mmu_expected_ram granule k image in
       with_tables (build (\<lambda>(va, d). map_va TABLE_PA va d) (mmu_maps granule va e)
           \<lparr>tb_bytes = ap_memory tables, tb_granule = granule, tb_next = 2\<rparr>) (\<lambda>_ bt.
         let stack = va + 4 * granule + 2 * granule;
             passed = mmu_passed a va stack e expected_ram (tb_bytes bt)
         in judged (run_engine fw jh pc image (tb_bytes bt) code (mmu_controls a granule k) Inr
              (probe_arguments granule va stack code 16 (ex_initial e) 0x3c5)) fw
            (\<lambda>o'. mmu_lines c granule upper va e expected_ram (tb_bytes bt) o' (passed o')) passed)))"

definition mmu_kinds :: "probe_case list" where
  "mmu_kinds = SCALARS
     @ map (\<lambda>(mode, name). \<lparr>cs_name = name, cs_kind = Pair mode 0 False\<rparr>)
         [(0, ''pair-offset''), (1, ''pair-pre''), (2, ''pair-post'')]
     @ concat (map (\<lambda>(failure, store, load). [\<lparr>cs_name = store, cs_kind = Pair 0 failure False\<rparr>,
           \<lparr>cs_name = load, cs_kind = Pair 0 failure True\<rparr>])
         [(1, ''pair-store-translation'', ''pair-load-translation''), (2, ''pair-store-af'', ''pair-load-af''),
          (4, ''pair-store-backing'', ''pair-load-backing''), (5, ''pair-store-attribute'', ''pair-load-attribute'')])
     @ [\<lparr>cs_name = ''pair-store-permission'', cs_kind = Pair 0 3 False\<rparr>,
        \<lparr>cs_name = ''fetch-translation'', cs_kind = Fetch False\<rparr>,
        \<lparr>cs_name = ''fetch-permission'', cs_kind = Fetch True\<rparr>]
     @ concat (map (\<lambda>(failure, store, load). [\<lparr>cs_name = store, cs_kind = Unaligned True failure\<rparr>,
           \<lparr>cs_name = load, cs_kind = Unaligned False failure\<rparr>])
         [(0, ''unaligned-store'', ''unaligned-load''), (1, ''unaligned-store-translation'', ''unaligned-load-translation''),
          (2, ''unaligned-store-af'', ''unaligned-load-af''), (4, ''unaligned-store-backing'', ''unaligned-load-backing''),
          (5, ''unaligned-store-attribute'', ''unaligned-load-attribute'')])
     @ [\<lparr>cs_name = ''unaligned-store-permission'', cs_kind = Unaligned True 3\<rparr>]"

definition mmu_cases :: "(nat \<times> bool \<times> probe_case) list" where
  "mmu_cases = concat (map (\<lambda>granule. concat (map (\<lambda>upper. map (\<lambda>c. (granule, upper, c)) mmu_kinds) [False, True])) [4096, 16384])"

definition mmu_main :: "bool \<Rightarrow> bool \<Rightarrow> 'w firmware \<Rightarrow> 'w jit_host \<Rightarrow> 'm probe_core \<Rightarrow> probe_abi \<Rightarrow> ('w, status fault + status) op" where
  "mmu_main initialized x86_64 fw jh pc a = probe_main initialized x86_64 fw ''NXMMU: ENTRY''
     (run_cases fw ''NXMMU: PASS'' ''NXMMU: FAIL'' (mmu_case fw jh pc a) 0 mmu_cases)"

subsection \<open>The cases\<close>

lemma scalar_decodes:
  shows "decode 0x39000001 = Some (Transfer 0 1 0 0 1)"
    and "decode 0x39400001 = Some (Transfer 1 1 0 0 1)"
    and "decode 0x39c00001 = Some (Transfer 3 1 0 0 1)"
    and "decode 0x39800001 = Some (Transfer 2 1 0 0 1)"
    and "decode 0x79000001 = Some (Transfer 0 2 0 0 1)"
    and "decode 0x79400001 = Some (Transfer 1 2 0 0 1)"
    and "decode 0x79c00001 = Some (Transfer 3 2 0 0 1)"
    and "decode 0x79800001 = Some (Transfer 2 2 0 0 1)"
    and "decode 0xb9000001 = Some (Transfer 0 4 0 0 1)"
    and "decode 0xb9400001 = Some (Transfer 1 4 0 0 1)"
    and "decode 0xb9800001 = Some (Transfer 2 4 0 0 1)"
    and "decode 0xf9000001 = Some (Transfer 0 8 0 0 1)"
    and "decode 0xf9400001 = Some (Transfer 1 8 0 0 1)"
  by (simp_all add: decode_def)

lemma scalar_values:
  "scalar_value 1 0 = 0x80" "scalar_value 1 32 = 0xffffff80" "scalar_value 1 64 = 0xffffffffffffff80"
  "scalar_value 2 0 = 0xaa80" "scalar_value 2 32 = 0xffffaa80" "scalar_value 2 64 = 0xffffffffffffaa80"
  "scalar_value 4 0 = 0xffeeaa80" "scalar_value 4 64 = 0xffffffffffeeaa80" "scalar_value 8 0 = 0x88776655ffeeaa80"
  by (simp_all add: scalar_value_def SEED_def push_bit_eq_mult)

text \<open>A row of the table of loads and stores: the instruction that its word encodes.\<close>

definition encodes :: "kind \<Rightarrow> bool" where
  "encodes k = (case k of
     Scalar word width sign store \<Rightarrow>
       word < 2 ^ 32 \<and> width \<in> set [1, 2, 4, 8]
       \<and> (case decode word of
            Some (Transfer opc n imm b r) \<Rightarrow> n = width \<and> imm = 0 \<and> b = 0 \<and> r = 1 \<and> store = (opc = 0) \<and> sign = extension opc
          | _ \<Rightarrow> False)
       \<and> scalar_value width sign = extended sign width (SEED mod 2 ^ (8 * width))
   | _ \<Rightarrow> False)"

lemma scalars_encode: "list_all (\<lambda>c. encodes (cs_kind c)) SCALARS"
  unfolding SCALARS_def list.pred_inject probe_case.select_convs encodes_def kind.case scalar_decodes option.case
    instruction.case scalar_values
  by (simp add: extension_def extended_def SEED_def)

lemma scalar_row:
  assumes "c \<in> set SCALARS" "cs_kind c = Scalar word width sign store"
  obtains opc where "decode word = Some (Transfer opc width 0 0 1)" "store = (opc = 0)" "sign = extension opc"
    "width \<in> {1, 2, 4, 8}" "word < 2 ^ 32" "scalar_value width sign = extended sign width (SEED mod 2 ^ (8 * width))"
proof -
  have "encodes (Scalar word width sign store)" using scalars_encode assms by (metis list_all_iff)
  then show thesis by (auto simp: encodes_def intro: that split: option.splits instruction.splits)
qed

lemma mmu_kind_values:
  assumes "c \<in> set mmu_kinds"
  shows "case cs_kind c of Scalar word width sign store \<Rightarrow> c \<in> set SCALARS
     | Pair mode failure load \<Rightarrow> failure \<le> 5 \<and> (failure = 3 \<longrightarrow> \<not> load) \<and> mode \<le> 2 \<and> (failure = 0 \<or> mode = 0)
     | Fetch permission \<Rightarrow> True
     | Unaligned store failure \<Rightarrow> failure \<le> 5 \<and> (failure = 3 \<longrightarrow> store)" (is "?P c")
proof (cases "c \<in> set SCALARS")
  case True
  then have "encodes (cs_kind c)" using scalars_encode by (auto simp: list_all_iff)
  with True show ?thesis by (auto simp: encodes_def split: kind.splits)
next
  case False
  have "list_all (\<lambda>c. c \<in> set SCALARS \<or> ?P c) mmu_kinds"
    unfolding mmu_kinds_def list_all_append
    by (intro conjI) (simp_all add: list_all_iff [of _ SCALARS])
  with assms False show ?thesis by (auto simp: list_all_iff)
qed

lemma mmu_case_values:
  "(granule, upper, c) \<in> set mmu_cases \<Longrightarrow> granule \<in> {4096, 16384} \<and> c \<in> set mmu_kinds"
  unfolding mmu_cases_def by auto

lemma take_le_bytes: "n \<le> m \<Longrightarrow> take n (le_bytes m v) = le_bytes n v"
proof (induction n arbitrary: m v)
  case (Suc n)
  then show ?case by (cases m) auto
qed simp

text \<open>The RAM of a case.\<close>

lemma overwrite_part:
  assumes "at + length bs \<le> length ram" "at \<le> a" "b \<le> at + length bs"
  shows "subrange a b (overwrite at bs ram) = subrange (a - at) (b - at) bs"
  by (rule nth_equalityI) (use assms in \<open>auto simp: length_subrange nth_subrange nth_overwrite\<close>)

definition word_list :: "nat list \<Rightarrow> bool" where
  "word_list ws \<longleftrightarrow> length ws \<le> 4 \<and> list_all (\<lambda>w. w < 2 ^ 32) ws"

lemma mmu_image:
  assumes g: "granule \<in> {4096, 16384}" and w: "word_list ws"
    and image: "ram = mmu_image granule k ws (replicate (16 * granule) 0)"
  shows "length ram = 16 * granule" "holds_words ram 0 (ws @ [HLT])"
    "subrange (4 * granule) (4 * granule + 8) ram = le_bytes 8 SEED"
    "is_unaligned k \<Longrightarrow> subrange (5 * granule - 4) (5 * granule) ram = take 4 (le_bytes 8 SEED)"
    "is_unaligned k \<Longrightarrow> subrange (9 * granule) (9 * granule + 4) ram = drop 4 (le_bytes 8 SEED)"
proof -
  let ?n = "16 * granule"
  have g': "4096 \<le> granule" using g by auto
  have lw: "4 * length (ws @ [HLT]) \<le> 4096" "list_all (\<lambda>w. w < 2 ^ 32) (ws @ [HLT])"
    using w by (auto simp: word_list_def HLT_def)
  define r1 where "r1 = overwrite 0 (image_of (ws @ [HLT])) (replicate ?n 0)"
  define r2 where "r2 = overwrite (4 * granule) (le_bytes 8 SEED) r1"
  define r3 where "r3 = overwrite (5 * granule - 8) (le_bytes 8 SEED) r2"
  define r4 where "r4 = overwrite (9 * granule) (le_bytes 8 VALUE) r3"
  define r5 where "r5 = overwrite (5 * granule - 4) (take 4 (le_bytes 8 SEED)) r4"
  define r6 where "r6 = overwrite (9 * granule) (drop 4 (le_bytes 8 SEED)) r5"
  have ram: "ram = (if is_unaligned k then r6 else r4)"
    by (simp add: image mmu_image_def r1_def r2_def r3_def r4_def r5_def r6_def Let_def)
  have l1: "length r1 = ?n" unfolding r1_def using lw g' by (subst length_overwrite) simp_all
  have l2: "length r2 = ?n" unfolding r2_def using l1 g' by (subst length_overwrite) simp_all
  have l3: "length r3 = ?n" unfolding r3_def using l2 g' by (subst length_overwrite) simp_all
  have l4: "length r4 = ?n" unfolding r4_def using l3 g' by (subst length_overwrite) simp_all
  have l5: "length r5 = ?n" unfolding r5_def using l4 g' by (subst length_overwrite) simp_all
  have l6: "length r6 = ?n" unfolding r6_def using l5 g' by (subst length_overwrite) simp_all
  show "length ram = 16 * granule" using l4 l6 by (simp add: ram)
  have h1: "holds_words r1 0 (ws @ [HLT])" unfolding r1_def using lw g' by (intro holds_words_overwrite) simp_all
  have h4: "holds_words r4 0 (ws @ [HLT])" unfolding r4_def r3_def r2_def
    using h1 l1 l2 l3 lw g' by (intro holds_words_keep) (simp_all add: r2_def [symmetric] r3_def [symmetric])
  have h6: "holds_words r6 0 (ws @ [HLT])" unfolding r6_def r5_def
    using h4 l4 l5 lw g' by (intro holds_words_keep) (simp_all add: r5_def [symmetric])
  show "holds_words ram 0 (ws @ [HLT])" using h4 h6 by (simp add: ram)
  have s2: "subrange (4 * granule) (4 * granule + 8) r2 = le_bytes 8 SEED"
    unfolding r2_def using subrange_overwrite_same [of "4 * granule" "le_bytes 8 SEED" r1] l1 g' by simp
  have s4: "subrange (4 * granule) (4 * granule + 8) r4 = subrange (4 * granule) (4 * granule + 8) r2"
    unfolding r4_def r3_def using l2 l3 g' by (simp add: r3_def subrange_overwrite_other)
  have s6: "subrange (4 * granule) (4 * granule + 8) r6 = subrange (4 * granule) (4 * granule + 8) r4"
    unfolding r6_def r5_def using l4 l5 g' by (simp add: r5_def subrange_overwrite_other)
  show "subrange (4 * granule) (4 * granule + 8) ram = le_bytes 8 SEED" using s2 s4 s6 by (simp add: ram)
  assume u: "is_unaligned k"
  have "subrange (5 * granule - 4) (5 * granule) r5 = take 4 (le_bytes 8 SEED)"
    unfolding r5_def using subrange_overwrite_same [of "5 * granule - 4" "take 4 (le_bytes 8 SEED)" r4] l4 g' by simp
  moreover have "subrange (5 * granule - 4) (5 * granule) r6 = subrange (5 * granule - 4) (5 * granule) r5"
    unfolding r6_def using l5 g' by (intro subrange_overwrite_other) simp_all
  ultimately show "subrange (5 * granule - 4) (5 * granule) ram = take 4 (le_bytes 8 SEED)" using u by (simp add: ram)
  show "subrange (9 * granule) (9 * granule + 4) ram = drop 4 (le_bytes 8 SEED)"
    unfolding ram r6_def using u subrange_overwrite_same [of "9 * granule" "drop 4 (le_bytes 8 SEED)" r5] l5 g' by simp
qed

subsection \<open>The outcome of a case\<close>

text \<open>
  What a case expects agrees with how a reference run ended: the registers, RAM and counts, and,
  where the run did not come to its end, the cause and the address of the fault.
\<close>

definition announces :: "probe_abi \<Rightarrow> nat \<Rightarrow> expectation \<Rightarrow> u8 list \<Rightarrow> guest_end \<times> guest_cpu \<Rightarrow> bool" where
  "announces a va e expected_ram = (\<lambda>(stop, c).
     gc_x c = ex_registers e \<and> gc_ram c = expected_ram \<and> gc_retired c = ex_retired e \<and> gc_pc c = va + 4 * ex_retired e
     \<and> gc_fetches c = ex_retired e + of_bool (ex_status e \<noteq> 1) \<and> gc_data c = ex_data e \<and> gc_completed c = ex_completed e
     \<and> (case stop of
          Halted \<Rightarrow> ex_status e = 1 \<and> ex_reply e = abi_OK a \<and> ex_provider e = 0 \<and> ex_fsc e = 0
        | Aborted fetch far r \<Rightarrow> ex_far e = far \<and> (case r of
              Fault code \<Rightarrow> ex_status e = (if fetch then 16 else 17) \<and> ex_reply e = abi_GUEST_FAULT a \<and> ex_fsc e = code \<and> ex_provider e = 0
            | No_backing \<Rightarrow> ex_status e = 4 \<and> ex_reply e = abi_UNAVAILABLE a \<and> ex_fsc e = 0 \<and> ex_provider e = 5
            | Unsupported_attribute \<Rightarrow> ex_status e = 4 \<and> ex_reply e = abi_UNSUPPORTED a \<and> ex_fsc e = 0 \<and> ex_provider e = 1
            | Through \<Rightarrow> False)
        | _ \<Rightarrow> False))"

definition first_leaf :: "nat \<Rightarrow> nat" where "first_leaf granule = (RAM_PA + 4 * granule) OR LEAF"

text \<open>The leaves of the cases.\<close>

lemma second_page_access:
  assumes "granule \<in> {4096, 16384}" "failure \<le> 5" "failure = 3 \<longrightarrow> store"
  defines "d \<equiv> failure_descriptor failure ((RAM_PA + 9 * granule) OR LEAF)"
  shows "d < 2 ^ 64" "page_access granule RAM_PA (16 * granule) False store d = (if failure = 0 then Through else if failure = 1 then Fault 7
     else if failure = 2 then Fault 11 else if failure = 3 then Fault 15 else if failure = 4 then No_backing else Unsupported_attribute)"
proof -
  have f: "failure \<in> {0, 1, 2, 3, 4, 5}" using assms(2) by auto
  then show "d < 2 ^ 64"
    using assms(1) unfolding d_def failure_descriptor_def probe_constants
    by (elim insertE emptyE) (simp_all add: push_bit_eq_mult)
  have "granule = 4096 \<or> granule = 16384" using assms(1) by simp
  then show "page_access granule RAM_PA (16 * granule) False store d = (if failure = 0 then Through else if failure = 1 then Fault 7
     else if failure = 2 then Fault 11 else if failure = 3 then Fault 15 else if failure = 4 then No_backing else Unsupported_attribute)"
    using f assms(3) unfolding d_def failure_descriptor_def page_access_def leaf_output_def probe_constants
    by (elim disjE insertE emptyE; hypsubst; simp add: push_bit_eq_mult)
qed

lemma plain_page_access:
  assumes "granule \<in> {4096, 16384}"
  shows "page_access granule RAM_PA (16 * granule) fetch store (first_leaf granule) = Through"
    "page_access granule RAM_PA (16 * granule) fetch store (RAM_PA OR LEAF) = Through"
    "page_access granule RAM_PA (16 * granule) fetch store ((RAM_PA + 9 * granule) OR LEAF) = Through"
    "page_access granule RAM_PA (16 * granule) fetch store 0 = Fault 7"
    "page_access granule RAM_PA (16 * granule) True store (RAM_PA OR LEAF OR push_bit 53 1) = Fault 15"
    "leaf_output (first_leaf granule) = RAM_PA + 4 * granule" "leaf_output (RAM_PA OR LEAF) = RAM_PA + 0"
    "leaf_output ((RAM_PA + 9 * granule) OR LEAF) = RAM_PA + 9 * granule"
    "RAM_PA OR LEAF < 2 ^ 64" "RAM_PA OR LEAF OR push_bit 53 1 < 2 ^ 64" "(RAM_PA + 9 * granule) OR LEAF < 2 ^ 64"
    "first_leaf granule < 2 ^ 64"
  using assms by (auto simp: page_access_def leaf_output_def first_leaf_def probe_constants push_bit_eq_mult)

lemma expect_leaves:
  assumes "granule \<in> {4096, 16384}" "c \<in> set mmu_kinds"
  shows "ex_code (expect a granule va (cs_kind c)) < 2 ^ 64" "ex_second (expect a granule va (cs_kind c)) < 2 ^ 64"
proof -
  note K = mmu_kind_values [OF assms(2)] and L = plain_page_access [OF assms(1)]
  have second: "failure_descriptor failure ((RAM_PA + 9 * granule) OR LEAF) < 2 ^ 64" if "failure \<le> 5" for failure
    by (rule second_page_access(1) [OF assms(1) that, of True]) simp
  note defs = expect_def Let_def plain_expectation_def expect_pair_def expect_unaligned_def expect_fetch_def expect_failure_def
  show "ex_code (expect a granule va (cs_kind c)) < 2 ^ 64"
    using L(9,10) by (cases "cs_kind c") (simp_all add: defs)
  show "ex_second (expect a granule va (cs_kind c)) < 2 ^ 64"
    using K L(11) second by (cases "cs_kind c") (simp_all add: defs)
qed

text \<open>The tables of a case, read through the walk.\<close>

lemma mmu_pages:
  assumes "granule \<in> {4096, 16384}" "va \<in> {LOW, HIGH}"
  shows "page_of granule va \<noteq> page_of granule (va + 4 * granule)" "page_of granule va \<noteq> page_of granule (va + 5 * granule)"
    "page_of granule (va + 4 * granule) \<noteq> page_of granule (va + 5 * granule)" "va mod granule = 0"
  using assms by (auto simp: page_of_def root_number_def page_bits_def index_bits_def depth_def start_level_def probe_constants)

lemma mmu_build:
  assumes g: "granule \<in> {4096, 16384}" and va: "va \<in> {LOW, HIGH}" and d: "ex_code e < 2 ^ 64" "ex_second e < 2 ^ 64"
  obtains t where "build (\<lambda>(va, d). map_va TABLE_PA va d) (mmu_maps granule va e) (empty_tables granule 16) = (Inr (), t)"
    "maps_page granule (translate 0x0000fffffffff000 TABLE_PA t) va (ex_code e)"
    "maps_page granule (translate 0x0000fffffffff000 TABLE_PA t) (va + 4 * granule) (first_leaf granule)"
    "maps_page granule (translate 0x0000fffffffff000 TABLE_PA t) (va + 5 * granule) (ex_second e)"
proof -
  have "\<exists>t. build (\<lambda>(va, d). map_va TABLE_PA va d) (mmu_maps granule va e) (empty_tables granule 16) = (Inr (), t)
    \<and> (\<forall>v. translate 0x0000fffffffff000 TABLE_PA t v
         = requested_leaf (\<lambda>(va, d). page_of granule va) snd (mmu_maps granule va e) (page_of granule v) 0)"
    by (rule build_from_empty) (use g d in \<open>auto simp: mmu_maps_def probe_constants depth_def start_level_def\<close>)
  then obtain t where t: "build (\<lambda>(va, d). map_va TABLE_PA va d) (mmu_maps granule va e) (empty_tables granule 16) = (Inr (), t)"
    "\<And>v. translate 0x0000fffffffff000 TABLE_PA t v
         = requested_leaf (\<lambda>(va, d). page_of granule va) snd (mmu_maps granule va e) (page_of granule v) 0" by auto
  note P = mmu_pages [OF g va]
  have m: "mmu_maps granule va e = [(va, ex_code e), (va + 4 * granule, first_leaf granule), (va + 5 * granule, ex_second e)]"
    by (simp add: mmu_maps_def first_leaf_def)
  have o': "page_of granule (v + i) = page_of granule v" if "v mod granule = 0" "i < granule" for v i
    by (rule page_of_offset [OF g that])
  have z: "(va + 4 * granule) mod granule = 0" "(va + 5 * granule) mod granule = 0" using P(4) by (simp_all add: mod_eq_0_iff_dvd)
  show thesis
    by (rule that [OF t(1)]) (simp_all add: maps_page_def t(2) m o' P(4) z P(1-3) P(1-3) [symmetric])
qed

subsection \<open>The runs\<close>

abbreviation mmu_walk :: "nat \<Rightarrow> (nat \<Rightarrow> nat) \<Rightarrow> nat \<Rightarrow> walk" where
  "mmu_walk granule leaf \<equiv> \<lambda>control. page_walk granule RAM_PA (16 * granule) leaf"

lemma mmu_walks:
  assumes g: "granule \<in> {4096, 16384}"
  shows "maps_page granule leaf va (RAM_PA OR LEAF) \<Longrightarrow> i < granule \<Longrightarrow>
      page_walk granule RAM_PA (16 * granule) leaf True False (va + i) = Inr i"
    "maps_page granule leaf (va + 4 * granule) (first_leaf granule) \<Longrightarrow> i < granule \<Longrightarrow>
      page_walk granule RAM_PA (16 * granule) leaf False store (va + 4 * granule + i) = Inr (4 * granule + i)"
    "maps_page granule leaf (va + 5 * granule) ((RAM_PA + 9 * granule) OR LEAF) \<Longrightarrow> i < granule \<Longrightarrow>
      page_walk granule RAM_PA (16 * granule) leaf False store (va + 5 * granule + i) = Inr (9 * granule + i)"
  using page_walk_page [of granule leaf va "RAM_PA OR LEAF" RAM_PA "16 * granule" True False 0 i]
    page_walk_page [of granule leaf "va + 4 * granule" "first_leaf granule" RAM_PA "16 * granule" False store "4 * granule" i]
    page_walk_page [of granule leaf "va + 5 * granule" "(RAM_PA + 9 * granule) OR LEAF" RAM_PA "16 * granule" False store "9 * granule" i]
    plain_page_access [OF g] by simp_all

text \<open>Programs of a case: the first word is done, and the word before the halt comes to its end or stops.\<close>

lemma decode_ends: "decode KEEP_X1 = Some (Add_Immediate 1 1 0)" "decode HLT = Some Halts"
  by (simp_all add: decode_def KEEP_X1_def HLT_def)

lemma runs_halt:
  assumes "program_at tr va m ram off (ws @ [HLT])" "length ws = n" "guest_step tr c = (None, at_word xs va n m ram d q)"
  shows "guest_runs tr 2 c = (Halted, at_word xs va (n + 1) m ram d q)"
proof -
  have "guest_step tr (at_word xs va n m ram d q) = (Some Halted, at_word xs va (n + 1) m ram d q)"
    by (rule at_halt [OF assms(1)]) (use assms(2) in \<open>auto simp: nth_append decode_ends\<close>)
  with assms(3) show ?thesis by (simp add: numeral_2_eq_2)
qed

lemma runs_keep:
  assumes "program_at tr va m ram off (KEEP_X1 # ws)" "length xs = 4" "xs ! 1 < 2 ^ 64"
  shows "guest_runs tr 3 (at_word xs va 0 m ram d q) = guest_runs tr 2 (at_word xs va 1 m ram d q)"
    "guest_runs tr 4 (at_word xs va 0 m ram d q) = guest_runs tr 3 (at_word xs va 1 m ram d q)"
proof -
  have "guest_step tr (at_word xs va 0 m ram d q) = (None, at_word xs va 1 m ram d q)"
    using at_plain(2) [OF assms(1), of 0 "Add_Immediate 1 1 0" xs 1 1 0 d q] assms(2,3) by (simp add: decode_ends)
  moreover have "(3 :: nat) = Suc 2" "(4 :: nat) = Suc 3" by simp_all
  ultimately show "guest_runs tr 3 (at_word xs va 0 m ram d q) = guest_runs tr 2 (at_word xs va 1 m ram d q)"
    "guest_runs tr 4 (at_word xs va 0 m ram d q) = guest_runs tr 3 (at_word xs va 1 m ram d q)" by (simp_all only: guest_runs_step)
qed

lemma mmu_program:
  assumes g: "granule \<in> {4096, 16384}" and code: "maps_page granule leaf va (RAM_PA OR LEAF)"
    and ws: "word_list ws" and ram: "ram = mmu_image granule k ws (replicate (16 * granule) 0)"
  shows "program_at (mmu_walk granule leaf) va m ram 0 (ws @ [HLT])"
proof -
  have "page_walk granule RAM_PA (16 * granule) leaf True False (va + i) = Inr i" if "i < 4 * length (ws @ [HLT])" for i
    by (rule mmu_walks(1) [OF g code]) (use that ws g in \<open>auto simp: word_list_def\<close>)
  with mmu_image(2) [OF g ws ram] show ?thesis by (simp add: program_at_def)
qed

lemma scalar_runs:
  assumes g: "granule \<in> {4096, 16384}" and code: "maps_page granule leaf va (RAM_PA OR LEAF)"
    and data: "maps_page granule leaf (va + 4 * granule) (first_leaf granule)"
    and c: "c \<in> set SCALARS" and k: "cs_kind c = Scalar word width sign store"
    and e: "e = expect a granule va (cs_kind c)"
    and ram: "ram = mmu_image granule (cs_kind c) (ex_words e) (replicate (16 * granule) 0)"
  shows "announces a va e (mmu_expected_ram granule (cs_kind c) ram)
    (guest_runs (mmu_walk granule leaf) 3 (at_word (ex_initial e) va 0 m ram 0 0))"
proof -
  obtain opc where O: "decode word = Some (Transfer opc width 0 0 1)" "store = (opc = 0)" "sign = extension opc"
    "width \<in> {1, 2, 4, 8}" "word < 2 ^ 32" "scalar_value width sign = extended sign width (SEED mod 2 ^ (8 * width))"
    by (rule scalar_row [OF c k])
  let ?tr = "mmu_walk granule leaf" let ?xs = "[va + 4 * granule, VALUE, PAIR0, PAIR1]"
  have E: "ex_words e = [KEEP_X1, word]" "ex_initial e = ?xs"
    by (simp_all add: e k expect_def plain_expectation_def Let_def)
  have w: "word_list (ex_words e)" using O(5) by (simp add: E word_list_def KEEP_X1_def)
  note I = mmu_image [OF g w ram]
  have P: "program_at ?tr va m ram 0 [KEEP_X1, word, HLT]"
    using mmu_program [OF g code w ram, of m] by (simp add: E)
  have g8: "4 * granule + width \<le> 16 * granule" "width \<le> granule" "width \<le> 8" "20 \<le> 4 * granule" using O(4) g by auto
  have offs: "offsets (?tr m False (opc = 0)) (?xs ! 0 + 0) width = Inr [4 * granule..<4 * granule + width]"
    by (rule offsets_linear) (use mmu_walks(2) [OF g data] g8 in simp)
  let ?ram = "if opc = 0 then overwrite (4 * granule) (le_bytes width VALUE) ram else ram"
  let ?ys = "if opc = 0 then ?xs else ?xs[1 := scalar_value width sign]"
  have "subrange (4 * granule) (4 * granule + width) ram = take width (subrange (4 * granule) (4 * granule + 8) ram)"
    using g8 by (simp add: subrange_def min_def)
  then have "le_nat (gather [4 * granule..<4 * granule + width] ram) = SEED mod 2 ^ (8 * width)"
    using g8 I(1,3) by (simp add: gather_upt take_le_bytes le_nat_le_bytes power_mult)
  moreover have "scatter [4 * granule..<4 * granule + width] (le_bytes width VALUE) ram = overwrite (4 * granule) (le_bytes width VALUE) ram"
    using scatter_upt [of "4 * granule" "le_bytes width VALUE" ram] g8 I(1) by simp
  ultimately have s: "guest_step ?tr (at_word ?xs va 1 m ram 0 0) = (None, at_word ?ys va 2 m ?ram 1 1)"
    using at_transfer(1) [OF P _ _ _ _ offs, of 1 1 0 0] O by (simp add: numeral_2_eq_2)
  have P': "program_at ?tr va m ?ram 0 ([KEEP_X1, word] @ [HLT])"
    using program_at_keep [OF P, of "4 * granule" "le_bytes width VALUE"] P g8 I(1) by simp
  have "guest_runs ?tr 3 (at_word ?xs va 0 m ram 0 0) = (Halted, at_word ?ys va 3 m ?ram 1 1)"
  proof -
    have "guest_runs ?tr 3 (at_word ?xs va 0 m ram 0 0) = guest_runs ?tr 2 (at_word ?xs va 1 m ram 0 0)"
      by (rule runs_keep(1) [OF P]) (simp_all add: VALUE_def)
    with runs_halt [OF P' _ s] show ?thesis by simp
  qed
  then show ?thesis
    unfolding E using O(2) g8(3) by (simp add: announces_def at_word_def e k expect_def plain_expectation_def Let_def mmu_expected_ram_def take_le_bytes)
qed

lemma fetch_runs:
  assumes g: "granule \<in> {4096, 16384}" and code: "maps_page granule leaf va (ex_code e)"
    and k: "cs_kind c = Fetch permission" and e: "e = expect a granule va (cs_kind c)"
  shows "announces a va e (mmu_expected_ram granule (cs_kind c) ram)
    (guest_runs (mmu_walk granule leaf) 3 (at_word (ex_initial e) va 0 m ram 0 0))"
proof -
  let ?r = "Fault (if permission then 15 else 7)"
  have d: "ex_code e = (if permission then RAM_PA OR LEAF OR push_bit 53 1 else 0)"
    by (simp add: e k expect_def expect_fetch_def Let_def)
  have "page_access granule RAM_PA (16 * granule) True False (ex_code e) = ?r"
    using plain_page_access(4,5) [OF g] by (simp add: d)
  then have "page_walk granule RAM_PA (16 * granule) leaf True False va = Inl ?r"
    by (intro page_walk_unmapped [OF code]) (use g in auto)
  then have "guest_step (mmu_walk granule leaf) (at_word (ex_initial e) va 0 m ram 0 0)
      = (Some (Aborted True va ?r), at_word (ex_initial e) va 0 m ram 0 0\<lparr>gc_fetches := 1\<rparr>)"
    using guest_step_fault [of "mmu_walk granule leaf" "at_word (ex_initial e) va 0 m ram 0 0"] by (simp add: at_word_def)
  then show ?thesis
    by (simp add: numeral_3_eq_3 announces_def at_word_def e k expect_def expect_fetch_def plain_expectation_def Let_def mmu_expected_ram_def)
qed

text \<open>Transfers that stop at the second page.\<close>

lemma second_fault_runs:
  assumes g: "granule \<in> {4096, 16384}" and code: "maps_page granule leaf va (RAM_PA OR LEAF)"
    and data: "maps_page granule leaf (va + 4 * granule) (first_leaf granule)"
    and second: "maps_page granule leaf (va + 5 * granule) (failure_descriptor failure ((RAM_PA + 9 * granule) OR LEAF))"
    and f: "failure \<le> 5" "failure \<noteq> 0" "failure = 3 \<longrightarrow> store"
    and P: "program_at (mmu_walk granule leaf) va m ram 0 (KEEP_X1 # ws)" and xs: "length xs = 4" "xs ! 1 < 2 ^ 64"
    and w: "w \<le> granule" "0 < w" "0 < n"
    and step: "\<And>far r. offsets (page_walk granule RAM_PA (16 * granule) leaf False store) (va + 5 * granule - w) (w + n) = Inl (far, r) \<Longrightarrow>
      guest_step (mmu_walk granule leaf) (at_word xs va 1 m ram 0 0)
        = (Some (Aborted False far r), at_word xs va 1 m ram 1 0\<lparr>gc_fetches := 2\<rparr>)"
  shows "guest_runs (mmu_walk granule leaf) 3 (at_word xs va 0 m ram 0 0)
    = (Aborted False (va + 5 * granule) (if failure = 1 then Fault 7 else if failure = 2 then Fault 11 else if failure = 3 then Fault 15
         else if failure = 4 then No_backing else Unsupported_attribute), at_word xs va 1 m ram 1 0\<lparr>gc_fetches := 2\<rparr>)"
proof -
  let ?r = "if failure = 1 then Fault 7 else if failure = 2 then Fault 11 else if failure = 3 then Fault 15
         else if failure = 4 then No_backing else Unsupported_attribute"
  let ?tr = "page_walk granule RAM_PA (16 * granule) leaf False store"
  have "page_access granule RAM_PA (16 * granule) False store (failure_descriptor failure ((RAM_PA + 9 * granule) OR LEAF)) = ?r"
    using second_page_access(2) [OF g f(1,3)] f(2) by simp
  then have s: "?tr (va + 5 * granule) = Inl ?r"
    by (intro page_walk_unmapped [OF second]) (use g in auto)
  have a: "va + 5 * granule - w + w = va + 5 * granule" using w(1) g by simp
  have "offsets ?tr (va + 5 * granule - w) (w + n) = Inl (va + 5 * granule - w + w, ?r)"
  proof (rule offsets_across_fault [where a = "5 * granule - w"])
    fix i assume i: "i < w"
    have eq: "va + 5 * granule - w + i = va + 4 * granule + (granule - w + i)" "5 * granule - w + i = 4 * granule + (granule - w + i)"
      and j: "granule - w + i < granule" using w(1) i by simp_all
    show "?tr (va + 5 * granule - w + i) = Inr (5 * granule - w + i)"
      unfolding eq by (rule mmu_walks(2) [OF g data j])
  next
    show "?tr (va + 5 * granule - w + w) = Inl ?r" unfolding a by (rule s)
  qed (use w in simp)
  from step [OF this] show ?thesis
    unfolding runs_keep(1) [OF P xs] a by (simp add: numeral_2_eq_2)
qed

text \<open>Transfers across both pages.\<close>

lemma across_offsets:
  assumes g: "granule \<in> {4096, 16384}" and data: "maps_page granule leaf (va + 4 * granule) (first_leaf granule)"
    and second: "maps_page granule leaf (va + 5 * granule) ((RAM_PA + 9 * granule) OR LEAF)" and w: "w \<le> granule"
  shows "offsets (page_walk granule RAM_PA (16 * granule) leaf False store) (va + 5 * granule - w) (w + w)
    = Inr ([5 * granule - w..<5 * granule - w + w] @ [9 * granule..<9 * granule + w])"
proof (rule offsets_across)
  fix i assume i: "i < w"
  have eq: "va + 5 * granule - w + i = va + 4 * granule + (granule - w + i)" "5 * granule - w + i = 4 * granule + (granule - w + i)"
    and j: "granule - w + i < granule" using w i by simp_all
  show "page_walk granule RAM_PA (16 * granule) leaf False store (va + 5 * granule - w + i) = Inr (5 * granule - w + i)"
    unfolding eq by (rule mmu_walks(2) [OF g data j])
  have "va + 5 * granule - w + w + i = va + 5 * granule + i" "i < granule" using w i g by auto
  then show "page_walk granule RAM_PA (16 * granule) leaf False store (va + 5 * granule - w + w + i) = Inr (9 * granule + i)"
    using mmu_walks(3) [OF g second] by simp
qed

lemma across_store:
  assumes "granule \<in> {4096, 16384}" "length ram = 16 * granule" "length x = w" "length y = w" "w \<le> 8"
  shows "scatter ([5 * granule - w..<5 * granule - w + w] @ [9 * granule..<9 * granule + w]) (x @ y) ram
    = overwrite (9 * granule) y (overwrite (5 * granule - w) x ram)"
proof -
  have s: "5 * granule - w + length x \<le> length ram" using assms by auto
  have "9 * granule + length y \<le> length (overwrite (5 * granule - w) x ram)"
    using assms by (subst length_overwrite [OF s]) auto
  from scatter_upt [OF this] scatter_upt [OF s] assms(3,4) show ?thesis by (simp add: scatter_append)
qed

lemma across_load:
  assumes "granule \<in> {4096, 16384}" "length ram = 16 * granule" "w \<le> 8"
  shows "gather ([5 * granule - w..<5 * granule - w + w] @ [9 * granule..<9 * granule + w]) ram
    = subrange (5 * granule - w) (5 * granule) ram @ subrange (9 * granule) (9 * granule + w) ram"
proof -
  have l: "5 * granule - w + w \<le> length ram" "9 * granule + w \<le> length ram" and e: "5 * granule - w + w = 5 * granule"
    using assms by auto
  show ?thesis unfolding gather_append gather_upt [OF l(1)] gather_upt [OF l(2)] unfolding e ..
qed

lemma unaligned_runs:
  assumes g: "granule \<in> {4096, 16384}" and code: "maps_page granule leaf va (RAM_PA OR LEAF)"
    and data: "maps_page granule leaf (va + 4 * granule) (first_leaf granule)"
    and second: "maps_page granule leaf (va + 5 * granule) ((RAM_PA + 9 * granule) OR LEAF)"
    and k: "cs_kind c = Unaligned store 0" and e: "e = expect a granule va (cs_kind c)"
    and ram: "ram = mmu_image granule (cs_kind c) (ex_words e) (replicate (16 * granule) 0)"
  shows "announces a va e (mmu_expected_ram granule (cs_kind c) ram)
    (guest_runs (mmu_walk granule leaf) 3 (at_word (ex_initial e) va 0 m ram 0 0))"
proof -
  let ?tr = "mmu_walk granule leaf" let ?xs = "[va + 5 * granule - 4, VALUE, PAIR0, PAIR1]"
  let ?word = "if store then 0xf9000001 else 0xf9400001" let ?opc = "if store then 0 else 1 :: nat"
  have E: "ex_words e = [KEEP_X1, ?word]" "ex_initial e = ?xs"
    by (simp_all add: e k expect_def plain_expectation_def expect_unaligned_def Let_def)
  have w: "word_list (ex_words e)" by (simp add: E word_list_def KEEP_X1_def)
  have u: "is_unaligned (cs_kind c)" by (simp add: is_unaligned_def k)
  note I = mmu_image [OF g w ram]
  have P: "program_at ?tr va m ram 0 [KEEP_X1, ?word, HLT]"
    using mmu_program [OF g code w ram, of m] by (simp add: E)
  have d: "decode ?word = Some (Transfer ?opc 8 0 0 1)" by (simp add: decode_def)
  let ?offs = "[5 * granule - 4..<5 * granule - 4 + 4] @ [9 * granule..<9 * granule + 4]"
  have offs: "offsets (?tr m False (?opc = 0)) (?xs ! 0 + 0) 8 = Inr ?offs"
    using across_offsets [OF g data second, of 4 store] g by auto
  have "le_bytes 8 VALUE = take 4 (le_bytes 8 VALUE) @ drop 4 (le_bytes 8 VALUE)" by simp
  then have st: "scatter ?offs (le_bytes 8 VALUE) ram
      = overwrite (9 * granule) (drop 4 (le_bytes 8 VALUE)) (overwrite (5 * granule - 4) (take 4 (le_bytes 8 VALUE)) ram)"
    using across_store [OF g I(1), of "take 4 (le_bytes 8 VALUE)" 4 "drop 4 (le_bytes 8 VALUE)"] by simp
  have ld: "le_nat (gather ?offs ram) = SEED"
    unfolding across_load [OF g I(1), of 4, simplified] I(4,5) [OF u] append_take_drop_id by (simp add: le_nat_le_bytes SEED_def)
  let ?ram = "if store then overwrite (9 * granule) (drop 4 (le_bytes 8 VALUE)) (overwrite (5 * granule - 4) (take 4 (le_bytes 8 VALUE)) ram) else ram"
  let ?ys = "if store then ?xs else ?xs[1 := SEED]"
  have s: "guest_step ?tr (at_word ?xs va 1 m ram 0 0) = (None, at_word ?ys va 2 m ?ram 1 1)"
    using at_transfer(1) [OF P _ _ _ _ offs, of 1 1 0 0] d st ld by (cases store) (simp_all add: numeral_2_eq_2 extended_def extension_def)
  have l: "5 * granule - 4 + 4 \<le> length ram" "9 * granule + 4 \<le> length ram" "12 \<le> 5 * granule - 4" using I(1) g by auto
  have P': "program_at ?tr va m ?ram 0 ([KEEP_X1, ?word] @ [HLT])"
  proof (cases store)
    case True
    have "program_at ?tr va m (overwrite (5 * granule - 4) (take 4 (le_bytes 8 VALUE)) ram) 0 [KEEP_X1, ?word, HLT]"
      by (rule program_at_keep [OF P]) (use l in simp_all)
    from program_at_keep [OF this, of "9 * granule" "drop 4 (le_bytes 8 VALUE)"] l True show ?thesis by simp
  qed (use P in simp)
  have "guest_runs ?tr 3 (at_word ?xs va 0 m ram 0 0) = (Halted, at_word ?ys va 3 m ?ram 1 1)"
  proof -
    have "guest_runs ?tr 3 (at_word ?xs va 0 m ram 0 0) = guest_runs ?tr 2 (at_word ?xs va 1 m ram 0 0)"
      by (rule runs_keep(1) [OF P]) (simp_all add: VALUE_def)
    with runs_halt [OF P' _ s] show ?thesis by simp
  qed
  then show ?thesis
    unfolding E by (simp add: announces_def at_word_def e k expect_def plain_expectation_def expect_unaligned_def Let_def mmu_expected_ram_def)
qed

lemma pair_words_run:
  assumes g: "granule \<in> {4096, 16384}" and data: "maps_page granule leaf (va + 4 * granule) (first_leaf granule)"
    and second: "maps_page granule leaf (va + 5 * granule) ((RAM_PA + 9 * granule) OR LEAF)"
    and P: "program_at (mmu_walk granule leaf) va m ram 0 [KEEP_X1, w1, w2, HLT]" and ram: "length ram = 16 * granule"
    and d: "decode w1 = Some (Transfer_Pair False m1 i1 0 2 3)" "decode w2 = Some (Transfer_Pair True 2 i2 0 2 3)"
    and moved: "moved = nat (int start + i1)" "va + 5 * granule - 8 = (if m1 = 1 then start else moved)" "m1 \<noteq> 2 \<or> moved = start"
      "va + 5 * granule - 8 = nat (int moved + i2)"
    and ram': "ram' = overwrite (9 * granule) (le_bytes 8 PAIR1) (overwrite (5 * granule - 8) (le_bytes 8 PAIR0) ram)"
  shows "guest_runs (mmu_walk granule leaf) 4 (at_word [start, VALUE, PAIR0, PAIR1] va 0 m ram 0 0)
    = (Halted, at_word [moved, VALUE, PAIR0, PAIR1] va 4 m ram' 2 2)"
proof -
  let ?tr = "mmu_walk granule leaf" let ?split = "va + 5 * granule - 8"
  let ?offs = "[5 * granule - 8..<5 * granule - 8 + 8] @ [9 * granule..<9 * granule + 8]"
  have offs: "offsets (?tr m False store) ?split 16 = Inr ?offs" for store
    using across_offsets [OF g data second, of 8 store] g by auto
  have st: "scatter ?offs (le_bytes 8 PAIR0 @ le_bytes 8 PAIR1) ram = ram'"
    unfolding ram' by (rule across_store [OF g ram]) simp_all
  have l: "5 * granule - 8 + 8 \<le> length ram" "9 * granule + 8 \<le> length ram" "16 \<le> 5 * granule - 8" using ram g by auto
  have l1: "length (overwrite (5 * granule - 8) (le_bytes 8 PAIR0) ram) = length ram" by (rule length_overwrite) (use l in simp)
  have l2: "length ram' = length ram" unfolding ram' using l l1 by (subst length_overwrite) simp_all
  have P': "program_at ?tr va m ram' 0 [KEEP_X1, w1, w2, HLT]"
  proof -
    have "program_at ?tr va m (overwrite (5 * granule - 8) (le_bytes 8 PAIR0) ram) 0 [KEEP_X1, w1, w2, HLT]"
      by (rule program_at_keep [OF P]) (use l in simp_all)
    from program_at_keep [OF this, of "9 * granule" "le_bytes 8 PAIR1"] l l1 show ?thesis by (simp add: ram')
  qed
  have ld: "gather (take 8 ?offs) ram' = le_bytes 8 PAIR0" "gather (drop 8 ?offs) ram' = le_bytes 8 PAIR1"
  proof -
    have "gather [5 * granule - 8..<5 * granule - 8 + 8] ram' = subrange (5 * granule - 8) (5 * granule - 8 + 8) ram'"
      by (rule gather_upt) (use l l2 in simp)
    also have "\<dots> = subrange (5 * granule - 8) (5 * granule - 8 + 8) (overwrite (5 * granule - 8) (le_bytes 8 PAIR0) ram)"
      unfolding ram' by (rule subrange_overwrite_other) (use l l1 in simp_all)
    also have "\<dots> = le_bytes 8 PAIR0" using subrange_overwrite_same [of "5 * granule - 8" "le_bytes 8 PAIR0" ram] l by simp
    finally show "gather (take 8 ?offs) ram' = le_bytes 8 PAIR0" by simp
    have "gather [9 * granule..<9 * granule + 8] ram' = subrange (9 * granule) (9 * granule + 8) ram'"
      by (rule gather_upt) (use l l2 in simp)
    also have "\<dots> = le_bytes 8 PAIR1"
      using subrange_overwrite_same [of "9 * granule" "le_bytes 8 PAIR1" "overwrite (5 * granule - 8) (le_bytes 8 PAIR0) ram"] l l1
      by (simp add: ram')
    finally show "gather (drop 8 ?offs) ram' = le_bytes 8 PAIR1" by simp
  qed
  have s1: "guest_step ?tr (at_word [start, VALUE, PAIR0, PAIR1] va 1 m ram 0 0) = (None, at_word [moved, VALUE, PAIR0, PAIR1] va 2 m ram' 1 1)"
  proof -
    let ?xs = "[start, VALUE, PAIR0, PAIR1]"
    have "decode ([KEEP_X1, w1, w2, HLT] ! 1) = Some (Transfer_Pair False m1 i1 0 2 3)" "moved = nat (int (?xs ! 0) + i1)"
      "?split = (if m1 = 1 then ?xs ! 0 else moved)" "?xs ! 2 = PAIR0" "?xs ! 3 = PAIR1"
      using d(1) moved(1,2) by (simp_all add: numeral_2_eq_2 numeral_3_eq_3)
    note s = at_pair(1) [OF P _ this(1) _ _ _ this(2,3), where offs = ?offs and d = 0 and q = 0, unfolded this(4,5) st]
    have "(let ys = (if False then ?xs[2 := a, 3 := b] else ?xs) in if m1 = 2 then ys else ys[0 := moved]) = [moved, VALUE, PAIR0, PAIR1]" for a b
      using moved(3) by (auto simp: Let_def)
    with s offs [of True] show ?thesis by (simp add: numeral_2_eq_2)
  qed
  have s2: "guest_step ?tr (at_word [moved, VALUE, PAIR0, PAIR1] va 2 m ram' 1 1) = (None, at_word [moved, VALUE, PAIR0, PAIR1] va 3 m ram' 2 2)"
  proof -
    let ?xs = "[moved, VALUE, PAIR0, PAIR1]"
    have "decode ([KEEP_X1, w1, w2, HLT] ! 2) = Some (Transfer_Pair True 2 i2 0 2 3)" "?split = nat (int (?xs ! 0) + i2)"
      using d(2) moved(4) by (simp_all add: numeral_2_eq_2)
    note s = at_pair(1) [OF P' _ this(1) _ _ _ this(2) refl, where offs = ?offs and d = 1 and q = 1, unfolded ld]
    have v: "le_nat (le_bytes 8 PAIR0) = PAIR0" "le_nat (le_bytes 8 PAIR1) = PAIR1" by (simp_all add: le_nat_le_bytes PAIR0_def PAIR1_def)
    have "?xs[2 := PAIR0, 3 := PAIR1] = ?xs" by (simp add: numeral_2_eq_2 numeral_3_eq_3)
    with s offs [of False] show ?thesis by (simp add: v numeral_2_eq_2 numeral_3_eq_3)
  qed
  have "guest_runs ?tr 4 (at_word [start, VALUE, PAIR0, PAIR1] va 0 m ram 0 0) = guest_runs ?tr 3 (at_word [start, VALUE, PAIR0, PAIR1] va 1 m ram 0 0)"
    by (rule runs_keep(2) [OF P]) (simp_all add: VALUE_def)
  also have "\<dots> = guest_runs ?tr 2 (at_word [moved, VALUE, PAIR0, PAIR1] va 2 m ram' 1 1)"
    using guest_runs_step [OF s1, of 2] by simp
  also have "\<dots> = (Halted, at_word [moved, VALUE, PAIR0, PAIR1] va 4 m ram' 2 2)"
    using runs_halt [of ?tr va m ram' 0 "[KEEP_X1, w1, w2]" 3, OF _ _ s2] P' by simp
  finally show ?thesis .
qed

lemma pair_runs:
  assumes g: "granule \<in> {4096, 16384}" and code: "maps_page granule leaf va (RAM_PA OR LEAF)"
    and data: "maps_page granule leaf (va + 4 * granule) (first_leaf granule)"
    and second: "maps_page granule leaf (va + 5 * granule) ((RAM_PA + 9 * granule) OR LEAF)"
    and k: "cs_kind c = Pair mode 0 load" and mode: "mode \<le> 2" and e: "e = expect a granule va (cs_kind c)"
    and ram: "ram = mmu_image granule (cs_kind c) (ex_words e) (replicate (16 * granule) 0)"
  shows "announces a va e (mmu_expected_ram granule (cs_kind c) ram)
    (guest_runs (mmu_walk granule leaf) 4 (at_word (ex_initial e) va 0 m ram 0 0))"
proof -
  have g16: "16 \<le> 5 * granule" using g by auto
  have five: "va + 4 * granule + granule = va + 5 * granule" by simp
  note defs = expect_def plain_expectation_def expect_pair_def Let_def five
  have wl: "word_list (ex_words e)" using mode by (simp add: e k defs word_list_def KEEP_X1_def)
  have I: "length ram = 16 * granule" by (rule mmu_image(1) [OF g wl ram])
  note P = mmu_program [OF g code wl ram, of m]
  let ?ram = "overwrite (9 * granule) (le_bytes 8 PAIR1) (overwrite (5 * granule - 8) (le_bytes 8 PAIR0) ram)"
  from mode consider "mode = 0" | "mode = 1" | "mode = 2" by linarith
  then show ?thesis
  proof cases
    case 1
    have E: "ex_words e @ [HLT] = [KEEP_X1, 0xa9000c02, 0xa9400c02, HLT]" "ex_initial e = [va + 5 * granule - 8, VALUE, PAIR0, PAIR1]"
      by (simp_all add: e k 1 defs)
    have D: "decode 0xa9000c02 = Some (Transfer_Pair False 2 0 0 2 3)" "decode 0xa9400c02 = Some (Transfer_Pair True 2 0 0 2 3)"
      by (simp_all add: decode_def)
    have "guest_runs (mmu_walk granule leaf) 4 (at_word [va + 5 * granule - 8, VALUE, PAIR0, PAIR1] va 0 m ram 0 0)
        = (Halted, at_word [va + 5 * granule - 8, VALUE, PAIR0, PAIR1] va 4 m ?ram 2 2)"
      by (rule pair_words_run [OF g data second P [unfolded E] I D]) (use g16 in \<open>simp_all add: nat_add_distrib\<close>)
    then show ?thesis
      unfolding E(2) by (simp add: announces_def at_word_def e k 1 defs mmu_expected_ram_def)
  next
    case 2
    have E: "ex_words e @ [HLT] = [KEEP_X1, 0xa9808c02, 0xa9400c02, HLT]" "ex_initial e = [va + 5 * granule - 16, VALUE, PAIR0, PAIR1]"
      by (simp_all add: e k 2 defs)
    have D: "decode 0xa9808c02 = Some (Transfer_Pair False 3 8 0 2 3)" "decode 0xa9400c02 = Some (Transfer_Pair True 2 0 0 2 3)"
      by (simp_all add: decode_def)
    have "guest_runs (mmu_walk granule leaf) 4 (at_word [va + 5 * granule - 16, VALUE, PAIR0, PAIR1] va 0 m ram 0 0)
        = (Halted, at_word [va + 5 * granule - 8, VALUE, PAIR0, PAIR1] va 4 m ?ram 2 2)"
      by (rule pair_words_run [OF g data second P [unfolded E] I D]) (use g16 in \<open>simp_all add: nat_add_distrib\<close>)
    then show ?thesis
      unfolding E(2) using g16 by (simp add: announces_def at_word_def e k 2 defs mmu_expected_ram_def)
  next
    case 3
    have E: "ex_words e @ [HLT] = [KEEP_X1, 0xa8810c02, 0xa97f0c02, HLT]" "ex_initial e = [va + 5 * granule - 8, VALUE, PAIR0, PAIR1]"
      by (simp_all add: e k 3 defs)
    have D: "decode 0xa8810c02 = Some (Transfer_Pair False 1 16 0 2 3)" "decode 0xa97f0c02 = Some (Transfer_Pair True 2 (- 16) 0 2 3)"
      by (simp_all add: decode_def)
    have "guest_runs (mmu_walk granule leaf) 4 (at_word [va + 5 * granule - 8, VALUE, PAIR0, PAIR1] va 0 m ram 0 0)
        = (Halted, at_word [va + 5 * granule + 8, VALUE, PAIR0, PAIR1] va 4 m ?ram 2 2)"
      by (rule pair_words_run [OF g data second P [unfolded E] I D]) (use g16 in \<open>simp_all add: nat_add_distrib\<close>)
    then show ?thesis
      unfolding E(2) using g16 by (simp add: announces_def at_word_def e k 3 defs mmu_expected_ram_def)
  qed
qed

lemma fault_runs:
  assumes g: "granule \<in> {4096, 16384}" and code: "maps_page granule leaf va (RAM_PA OR LEAF)"
    and data: "maps_page granule leaf (va + 4 * granule) (first_leaf granule)"
    and second: "maps_page granule leaf (va + 5 * granule) (failure_descriptor failure ((RAM_PA + 9 * granule) OR LEAF))"
    and f: "failure \<le> 5" "failure \<noteq> 0" "failure = 3 \<longrightarrow> store"
    and k: "cs_kind c = Pair 0 failure (\<not> store) \<or> cs_kind c = Unaligned store failure" and e: "e = expect a granule va (cs_kind c)"
    and ram: "ram = mmu_image granule (cs_kind c) (ex_words e) (replicate (16 * granule) 0)"
  shows "announces a va e (mmu_expected_ram granule (cs_kind c) ram)
    (guest_runs (mmu_walk granule leaf) 3 (at_word (ex_initial e) va 0 m ram 0 0))"
proof -
  have g8: "8 \<le> granule" using g by auto
  have five: "va + 4 * granule + granule = va + 5 * granule" by simp
  note defs = expect_def plain_expectation_def expect_pair_def expect_unaligned_def expect_failure_def Let_def five
  have wl: "word_list (ex_words e)" using k f(2) by (auto simp: e defs word_list_def KEEP_X1_def)
  note P = mmu_program [OF g code wl ram, of m]
  define w :: nat where "w = (case cs_kind c of Pair _ _ _ \<Rightarrow> 8 | _ \<Rightarrow> 4)"
  let ?xs = "[va + 5 * granule - w, VALUE, PAIR0, PAIR1]"
  define word :: nat where "word = (case cs_kind c of Pair _ _ _ \<Rightarrow> if store then 0xa9000c02 else 0xa9400c02
    | _ \<Rightarrow> if store then 0xf9000001 else 0xf9400001)"
  have E: "ex_words e @ [HLT] = [KEEP_X1, word, HLT]" "ex_initial e = ?xs"
    using k f(2) by (auto simp: e defs word_def w_def)
  have step: "guest_step (mmu_walk granule leaf) (at_word ?xs va 1 m ram 0 0)
      = (Some (Aborted False far r), at_word ?xs va 1 m ram 1 0\<lparr>gc_fetches := 2\<rparr>)"
    if o': "offsets (page_walk granule RAM_PA (16 * granule) leaf False store) (va + 5 * granule - w) (w + w) = Inl (far, r)" for far r
    using k
  proof
    assume k: "cs_kind c = Pair 0 failure (\<not> store)"
    have "decode ([KEEP_X1, word, HLT] ! 1) = Some (Transfer_Pair (\<not> store) 2 0 0 2 3)" by (simp add: word_def k decode_def)
    from at_pair(2) [OF P [unfolded E] _ this, where xs = ?xs and d = 0 and q = 0 and start = "?xs ! 0", OF _ _ _ _ refl] o'
    show ?thesis by (simp add: w_def k numeral_2_eq_2)
  next
    assume k: "cs_kind c = Unaligned store failure"
    have "decode ([KEEP_X1, word, HLT] ! 1) = Some (Transfer (if store then 0 else 1) 8 0 0 1)" by (simp add: word_def k decode_def)
    from at_transfer(2) [OF P [unfolded E] _ this, where xs = ?xs and d = 0 and q = 0] o'
    show ?thesis by (cases store) (simp_all add: w_def k numeral_2_eq_2)
  qed
  have w: "w \<le> granule" "0 < w" using g8 by (auto simp: w_def split: kind.split)
  have run: "guest_runs (mmu_walk granule leaf) 3 (at_word ?xs va 0 m ram 0 0)
      = (Aborted False (va + 5 * granule) (if failure = 1 then Fault 7 else if failure = 2 then Fault 11 else if failure = 3 then Fault 15
          else if failure = 4 then No_backing else Unsupported_attribute), at_word ?xs va 1 m ram 1 0\<lparr>gc_fetches := 2\<rparr>)"
    by (rule second_fault_runs [OF g code data second f P [unfolded E] _ _ w w(2) step]) (simp_all add: VALUE_def)
  from f consider "failure = 1" | "failure = 2" | "failure = 3" | "failure = 4" | "failure = 5" by linarith
  then show ?thesis
    unfolding E(2) run using k
    by cases (elim disjE; simp add: announces_def at_word_def e defs mmu_expected_ram_def w_def)+
qed

lemma reset_at_word: "reset_cpu xs va m ram = at_word xs va 0 m ram 0 0"
  by (simp add: reset_cpu_def at_word_def)

lemma announces_unique: "announces a va e expected_ram (guest_runs tr n c) \<Longrightarrow> n \<le> m \<Longrightarrow> announces a va e expected_ram (guest_runs tr m c)"
proof -
  assume a: "announces a va e expected_ram (guest_runs tr n c)" and "n \<le> m"
  obtain stop c' where r: "guest_runs tr n c = (stop, c')" by fastforce
  with a have "stop \<noteq> Unfinished" by (auto simp: announces_def)
  from guest_runs_enough [OF r this \<open>n \<le> m\<close>] a r show ?thesis by simp
qed

lemma mmu_runs:
  assumes g: "granule \<in> {4096, 16384}" and c: "c \<in> set mmu_kinds" and e: "e = expect a granule va (cs_kind c)"
    and code: "maps_page granule leaf va (ex_code e)" and data: "maps_page granule leaf (va + 4 * granule) (first_leaf granule)"
    and second: "maps_page granule leaf (va + 5 * granule) (ex_second e)"
    and ram: "ram = mmu_image granule (cs_kind c) (ex_words e) (replicate (16 * granule) 0)"
  shows "announces a va e (mmu_expected_ram granule (cs_kind c) ram) (guest_runs (mmu_walk granule leaf) 16 (reset_cpu (ex_initial e) va m ram))"
proof -
  note K = mmu_kind_values [OF c]
  note defs = e expect_def plain_expectation_def expect_pair_def expect_unaligned_def expect_failure_def Let_def
  have plain: "failure_descriptor 0 d = d" for d by (simp add: failure_descriptor_def)
  have three: "announces a va e (mmu_expected_ram granule (cs_kind c) ram) (guest_runs (mmu_walk granule leaf) n (at_word (ex_initial e) va 0 m ram 0 0)) \<Longrightarrow>
      n \<le> 16 \<Longrightarrow> ?thesis" for n
    unfolding reset_at_word by (rule announces_unique)
  show ?thesis
  proof (cases "cs_kind c")
    case (Scalar word width sign store)
    then have x: "ex_code e = RAM_PA OR LEAF" by (simp add: defs)
    show ?thesis
      by (rule three [OF scalar_runs [OF g code [unfolded x] data _ Scalar e ram]]) (use K Scalar in simp_all)
  next
    case (Pair mode failure load)
    then have x: "ex_code e = RAM_PA OR LEAF" "ex_second e = failure_descriptor failure ((RAM_PA + 9 * granule) OR LEAF)"
      by (simp_all add: defs)
    show ?thesis
    proof (cases "failure = 0")
      case True
      show ?thesis
        by (rule three [OF pair_runs [OF g code [unfolded x] data second [unfolded x True plain] _ _ e ram]]) (use K Pair True in simp_all)
    next
      case False
      show ?thesis
        by (rule three [OF fault_runs [OF g code [unfolded x] data second [unfolded x] _ False, of "\<not> load", OF _ _ _ e ram]])
          (use K Pair False in simp_all)
    qed
  next
    case (Fetch permission)
    show ?thesis by (rule three [OF fetch_runs [OF g code Fetch e]]) simp
  next
    case (Unaligned store failure)
    then have x: "ex_code e = RAM_PA OR LEAF" "ex_second e = failure_descriptor failure ((RAM_PA + 9 * granule) OR LEAF)"
      by (simp_all add: defs)
    show ?thesis
    proof (cases "failure = 0")
      case True
      show ?thesis
        by (rule three [OF unaligned_runs [OF g code [unfolded x] data second [unfolded x True plain] _ e ram]]) (use Unaligned True in simp_all)
    next
      case False
      show ?thesis
        by (rule three [OF fault_runs [OF g code [unfolded x] data second [unfolded x] _ False, of store, OF _ _ _ e ram]])
          (use K Unaligned in simp_all)
    qed
  qed
qed

lemma mmu_tables:
  assumes "(granule, upper, c) \<in> set mmu_cases"
    and "va = (if upper then HIGH else LOW)" and e: "e = expect a granule va (cs_kind c)"
  obtains t where "build (\<lambda>(va, d). map_va TABLE_PA va d) (mmu_maps granule va e) (empty_tables granule 16) = (Inr (), t)"
    "maps_page granule (translate 0x0000fffffffff000 TABLE_PA t) va (ex_code e)"
    "maps_page granule (translate 0x0000fffffffff000 TABLE_PA t) (va + 4 * granule) (first_leaf granule)"
    "maps_page granule (translate 0x0000fffffffff000 TABLE_PA t) (va + 5 * granule) (ex_second e)"
proof -
  have g: "granule \<in> {4096, 16384}" and c: "c \<in> set mmu_kinds" using mmu_case_values [OF assms(1)] by auto
  have "va \<in> {LOW, HIGH}" using assms(2) by simp
  from mmu_build [OF g this expect_leaves [OF g c, of a va, folded e]] show thesis using that by blast
qed

lemma mmu_case_engine:
  "settles (mmu_case fw jh pc a n c)" "c \<in> set mmu_cases \<Longrightarrow> calm (mmu_case fw jh pc a n c)"
  "moves guard_step (mmu_case fw jh pc a n c) Unguarded handed"
proof -
  obtain granule upper pcase where c: "c = (granule, upper, pcase)" by (metis prod_cases3)
  show "settles (mmu_case fw jh pc a n c)"
    unfolding mmu_case_def c prod.case Let_def
    by (intro settles_case_pages settles_with_tables settles_judged)
  show "moves guard_step (mmu_case fw jh pc a n c) Unguarded handed"
    unfolding mmu_case_def c prod.case Let_def
    by (intro moves_case_pages moves_with_tables moves_judged) (auto simp: mmu_passed_def Let_def)
  assume "c \<in> set mmu_cases"
  with c have m: "(granule, upper, pcase) \<in> set mmu_cases" by simp
  have b: "\<exists>t. build (\<lambda>(va, d). map_va TABLE_PA va d)
        (mmu_maps granule (if upper then HIGH else LOW) (expect a granule (if upper then HIGH else LOW) (cs_kind pcase)))
        \<lparr>tb_bytes = ap_memory tables, tb_granule = granule, tb_next = 2\<rparr> = (Inr (), t)"
    if "ap_memory tables = replicate (16 * granule) 0" for tables
    using mmu_tables [OF m refl refl, of a] unfolding empty_tables_def that by blast
  show "calm (mmu_case fw jh pc a n c)"
    unfolding mmu_case_def c prod.case Let_def
    by (intro calm_case_pages) (use b in \<open>blast intro: calm_with_tables calm_judged\<close>)
qed

interpretation mmu_probe: calm_cases "mmu_case fw jh pc a" mmu_cases for fw jh pc a
  by unfold_locales (fact mmu_case_engine)+

text \<open>Property C39: what every case of the probe expects is what a reference interpreter computes. With the
  tables that the case builds and the RAM that it fills, the guest program of the case ends within the
  budget in exactly the registers, the RAM, the program counter and the counts that the case expects; it
  comes to its halt, or stops with the cause and at the address that the case expects.\<close>

theorem expectations_follow_the_reference:
  assumes "(granule, upper, c) \<in> set mmu_cases"
    and "va = (if upper then HIGH else LOW)" and "e = expect a granule va (cs_kind c)"
    and "ram = mmu_image granule (cs_kind c) (ex_words e) (replicate (16 * granule) 0)"
  shows "\<exists>t. build (\<lambda>(va, d). map_va TABLE_PA va d) (mmu_maps granule va e) (empty_tables granule 16) = (Inr (), t)
    \<and> announces a va e (mmu_expected_ram granule (cs_kind c) ram)
         (guest_runs (\<lambda>control. page_walk granule RAM_PA (16 * granule) (translate 0x0000fffffffff000 TABLE_PA t)) 16
            (reset_cpu (ex_initial e) va (ct_sctlr (mmu_controls a granule (cs_kind c))) ram))"
proof -
  have g: "granule \<in> {4096, 16384}" and c: "c \<in> set mmu_kinds" using mmu_case_values [OF assms(1)] by auto
  obtain t where T: "build (\<lambda>(va, d). map_va TABLE_PA va d) (mmu_maps granule va e) (empty_tables granule 16) = (Inr (), t)"
    "maps_page granule (translate 0x0000fffffffff000 TABLE_PA t) va (ex_code e)"
    "maps_page granule (translate 0x0000fffffffff000 TABLE_PA t) (va + 4 * granule) (first_leaf granule)"
    "maps_page granule (translate 0x0000fffffffff000 TABLE_PA t) (va + 5 * granule) (ex_second e)"
    by (rule mmu_tables [OF assms(1-3)])
  from mmu_runs [OF g c assms(3) T(2-4) assms(4)] T(1) show ?thesis by blast
qed

theorem expectations_follow_the_reference_witness:
  "\<forall>a. \<exists>e t. e = expect a 4096 LOW (Unaligned True 3) \<and> ex_status e = 17 \<and> ex_fsc e = 15 \<and> ex_far e = LOW + 5 * 4096
    \<and> build (\<lambda>(va, d). map_va TABLE_PA va d) (mmu_maps 4096 LOW e) (empty_tables 4096 16) = (Inr (), t)
    \<and> announces a LOW e (mmu_image 4096 (Unaligned True 3) (ex_words e) (replicate 65536 0))
         (guest_runs (\<lambda>control. page_walk 4096 RAM_PA 65536 (translate 0x0000fffffffff000 TABLE_PA t)) 16
            (reset_cpu (ex_initial e) LOW 0x30d00801 (mmu_image 4096 (Unaligned True 3) (ex_words e) (replicate 65536 0))))"
proof
  fix a :: probe_abi
  let ?c = "\<lparr>cs_name = ''unaligned-store-permission'', cs_kind = Unaligned True 3\<rparr>" let ?e = "expect a 4096 LOW (Unaligned True 3)"
  have "?c \<in> set mmu_kinds" unfolding mmu_kinds_def by simp
  then have c: "(4096, False, ?c) \<in> set mmu_cases" unfolding mmu_cases_def by simp
  have k: "cs_kind ?c = Unaligned True 3" "(if False then HIGH else LOW) = LOW" "16 * 4096 = (65536 :: nat)"
    "ct_sctlr (mmu_controls a 4096 (Unaligned True 3)) = 0x30d00801"
    "mmu_expected_ram 4096 (Unaligned True 3) ram = ram" for ram
    by (simp_all add: mmu_controls_def is_unaligned_def mmu_expected_ram_def)
  from expectations_follow_the_reference [OF c refl refl refl, of a, unfolded k]
  obtain t where "build (\<lambda>(va, d). map_va TABLE_PA va d) (mmu_maps 4096 LOW ?e) (empty_tables 4096 16) = (Inr (), t)
    \<and> announces a LOW ?e (mmu_image 4096 (Unaligned True 3) (ex_words ?e) (replicate 65536 0))
         (guest_runs (\<lambda>control. page_walk 4096 RAM_PA 65536 (translate 0x0000fffffffff000 TABLE_PA t)) 16
            (reset_cpu (ex_initial ?e) LOW 0x30d00801 (mmu_image 4096 (Unaligned True 3) (ex_words ?e) (replicate 65536 0))))"
    by blast
  moreover have "ex_status ?e = 17" "ex_fsc ?e = 15" "ex_far ?e = LOW + 5 * 4096"
    by (simp_all add: expect_def Let_def plain_expectation_def expect_unaligned_def expect_failure_def)
  ultimately show "\<exists>e t. e = ?e \<and> ex_status e = 17 \<and> ex_fsc e = 15 \<and> ex_far e = LOW + 5 * 4096
    \<and> build (\<lambda>(va, d). map_va TABLE_PA va d) (mmu_maps 4096 LOW e) (empty_tables 4096 16) = (Inr (), t)
    \<and> announces a LOW e (mmu_image 4096 (Unaligned True 3) (ex_words e) (replicate 65536 0))
         (guest_runs (\<lambda>control. page_walk 4096 RAM_PA 65536 (translate 0x0000fffffffff000 TABLE_PA t)) 16
            (reset_cpu (ex_initial e) LOW 0x30d00801 (mmu_image 4096 (Unaligned True 3) (ex_words e) (replicate 65536 0))))"
    by blast
qed

end
