(* ===== verification/Dt_Probe.thy ===== *)
theory Dt_Probe
  imports Guest_Cpu
begin

text \<open>
  The device tree probe (src/src/dt\_probe.rs): guest memory is handed out by a ledger, an authored
  device tree is bound to a page of it, a stale binding must be refused, and a guest program copies
  words of the tree to an output page. The ledger, the device tree code and the hash are functions
  of the crate nextcore\_core: they are parameters, in \<open>dt_core\<close>.
\<close>

definition MARKER :: nat where "MARKER = 0xabcd"
definition GUARD :: u8 where "GUARD = 0xa5"
definition FORCE_WRONG_DT_MAPPING :: bool where "FORCE_WRONG_DT_MAPPING = False"

datatype purpose = ProviderData | KernelImage | RuntimeDeviceTree | Stack

datatype commit = Committed | StaleSnapshot | Refused

text \<open>
  \<open>'l\<close> is a ledger, \<open>'i\<close> the name of a template property, \<open>'t\<close> a materialised tree and \<open>'p\<close> a tree
  bound to a reservation. A reservation token is a number. \<open>None\<close> stands for an error.
\<close>

record ('l, 'i, 't, 'p) dt_core =
  dc_borrow :: "nat \<Rightarrow> u8 list \<Rightarrow> 'l option"
  dc_allocate :: "nat \<Rightarrow> nat \<Rightarrow> purpose \<Rightarrow> 'l \<Rightarrow> (nat \<times> 'l) option"
  dc_records :: "'l \<Rightarrow> (nat \<times> nat) list"
  dc_aperture :: "'l \<Rightarrow> nat \<times> nat"
  dc_stamp :: "'l \<Rightarrow> nat"
  dc_copy_into :: "nat \<Rightarrow> nat \<Rightarrow> u8 list \<Rightarrow> 'l \<Rightarrow> 'l option"
  dc_memory :: "'l \<Rightarrow> (nat \<times> u8 list) option"
  dc_replace :: "u8 list \<Rightarrow> 'l \<Rightarrow> 'l"
  dc_bind :: "nat \<Rightarrow> nat \<Rightarrow> 't \<Rightarrow> 'l \<Rightarrow> 'p option"
  dc_prepared :: "'p \<Rightarrow> u8 list"
  dc_release :: "nat \<Rightarrow> 'l \<Rightarrow> 'l option"
  dc_commit :: "'p \<Rightarrow> 'l \<Rightarrow> commit \<times> 'l"
  dc_template_ids :: "u8 list \<Rightarrow> 'i list option"
  dc_prepare :: "u8 list \<Rightarrow> 'i \<times> string \<times> u8 list \<Rightarrow> nat \<Rightarrow> 't option"
  dc_max_output :: nat
  dc_tree_bytes :: "'t \<Rightarrow> u8 list"
  dc_root_properties :: "u8 list \<Rightarrow> (string \<times> nat \<times> u8 list) list option"
  dc_identity :: "u8 list \<Rightarrow> u8 list"

subsection \<open>Helpers\<close>

definition require :: "bool \<Rightarrow> status fault + unit" where
  "require b = (if b then Inr () else Inl (Fail COMPROMISED_DATA))"

definition checked :: "'a option \<Rightarrow> status fault + 'a" where
  "checked r = ok_or r (Fail COMPROMISED_DATA)"

definition disjoint :: "nat \<Rightarrow> nat \<Rightarrow> nat \<Rightarrow> nat \<Rightarrow> bool" where
  "disjoint a n b m = (case (checked_add a n, checked_add b m) of (Some x, Some y) \<Rightarrow> x \<le> b \<or> y \<le> a | _ \<Rightarrow> False)"

definition address :: "('l, 'i, 't, 'p) dt_core \<Rightarrow> 'l \<Rightarrow> nat \<Rightarrow> status fault + nat" where
  "address d l token = ok_or (map_option snd (find (\<lambda>(t, a). t = token) (dc_records d l))) (Fail NOT_FOUND)"

definition hex :: "u8 list \<Rightarrow> string" where
  "hex bs = concat (map (\<lambda>b. [hex_digit (unat b div 16), hex_digit (unat b mod 16)]) bs)"

definition dt_property :: "u8 list \<Rightarrow> u8 list \<Rightarrow> bool \<Rightarrow> u8 list \<Rightarrow> u8 list" where
  "dt_property name v flag bytes =
     (let bytes = bytes @ (name @ replicate (32 - length name) 0)
            @ le_bytes 4 (length v OR (if flag then push_bit 31 1 else 0)) @ v
      in bytes @ replicate ((4 - length bytes mod 4) mod 4) 0)"

definition authored_source :: "u8 list" where
  "authored_source =
     dt_property (map of_char ''authored-aperture'') (map of_char ''opaque/observed-extent()'' @ [0]) True
       (dt_property (map of_char ''name'') [0] False (le_bytes 4 2 @ le_bytes 4 0))"

definition prepare :: "('l, 'i, 't, 'p) dt_core \<Rightarrow> u8 list \<Rightarrow> 'l \<Rightarrow> status fault + 't" where
  "prepare d source l =
     and_then (checked (dc_template_ids d source)) (\<lambda>ids.
     and_then (require (length ids = 1)) (\<lambda>_.
     case dc_aperture d l of (base, bytes) \<Rightarrow>
       checked (dc_prepare d source (ids ! 0, ''authored/efi-owned-ledger-v1'', le_bytes 8 base @ le_bytes 8 bytes)
         (dc_max_output d))))"

definition copied_offsets :: "nat \<Rightarrow> nat list" where
  "copied_offsets v = [0, 4, v, wrapping_add v 4, wrapping_add v 8, wrapping_add v 12]"

definition copy_words :: "nat \<Rightarrow> nat \<Rightarrow> nat list" where
  "copy_words out offset =
     [0xb9400002 OR take_bit 32 (push_bit 10 (take_bit 32 offset div 4)), 0xb9000022 OR push_bit 10 out]"

definition instructions :: "nat \<Rightarrow> status fault + nat list" where
  "instructions v =
     and_then (require (v mod 4 = 0 \<and> wrapping_add v 12 \<le> 16380)) (\<lambda>_.
     Inr (0x91000063 # concat (map (\<lambda>(out, offset). copy_words out offset) (enumerate 0 (copied_offsets v)))
       @ [0x52800002 OR push_bit 5 MARKER, 0xb9000022 OR push_bit 10 6, 0xd4400000]))"

subsection \<open>The ledger\<close>

record dt_layout =
  dl_guard :: nat
  dl_code :: nat
  dl_dt :: nat
  dl_code_pa :: nat
  dl_dt_pa :: nat
  dl_stack_pa :: nat
  dl_output_pa :: nat
  dl_aperture :: nat
  dl_va_base :: nat

definition va_for :: "dt_layout \<Rightarrow> nat \<Rightarrow> nat" where
  "va_for y pa = wrapping_add (dl_va_base y) (wrapping_sub pa (dl_aperture y))"

text \<open>The five reservations, in order.\<close>

definition dt_reserve :: "('l, 'i, 't, 'p) dt_core \<Rightarrow> nat \<Rightarrow> bool \<Rightarrow> 'l \<Rightarrow> status fault + dt_layout \<times> 'l" where
  "dt_reserve d granule upper l =
     and_then (checked (dc_allocate d granule granule ProviderData l)) (\<lambda>(guard, l).
     and_then (checked (dc_allocate d granule granule KernelImage l)) (\<lambda>(code, l).
     and_then (checked (dc_allocate d granule granule RuntimeDeviceTree l)) (\<lambda>(dt, l).
     and_then (checked (dc_allocate d granule granule Stack l)) (\<lambda>(stack, l).
     and_then (checked (dc_allocate d granule granule ProviderData l)) (\<lambda>(out, l).
     and_then (address d l code) (\<lambda>code_pa.
     and_then (address d l dt) (\<lambda>dt_pa.
     and_then (address d l stack) (\<lambda>stack_pa.
     and_then (address d l out) (\<lambda>output_pa.
       let y = \<lparr>dl_guard = guard, dl_code = code, dl_dt = dt, dl_code_pa = code_pa, dl_dt_pa = dt_pa, dl_stack_pa = stack_pa,
         dl_output_pa = output_pa, dl_aperture = fst (dc_aperture d l), dl_va_base = (if upper then HIGH else LOW)\<rparr> in
       and_then (require (va_for y code_pa \<noteq> code_pa \<and> va_for y dt_pa \<noteq> dt_pa \<and> va_for y output_pa \<noteq> output_pa)) (\<lambda>_.
       Inr (y, l)))))))))))"

record dt_program =
  dp_wire :: "u8 list"
  dp_offset :: nat
  dp_words :: "nat list"

text \<open>The tree on the wire and the program that copies the value of its authored property.\<close>

definition dt_program_of :: "('l, 'i, 't, 'p) dt_core \<Rightarrow> u8 list \<Rightarrow> 'l \<Rightarrow> status fault + dt_program" where
  "dt_program_of d source l =
     and_then (prepare d source l) (\<lambda>tree.
     let wire = dc_tree_bytes d tree in
     and_then (checked (dc_root_properties d wire)) (\<lambda>ps.
     and_then (ok_or (find (\<lambda>(name, _). name = ''authored-aperture'') ps) (Fail NOT_FOUND)) (\<lambda>(_, offset, v).
     and_then (require (length v = 16)) (\<lambda>_.
     let value_offset = wrapping_add offset 36 in
     and_then (instructions value_offset) (\<lambda>words.
     Inr \<lparr>dp_wire = wire, dp_offset = value_offset, dp_words = words\<rparr>)))))"

definition dt_memory :: "('l, 'i, 't, 'p) dt_core \<Rightarrow> 'l \<Rightarrow> status fault + u8 list" where
  "dt_memory d l = and_then (checked (dc_memory d l)) (\<lambda>(_, ram). Inr ram)"

text \<open>A binding made before a reservation was released must be refused, and change nothing.\<close>

definition dt_bind_fresh :: "('l, 'i, 't, 'p) dt_core \<Rightarrow> u8 list \<Rightarrow> dt_layout \<Rightarrow> dt_program \<Rightarrow> 'l \<Rightarrow> status fault + 'l" where
  "dt_bind_fresh d source y p l =
     and_then (checked (dc_copy_into d (dl_code y) 0 (image_of (dp_words p)) l)) (\<lambda>l.
     and_then (dt_memory d l) (\<lambda>before_stale.
     and_then (prepare d source l) (\<lambda>tree.
     and_then (checked (dc_bind d (dc_stamp d l) (dl_dt y) tree l)) (\<lambda>old.
     and_then (checked (dc_release d (dl_guard y) l)) (\<lambda>l.
     case dc_commit d old l of (r, l) \<Rightarrow>
     and_then (dt_memory d l) (\<lambda>after_stale.
     and_then (require (r = StaleSnapshot \<and> before_stale = after_stale)) (\<lambda>_.
     and_then (prepare d source l) (\<lambda>tree.
     and_then (checked (dc_bind d (dc_stamp d l) (dl_dt y) tree l)) (\<lambda>prepared.
     and_then (require (dc_prepared d prepared = dp_wire p)) (\<lambda>_.
     case dc_commit d prepared l of (r, l) \<Rightarrow>
       and_then (checked (if r = Committed then Some () else None)) (\<lambda>_. Inr l)))))))))))"

text \<open>
  The slices that the expectations take panic out of range. \<open>dt_slice\<close> is a slice that is read and
  \<open>dt_patch\<close> one that is written.
\<close>

definition dt_slice :: "nat \<Rightarrow> nat \<Rightarrow> u8 list \<Rightarrow> status fault + u8 list" where
  "dt_slice a b bs = (if a \<le> b \<and> b \<le> length bs then Inr (subrange a b bs) else Inl Panic)"

definition dt_patch :: "nat \<Rightarrow> u8 list \<Rightarrow> u8 list \<Rightarrow> status fault + u8 list" where
  "dt_patch at bs ram = (if at + length bs \<le> length ram then Inr (overwrite at bs ram) else Inl Panic)"

definition expected_output :: "dt_program \<Rightarrow> status fault + u8 list" where
  "expected_output p =
     and_then (dt_slice 0 8 (dp_wire p)) (\<lambda>a.
     and_then (dt_slice (dp_offset p) (dp_offset p + 16) (dp_wire p)) (\<lambda>b. Inr (a @ b @ le_bytes 4 MARKER)))"

definition output_offset :: "dt_layout \<Rightarrow> nat" where
  "output_offset y = wrapping_sub (dl_output_pa y) (dl_aperture y)"

record 'l dt_setup =
  ds_ledger :: 'l
  ds_layout :: dt_layout
  ds_program :: dt_program
  ds_expected :: "u8 list"

definition dt_setup_of :: "('l, 'i, 't, 'p) dt_core \<Rightarrow> nat \<Rightarrow> bool \<Rightarrow> bool \<Rightarrow> nat \<Rightarrow> status fault + 'l dt_setup" where
  "dt_setup_of d granule upper invalid ram_bytes =
     and_then (checked (dc_borrow d RAM_PA (replicate ram_bytes GUARD))) (\<lambda>l.
     and_then (dt_reserve d granule upper l) (\<lambda>(y, l).
     and_then (dt_program_of d authored_source l) (\<lambda>p.
     and_then (dt_bind_fresh d authored_source y p l) (\<lambda>l.
     and_then (dt_memory d l) (\<lambda>ram.
     and_then (expected_output p) (\<lambda>out.
     and_then (if invalid then Inr ram else dt_patch (output_offset y) out ram) (\<lambda>expected.
     Inr \<lparr>ds_ledger = l, ds_layout = y, ds_program = p, ds_expected = expected\<rparr>)))))))"

definition dt_maps :: "dt_layout \<Rightarrow> bool \<Rightarrow> (nat \<times> nat) list" where
  "dt_maps y invalid =
     [(va_for y (dl_code_pa y), dl_code_pa y OR 0x403),
      (va_for y (dl_dt_pa y), if invalid \<or> FORCE_WRONG_DT_MAPPING then 0 else dl_dt_pa y OR 0x403),
      (va_for y (dl_output_pa y), dl_output_pa y OR 0x403),
      (va_for y (dl_stack_pa y), dl_stack_pa y OR 0x403)]"

subsection \<open>The case\<close>

definition dt_tcr :: "nat \<Rightarrow> nat" where
  "dt_tcr granule = (let tsz = translation_size granule in tsz OR push_bit 16 tsz OR granule_bits granule)"

definition dt_controls :: "nat \<Rightarrow> controls" where
  "dt_controls granule = \<lparr>ct_abi_version = 2, ct_struct_size = 80, ct_profile = 1, ct_sctlr = 0x30d00803,
     ct_ttbr0 = TABLE_PA, ct_ttbr1 = TABLE_PA + granule, ct_tcr = dt_tcr granule, ct_mair = 0x44, ct_epoch = 1\<rparr>"

definition dt_initial :: "dt_layout \<Rightarrow> nat list" where
  "dt_initial y = [va_for y (dl_dt_pa y), va_for y (dl_output_pa y), 0x13579bdf, 0x2468ace0]"

definition stack_top :: "dt_layout \<Rightarrow> nat \<Rightarrow> nat" where
  "stack_top y granule = wrapping_add (va_for y (dl_stack_pa y)) granule"

definition dt_arguments :: "dt_layout \<Rightarrow> nat \<Rightarrow> nat \<Rightarrow> u8 list \<Rightarrow> arm_pages \<Rightarrow> run_args" where
  "dt_arguments y granule base ram code = \<lparr>ra_base = base, ra_size = length ram, ra_virtual_base = 0,
     ra_entry = va_for y (dl_code_pa y), ra_args = dt_initial y ! 0, ra_stack = stack_top y granule, ra_code = ap_memory code,
     ra_budget = 32, ra_initial = dt_initial y, ra_options = probe_options 0x3c5, ra_aliases = []\<rparr>"

definition dt_engine :: "'w jit_host \<Rightarrow> 'm probe_core \<Rightarrow> ('l, 'i, 't, 'p) dt_core \<Rightarrow> nat \<Rightarrow> 'l dt_setup \<Rightarrow> u8 list \<Rightarrow> arm_pages
    \<Rightarrow> ('w, status fault + outcome) op" where
  "dt_engine jh pc d granule s tables code =
     bindS (query (jh_system_table jh)) (\<lambda>table.
     if \<not> table then fails NOT_READY
     else bindS (protection_open jh) (\<lambda>opened.
     if opened \<noteq> 0 then fails UNSUPPORTED
     else case dc_memory d (ds_ledger s) of
       None \<Rightarrow> fails COMPROMISED_DATA
     | Some (base, ram) \<Rightarrow> (case pc_service pc ram base tables TABLE_PA (dt_controls granule) of
         None \<Rightarrow> fails COMPROMISED_DATA
       | Some m \<Rightarrow>
           bindS (run_guest (pc_execute pc) (plain_protect jh)
             (pc_runner pc (dt_arguments (ds_layout s) granule base ram code) (dt_controls granule)) m ()) (\<lambda>((st, r, l), m, _).
           bindS (jit_protect jh (ap_base code) (ap_bytes code) 0) (\<lambda>restored.
           ok \<lparr>on_restored = restored, on_status = st, on_result = r, on_reply = l,
               on_ram = pc_ram pc m, on_tables = pc_tables pc m\<rparr>)))))"

definition dt_passed :: "probe_abi \<Rightarrow> nat \<Rightarrow> bool \<Rightarrow> 'l dt_setup \<Rightarrow> u8 list \<Rightarrow> u8 list \<Rightarrow> outcome \<Rightarrow> bool" where
  "dt_passed a granule invalid s observed tables_before o' =
     (let y = ds_layout s; base = px_base (on_result o'); execution = mr_execution base; state = br_base execution; reply = on_reply o';
          start = va_for y (dl_code_pa y); dt_va = va_for y (dl_dt_pa y); initial = dt_initial y;
          retired = (if invalid then 1 else 16); want_status = (if invalid then 17 else 1)
      in on_restored o' = 0 \<and> on_status o' = int want_status \<and> jr_status state = want_status
         \<and> mr_abi_version base = 2 \<and> mr_struct_size base = 320 \<and> mr_provider_status base = 0
         \<and> jr_retired state = retired \<and> jr_pc state = wrapping_add start (4 * retired)
         \<and> jr_compiled_blocks state = (if invalid then 2 else 16)
         \<and> jr_x0 state = dt_va \<and> jr_x1 state = va_for y (dl_output_pa y)
         \<and> jr_x2 state = (if invalid then initial ! 2 else MARKER) \<and> jr_x3 state = initial ! 3
         \<and> br_sp execution = stack_top y granule \<and> br_esr execution = (if invalid then 0x96000007 else 0)
         \<and> mr_guest_far base = (if invalid then dt_va else 0)
         \<and> mr_fetch_requests base = (if invalid then 2 else 16) \<and> mr_data_requests base = (if invalid then 1 else 13)
         \<and> mr_completed_data_operations base = (if invalid then 0 else 13)
         \<and> lr_result reply = unat (if invalid then abi_GUEST_FAULT a else abi_OK a)
         \<and> px_fsc (on_result o') = (if invalid then 7 else 0)
         \<and> jr_fault_instruction state = (if invalid then dp_words (ds_program s) ! 1 else 0)
         \<and> (\<not> invalid \<or> lr_level reply = 3 \<and> br_elr execution = wrapping_add start 4 \<and> br_spsr execution = 0x3c5
              \<and> lr_address reply = dt_va \<and> mr_last_address base = dt_va)
         \<and> observed = ds_expected s \<and> on_tables o' = tables_before)"

definition dt_lines :: "('l, 'i, 't, 'p) dt_core \<Rightarrow> nat \<Rightarrow> bool \<Rightarrow> bool \<Rightarrow> 'l dt_setup \<Rightarrow> arm_pages \<Rightarrow> arm_pages \<Rightarrow> arm_pages
    \<Rightarrow> u8 list \<Rightarrow> u8 list \<Rightarrow> u8 list \<Rightarrow> outcome \<Rightarrow> bool \<Rightarrow> line list" where
  "dt_lines d granule upper invalid s ram tables code out observed tables_before o' passed =
     (let y = ds_layout s; base = px_base (on_result o'); execution = mr_execution base; state = br_base execution; reply = on_reply o';
          name = RText (if invalid then ''invalid-dt'' else ''roundtrip'')
      in [(''NXDT: DATA'', [name, RNat granule, RBool upper, RText (hex authored_source), RText (hex (dp_wire (ds_program s))),
             RText (hex out), RNat (dp_offset (ds_program s)), RText (hex (dc_identity d observed)),
             RText (hex (dc_identity d tables_before)), RText (hex (dc_identity d (on_tables o')))]),
          (''NXDT: CASE'', [name, RNat granule, RBool upper, status_value (on_status o'), RNat (mr_provider_status base),
             RNat (jr_retired state), RNat (jr_compiled_blocks state), RNat (mr_fetch_requests base), RNat (mr_data_requests base),
             RNat (mr_completed_data_operations base), RNat (br_esr execution), RNat (mr_guest_far base), RNat (lr_result reply),
             RNat (px_fsc (on_result o')), RNat (jr_pc state), RNat (jr_x2 state), RBool True, RBool (observed = ds_expected s),
             RBool (on_tables o' = tables_before), RNat (dl_aperture y), RNat (snd (dc_aperture d (ds_ledger s))),
             RNat (dl_code_pa y), RNat (dl_dt_pa y), RNat (dl_stack_pa y), RNat (dl_output_pa y), RNat (va_for y (dl_code_pa y)),
             RNat (va_for y (dl_dt_pa y)), RNat (va_for y (dl_output_pa y)), RNat (br_sp execution), RNat (ap_base ram),
             RNat (ap_base tables), RNat (ap_base code), RBool passed])])"

definition hosts_disjoint :: "nat \<Rightarrow> nat \<Rightarrow> arm_pages \<Rightarrow> arm_pages \<Rightarrow> arm_pages \<Rightarrow> bool" where
  "hosts_disjoint ram_pa table_pa ram tables code \<longleftrightarrow>
     disjoint (ap_base ram) (ap_bytes ram) (ap_base tables) (ap_bytes tables)
     \<and> disjoint (ap_base ram) (ap_bytes ram) (ap_base code) (ap_bytes code)
     \<and> disjoint (ap_base tables) (ap_bytes tables) (ap_base code) (ap_bytes code)
     \<and> disjoint ram_pa (ap_bytes ram) table_pa (ap_bytes tables)"

text \<open>What follows the run: the ledger's memory is read back, reported and judged.\<close>

definition dt_judged :: "'w firmware \<Rightarrow> ('l, 'i, 't, 'p) dt_core \<Rightarrow> probe_abi \<Rightarrow> nat \<Rightarrow> bool \<Rightarrow> bool \<Rightarrow> 'l dt_setup \<Rightarrow> arm_pages \<Rightarrow> arm_pages
    \<Rightarrow> arm_pages \<Rightarrow> u8 list \<Rightarrow> outcome \<Rightarrow> ('w, status fault + unit) op" where
  "dt_judged fw d a granule upper invalid s ram tables code tables_before o' =
     bindE (lift (dt_memory d (dc_replace d (on_ram o') (ds_ledger s)))) (\<lambda>observed.
     bindE (lift (dt_slice (output_offset (ds_layout s)) (output_offset (ds_layout s) + 28) observed)) (\<lambda>out.
     let passed = dt_passed a granule invalid s observed tables_before o' in
     bindS (report_lines fw (dt_lines d granule upper invalid s ram tables code out observed tables_before o' passed)) (\<lambda>_.
     verdict passed)))"

definition dt_case :: "'w firmware \<Rightarrow> 'w jit_host \<Rightarrow> 'm probe_core \<Rightarrow> ('l, 'i, 't, 'p) dt_core \<Rightarrow> probe_abi \<Rightarrow> nat \<Rightarrow> nat \<times> bool \<times> bool
    \<Rightarrow> ('w, status fault + unit) op" where
  "dt_case fw jh pc d a n = (\<lambda>(granule, upper, invalid).
     case_pages fw (16 * granule) LOADER_DATA (\<lambda>ram tables code.
       bindE (lift (require (hosts_disjoint RAM_PA TABLE_PA ram tables code))) (\<lambda>_.
       bindE (lift (dt_setup_of d granule upper invalid (length (ap_memory ram)))) (\<lambda>s.
       with_tables (build (\<lambda>(va, d). map_va TABLE_PA va d) (dt_maps (ds_layout s) invalid)
           \<lparr>tb_bytes = ap_memory tables, tb_granule = granule, tb_next = 2\<rparr>) (\<lambda>_ bt.
         bindE (dt_engine jh pc d granule s (tb_bytes bt) code) (\<lambda>o'.
         dt_judged fw d a granule upper invalid s ram tables code (tb_bytes bt) o'))))))"

definition dt_cases :: "(nat \<times> bool \<times> bool) list" where
  "dt_cases = concat (map (\<lambda>granule. concat (map (\<lambda>upper. map (\<lambda>invalid. (granule, upper, invalid)) [False, True]) [False, True]))
     [4096, 16384])"

text \<open>The last line reports the number of cases as a constant of the program, 8.\<close>

definition dt_main :: "bool \<Rightarrow> bool \<Rightarrow> 'w firmware \<Rightarrow> 'w jit_host \<Rightarrow> 'm probe_core \<Rightarrow> ('l, 'i, 't, 'p) dt_core \<Rightarrow> probe_abi
    \<Rightarrow> ('w, status fault + status) op" where
  "dt_main initialized x86_64 fw jh pc d a = probe_main initialized x86_64 fw ''NXDT: ENTRY''
     (run_cases fw ''NXDT: PASS'' ''NXDT: FAIL'' (dt_case fw jh pc d a) 0 dt_cases)"

lemma dt_cases_count: "length dt_cases = 8"
  by (simp add: dt_cases_def)

subsection \<open>What the probe gives back\<close>

lemma dt_engine_neutral: "neutral page_acq page_rel (dt_engine jh pc d granule s tables code)"
proof -
  have "neutral page_acq page_rel (jit_protect jh p n x)" for p n x
    unfolding jit_protect_def by (rule page_quiet.calls) blast
  then show ?thesis
    unfolding dt_engine_def fails_def
    by (intro page_quiet.quiet_intros page_quiet.opens_protection neutral_run_guest page_quiet.protects)
qed

lemma moves_dt_engine:
  assumes "placed (64 * 1024) (Inr code)"
  shows "moves guard_step (dt_engine jh pc d granule s tables code) Unguarded (leaves code (shows_refusal on_restored))"
  unfolding dt_engine_def case_prod_beta fails_def
  by (rule moves_touchless [OF neutral_query] moves_bindS [OF moves_protection_open] moves_if moves_case_option moves_case_sum
      moves_bindS [OF moves_run_guest [where Q = in_use]] moves_protectors moves_bindS [OF moves_protect] leaves_fail moves_ok
    | simp add: leaves_def shows_refusal_def placed_restored [OF assms])+

lemma moves_lift:
  assumes "\<And>y. moves guard_step (k y) Unguarded (leaves code bad)"
  shows "moves guard_step (bindE (lift x) k) Unguarded (leaves code bad)"
  unfolding lift_def
  by (rule moves_bindE [OF moves_ret [where P = "\<lambda>_ q. q = Unguarded"]]) (auto intro: assms simp: leaves_def)

text \<open>Reading the memory back from the ledger may fail, and reading the output from it may panic.\<close>

lemma readback_faults:
  "dt_memory d l = Inl e \<Longrightarrow> e = Fail COMPROMISED_DATA" "dt_slice a b xs = Inl e \<Longrightarrow> e = Panic"
  by (cases "dc_memory d l"; auto simp: dt_memory_def checked_def ok_or_def and_then_def dt_slice_def split: if_splits)+

lemma dt_case_engine:
  "settles (dt_case fw jh pc d a n c)"
  "moves guard_step (dt_case fw jh pc d a n c) Unguarded handed"
proof -
  obtain granule upper invalid where c: "c = (granule, upper, invalid)" by (metis prod_cases3)
  show "settles (dt_case fw jh pc d a n c)"
    unfolding dt_case_def dt_judged_def c prod.case Let_def
    by (intro settles_case_pages settles_with_tables settles_intros settles_neutral dt_engine_neutral verdict_neutral
        page_quiet.report_many)
  have j: "moves guard_step (dt_judged fw d a granule upper invalid s ram tables code tables_before o') q (leaves code corrupted)"
    if "leaves code (shows_refusal on_restored) (Inr o') q" for s ram tables code tables_before o' q
  proof (cases "refused q")
    case True
    with that have "on_restored o' \<noteq> 0" by (simp add: leaves_def shows_refusal_def)
    then have "post (dt_judged fw d a granule upper invalid s ram tables code tables_before o') corrupted"
      unfolding dt_judged_def Let_def
      by (auto intro!: post_bindE [OF post_lift [where P = "\<lambda>r. \<forall>e. r = Inl e \<longrightarrow> e = Panic \<or> e = Fail COMPROMISED_DATA"]]
          post_after post_fail simp: verdict_def fails_def dt_passed_def Let_def corrupted_def dest: readback_faults)
    with that show ?thesis
      by (intro leaves_bad) (auto simp: leaves_def dt_judged_def Let_def intro!: neutral_intros touch_reports touch_verdict)
  next
    case False
    with that show ?thesis
      by (intro leaves_untouched) (auto simp: leaves_def dt_judged_def Let_def intro!: neutral_intros touch_reports touch_verdict)
  qed
  show "moves guard_step (dt_case fw jh pc d a n c) Unguarded handed"
    unfolding dt_case_def c prod.case
    by (intro moves_case_pages moves_lift moves_with_tables moves_bindE [OF moves_dt_engine])
      (auto intro: j simp: leaves_def shows_refusal_def)
qed

interpretation dt_probe: probe_cases "dt_case fw jh pc d a" dt_cases for fw jh pc d a
  by unfold_locales (fact dt_case_engine)+

end
