(* ===== verification/Dt_Reference.thy ===== *)
theory Dt_Reference
  imports Dt_Probe Guest_Programs
begin

text \<open>
  What the device tree probe expects, compared with the reference interpreter: whatever pages the
  ledger hands out, the guest program copies the words of the tree, and the verdict of the probe is
  agreement with the reference run.
\<close>

subsection \<open>The instructions\<close>

lemma or_bits_22:
  fixes c y :: nat
  assumes "y < 2 ^ 12" "c div 2 ^ 10 mod 2 ^ 12 = 0"
  shows "c OR push_bit 10 y = c + 2 ^ 10 * y"
proof -
  have "take_bit 12 (drop_bit 10 c) = 0" using assms(2) by (simp add: take_bit_eq_mod drop_bit_eq_div)
  then have c: "\<not> bit c (10 + n)" if "n < 12" for n using that by (metis bit_0_eq bit_drop_bit_eq bit_take_bit_iff bot_apply bot_bool_def comp_apply)
  have "take_bit 12 y = y" using assms(1) by (simp add: take_bit_nat_eq_self)
  then have y: "bit y n \<Longrightarrow> n < 12" for n by (metis bit_take_bit_iff)
  have "c AND push_bit 10 y = 0"
    by (rule bit_eqI) (use c y in \<open>auto simp: bit_and_iff bit_push_bit_iff_nat le_iff_add\<close>)
  then show ?thesis by (simp add: disjunctive_add_eq_or [symmetric] push_bit_eq_mult mult.commute)
qed

lemma copy_word_parts:
  fixes w y :: nat
  assumes "y < 2 ^ 12" "w = (h * 2 ^ 12 + y) * 2 ^ 10 + b * 2 ^ 5 + r" "b < 32" "r < 32"
  shows "w mod 32 = r" "w div 2 ^ 5 mod 32 = b" "w div 2 ^ 10 mod 2 ^ 12 = y" "w div 2 ^ 22 = h"
    "w div 2 ^ 10 = h * 2 ^ 12 + y"
proof -
  define p q where "p = h * 2 ^ 12 + y" and "q = p * 32 + b"
  have w: "w = q * 32 + r" unfolding p_def q_def using assms(2) by simp
  have r: "w mod 32 = r" "w div 32 = q" unfolding w using assms(4) by simp_all
  then show "w mod 32 = r" by simp
  have b: "q mod 32 = b" "q div 32 = p" unfolding q_def using assms(3) by simp_all
  with r show "w div 2 ^ 5 mod 32 = b" by simp
  have "w div 2 ^ 10 = w div 32 div 32" by (simp add: div_mult2_eq [symmetric])
  then have t: "w div 2 ^ 10 = p" unfolding r b .
  then show "w div 2 ^ 10 = h * 2 ^ 12 + y" by (simp only: p_def)
  have y: "p mod 2 ^ 12 = y" "p div 2 ^ 12 = h" unfolding p_def using assms(1) by simp_all
  with t show "w div 2 ^ 10 mod 2 ^ 12 = y" by simp
  have "w div 2 ^ 22 = w div 2 ^ 10 div 2 ^ 12" by (simp add: div_mult2_eq [symmetric])
  then show "w div 2 ^ 22 = h" unfolding t y .
qed

lemma decode_transfer:
  assumes "w < 2 ^ 32" and h: "w div 2 ^ 22 = h" and k: "h div 4 mod 64 = 0x39"
  shows "decode w = Some (Transfer (h mod 4) (2 ^ (h div 256)) (w div 2 ^ 10 mod 2 ^ 12 * 2 ^ (h div 256)) (w div 2 ^ 5 mod 32) (w mod 32))"
proof -
  have d: "w div 2 ^ 24 = h div 4" "w div 2 ^ 30 = h div 256" unfolding h [symmetric] by (simp_all add: div_mult2_eq [symmetric])
  have n: "w div 2 ^ 24 mod 64 = 0x39" unfolding d by (rule k)
  have c: "w \<noteq> 0xd4400000" "w \<noteq> 0xd5033fdf" "w \<noteq> 0xd5033f9f" "w \<noteq> 0xd508871f"
    by (rule notI, use n in simp)+
  have s: "w div 2 ^ a \<noteq> v" if "a + b = 24" "v div 2 ^ b mod 64 \<noteq> 0x39" for a b v
  proof
    assume v: "w div 2 ^ a = v"
    have "w div 2 ^ 24 = w div 2 ^ a div 2 ^ b" unfolding that(1) [symmetric] power_add div_mult2_eq ..
    with n v that(2) show False by metis
  qed
  have e: "w div 2 ^ 5 \<noteq> 0x6a9c080" "w div 2 ^ 5 \<noteq> 0x6a8c080" "w div 2 ^ 22 \<noteq> 0x244" "w div 2 ^ 21 \<noteq> 0x294"
    by (rule s [of _ 19], simp, simp)+ (rule s [of _ 2], simp, simp, rule s [of _ 3], simp, simp)
  show ?thesis unfolding decode_def by (simp only: c e e [unfolded h] k d if_False if_True h simp_thms)
qed

lemma copy_decodes:
  assumes "y < 2 ^ 12"
  shows "0xb9400002 OR push_bit 10 y < 2 ^ 32" "0xb9000022 OR push_bit 10 y < 2 ^ 32"
    "decode (0xb9400002 OR push_bit 10 y) = Some (Transfer 1 4 (4 * y) 0 2)"
    "decode (0xb9000022 OR push_bit 10 y) = Some (Transfer 0 4 (4 * y) 1 2)"
proof -
  have w: "0xb9400002 OR push_bit 10 y = (0x2e5 * 2 ^ 12 + y) * 2 ^ 10 + 0 * 2 ^ 5 + 2"
      "0xb9000022 OR push_bit 10 y = (0x2e4 * 2 ^ 12 + y) * 2 ^ 10 + 1 * 2 ^ 5 + 2"
    by (subst or_bits_22 [OF assms]; simp)+
  show l: "0xb9400002 OR push_bit 10 y < 2 ^ 32" "0xb9000022 OR push_bit 10 y < 2 ^ 32" unfolding w using assms by simp_all
  have z: "(0 :: nat) < 32" "(1 :: nat) < 32" "(2 :: nat) < 32" by simp_all
  note p = copy_word_parts [OF assms w(1) z(1,3)] and q = copy_word_parts [OF assms w(2) z(2,3)]
  have h: "(0x2e5 :: nat) div 4 mod 64 = 0x39" "(0x2e4 :: nat) div 4 mod 64 = 0x39" by simp_all
  have d: "(0x2e5 :: nat) mod 4 = 1" "(0x2e5 :: nat) div 256 = 2" "(0x2e4 :: nat) mod 4 = 0" "(0x2e4 :: nat) div 256 = 2"
    "(2 :: nat) ^ 2 = 4" by simp_all
  show "decode (0xb9400002 OR push_bit 10 y) = Some (Transfer 1 4 (4 * y) 0 2)"
    unfolding decode_transfer [OF l(1) p(4) h(1), unfolded p(1-3) d] by (simp only: mult.commute)
  show "decode (0xb9000022 OR push_bit 10 y) = Some (Transfer 0 4 (4 * y) 1 2)"
    unfolding decode_transfer [OF l(2) q(4) h(2), unfolded q(1-3) d] by (simp only: mult.commute)
qed

definition copied :: "nat \<Rightarrow> nat list" where "copied v = [0, 4, v, v + 4, v + 8, v + 12]"

lemma instructions_words:
  assumes "instructions v = Inr ws" "v \<le> 16368"
  shows "length ws = 16" "list_all (\<lambda>w. w < 2 ^ 32) ws" "decode (ws ! 0) = Some (Add_Immediate 3 3 0)"
    "\<And>i. i < 6 \<Longrightarrow> decode (ws ! (1 + 2 * i)) = Some (Transfer 1 4 (copied v ! i) 0 2)"
    "\<And>i. i < 6 \<Longrightarrow> decode (ws ! (1 + 2 * i + 1)) = Some (Transfer 0 4 (4 * i) 1 2)"
    "decode (ws ! 13) = Some (Move_Wide 2 MARKER)" "decode (ws ! 14) = Some (Transfer 0 4 24 1 2)" "decode (ws ! 15) = Some Halts"
proof -
  from assms have v: "v mod 4 = 0" by (auto simp: instructions_def require_def split: if_splits)
  then obtain u where u: "v = 4 * u" by (metis mod_0_imp_dvd dvdE)
  then have b: "u + 3 < 2 ^ 12" using assms(2) by simp
  have c: "copy_words out (4 * y) = [0xb9400002 OR push_bit 10 y, 0xb9000022 OR push_bit 10 out]" if "y < 2 ^ 12" for out y
  proof -
    have "take_bit 32 (4 * y) = 4 * y" by (rule take_bit_nat_eq_self) (use that in simp)
    moreover have "take_bit 32 (push_bit 10 y) = push_bit 10 y" by (rule take_bit_nat_eq_self) (use that in \<open>simp add: push_bit_eq_mult\<close>)
    ultimately show ?thesis by (simp add: copy_words_def)
  qed
  have w: "wrapping_add v 4 = 4 * (u + 1)" "wrapping_add v 8 = 4 * (u + 2)" "wrapping_add v 12 = 4 * (u + 3)" "v = 4 * u"
    using assms(2) u by simp_all
  have e: "enumerate 0 [o0, o1, o2, o3, o4, o5] = [(0, o0), (1, o1), (2, o2), (3, o3), (4, o4), (5, o5)]" for o0 o1 o2 o3 o4 o5 :: nat
    by (simp add: numeral_eq_Suc)
  have d: "0 < (2 :: nat) ^ 12" "1 < (2 :: nat) ^ 12" "2 < (2 :: nat) ^ 12" "3 < (2 :: nat) ^ 12" "4 < (2 :: nat) ^ 12"
    "5 < (2 :: nat) ^ 12" "6 < (2 :: nat) ^ 12" "u < 2 ^ 12" "u + 1 < 2 ^ 12" "u + 2 < 2 ^ 12" using b by simp_all
  have ws: "ws = [0x91000063, 0xb9400002 OR push_bit 10 0, 0xb9000022 OR push_bit 10 0, 0xb9400002 OR push_bit 10 1, 0xb9000022 OR push_bit 10 1,
      0xb9400002 OR push_bit 10 u, 0xb9000022 OR push_bit 10 2, 0xb9400002 OR push_bit 10 (u + 1), 0xb9000022 OR push_bit 10 3,
      0xb9400002 OR push_bit 10 (u + 2), 0xb9000022 OR push_bit 10 4, 0xb9400002 OR push_bit 10 (u + 3), 0xb9000022 OR push_bit 10 5,
      0x52800002 OR push_bit 5 MARKER, 0xb9000022 OR push_bit 10 6, 0xd4400000]"
  proof -
    have "ws = 0x91000063 # concat (map (\<lambda>(out, offset). copy_words out offset) (enumerate 0 (copied_offsets v)))
       @ [0x52800002 OR push_bit 5 MARKER, 0xb9000022 OR push_bit 10 6, 0xd4400000]"
      using assms(1) by (auto simp: instructions_def require_def split: if_splits)
    also have "enumerate 0 (copied_offsets v) = [(0, 4 * 0), (1, 4 * 1), (2, 4 * u), (3, 4 * (u + 1)), (4, 4 * (u + 2)), (5, 4 * (u + 3))]"
      unfolding copied_offsets_def e w(1-3) using w(4) by simp
    finally show ?thesis unfolding list.map prod.case c [OF d(1)] c [OF d(2)] c [OF d(8)] c [OF d(9)] c [OF d(10)] c [OF b] concat.simps append.simps .
  qed
  note D = copy_decodes [OF d(1)] copy_decodes [OF d(2)] copy_decodes [OF d(3)] copy_decodes [OF d(4)] copy_decodes [OF d(5)]
    copy_decodes [OF d(6)] copy_decodes [OF d(7)] copy_decodes [OF d(8)] copy_decodes [OF d(9)] copy_decodes [OF d(10)]
    copy_decodes [OF b]
  have m: "0x52800002 OR push_bit 5 MARKER = 0x529579a2" by (simp add: MARKER_def push_bit_eq_mult)
  show "length ws = 16" unfolding ws by simp
  have all: "P 0 \<Longrightarrow> P 1 \<Longrightarrow> P 2 \<Longrightarrow> P 3 \<Longrightarrow> P 4 \<Longrightarrow> P 5 \<Longrightarrow> i < 6 \<Longrightarrow> P i" for P and i :: nat
  proof -
    assume "P 0" "P 1" "P 2" "P 3" "P 4" "P 5" "i < 6"
    moreover have "i \<in> {0, 1, 2, 3, 4, 5}" using \<open>i < 6\<close> by auto
    ultimately show "P i" by auto
  qed
  show "list_all (\<lambda>w. w < 2 ^ 32) ws" unfolding ws m list.pred_inject(2) by (intro conjI D) simp_all
  show "decode (ws ! 0) = Some (Add_Immediate 3 3 0)" unfolding ws by (simp add: decode_def)
  have n: "ws ! (1 + 2 * 0) = 0xb9400002 OR push_bit 10 0" "ws ! (1 + 2 * 1) = 0xb9400002 OR push_bit 10 1"
    "ws ! (1 + 2 * 2) = 0xb9400002 OR push_bit 10 u" "ws ! (1 + 2 * 3) = 0xb9400002 OR push_bit 10 (u + 1)"
    "ws ! (1 + 2 * 4) = 0xb9400002 OR push_bit 10 (u + 2)" "ws ! (1 + 2 * 5) = 0xb9400002 OR push_bit 10 (u + 3)"
    "ws ! (1 + 2 * 0 + 1) = 0xb9000022 OR push_bit 10 0" "ws ! (1 + 2 * 1 + 1) = 0xb9000022 OR push_bit 10 1"
    "ws ! (1 + 2 * 2 + 1) = 0xb9000022 OR push_bit 10 2" "ws ! (1 + 2 * 3 + 1) = 0xb9000022 OR push_bit 10 3"
    "ws ! (1 + 2 * 4 + 1) = 0xb9000022 OR push_bit 10 4" "ws ! (1 + 2 * 5 + 1) = 0xb9000022 OR push_bit 10 5"
    "ws ! 13 = 0x529579a2" "ws ! 14 = 0xb9000022 OR push_bit 10 6" "ws ! 15 = 0xd4400000"
    unfolding ws m by simp_all
  have o': "copied v ! 0 = 4 * 0" "copied v ! 1 = 4 * 1" "copied v ! 2 = 4 * u" "copied v ! 3 = 4 * (u + 1)"
    "copied v ! 4 = 4 * (u + 2)" "copied v ! 5 = 4 * (u + 3)" by (simp_all add: copied_def u)
  show "decode (ws ! (1 + 2 * i)) = Some (Transfer 1 4 (copied v ! i) 0 2)" if "i < 6" for i
    by (rule all [OF _ _ _ _ _ _ that]; unfold n o'; rule D)
  show "decode (ws ! (1 + 2 * i + 1)) = Some (Transfer 0 4 (4 * i) 1 2)" if "i < 6" for i
    by (rule all [OF _ _ _ _ _ _ that]; unfold n; rule D)
  show "decode (ws ! 13) = Some (Move_Wide 2 MARKER)" unfolding n by (simp add: decode_def MARKER_def)
  have "decode (ws ! 14) = Some (Transfer 0 4 (4 * 6) 1 2)" unfolding n by (rule D)
  then show "decode (ws ! 14) = Some (Transfer 0 4 24 1 2)" by simp
  show "decode (ws ! 15) = Some Halts" unfolding n by (simp add: decode_def)
qed

subsection \<open>The copy loop\<close>

text \<open>
  Pairs of instructions, each of which loads a word of the win at \<open>src\<close> and stores it in the win
  at \<open>at\<close>, append the words to what was stored before.
\<close>

lemma copies_run:
  assumes prog: "program_at tr va m ram off ws"
    and code: "at + size' \<le> off \<or> off + 4 * length ws \<le> at" and room: "at + size' \<le> length ram"
    and win: "at + size' \<le> src \<or> src + win \<le> at" "src + win \<le> length ram"
    and reads: "\<And>i. i < win \<Longrightarrow> tr m False False (x0 + i) = Inr (src + i)"
    and writes: "\<And>i. i < size' \<Longrightarrow> tr m False True (x1 + i) = Inr (at + i)"
  shows "\<lbrakk>\<And>i. i < length os \<Longrightarrow> decode (ws ! (k + 2 * i)) = Some (Transfer 1 4 (os ! i) 0 2);
      \<And>i. i < length os \<Longrightarrow> decode (ws ! (k + 2 * i + 1)) = Some (Transfer 0 4 (length bs + 4 * i) 1 2);
      k + 2 * length os \<le> length ws; list_all (\<lambda>o'. o' + 4 \<le> win) os; length bs + 4 * length os \<le> size'\<rbrakk>
    \<Longrightarrow> \<exists>a'. guest_runs tr (2 * length os + n) (at_word [x0, x1, a, b] va k m (overwrite at bs ram) d d)
      = guest_runs tr n (at_word [x0, x1, a', b] va (k + 2 * length os) m
          (overwrite at (bs @ concat (map (\<lambda>o'. subrange (src + o') (src + o' + 4) ram) os)) ram) (d + 2 * length os) (d + 2 * length os))"
proof (induction os arbitrary: bs k a d)
  case (Cons o' os)
  let ?ram = "overwrite at bs ram" and ?v = "subrange (src + o') (src + o' + 4) ram"
  have b: "o' + 4 \<le> win" "length bs + 4 \<le> size'" "k < length ws" "k + 1 < length ws" using Cons.prems by simp_all
  have P: "program_at tr va m ?ram off ws" by (rule program_at_keep [OF prog]) (use room code b in auto)
  have off: "offsets (tr m False False) (x0 + o') 4 = Inr [src + o'..<src + o' + 4]"
    by (rule offsets_linear) (use reads [of "o' + i" for i] b in \<open>simp add: add.assoc\<close>)
  have "gather [src + o'..<src + o' + 4] ?ram = subrange (src + o') (src + o' + 4) ?ram"
    by (rule gather_upt) (use room b win in simp)
  also have "\<dots> = ?v" by (rule subrange_overwrite_other) (use room b win in auto)
  finally have g: "gather [src + o'..<src + o' + 4] ?ram = ?v" .
  have l: "length ?v = 4" using b win by (simp add: length_subrange)
  have d1: "decode (ws ! k) = Some (Transfer 1 4 o' 0 2)" using Cons.prems(1) [of 0] by simp
  have d2: "decode (ws ! (k + 1)) = Some (Transfer 0 4 (length bs) 1 2)" using Cons.prems(2) [of 0] by simp
  have s1: "guest_step tr (at_word [x0, x1, a, b] va k m ?ram d d) = (None, at_word [x0, x1, le_nat ?v, b] va (k + 1) m ?ram (d + 1) (d + 1))"
    using at_transfer(1) [OF P b(3) d1, of "[x0, x1, a, b]" "[src + o'..<src + o' + 4]" d d] off g
    by (simp add: extended_def extension_def numeral_2_eq_2)
  have w: "offsets (tr m False True) (x1 + length bs) 4 = Inr [at + length bs..<at + length bs + 4]"
    by (rule offsets_linear) (use writes [of "length bs + i" for i] b in \<open>simp add: add.assoc\<close>)
  have "scatter [at + length bs..<at + length bs + length ?v] ?v ?ram = overwrite (at + length bs) ?v ?ram"
    by (rule scatter_upt) (use room b l in simp)
  also have "\<dots> = overwrite at (bs @ ?v) ram" by (rule overwrite_append) (use room b l in simp)
  finally have st: "scatter [at + length bs..<at + length bs + 4] ?v ?ram = overwrite at (bs @ ?v) ram" by (simp only: l)
  have lv: "le_bytes 4 (le_nat ?v) = ?v" using le_bytes_le_nat [of ?v] l by simp
  have s2: "guest_step tr (at_word [x0, x1, le_nat ?v, b] va (k + 1) m ?ram (d + 1) (d + 1))
      = (None, at_word [x0, x1, le_nat ?v, b] va (k + 2) m (overwrite at (bs @ ?v) ram) (d + 2) (d + 2))"
    using at_transfer(1) [OF P b(4) d2, of "[x0, x1, le_nat ?v, b]" "[at + length bs..<at + length bs + 4]" "d + 1" "d + 1"] w st lv
    by (simp add: numeral_2_eq_2)
  have "2 * length (o' # os) + n = Suc (Suc (2 * length os + n))" by simp
  then have "guest_runs tr (2 * length (o' # os) + n) (at_word [x0, x1, a, b] va k m ?ram d d)
      = guest_runs tr (2 * length os + n) (at_word [x0, x1, le_nat ?v, b] va (k + 2) m (overwrite at (bs @ ?v) ram) (d + 2) (d + 2))"
    by (simp only: guest_runs_step [OF s1] guest_runs_step [OF s2])
  moreover have "\<exists>a'. guest_runs tr (2 * length os + n) (at_word [x0, x1, le_nat ?v, b] va (k + 2) m (overwrite at (bs @ ?v) ram) (d + 2) (d + 2))
      = guest_runs tr n (at_word [x0, x1, a', b] va (k + 2 + 2 * length os) m
          (overwrite at ((bs @ ?v) @ concat (map (\<lambda>o'. subrange (src + o') (src + o' + 4) ram) os)) ram) (d + 2 + 2 * length os) (d + 2 + 2 * length os))"
  proof (rule Cons.IH)
    show "decode (ws ! (k + 2 + 2 * i)) = Some (Transfer 1 4 (os ! i) 0 2)" if "i < length os" for i
      using Cons.prems(1) [of "Suc i"] that by (simp add: add.assoc)
    show "decode (ws ! (k + 2 + 2 * i + 1)) = Some (Transfer 0 4 (length (bs @ ?v) + 4 * i) 1 2)" if "i < length os" for i
      using Cons.prems(2) [of "Suc i"] that l by (simp add: add.assoc)
  qed (use Cons.prems l in simp_all)
  ultimately show ?case by (simp add: add.assoc)
qed auto

subsection \<open>The layout\<close>

text \<open>What the ledger is relied on for: four different pages of the guest's RAM.\<close>

definition laid_out :: "nat \<Rightarrow> dt_layout \<Rightarrow> bool" where
  "laid_out granule y \<longleftrightarrow> dl_aperture y = RAM_PA \<and> dl_va_base y \<in> {LOW, HIGH}
     \<and> distinct [dl_code_pa y, dl_dt_pa y, dl_output_pa y, dl_stack_pa y]
     \<and> list_all (\<lambda>pa. RAM_PA \<le> pa \<and> pa < RAM_PA + 16 * granule \<and> pa mod granule = 0)
         [dl_code_pa y, dl_dt_pa y, dl_output_pa y, dl_stack_pa y]"

lemma page_pa:
  assumes "granule \<in> {4096, 16384}" "RAM_PA \<le> pa" "pa < RAM_PA + 16 * granule" "pa mod granule = 0"
  shows "\<exists>k < 16. pa = RAM_PA + k * granule"
proof -
  have "RAM_PA mod granule = 0" using assms(1) by (auto simp: RAM_PA_def)
  then have "(pa - RAM_PA) mod granule = 0" using assms(2,4) by (simp add: mod_eq_0_iff_dvd)
  then obtain k where k: "pa - RAM_PA = k * granule" by (metis mod_0_imp_dvd dvdE mult.commute)
  moreover have "k * granule < 16 * granule" using k assms(2,3) by linarith
  then have "k < 16" by simp
  ultimately show ?thesis using assms(2) by (metis le_add_diff_inverse)
qed

lemma page_numbers:
  assumes "k < 16"
  shows "page_of 4096 (LOW + k * 4096) = (0, 131072 + k)" "page_of 4096 (HIGH + k * 4096) = (1, 34359869440 + k)"
    "page_of 16384 (LOW + k * 16384) = (0, 32768 + k)" "page_of 16384 (HIGH + k * 16384) = (1, 32768 + k)"
proof -
  have g: "2 ^ page_bits 4096 = (4096 :: nat)" "2 ^ page_bits 16384 = (16384 :: nat)"
    "2 ^ (index_bits 4096 * (depth 4096 + 1)) = (68719476736 :: nat)" "2 ^ (index_bits 16384 * (depth 16384 + 1)) = (8589934592 :: nat)"
    by (simp_all add: page_bits_def index_bits_def depth_def start_level_def)
  have d: "(LOW + k * 4096) div 4096 = 131072 + k" "(HIGH + k * 4096) div 4096 = 4503565267763200 + k"
    "(LOW + k * 16384) div 16384 = 32768 + k" "(HIGH + k * 16384) div 16384 = 1125891316940800 + k"
    by (simp_all add: LOW_def HIGH_def)
  have m: "(131072 + k) mod 68719476736 = 131072 + k" "(32768 + k) mod 8589934592 = 32768 + k" using assms by simp_all
  have m1: "(4503565267763200 + k) mod 68719476736 = 34359869440 + k" by (rule mod_nat_eqI) (use assms in simp_all)
  have m2: "(1125891316940800 + k) mod 8589934592 = 32768 + k" by (rule mod_nat_eqI) (use assms in simp_all)
  have l: "root_number (LOW + k * 4096) = 0" "root_number (LOW + k * 16384) = 0"
    using assms by (simp_all add: root_number_def drop_bit_eq_div LOW_def)
  have "2 ^ 63 \<le> HIGH" by (simp add: HIGH_def)
  then have h: "root_number (HIGH + n) = 1" for n
    using div_le_mono [of "2 ^ 63" "HIGH + n" "2 ^ 63"] by (simp add: root_number_def drop_bit_eq_div)
  show "page_of 4096 (LOW + k * 4096) = (0, 131072 + k)" unfolding page_of_def g d m l ..
  show "page_of 4096 (HIGH + k * 4096) = (1, 34359869440 + k)" unfolding page_of_def g d m1 h ..
  show "page_of 16384 (LOW + k * 16384) = (0, 32768 + k)" unfolding page_of_def g d m l ..
  show "page_of 16384 (HIGH + k * 16384) = (1, 32768 + k)" unfolding page_of_def g d m2 h ..
qed

lemma numbered_pages:
  assumes "granule \<in> {4096, 16384}" "base \<in> {LOW, HIGH}" "k < 16" "k' < 16"
  shows "page_of granule (base + k * granule) = page_of granule (base + k' * granule) \<longleftrightarrow> k = k'"
    "(base + k * granule) mod granule = 0" "base + 16 * granule < 2 ^ 64"
proof -
  show "page_of granule (base + k * granule) = page_of granule (base + k' * granule) \<longleftrightarrow> k = k'"
    using assms(1,2) by (elim insertE emptyE; hypsubst)
      (simp_all only: page_numbers [OF assms(3)] page_numbers [OF assms(4)] prod.inject add_left_cancel simp_thms)
  show "(base + k * granule) mod granule = 0" "base + 16 * granule < 2 ^ 64"
    using assms(1,2) by (auto simp: LOW_def HIGH_def)
qed

lemma page_leaf:
  assumes "granule \<in> {4096, 16384}" "k < 16"
  shows "page_access granule RAM_PA (16 * granule) fetch store ((RAM_PA + k * granule) OR 0x403) = Through"
    "leaf_output ((RAM_PA + k * granule) OR 0x403) = RAM_PA + k * granule" "(RAM_PA + k * granule) OR 0x403 < 2 ^ 64"
  by (rule base_leaf [OF assms(1) _ _ assms(2)]; simp add: RAM_PA_def)+

text \<open>The pages of a layout, by number.\<close>

lemma laid_out_pages:
  assumes g: "granule \<in> {4096, 16384}" and y: "laid_out granule y"
  obtains c t o' s where "distinct [c, t, o', s]" "list_all (\<lambda>k. k < 16) [c, t, o', s]"
    "dl_code_pa y = RAM_PA + c * granule" "dl_dt_pa y = RAM_PA + t * granule"
    "dl_output_pa y = RAM_PA + o' * granule" "dl_stack_pa y = RAM_PA + s * granule"
proof -
  from y have P: "RAM_PA \<le> pa" "pa < RAM_PA + 16 * granule" "pa mod granule = 0"
    if "pa \<in> {dl_code_pa y, dl_dt_pa y, dl_output_pa y, dl_stack_pa y}" for pa
    using that by (auto simp: laid_out_def)
  have E: "\<exists>k < 16. pa = RAM_PA + k * granule" if "pa \<in> {dl_code_pa y, dl_dt_pa y, dl_output_pa y, dl_stack_pa y}" for pa
    by (rule page_pa [OF g]) (fact P [OF that])+
  obtain c where c: "c < 16" "dl_code_pa y = RAM_PA + c * granule" using E [of "dl_code_pa y"] by auto
  obtain t where t: "t < 16" "dl_dt_pa y = RAM_PA + t * granule" using E [of "dl_dt_pa y"] by auto
  obtain o' where o': "o' < 16" "dl_output_pa y = RAM_PA + o' * granule" using E [of "dl_output_pa y"] by auto
  obtain s where s: "s < 16" "dl_stack_pa y = RAM_PA + s * granule" using E [of "dl_stack_pa y"] by auto
  from y have "distinct [dl_code_pa y, dl_dt_pa y, dl_output_pa y, dl_stack_pa y]" by (simp add: laid_out_def)
  then have "distinct [c, t, o', s]" unfolding c t o' s by auto
  with c t o' s that show thesis by simp
qed

lemma va_for_page:
  assumes g: "granule \<in> {4096, 16384}" and y: "laid_out granule y" and k: "k < 16"
  shows "va_for y (RAM_PA + k * granule) = dl_va_base y + k * granule"
proof -
  have b: "dl_aperture y = RAM_PA" "dl_va_base y \<in> {LOW, HIGH}" using y by (simp_all add: laid_out_def)
  have "k * granule \<le> 15 * 16384" by (rule mult_le_mono) (use k g in auto)
  then have n: "k * granule < 2 ^ 20" by simp
  have "wrapping_sub (RAM_PA + k * granule) RAM_PA = k * granule" using n by (simp add: wrapping_sub_def RAM_PA_def)
  moreover have "dl_va_base y + k * granule < 2 ^ 64" using b(2) n by (auto simp: LOW_def HIGH_def)
  ultimately show ?thesis by (simp add: va_for_def b(1))
qed

text \<open>The tables that the probe builds, read through the walk.\<close>

lemma dt_build:
  assumes g: "granule \<in> {4096, 16384}" and y: "laid_out granule y"
  obtains tb where "build (\<lambda>(va, d). map_va TABLE_PA va d) (dt_maps y invalid) (empty_tables granule 16) = (Inr (), tb)"
    "maps_page granule (translate 0x0000fffffffff000 TABLE_PA tb) (va_for y (dl_code_pa y)) (dl_code_pa y OR 0x403)"
    "maps_page granule (translate 0x0000fffffffff000 TABLE_PA tb) (va_for y (dl_dt_pa y)) (if invalid then 0 else dl_dt_pa y OR 0x403)"
    "maps_page granule (translate 0x0000fffffffff000 TABLE_PA tb) (va_for y (dl_output_pa y)) (dl_output_pa y OR 0x403)"
proof -
  obtain c t o' s where L: "distinct [c, t, o', s]" "list_all (\<lambda>k. k < 16) [c, t, o', s]"
    "dl_code_pa y = RAM_PA + c * granule" "dl_dt_pa y = RAM_PA + t * granule"
    "dl_output_pa y = RAM_PA + o' * granule" "dl_stack_pa y = RAM_PA + s * granule"
    by (rule laid_out_pages [OF g y])
  from L(2) have k: "c < 16" "t < 16" "o' < 16" "s < 16" by simp_all
  have b: "dl_va_base y \<in> {LOW, HIGH}" using y by (simp add: laid_out_def)
  note V = va_for_page [OF g y]
  have m: "dt_maps y invalid = [(dl_va_base y + c * granule, (RAM_PA + c * granule) OR 0x403),
      (dl_va_base y + t * granule, if invalid then 0 else (RAM_PA + t * granule) OR 0x403),
      (dl_va_base y + o' * granule, (RAM_PA + o' * granule) OR 0x403), (dl_va_base y + s * granule, (RAM_PA + s * granule) OR 0x403)]"
    by (simp add: dt_maps_def L(3-6) V k FORCE_WRONG_DT_MAPPING_def)
  have "\<exists>tb. build (\<lambda>(va, d). map_va TABLE_PA va d) (dt_maps y invalid) (empty_tables granule 16) = (Inr (), tb)
    \<and> (\<forall>v. translate 0x0000fffffffff000 TABLE_PA tb v
         = requested_leaf (\<lambda>(va, d). page_of granule va) snd (dt_maps y invalid) (page_of granule v) 0)"
  proof (rule build_from_empty [OF g])
    show "TABLE_PA mod granule = 0" "TABLE_PA + 16 * granule \<le> 2 ^ 48" "length (dt_maps y invalid) * depth granule + 2 \<le> 16"
      using g by (auto simp: TABLE_PA_def depth_def start_level_def m)
    show "list_all (\<lambda>(va, d). d < 2 ^ 64) (dt_maps y invalid)"
      unfolding m using page_leaf(3) [OF g] k by simp
  qed
  then obtain tb where tb: "build (\<lambda>(va, d). map_va TABLE_PA va d) (dt_maps y invalid) (empty_tables granule 16) = (Inr (), tb)"
    "\<And>v. translate 0x0000fffffffff000 TABLE_PA tb v
         = requested_leaf (\<lambda>(va, d). page_of granule va) snd (dt_maps y invalid) (page_of granule v) 0" by auto
  have z: "(dl_va_base y + k * granule) mod granule = 0" if "k < 16" for k by (rule numbered_pages(2) [OF g b that that])
  have at: "page_of granule (dl_va_base y + k * granule + i) = page_of granule (dl_va_base y + k * granule)" if "k < 16" "i < granule" for k i
    by (rule page_of_offset [OF g z [OF that(1)] that(2)])
  have z0: "dl_va_base y mod granule = 0" using z [of 0] by simp
  note N = numbered_pages(1) [OF g b]
  show thesis
    by (rule that [OF tb(1)]) (use L(1) in \<open>simp_all add: maps_page_def L(3-5) V k z0 tb(2) m at N\<close>)
qed

subsection \<open>The run\<close>

lemma copied_words:
  "concat (map (\<lambda>o'. subrange (src + o') (src + o' + 4) ram) (copied v))
     = subrange src (src + 8) ram @ subrange (src + v) (src + v + 16) ram"
proof -
  have "subrange (src + v) (src + v + 16) ram = subrange (src + v) (src + v + 4) ram @ subrange (src + v + 4) (src + v + 8) ram
      @ subrange (src + v + 8) (src + v + 12) ram @ subrange (src + v + 12) (src + v + 16) ram"
    by (simp add: subrange_append)
  moreover have "subrange src (src + 8) ram = subrange src (src + 4) ram @ subrange (src + 4) (src + 8) ram"
    by (simp add: subrange_append)
  ultimately show ?thesis by (simp add: copied_def add.assoc)
qed

text \<open>The walk through the tables of a case, by the numbers of the pages.\<close>

lemma dt_walks:
  assumes g: "granule \<in> {4096, 16384}" and k: "k < 16"
    and leaf: "maps_page granule leaf va ((RAM_PA + k * granule) OR 0x403)" and i: "i < granule"
  shows "page_walk granule RAM_PA (16 * granule) leaf fetch store (va + i) = Inr (k * granule + i)"
  by (rule page_walk_page [OF leaf page_leaf(1) [OF g k] page_leaf(2) [OF g k] i])

lemma first_step:
  assumes "program_at tr va m ram off ws" "decode (ws ! 0) = Some (Add_Immediate 3 3 0)" "0 < length ws"
  shows "guest_step tr (at_word [x0, x1, x2, 0x2468ace0] va 0 m ram d q) = (None, at_word [x0, x1, x2, 0x2468ace0] va 1 m ram d q)"
  using at_plain(2) [OF assms(1,3,2), of "[x0, x1, x2, 0x2468ace0]" 3 3 0 d q] by (simp add: numeral_3_eq_3)

lemma dt_runs:
  assumes g: "granule \<in> {4096, 16384}" and k: "c < 16" "t < 16" "o' < 16" "distinct [c, t, o']"
    and code: "maps_page granule leaf entry' ((RAM_PA + c * granule) OR 0x403)"
    and ws: "instructions v = Inr ws" "v + 16 \<le> granule"
    and ram: "length ram = 16 * granule" "holds_words ram (c * granule) ws"
  defines "tr \<equiv> \<lambda>control :: nat. page_walk granule RAM_PA (16 * granule) leaf"
  defines "out \<equiv> subrange (t * granule) (t * granule + 8) ram @ subrange (t * granule + v) (t * granule + v + 16) ram @ le_bytes 4 MARKER"
  shows "maps_page granule leaf dt_va ((RAM_PA + t * granule) OR 0x403) \<Longrightarrow> maps_page granule leaf out_va ((RAM_PA + o' * granule) OR 0x403)
      \<Longrightarrow> guest_runs tr 32 (reset_cpu [dt_va, out_va, x2, 0x2468ace0] entry' m ram)
        = (Halted, at_word [dt_va, out_va, MARKER, 0x2468ace0] entry' 16 m (overwrite (o' * granule) out ram) 13 13)"
    and "maps_page granule leaf dt_va 0 \<Longrightarrow> guest_runs tr 32 (reset_cpu [dt_va, out_va, x2, 0x2468ace0] entry' m ram)
        = (Aborted False dt_va (Fault 7), at_word [dt_va, out_va, x2, 0x2468ace0] entry' 1 m ram 1 0\<lparr>gc_fetches := 2\<rparr>)"
proof -
  have "v \<le> 16368" using ws(2) g by auto
  note W = instructions_words [OF ws(1) this]
  have "64 \<le> granule" using g by auto
  then have P: "program_at tr entry' m ram (c * granule) ws"
    unfolding program_at_def tr_def using ram(2) W(1) by (auto intro!: dt_walks [OF g k(1) code])
  let ?r = "reset_cpu [dt_va, out_va, x2, 0x2468ace0] entry' m ram"
  have r: "?r = at_word [dt_va, out_va, x2, 0x2468ace0] entry' 0 m ram 0 0" by (simp add: reset_cpu_def at_word_def)
  have s0: "guest_step tr ?r = (None, at_word [dt_va, out_va, x2, 0x2468ace0] entry' 1 m ram 0 0)"
    unfolding r by (rule first_step [OF P W(3)]) (simp add: W(1))
  have n32: "(32 :: nat) = Suc 31" "(31 :: nat) = Suc 30" by simp_all
  show "guest_runs tr 32 ?r = (Aborted False dt_va (Fault 7), at_word [dt_va, out_va, x2, 0x2468ace0] entry' 1 m ram 1 0\<lparr>gc_fetches := 2\<rparr>)"
    if "maps_page granule leaf dt_va 0"
  proof -
    have "tr m False False dt_va = Inl (Fault 7)"
      unfolding tr_def by (rule page_walk_unmapped [OF that]) (use g in \<open>auto simp: page_access_def\<close>)
    then have f: "offsets (tr m False (1 = (0 :: nat))) ([dt_va, out_va, x2, 0x2468ace0] ! 0 + 0) 4 = Inl (dt_va, Fault 7)"
      by (simp add: offsets_fault)
    have d: "decode (ws ! 1) = Some (Transfer 1 4 0 0 2)" using W(4) [of 0] by (simp add: copied_def)
    have "guest_step tr (at_word [dt_va, out_va, x2, 0x2468ace0] entry' 1 m ram 0 0)
        = (Some (Aborted False dt_va (Fault 7)), at_word [dt_va, out_va, x2, 0x2468ace0] entry' 1 m ram (0 + 1) 0\<lparr>gc_fetches := 1 + 1\<rparr>)"
      by (rule at_transfer(2) [OF P _ d]) (use f W(1) in simp_all)
    from guest_runs_stop [OF this, of 30] show ?thesis
      unfolding n32(1) guest_runs_step [OF s0] unfolding n32(2) by (simp only: add_0 one_add_one)
  qed
  assume data: "maps_page granule leaf dt_va ((RAM_PA + t * granule) OR 0x403)" and outp: "maps_page granule leaf out_va ((RAM_PA + o' * granule) OR 0x403)"
  have le: "k * granule + granule \<le> 16 * granule" if "k < 16" for k
    using mult_le_mono1 [of "Suc k" 16 granule] that by simp
  let ?mid = "subrange (t * granule) (t * granule + 8) ram @ subrange (t * granule + v) (t * granule + v + 16) ram"
  have "\<exists>a'. guest_runs tr (2 * length (copied v) + 19) (at_word [dt_va, out_va, x2, 0x2468ace0] entry' 1 m (overwrite (o' * granule) [] ram) 0 0)
      = guest_runs tr 19 (at_word [dt_va, out_va, a', 0x2468ace0] entry' (1 + 2 * length (copied v)) m
          (overwrite (o' * granule) ([] @ concat (map (\<lambda>o'. subrange (t * granule + o') (t * granule + o' + 4) ram) (copied v))) ram)
          (0 + 2 * length (copied v)) (0 + 2 * length (copied v)))"
  proof (rule copies_run [OF P, where size' = granule and win = granule])
    show "o' * granule + granule \<le> c * granule \<or> c * granule + 4 * length ws \<le> o' * granule"
      by (rule apart_pages) (use k(4) W(1) \<open>64 \<le> granule\<close> in auto)
    show "o' * granule + granule \<le> t * granule \<or> t * granule + granule \<le> o' * granule"
      by (rule apart_pages) (use k(4) in auto)
    show "o' * granule + granule \<le> length ram" "t * granule + granule \<le> length ram" using le k ram(1) by simp_all
    show "tr m False False (dt_va + i) = Inr (t * granule + i)" if "i < granule" for i
      unfolding tr_def by (rule dt_walks [OF g k(2) data that])
    show "tr m False True (out_va + i) = Inr (o' * granule + i)" if "i < granule" for i
      unfolding tr_def by (rule dt_walks [OF g k(3) outp that])
    show "decode (ws ! (1 + 2 * i)) = Some (Transfer 1 4 (copied v ! i) 0 2)" if "i < length (copied v)" for i
      by (rule W(4)) (use that in \<open>simp add: copied_def\<close>)
    show "decode (ws ! (1 + 2 * i + 1)) = Some (Transfer 0 4 (length [] + 4 * i) 1 2)" if "i < length (copied v)" for i
      using W(5) [of i] that by (simp add: copied_def)
  qed (use W(1) ws(2) \<open>64 \<le> granule\<close> in \<open>simp_all add: copied_def\<close>)
  then obtain a' where copy: "guest_runs tr 31 (at_word [dt_va, out_va, x2, 0x2468ace0] entry' 1 m ram 0 0)
      = guest_runs tr 19 (at_word [dt_va, out_va, a', 0x2468ace0] entry' 13 m (overwrite (o' * granule) ?mid ram) 12 12)"
    unfolding copied_words by (auto simp: copied_def)
  have "t * granule + granule \<le> length ram" unfolding ram(1) by (rule le [OF k(2)])
  then have lm: "length ?mid = 24" using ws(2) \<open>64 \<le> granule\<close> by (simp add: length_subrange)
  have ol: "o' * granule + granule \<le> length ram" unfolding ram(1) by (rule le [OF k(3)])
  let ?ram = "overwrite (o' * granule) ?mid ram"
  have P': "program_at tr entry' m ?ram (c * granule) ws"
    by (rule program_at_keep [OF P])
      (use ol lm \<open>64 \<le> granule\<close> apart_pages [of o' c "4 * length ws" granule] k(4) W(1) in auto)
  have s13: "guest_step tr (at_word [dt_va, out_va, a', 0x2468ace0] entry' 13 m ?ram 12 12)
      = (None, at_word [dt_va, out_va, MARKER, 0x2468ace0] entry' 14 m ?ram 12 12)"
    using at_plain(3) [OF P' _ W(6), of "[dt_va, out_va, a', 0x2468ace0]" 2 MARKER 12 12] W(1) by (simp add: numeral_2_eq_2)
  have "offsets (tr m False True) (out_va + 24) 4 = Inr [o' * granule + 24..<o' * granule + 24 + 4]"
    unfolding tr_def by (rule offsets_linear) (use dt_walks [OF g k(3) outp, of "24 + i" False True for i] \<open>64 \<le> granule\<close> in \<open>simp add: add.assoc\<close>)
  moreover have "scatter [o' * granule + 24..<o' * granule + 24 + 4] (le_bytes 4 MARKER) ?ram = overwrite (o' * granule) out ram"
    using scatter_upt [of "o' * granule + 24" "le_bytes 4 MARKER" ?ram] overwrite_append [of "o' * granule" ?mid "le_bytes 4 MARKER" ram]
      lm ol \<open>64 \<le> granule\<close> by (simp add: out_def)
  ultimately have s14: "guest_step tr (at_word [dt_va, out_va, MARKER, 0x2468ace0] entry' 14 m ?ram 12 12)
      = (None, at_word [dt_va, out_va, MARKER, 0x2468ace0] entry' 15 m (overwrite (o' * granule) out ram) 13 13)"
    using at_transfer(1) [OF P' _ W(7), of "[dt_va, out_va, MARKER, 0x2468ace0]" "[o' * granule + 24..<o' * granule + 24 + 4]" 12 12] W(1)
    by simp
  have lo: "length out = 28" using lm by (simp add: out_def)
  have P'': "program_at tr entry' m (overwrite (o' * granule) out ram) (c * granule) ws"
    by (rule program_at_keep [OF P])
      (use ol lo \<open>64 \<le> granule\<close> apart_pages [of o' c "4 * length ws" granule] k(4) W(1) in auto)
  have s15: "guest_step tr (at_word [dt_va, out_va, MARKER, 0x2468ace0] entry' 15 m (overwrite (o' * granule) out ram) 13 13)
      = (Some Halted, at_word [dt_va, out_va, MARKER, 0x2468ace0] entry' 16 m (overwrite (o' * granule) out ram) 13 13)"
    using at_halt [OF P'' _ W(8), of "[dt_va, out_va, MARKER, 0x2468ace0]" 13 13] W(1) by simp
  have n19: "(19 :: nat) = Suc (Suc (Suc 16))" by simp
  show "guest_runs tr 32 ?r = (Halted, at_word [dt_va, out_va, MARKER, 0x2468ace0] entry' 16 m (overwrite (o' * granule) out ram) 13 13)"
    unfolding n32(1) guest_runs_step [OF s0] copy unfolding n19 guest_runs_step [OF s13] guest_runs_step [OF s14] guest_runs_stop [OF s15] ..
qed

subsection \<open>The verdict\<close>

text \<open>
  An outcome of the emulator that reports a run of the reference: registers, RAM and counts agree, and
  a fault is reported with its syndrome, its address and the word that caused it. Every instruction is
  a block of its own.
\<close>

definition reports_run :: "probe_abi \<Rightarrow> nat \<Rightarrow> dt_layout \<Rightarrow> nat list \<Rightarrow> guest_end \<times> guest_cpu \<Rightarrow> u8 list \<Rightarrow> u8 list \<Rightarrow> outcome \<Rightarrow> bool" where
  "reports_run a granule y words = (\<lambda>(stop, c) observed tables o'.
     let base = px_base (on_result o'); execution = mr_execution base; state = br_base execution; reply = on_reply o'
     in on_restored o' = 0 \<and> mr_abi_version base = 2 \<and> mr_struct_size base = 320 \<and> mr_provider_status base = 0
       \<and> on_status o' = int (jr_status state) \<and> jr_retired state = gc_retired c \<and> jr_pc state = gc_pc c
       \<and> jr_compiled_blocks state = gc_fetches c \<and> [jr_x0 state, jr_x1 state, jr_x2 state, jr_x3 state] = gc_x c
       \<and> br_sp execution = stack_top y granule \<and> mr_fetch_requests base = gc_fetches c \<and> mr_data_requests base = gc_data c
       \<and> mr_completed_data_operations base = gc_completed c \<and> observed = gc_ram c \<and> on_tables o' = tables
       \<and> (case stop of
            Halted \<Rightarrow> jr_status state = 1 \<and> br_esr execution = 0 \<and> mr_guest_far base = 0 \<and> lr_result reply = unat (abi_OK a)
              \<and> px_fsc (on_result o') = 0 \<and> jr_fault_instruction state = 0
          | Aborted fetch far (Fault code) \<Rightarrow> jr_status state = (if fetch then 16 else 17)
              \<and> br_esr execution = (if fetch then 0x86000000 else 0x96000000) + code \<and> mr_guest_far base = far
              \<and> lr_result reply = unat (abi_GUEST_FAULT a) \<and> px_fsc (on_result o') = code
              \<and> jr_fault_instruction state = (if fetch then 0 else words ! gc_retired c) \<and> lr_level reply = 3
              \<and> br_elr execution = gc_pc c \<and> br_spsr execution = 0x3c5 \<and> lr_address reply = far \<and> mr_last_address base = far
          | _ \<Rightarrow> False))"

lemma dt_setup_parts:
  assumes "dt_setup_of d granule upper invalid n = Inr s" "dc_memory d (ds_ledger s) = Some (base, ram)"
  shows "instructions (dp_offset (ds_program s)) = Inr (dp_words (ds_program s))"
    "\<exists>out. expected_output (ds_program s) = Inr out
       \<and> (if invalid then Inr ram else dt_patch (output_offset (ds_layout s)) out ram) = Inr (ds_expected s)"
  using assms
  by (auto simp: dt_setup_of_def dt_program_of_def dt_memory_def checked_def ok_or_def and_then_def Let_def
      split: sum.splits prod.splits option.splits if_splits)

lemma subrange_subrange:
  "subrange a b xs = ys \<Longrightarrow> length ys = b - a \<Longrightarrow> d \<le> b - a \<Longrightarrow> subrange c d ys = subrange (a + c) (a + d) xs"
  unfolding subrange_def by (auto simp: drop_take add.commute min_def)

lemma expected_output_words:
  assumes "expected_output p = Inr out" "subrange at (at + length (dp_wire p)) ram = dp_wire p"
  shows "dp_offset p + 16 \<le> length (dp_wire p)"
    "out = subrange at (at + 8) ram @ subrange (at + dp_offset p) (at + dp_offset p + 16) ram @ le_bytes 4 MARKER"
proof -
  from assms(1) have b: "8 \<le> length (dp_wire p)" "dp_offset p + 16 \<le> length (dp_wire p)"
    and o': "out = subrange 0 8 (dp_wire p) @ subrange (dp_offset p) (dp_offset p + 16) (dp_wire p) @ le_bytes 4 MARKER"
    by (auto simp: expected_output_def dt_slice_def and_then_def split: if_splits)
  note S = subrange_subrange [OF assms(2)]
  show "dp_offset p + 16 \<le> length (dp_wire p)" by (rule b)
  show "out = subrange at (at + 8) ram @ subrange (at + dp_offset p) (at + dp_offset p + 16) ram @ le_bytes 4 MARKER"
    unfolding o' using S [of 8 0] S [of "dp_offset p + 16" "dp_offset p"] b by (simp add: add.assoc)
qed

subsection \<open>A sample of the dependencies\<close>

text \<open>
  A ledger that hands out the pages of RAM one after the other, and a tree of 64 bytes whose authored
  property has its value in the last 16: an instance of the parameters, for which the set-up succeeds.
\<close>

definition sample_tree :: "u8 list" where
  "sample_tree = le_bytes 8 1 @ replicate 40 0x5a @ le_bytes 8 RAM_PA @ le_bytes 8 65536"

definition sample_core :: "(nat \<times> u8 list, unit, unit, nat \<times> nat) dt_core" where
  "sample_core = \<lparr>dc_borrow = \<lambda>base bytes. Some (0, bytes),
     dc_allocate = \<lambda>bytes align kind (n, ram). Some (n, (n + 1, ram)),
     dc_records = \<lambda>(n, ram). map (\<lambda>i. (i, RAM_PA + i * 4096)) [0..<n],
     dc_aperture = \<lambda>_. (RAM_PA, 65536), dc_stamp = fst,
     dc_copy_into = \<lambda>token at bytes (n, ram). Some (n, overwrite (token * 4096 + at) bytes ram),
     dc_memory = \<lambda>(n, ram). Some (RAM_PA, ram), dc_replace = \<lambda>ram (n, _). (n, ram),
     dc_bind = \<lambda>stamp token tree l. Some (stamp, token), dc_prepared = \<lambda>_. sample_tree,
     dc_release = \<lambda>token (n, ram). Some (n + 1, ram),
     dc_commit = \<lambda>(stamp, token) (n, ram).
       if stamp = n then (Committed, (n, overwrite (token * 4096) sample_tree ram)) else (StaleSnapshot, (n, ram)),
     dc_template_ids = \<lambda>_. Some [()], dc_prepare = \<lambda>_ _ _. Some (), dc_max_output = 4096,
     dc_tree_bytes = \<lambda>_. sample_tree,
     dc_root_properties = \<lambda>_. Some [(''authored-aperture'', 12, drop 48 sample_tree)], dc_identity = \<lambda>_. []\<rparr>"

definition sample_layout :: dt_layout where
  "sample_layout = \<lparr>dl_guard = 0, dl_code = 1, dl_dt = 2, dl_code_pa = RAM_PA + 4096, dl_dt_pa = RAM_PA + 8192,
     dl_stack_pa = RAM_PA + 12288, dl_output_pa = RAM_PA + 16384, dl_aperture = RAM_PA, dl_va_base = LOW\<rparr>"

lemma sample_tree_length [simp]: "length sample_tree = 64"
  by (simp add: sample_tree_def)

lemma sample_reserve: "dt_reserve sample_core 4096 False (0, bytes) = Inr (sample_layout, (5, bytes))"
proof -
  have u: "[0..<5] = [0, 1, 2, 3, 4 :: nat]" by (simp add: upt_rec)
  show ?thesis
    by (simp add: dt_reserve_def sample_core_def sample_layout_def checked_def ok_or_def and_then_def address_def u require_def
        va_for_def wrapping_sub_def Let_def RAM_PA_def LOW_def)
qed

lemma sample_program:
  obtains words where "instructions 48 = Inr words"
    "\<And>l. dt_program_of sample_core source l = Inr \<lparr>dp_wire = sample_tree, dp_offset = 48, dp_words = words\<rparr>"
proof -
  obtain words where w: "instructions 48 = Inr words" by (simp add: instructions_def require_def and_then_def)
  have "dt_program_of sample_core source l = Inr \<lparr>dp_wire = sample_tree, dp_offset = 48, dp_words = words\<rparr>" for l
    by (simp add: dt_program_of_def prepare_def sample_core_def checked_def ok_or_def and_then_def require_def w)
  with w that show thesis by blast
qed

lemma sample_bind:
  "dt_bind_fresh sample_core source sample_layout \<lparr>dp_wire = sample_tree, dp_offset = v, dp_words = words\<rparr> (5, bytes)
     = Inr (6, overwrite 8192 sample_tree (overwrite 4096 (image_of words) bytes))"
  by (simp add: dt_bind_fresh_def prepare_def sample_core_def sample_layout_def checked_def ok_or_def and_then_def require_def dt_memory_def)

lemma sample_setup:
  obtains s where "dt_setup_of sample_core 4096 False False 65536 = Inr s" "ds_layout s = sample_layout"
    "dp_wire (ds_program s) = sample_tree" "instructions 48 = Inr (dp_words (ds_program s))"
    "dc_memory sample_core (ds_ledger s)
       = Some (RAM_PA, overwrite 8192 sample_tree (overwrite 4096 (image_of (dp_words (ds_program s))) (replicate 65536 GUARD)))"
proof -
  obtain words where w: "instructions 48 = Inr words"
    "\<And>l. dt_program_of sample_core authored_source l = Inr \<lparr>dp_wire = sample_tree, dp_offset = 48, dp_words = words\<rparr>"
    using sample_program [where source = authored_source] by blast
  let ?p = "\<lparr>dp_wire = sample_tree, dp_offset = 48, dp_words = words\<rparr>"
  let ?l = "(6 :: nat, overwrite 8192 sample_tree (overwrite 4096 (image_of words) (replicate 65536 GUARD)))"
  obtain out where o': "expected_output ?p = Inr out" "length out = 28"
    by (simp add: expected_output_def dt_slice_def and_then_def length_subrange)
  have l: "length words = 16" by (rule instructions_words [OF w(1)]) simp
  have b: "checked (dc_borrow sample_core RAM_PA (replicate 65536 GUARD)) = Inr (0, replicate 65536 GUARD)"
    and m: "dt_memory sample_core (n, ram) = Inr ram" and m': "dc_memory sample_core (n, ram) = Some (RAM_PA, ram)" for n ram
    by (simp_all add: sample_core_def checked_def ok_or_def dt_memory_def and_then_def)
  have off: "output_offset sample_layout = 16384"
    by (simp add: output_offset_def sample_layout_def wrapping_sub_def RAM_PA_def)
  have d: "dt_patch 16384 out (snd ?l) = Inr (overwrite 16384 out (snd ?l))"
    using l o'(2) by (simp add: dt_patch_def)
  have "dt_setup_of sample_core 4096 False False 65536
      = Inr \<lparr>ds_ledger = ?l, ds_layout = sample_layout, ds_program = ?p, ds_expected = overwrite 16384 out (snd ?l)\<rparr>"
    using d by (simp add: dt_setup_of_def b sample_reserve w(2) sample_bind m o'(1) off and_then_def del: replicate.simps)
  from that [OF this] w(1) m' show thesis by simp
qed

lemma va_for_room:
  assumes g: "granule \<in> {4096, 16384}" and laid: "laid_out granule y" and c: "c < 16"
  shows "va_for y (RAM_PA + c * granule) + 64 < 2 ^ 64"
proof -
  have "c * granule \<le> 15 * 16384" by (rule mult_le_mono) (use c g in auto)
  moreover have "dl_va_base y \<le> HIGH" using laid by (auto simp: laid_out_def LOW_def HIGH_def)
  ultimately show ?thesis unfolding va_for_page [OF g laid c] by (simp add: HIGH_def)
qed

lemma output_offset_page:
  assumes g: "granule \<in> {4096, 16384}" and laid: "laid_out granule y" and k: "k < 16" "dl_output_pa y = RAM_PA + k * granule"
  shows "output_offset y = k * granule"
proof -
  have "dl_aperture y = RAM_PA" using laid by (simp add: laid_out_def)
  moreover have "k * granule \<le> 15 * 16384" by (rule mult_le_mono) (use k(1) g in auto)
  ultimately show ?thesis by (simp add: output_offset_def wrapping_sub_def k(2) RAM_PA_def)
qed

text \<open>Property C40: the verdict of the device tree probe is agreement with a reference interpreter. When the
  set-up of a case has succeeded, and the ledger has handed out four different pages of RAM and
  holds the program and the tree in two of them, the tables of the case are built, and the probe
  accepts exactly the outcomes that report the reference run of the guest program on these tables
  and this RAM: the tree's words copied and 16 instructions retired, or, where the page of the tree is
  not mapped, a translation fault at its address after one instruction.\<close>

theorem verdict_is_agreement:
  assumes g: "granule \<in> {4096, 16384}" and prepared: "dt_setup_of d granule upper invalid n = Inr s"
    and "y = ds_layout s" and "p = ds_program s"
    and laid: "laid_out granule y" and memory: "dc_memory d (ds_ledger s) = Some (RAM_PA, ram)" and ram: "length ram = 16 * granule"
    and program: "holds_words ram (dl_code_pa y - RAM_PA) (dp_words p)"
    and tree: "subrange (dl_dt_pa y - RAM_PA) (dl_dt_pa y - RAM_PA + length (dp_wire p)) ram = dp_wire p" "length (dp_wire p) \<le> granule"
  shows "\<exists>tb. build (\<lambda>(va, d). map_va TABLE_PA va d) (dt_maps y invalid) (empty_tables granule 16) = (Inr (), tb)
    \<and> (\<forall>observed o'. dt_passed a granule invalid s observed (tb_bytes tb) o'
        = reports_run a granule y (dp_words p)
            (guest_runs (\<lambda>control. page_walk granule RAM_PA (16 * granule) (translate 0x0000fffffffff000 TABLE_PA tb)) 32
              (reset_cpu (dt_initial y) (va_for y (dl_code_pa y)) (ct_sctlr (dt_controls granule)) ram))
            observed (tb_bytes tb) o')"
proof -
  note sp = dt_setup_parts [OF prepared memory, folded assms(3,4)]
  obtain out where out: "expected_output p = Inr out" "(if invalid then Inr ram else dt_patch (output_offset y) out ram) = Inr (ds_expected s)"
    using sp(2) by blast
  obtain c t o' sk where L: "distinct [c, t, o', sk]" "list_all (\<lambda>k. k < 16) [c, t, o', sk]" "dl_code_pa y = RAM_PA + c * granule"
    "dl_dt_pa y = RAM_PA + t * granule" "dl_output_pa y = RAM_PA + o' * granule" "dl_stack_pa y = RAM_PA + sk * granule"
    by (rule laid_out_pages [OF g laid])
  then have k: "c < 16" "t < 16" "o' < 16" "distinct [c, t, o']" by simp_all
  obtain tb where tb: "build (\<lambda>(va, d). map_va TABLE_PA va d) (dt_maps y invalid) (empty_tables granule 16) = (Inr (), tb)"
    "maps_page granule (translate 0x0000fffffffff000 TABLE_PA tb) (va_for y (dl_code_pa y)) (dl_code_pa y OR 0x403)"
    "maps_page granule (translate 0x0000fffffffff000 TABLE_PA tb) (va_for y (dl_dt_pa y)) (if invalid then 0 else dl_dt_pa y OR 0x403)"
    "maps_page granule (translate 0x0000fffffffff000 TABLE_PA tb) (va_for y (dl_output_pa y)) (dl_output_pa y OR 0x403)"
    by (rule dt_build [OF g laid])
  have off: "dl_code_pa y - RAM_PA = c * granule" "dl_dt_pa y - RAM_PA = t * granule" unfolding L by simp_all
  note E = expected_output_words [OF out(1) tree(1), unfolded off]
  have v: "dp_offset p + 16 \<le> granule" using E(1) tree(2) by (rule le_trans)
  note R = dt_runs [OF g k tb(2) [unfolded L(3)] sp(1) v ram program [unfolded off]]
  have init: "dt_initial y = [va_for y (dl_dt_pa y), va_for y (dl_output_pa y), 0x13579bdf, 0x2468ace0]" by (simp add: dt_initial_def)
  have "va_for y (dl_code_pa y) + 64 < 2 ^ 64" unfolding L(3) by (rule va_for_room [OF g laid k(1)])
  then have w: "wrapping_add (va_for y (dl_code_pa y)) 64 = va_for y (dl_code_pa y) + 64"
    "wrapping_add (va_for y (dl_code_pa y)) 4 = va_for y (dl_code_pa y) + 4" by simp_all
  let ?run = "guest_runs (\<lambda>control. page_walk granule RAM_PA (16 * granule) (translate 0x0000fffffffff000 TABLE_PA tb)) 32
     (reset_cpu (dt_initial y) (va_for y (dl_code_pa y)) (ct_sctlr (dt_controls granule)) ram)"
  have "dt_passed a granule invalid s observed (tb_bytes tb) x = reports_run a granule y (dp_words p) ?run observed (tb_bytes tb) x" for observed x
  proof (cases invalid)
    case True
    have run: "?run = (Aborted False (va_for y (dl_dt_pa y)) (Fault 7), at_word (dt_initial y) (va_for y (dl_code_pa y)) 1
        (ct_sctlr (dt_controls granule)) ram 1 0\<lparr>gc_fetches := 2\<rparr>)"
      unfolding init L(3) by (rule R(2)) (use tb(3) True L(3) in simp)
    from out(2) True have e: "ds_expected s = ram" by simp
    show ?thesis
      unfolding run reports_run_def dt_passed_def Let_def assms(3,4) [symmetric] e
      by (auto simp: True w at_word_def init)
  next
    case False
    let ?out = "overwrite (o' * granule) out ram"
    have run: "?run = (Halted, at_word [va_for y (dl_dt_pa y), va_for y (dl_output_pa y), MARKER, 0x2468ace0] (va_for y (dl_code_pa y)) 16
        (ct_sctlr (dt_controls granule)) ?out 13 13)"
      unfolding init L(3) E(2) by (rule R(1)) (use tb(3,4) False L in simp_all)
    have "output_offset y = o' * granule" by (rule output_offset_page [OF g laid k(3) L(5)])
    with out(2) False have e: "ds_expected s = ?out" by (auto simp: dt_patch_def split: if_splits)
    show ?thesis
      unfolding run reports_run_def dt_passed_def Let_def assms(3,4) [symmetric] e
      by (auto simp: False w at_word_def init)
  qed
  with tb(1) show ?thesis by blast
qed

theorem verdict_is_agreement_witness:
  "\<forall>a. \<exists>s tb. dt_setup_of sample_core 4096 False False 65536 = Inr s \<and> dp_wire (ds_program s) = sample_tree
    \<and> build (\<lambda>(va, d). map_va TABLE_PA va d) (dt_maps sample_layout False) (empty_tables 4096 16) = (Inr (), tb)
    \<and> (\<forall>observed o'. dt_passed a 4096 False s observed (tb_bytes tb) o'
        = reports_run a 4096 sample_layout (dp_words (ds_program s))
            (guest_runs (\<lambda>control. page_walk 4096 RAM_PA (16 * 4096) (translate 0x0000fffffffff000 TABLE_PA tb)) 32
              (reset_cpu (dt_initial sample_layout) (va_for sample_layout (dl_code_pa sample_layout)) (ct_sctlr (dt_controls 4096))
                (overwrite 8192 sample_tree (overwrite 4096 (image_of (dp_words (ds_program s))) (replicate 65536 GUARD)))))
            observed (tb_bytes tb) o')"
proof
  fix a :: probe_abi
  obtain s where s: "dt_setup_of sample_core 4096 False False 65536 = Inr s" "ds_layout s = sample_layout"
    "dp_wire (ds_program s) = sample_tree" "instructions 48 = Inr (dp_words (ds_program s))"
    "dc_memory sample_core (ds_ledger s)
       = Some (RAM_PA, overwrite 8192 sample_tree (overwrite 4096 (image_of (dp_words (ds_program s))) (replicate 65536 GUARD)))"
    by (rule sample_setup)
  let ?ws = "dp_words (ds_program s)"
  let ?code = "overwrite 4096 (image_of ?ws) (replicate 65536 GUARD)" and ?ram = "overwrite 8192 sample_tree (overwrite 4096 (image_of ?ws) (replicate 65536 GUARD))"
  have w: "length ?ws = 16" "list_all (\<lambda>w. w < 2 ^ 32) ?ws" by (rule instructions_words [OF s(4)]; simp)+
  have lc: "length ?code = 65536" using w(1) by simp
  have h: "holds_words ?ram (dl_code_pa sample_layout - RAM_PA) ?ws"
    using holds_words_keep [OF holds_words_overwrite [of 4096 ?ws "replicate 65536 GUARD", OF _ w(2)], of 8192 sample_tree] w(1) lc
    by (simp add: sample_layout_def)
  have t: "subrange (dl_dt_pa sample_layout - RAM_PA) (dl_dt_pa sample_layout - RAM_PA + length (dp_wire (ds_program s))) ?ram = dp_wire (ds_program s)"
    using subrange_overwrite_same [of 8192 sample_tree ?code] lc by (simp add: s(3) sample_layout_def)
  have "\<exists>tb. build (\<lambda>(va, d). map_va TABLE_PA va d) (dt_maps sample_layout False) (empty_tables 4096 16) = (Inr (), tb)
    \<and> (\<forall>observed o'. dt_passed a 4096 False s observed (tb_bytes tb) o'
        = reports_run a 4096 sample_layout ?ws
            (guest_runs (\<lambda>control. page_walk 4096 RAM_PA (16 * 4096) (translate 0x0000fffffffff000 TABLE_PA tb)) 32
              (reset_cpu (dt_initial sample_layout) (va_for sample_layout (dl_code_pa sample_layout)) (ct_sctlr (dt_controls 4096)) ?ram))
            observed (tb_bytes tb) o')"
  proof (rule verdict_is_agreement [OF _ s(1)])
    show "laid_out 4096 sample_layout" by (simp add: laid_out_def sample_layout_def RAM_PA_def)
    show "length ?ram = 16 * 4096" using lc by simp
    show "length (dp_wire (ds_program s)) \<le> 4096" by (simp add: s(3))
  qed (simp_all only: s(2,5) h t insert_iff simp_thms)
  with s(1,3) show "\<exists>s tb. dt_setup_of sample_core 4096 False False 65536 = Inr s \<and> dp_wire (ds_program s) = sample_tree
    \<and> build (\<lambda>(va, d). map_va TABLE_PA va d) (dt_maps sample_layout False) (empty_tables 4096 16) = (Inr (), tb)
    \<and> (\<forall>observed o'. dt_passed a 4096 False s observed (tb_bytes tb) o'
        = reports_run a 4096 sample_layout (dp_words (ds_program s))
            (guest_runs (\<lambda>control. page_walk 4096 RAM_PA (16 * 4096) (translate 0x0000fffffffff000 TABLE_PA tb)) 32
              (reset_cpu (dt_initial sample_layout) (va_for sample_layout (dl_code_pa sample_layout)) (ct_sctlr (dt_controls 4096))
                (overwrite 8192 sample_tree (overwrite 4096 (image_of (dp_words (ds_program s))) (replicate 65536 GUARD)))))
            observed (tb_bytes tb) o')"
    by blast
qed

end
