(* ===== verification/Dynamic_Probe.thy ===== *)
theory Dynamic_Probe
  imports Dt_Probe
begin

text \<open>
  The probe that enables translation (src/src/dynamic\_probe.rs): the guest starts with translation
  off, turns it on, and goes on at an address that means something else from then on. The emulator
  asks the owner of the memory service through two callbacks, one for accesses and one for changes
  of the control registers; both are observed, and the observations are judged with the outcome.
  The code of \<open>Tables\<close>, \<open>require\<close>, \<open>checked\<close>, \<open>disjoint\<close> and \<open>hex\<close> is the same as in dt\_probe.rs.
\<close>

definition DYN_RAM_PA :: nat where "DYN_RAM_PA = 0x40000000"
definition DYN_TABLE_PA :: nat where "DYN_TABLE_PA = 0x10000000"
definition SCTLR :: nat where "SCTLR = 0x30d00802"
definition DYN_HLT :: nat where "DYN_HLT = 0xd4400000"
definition HVC_DECOY :: nat where "HVC_DECOY = 0xd4000002"
definition ISB :: nat where "ISB = 0xd5033fdf"
definition DSB :: nat where "DSB = 0xd5033f9f"
definition TLBI :: nat where "TLBI = 0xd508871f"
definition OMIT_ENABLE :: bool where "OMIT_ENABLE = False"
definition DATA_LIMIT :: nat where "DATA_LIMIT = 64"
definition CONTROL_LIMIT :: nat where "CONTROL_LIMIT = 16"

lemmas dynamic_constants = DYN_RAM_PA_def DYN_TABLE_PA_def SCTLR_def DYN_HLT_def HVC_DECOY_def ISB_def DSB_def TLBI_def

subsection \<open>The interface\<close>

text \<open>
  The records of the service's third interface, with the fields that the probe names; \<open>fc_rest\<close>
  stands for those of the final state that it only compares. A reply is a record that the caller
  owns: a callback is given its contents and may leave it as it is.
\<close>

record data_reply = reply +
  dr_esr :: nat
  dr_fsc :: nat
  dr_address :: nat

record translation_state =
  ts_sctlr :: nat
  ts_ttbr0 :: nat
  ts_ttbr1 :: nat
  ts_tcr :: nat
  ts_mair :: nat
  ts_hcr :: nat
  ts_scr :: nat
  ts_reserved :: nat

record control_request =
  cq_phase :: nat
  cq_operation :: nat
  cq_selector :: nat
  cq_pc :: nat
  cq_operand :: nat
  cq_revision :: nat
  cq_epoch :: nat

record control_reply =
  cr_result :: nat
  cr_state_tag :: nat
  cr_token :: nat
  cr_revision :: nat
  cr_epoch :: nat
  cr_invalidations :: nat
  cr_architectural :: translation_state
  cr_effective :: translation_state

record final_control =
  fc_abi_version :: nat
  fc_struct_size :: nat
  fc_state_tag :: nat
  fc_phase :: nat
  fc_token :: nat
  fc_revision :: nat
  fc_epoch :: nat
  fc_invalidations :: nat
  fc_architectural :: translation_state
  fc_effective :: translation_state
  fc_rest :: "nat list"

record control_abi =
  ca_PREPARE :: nat
  ca_COMMIT :: nat
  ca_TLBI :: nat
  ca_OK :: nat
  ca_PROPOSED :: nat
  ca_KNOWN :: nat

text \<open>
  The emulator as a tree of what it does next: it ends with its status, its result, the last reply and
  the final state, it calls one of the two callbacks, or it calls the protection callback.
\<close>

datatype dynamic_guest =
    Ends int probe_result last_reply final_control
  | Data direct_request data_reply "int \<times> data_reply \<Rightarrow> dynamic_guest"
  | Control control_request control_reply "int \<times> control_reply \<Rightarrow> dynamic_guest"
  | Protection nat nat u32 "int \<Rightarrow> dynamic_guest"

record 'm dynamic_core =
  dy_service :: "u8 list \<Rightarrow> nat \<Rightarrow> u8 list \<Rightarrow> nat \<Rightarrow> controls \<Rightarrow> 'm option"
  dy_step :: "direct_request \<Rightarrow> data_reply \<Rightarrow> 'm \<Rightarrow> (int \<times> data_reply) \<times> 'm"
  dy_control :: "control_request \<Rightarrow> control_reply \<Rightarrow> 'm \<Rightarrow> (int \<times> control_reply) \<times> 'm"
  dy_table_reads :: "'m \<Rightarrow> nat"
  dy_final_state :: "'m \<Rightarrow> final_control"
  dy_ram :: "'m \<Rightarrow> u8 list"
  dy_tables :: "'m \<Rightarrow> u8 list"
  dy_runner :: "run_args \<Rightarrow> controls \<Rightarrow> dynamic_guest"
  dy_identity :: "u8 list \<Rightarrow> u8 list"

text \<open>What the probe learns from its runtime: whether the two buffers can be reserved, and where the owner,
  the result and the two buffers are.\<close>

record 'w dynamic_host =
  dh_reserve_data :: "'w \<Rightarrow> bool"
  dh_reserve_control :: "'w \<Rightarrow> bool"
  dh_regions :: "'w \<Rightarrow> (nat \<times> nat) list"

subsection \<open>The observers\<close>

record 'm dynamic_owner =
  do_service :: 'm
  do_data :: "(direct_request \<times> data_reply) list"
  do_control :: "(control_request \<times> control_reply) list"
  do_reads_at_tlbi :: nat

definition observe_data :: "'m dynamic_core \<Rightarrow> direct_request \<Rightarrow> data_reply \<Rightarrow> 'm dynamic_owner \<Rightarrow> (int \<times> data_reply) \<times> 'm dynamic_owner" where
  "observe_data dy q r w =
     (if length (do_data w) = DATA_LIMIT then ((1, r), w)
      else case dy_step dy q r (do_service w) of ((st, r), m) \<Rightarrow>
        let w = w\<lparr>do_service := m\<rparr> in
        ((st, r), if st = 0 then w\<lparr>do_data := do_data w @ [(q, r)]\<rparr> else w))"

definition observe_control :: "'m dynamic_core \<Rightarrow> control_abi \<Rightarrow> control_request \<Rightarrow> control_reply \<Rightarrow> 'm dynamic_owner
    \<Rightarrow> (int \<times> control_reply) \<times> 'm dynamic_owner" where
  "observe_control dy ca q r w =
     (if length (do_control w) = CONTROL_LIMIT then ((1, r), w)
      else case dy_control dy q r (do_service w) of ((st, r), m) \<Rightarrow>
        let w = w\<lparr>do_service := m\<rparr> in
        ((st, r), if st = 0
          then let w = w\<lparr>do_control := do_control w @ [(q, r)]\<rparr> in
            if cq_phase q = ca_COMMIT ca \<and> cq_operation q = ca_TLBI ca
            then w\<lparr>do_reads_at_tlbi := dy_table_reads dy (do_service w)\<rparr> else w
          else w))"

primrec run_dynamic :: "(direct_request \<Rightarrow> data_reply \<Rightarrow> 's \<Rightarrow> (int \<times> data_reply) \<times> 's)
    \<Rightarrow> (control_request \<Rightarrow> control_reply \<Rightarrow> 's \<Rightarrow> (int \<times> control_reply) \<times> 's) \<Rightarrow> (nat \<Rightarrow> nat \<Rightarrow> u32 \<Rightarrow> ('w, int) op)
    \<Rightarrow> dynamic_guest \<Rightarrow> 's \<Rightarrow> ('w, (int \<times> probe_result \<times> last_reply \<times> final_control) \<times> 's) op" where
  "run_dynamic data control protect (Ends st x l f) w = ret ((st, x, l, f), w)"
| "run_dynamic data control protect (Data q r k) w = (case data q r w of (a, w) \<Rightarrow> run_dynamic data control protect (k a) w)"
| "run_dynamic data control protect (Control q r k) w = (case control q r w of (a, w) \<Rightarrow> run_dynamic data control protect (k a) w)"
| "run_dynamic data control protect (Protection p n x k) w = bindS (protect p n x) (\<lambda>a. run_dynamic data control protect (k a) w)"

subsection \<open>The case\<close>

definition dyn_start :: "nat \<Rightarrow> nat" where "dyn_start granule = DYN_RAM_PA + granule - 12"
definition post_va :: "nat \<Rightarrow> nat" where "post_va granule = DYN_RAM_PA + granule"
definition target_pa :: "nat \<Rightarrow> nat" where "target_pa granule = DYN_RAM_PA + 3 * granule"

definition data_va :: "nat \<Rightarrow> nat \<Rightarrow> nat" where
  "data_va granule kind = (if kind = 0 then DYN_RAM_PA + 3 * granule - 8 else DYN_RAM_PA + 2 * granule)"

definition stub :: "nat list" where
  "stub = [0x91000442, if OMIT_ENABLE then 0x91000000 else 0xd5181000, ISB]"

definition dyn_tail :: "nat \<Rightarrow> nat list" where
  "dyn_tail kind = (if kind = 0
     then [0xd5381000, 0xf9400023, 0x91000463, 0xf9000023, 0xa9000c22, 0xa9400823, DSB, TLBI, DSB, ISB, 0xf9400020, DYN_HLT]
     else [0xf9400023, DYN_HLT])"

text \<open>The writes of \<open>words\<close>, all of them in range.\<close>

definition put_words :: "nat \<Rightarrow> nat list \<Rightarrow> u8 list \<Rightarrow> u8 list" where
  "put_words at ws ram = overwrite at (image_of ws) ram"

definition dyn_image :: "nat \<Rightarrow> nat \<Rightarrow> u8 list \<Rightarrow> u8 list" where
  "dyn_image granule kind memory =
     (let ram = replicate (length memory) 0xa5;
          ram = put_words (granule - 12) stub ram;
          ram = put_words granule [HVC_DECOY] ram;
          ram = put_words (3 * granule) (dyn_tail kind) ram
      in overwrite (5 * granule - 8) (le_bytes 8 41) ram)"

definition dyn_expected_ram :: "nat \<Rightarrow> nat \<Rightarrow> u8 list \<Rightarrow> u8 list" where
  "dyn_expected_ram granule kind ram =
     (if kind = 0 then overwrite (2 * granule) (le_bytes 8 42) (overwrite (5 * granule - 8) (le_bytes 8 9) ram) else ram)"

definition dyn_maps :: "nat \<Rightarrow> nat \<Rightarrow> (nat \<times> nat) list" where
  "dyn_maps granule kind =
     [(DYN_RAM_PA, DYN_RAM_PA OR 0x403),
      (post_va granule, if kind = 1 then 0 else target_pa granule OR 0x403),
      (DYN_RAM_PA + 2 * granule, if kind = 2 then 0 else (DYN_RAM_PA + 4 * granule) OR 0x403),
      (DYN_RAM_PA + 3 * granule, (DYN_RAM_PA + 2 * granule) OR 0x403)]"

definition dyn_tcr :: "nat \<Rightarrow> nat" where
  "dyn_tcr granule = (let tsz = translation_size granule in tsz OR push_bit 16 tsz OR push_bit 32 5 OR granule_bits granule)"

definition dyn_controls :: "nat \<Rightarrow> controls" where
  "dyn_controls granule = \<lparr>ct_abi_version = 3, ct_struct_size = 80, ct_profile = 2, ct_sctlr = SCTLR, ct_ttbr0 = DYN_TABLE_PA,
     ct_ttbr1 = DYN_TABLE_PA, ct_tcr = dyn_tcr granule, ct_mair = 0x44, ct_epoch = 1\<rparr>"

definition dyn_initial :: "nat \<Rightarrow> nat \<Rightarrow> nat list" where
  "dyn_initial granule kind = [SCTLR OR 1, data_va granule kind, 8, 99]"

definition dyn_stack :: nat where "dyn_stack = DYN_RAM_PA + 0x400"

definition dyn_arguments :: "nat \<Rightarrow> nat \<Rightarrow> arm_pages \<Rightarrow> arm_pages \<Rightarrow> run_args" where
  "dyn_arguments granule kind ram code = \<lparr>ra_base = DYN_RAM_PA, ra_size = ap_bytes ram, ra_virtual_base = 0,
     ra_entry = dyn_start granule, ra_args = dyn_initial granule kind ! 0, ra_stack = dyn_stack, ra_code = ap_memory code,
     ra_budget = 32, ra_initial = dyn_initial granule kind, ra_options = probe_options 0x3c5, ra_aliases = []\<rparr>"

text \<open>What the case expects of the outcome.\<close>

record dyn_want =
  dw_status :: nat
  dw_retired :: nat
  dw_esr :: nat
  dw_far :: nat
  dw_pc :: nat
  dw_x :: "nat list"
  dw_control :: nat
  dw_fetch :: nat
  dw_data :: nat

definition dyn_wanted :: "nat \<Rightarrow> nat \<Rightarrow> dyn_want" where
  "dyn_wanted granule kind = \<lparr>
     dw_status = (if kind = 0 then 1 else if kind = 1 then 16 else 17),
     dw_retired = (if kind = 0 then 15 else 3),
     dw_esr = (if kind = 0 then 0 else if kind = 1 then 0x86000007 else 0x96000007),
     dw_far = (if kind = 0 then 0 else if kind = 1 then post_va granule else data_va granule kind),
     dw_pc = (if kind = 0 then post_va granule + length (dyn_tail kind) * 4 else post_va granule),
     dw_x = (if kind = 0 then [9, data_va granule kind, 42, 9] else [dyn_initial granule kind ! 0, data_va granule kind, 9, 99]),
     dw_control = (if kind = 0 then 12 else 4),
     dw_fetch = (if kind = 0 then 15 else 4),
     dw_data = (if kind = 0 then 5 else if kind = 1 then 0 else 1)\<rparr>"

text \<open>The fetch of the barrier still sees the old controls, the fetch behind it the new ones.\<close>

definition transition_seen :: "nat \<Rightarrow> (direct_request \<times> data_reply) list \<Rightarrow> bool" where
  "transition_seen granule data \<longleftrightarrow>
     (case find (\<lambda>(q, _). rq_pc q = dyn_start granule + 8 \<and> rq_operation q = 1) data of
        None \<Rightarrow> False
      | Some (q, r) \<Rightarrow> ct_sctlr (dq_controls q) = SCTLR \<and> ct_epoch (dq_controls q) = 1 \<and> unat (rp_value0 r) = ISB)
     \<and> (case find (\<lambda>(q, _). rq_pc q = post_va granule \<and> rq_operation q = 1) data of
        None \<Rightarrow> False
      | Some (q, _) \<Rightarrow> ct_sctlr (dq_controls q) = SCTLR OR 1 \<and> ct_epoch (dq_controls q) = 2)"

text \<open>Changes of the control registers come in pairs: a proposal and its commitment.\<close>

fun committed_pairs :: "control_abi \<Rightarrow> (control_request \<times> control_reply) list \<Rightarrow> bool" where
  "committed_pairs ca ((q1, r1) # (q2, r2) # rest) \<longleftrightarrow>
     cq_phase q1 = ca_PREPARE ca \<and> cq_phase q2 = ca_COMMIT ca \<and> cq_operation q1 = cq_operation q2
     \<and> cr_result r1 = ca_OK ca \<and> cr_result r2 = ca_OK ca \<and> cr_state_tag r1 = ca_PROPOSED ca
     \<and> cr_state_tag r2 = ca_KNOWN ca \<and> cr_token r1 \<noteq> 0 \<and> cq_operand q2 = cr_token r1 \<and> cr_token r2 = 0
     \<and> committed_pairs ca rest"
| "committed_pairs ca _ \<longleftrightarrow> True"

definition protocol_kept :: "control_abi \<Rightarrow> nat \<Rightarrow> (control_request \<times> control_reply) list \<Rightarrow> bool" where
  "protocol_kept ca expected control \<longleftrightarrow> length control = expected \<and> committed_pairs ca control"

definition good_final :: "control_abi \<Rightarrow> nat \<Rightarrow> controls \<Rightarrow> final_control \<Rightarrow> final_control \<Rightarrow> bool" where
  "good_final ca kind ctrl f service_state \<longleftrightarrow> f = service_state \<and> fc_abi_version f = 1 \<and> fc_struct_size f = 192
     \<and> fc_state_tag f = ca_KNOWN ca \<and> fc_phase f = 0 \<and> fc_token f = 0 \<and> fc_revision f = 2 \<and> fc_epoch f = 2
     \<and> fc_invalidations f = of_bool (kind = 0) \<and> ts_sctlr (fc_architectural f) = SCTLR OR 1
     \<and> fc_architectural f = fc_effective f \<and> ts_ttbr0 (fc_effective f) = ct_ttbr0 ctrl \<and> ts_ttbr1 (fc_effective f) = ct_ttbr1 ctrl
     \<and> ts_tcr (fc_effective f) = ct_tcr ctrl \<and> ts_mair (fc_effective f) = ct_mair ctrl \<and> ts_hcr (fc_effective f) = 0
     \<and> ts_scr (fc_effective f) = 0 \<and> ts_reserved (fc_effective f) = 0"

record 'm dyn_outcome =
  dx_restored :: int
  dx_status :: int
  dx_result :: probe_result
  dx_reply :: last_reply
  dx_final :: final_control
  dx_owner :: "'m dynamic_owner"

definition dyn_passed :: "'m dynamic_core \<Rightarrow> probe_abi \<Rightarrow> control_abi \<Rightarrow> nat \<Rightarrow> nat \<Rightarrow> u8 list \<Rightarrow> u8 list \<Rightarrow> 'm dyn_outcome \<Rightarrow> bool" where
  "dyn_passed dy a ca granule kind expected_ram tables_before x =
     (let b = px_base (dx_result x); e = mr_execution b; state = br_base e; reply = dx_reply x; want = dyn_wanted granule kind;
          w = dx_owner x; m = do_service w; reads = dy_table_reads dy m; tlbi = do_reads_at_tlbi w
      in dx_restored x = 0 \<and> dx_status x = int (dw_status want) \<and> jr_status state = dw_status want
         \<and> mr_abi_version b = 3 \<and> mr_struct_size b = 512 \<and> mr_provider_status b = 0
         \<and> jr_retired state = dw_retired want \<and> jr_pc state = dw_pc want
         \<and> [jr_x0 state, jr_x1 state, jr_x2 state, jr_x3 state] = dw_x want
         \<and> br_sp e = dyn_stack \<and> br_pstate e = 0x3c5 \<and> br_esr e = dw_esr want \<and> mr_guest_far b = dw_far want
         \<and> mr_fetch_requests b = dw_fetch want \<and> mr_data_requests b = dw_data want
         \<and> mr_completed_data_operations b = (if kind = 0 then 5 else 0)
         \<and> jr_compiled_blocks state = (if kind = 0 then 15 else if kind = 1 then 3 else 4)
         \<and> lr_result reply = unat (if kind = 0 then abi_OK a else abi_GUEST_FAULT a)
         \<and> jr_fault_instruction state = (if kind = 2 then dyn_tail kind ! 0 else 0)
         \<and> (kind = 0 \<or> px_fsc (dx_result x) = 7 \<and> lr_level reply = 3 \<and> br_elr e = dw_pc want \<and> br_spsr e = 0x3c5
              \<and> lr_address reply = dw_far want \<and> mr_last_address b = dw_far want)
         \<and> transition_seen granule (do_data w) \<and> protocol_kept ca (dw_control want) (do_control w)
         \<and> good_final ca kind (dyn_controls granule) (dx_final x) (dy_final_state dy m)
         \<and> dy_ram dy m = expected_ram \<and> dy_tables dy m = tables_before \<and> 0 < reads
         \<and> (kind \<noteq> 0 \<or> 0 < tlbi \<and> tlbi < reads))"
definition dyn_regions_apart :: "(nat \<times> nat) list \<Rightarrow> arm_pages \<Rightarrow> arm_pages \<Rightarrow> arm_pages \<Rightarrow> bool" where
  "dyn_regions_apart regions ram tables code \<longleftrightarrow> list_all (\<lambda>(start, bytes).
     disjoint start bytes (ap_base ram) (ap_bytes ram) \<and> disjoint start bytes (ap_base tables) (ap_bytes tables)
     \<and> disjoint start bytes (ap_base code) (ap_bytes code)) regions"

definition dyn_engine :: "'w jit_host \<Rightarrow> 'w dynamic_host \<Rightarrow> 'm dynamic_core \<Rightarrow> control_abi \<Rightarrow> nat \<Rightarrow> nat \<Rightarrow> arm_pages \<Rightarrow> arm_pages \<Rightarrow> arm_pages
    \<Rightarrow> u8 list \<Rightarrow> u8 list \<Rightarrow> ('w, status fault + 'm dyn_outcome) op" where
  "dyn_engine jh dh dy ca granule kind ram tables code img table_bytes =
     bindS (query (jh_system_table jh)) (\<lambda>table.
     if \<not> table then fails NOT_READY
     else bindS (protection_open jh) (\<lambda>opened.
     if opened \<noteq> 0 then fails UNSUPPORTED
     else bindS (query (dh_reserve_data dh)) (\<lambda>data_reserved.
     if \<not> data_reserved then fails OUT_OF_RESOURCES
     else bindS (query (dh_reserve_control dh)) (\<lambda>control_reserved.
     if \<not> control_reserved then fails OUT_OF_RESOURCES
     else case dy_service dy img DYN_RAM_PA table_bytes DYN_TABLE_PA (dyn_controls granule) of
       None \<Rightarrow> fails COMPROMISED_DATA
     | Some m \<Rightarrow>
         bindS (query (dh_regions dh)) (\<lambda>regions.
         if \<not> dyn_regions_apart regions ram tables code then fails COMPROMISED_DATA
         else bindS (run_dynamic (observe_data dy) (observe_control dy ca) (jit_protect jh)
             (dy_runner dy (dyn_arguments granule kind ram code) (dyn_controls granule))
             \<lparr>do_service = m, do_data = [], do_control = [], do_reads_at_tlbi = 0\<rparr>) (\<lambda>((st, r, l, f), w).
           bindS (jit_protect jh (ap_base code) (ap_bytes code) 0) (\<lambda>restored.
           ok \<lparr>dx_restored = restored, dx_status = st, dx_result = r, dx_reply = l, dx_final = f, dx_owner = w\<rparr>)))))))"

definition dyn_name :: "nat \<Rightarrow> string" where
  "dyn_name kind = [''roundtrip'', ''fetch-translation'', ''data-translation''] ! kind"

definition dyn_data_line :: "nat \<Rightarrow> nat \<Rightarrow> nat \<times> direct_request \<times> data_reply \<Rightarrow> line" where
  "dyn_data_line granule kind = (\<lambda>(index, q, r). (''NXDYN: DATA'', [RText (dyn_name kind), RNat granule, RNat index,
     RNat (rq_pc q), RNat (rq_address q), RNat (unat (rq_operation q)), RNat (unat (rq_width q)), RNat (unat (rq_count q)),
     RNat (ct_sctlr (dq_controls q)), RNat (ct_epoch (dq_controls q)), RNat (unat (rp_result r)), RNat (unat (rp_value0 r)),
     RNat (unat (rp_value1 r)), RNat (dr_esr r), RNat (dr_fsc r), RNat (dr_address r)]))"

definition dyn_control_line :: "nat \<Rightarrow> nat \<Rightarrow> nat \<times> control_request \<times> control_reply \<Rightarrow> line" where
  "dyn_control_line granule kind = (\<lambda>(index, q, r). (''NXDYN: CONTROL'', [RText (dyn_name kind), RNat granule, RNat index,
     RNat (cq_phase q), RNat (cq_operation q), RNat (cq_selector q), RNat (cq_pc q), RNat (cq_operand q), RNat (cq_revision q),
     RNat (cq_epoch q), RNat (cr_result r), RNat (cr_state_tag r), RNat (cr_token r), RNat (cr_revision r), RNat (cr_epoch r),
     RNat (cr_invalidations r), RNat (ts_sctlr (cr_architectural r)), RNat (ts_sctlr (cr_effective r))]))"

definition dyn_case_line :: "'m dynamic_core \<Rightarrow> control_abi \<Rightarrow> nat \<Rightarrow> nat \<Rightarrow> arm_pages \<Rightarrow> arm_pages \<Rightarrow> arm_pages \<Rightarrow> u8 list \<Rightarrow> u8 list
    \<Rightarrow> 'm dyn_outcome \<Rightarrow> bool \<Rightarrow> line" where
  "dyn_case_line dy ca granule kind ram tables code expected_ram tables_before x passed =
     (let b = px_base (dx_result x); e = mr_execution b; state = br_base e; f = dx_final x; w = dx_owner x; m = do_service w in
      (''NXDYN: CASE'', [RText (dyn_name kind), RNat granule, status_value (dx_status x), RNat (mr_provider_status b),
         RNat (jr_retired state), RNat (jr_compiled_blocks state), RNat (mr_fetch_requests b), RNat (mr_data_requests b),
         RNat (mr_completed_data_operations b), RNat (length (do_control w)), RNat (dy_table_reads dy m), RNat (do_reads_at_tlbi w),
         RNat (br_esr e), RNat (mr_guest_far b), RNat (br_elr e), RNat (br_spsr e), RNat (br_pstate e), RNat (jr_pc state),
         RNat (jr_x0 state), RNat (jr_x1 state), RNat (jr_x2 state), RNat (jr_x3 state), RNat (br_sp e), RNat (mr_abi_version b),
         RNat (mr_struct_size b), RNat (fc_state_tag f), RNat (fc_revision f), RNat (fc_epoch f), RNat (fc_invalidations f),
         RNat (ts_sctlr (fc_architectural f)), RNat (ts_sctlr (fc_effective f)), RNat (ts_tcr (fc_effective f)),
         RNat (ts_ttbr0 (fc_effective f)), RNat (ts_ttbr1 (fc_effective f)), RNat (ts_mair (fc_effective f)),
         RBool (transition_seen granule (do_data w)), RBool (protocol_kept ca (dw_control (dyn_wanted granule kind)) (do_control w)),
         RBool (dy_ram dy m = expected_ram), RBool (dy_tables dy m = tables_before), RNat (ap_base ram), RNat (ap_base tables),
         RNat (ap_base code), RText (hex (dy_identity dy (dy_ram dy m))), RText (hex (dy_identity dy tables_before)),
         RText (hex (dy_identity dy (dy_tables dy m))), RBool passed]))"

definition dyn_lines :: "'m dynamic_core \<Rightarrow> control_abi \<Rightarrow> nat \<Rightarrow> nat \<Rightarrow> arm_pages \<Rightarrow> arm_pages \<Rightarrow> arm_pages \<Rightarrow> u8 list \<Rightarrow> u8 list
    \<Rightarrow> 'm dyn_outcome \<Rightarrow> bool \<Rightarrow> line list" where
  "dyn_lines dy ca granule kind ram tables code expected_ram tables_before x passed =
     map (dyn_data_line granule kind) (enumerate 0 (do_data (dx_owner x)))
     @ map (dyn_control_line granule kind) (enumerate 0 (do_control (dx_owner x)))
     @ [dyn_case_line dy ca granule kind ram tables code expected_ram tables_before x passed]"

definition dyn_case :: "'w firmware \<Rightarrow> 'w jit_host \<Rightarrow> 'w dynamic_host \<Rightarrow> 'm dynamic_core \<Rightarrow> probe_abi \<Rightarrow> control_abi \<Rightarrow> nat \<Rightarrow> nat \<times> nat
    \<Rightarrow> ('w, status fault + unit) op" where
  "dyn_case fw jh dh dy a ca n = (\<lambda>(granule, kind).
     case_pages fw (8 * granule) LOADER_DATA (\<lambda>ram tables code.
       bindE (lift (require (hosts_disjoint DYN_RAM_PA DYN_TABLE_PA ram tables code))) (\<lambda>_.
       let img = dyn_image granule kind (ap_memory ram); expected_ram = dyn_expected_ram granule kind img in
       with_tables (build (\<lambda>(va, d). map_va DYN_TABLE_PA va d) (dyn_maps granule kind)
           \<lparr>tb_bytes = ap_memory tables, tb_granule = granule, tb_next = 2\<rparr>) (\<lambda>_ bt.
         let passed = dyn_passed dy a ca granule kind expected_ram (tb_bytes bt)
         in judged (dyn_engine jh dh dy ca granule kind ram tables code img (tb_bytes bt)) fw
              (\<lambda>x. dyn_lines dy ca granule kind ram tables code expected_ram (tb_bytes bt) x (passed x)) passed))))"

definition dyn_cases :: "(nat \<times> nat) list" where
  "dyn_cases = concat (map (\<lambda>granule. map (Pair granule) [0, 1, 2]) [4096, 16384])"

text \<open>The last line reports the number of cases as a constant of the program, 6.\<close>

definition dyn_main :: "bool \<Rightarrow> bool \<Rightarrow> 'w firmware \<Rightarrow> 'w jit_host \<Rightarrow> 'w dynamic_host \<Rightarrow> 'm dynamic_core \<Rightarrow> probe_abi \<Rightarrow> control_abi
    \<Rightarrow> ('w, status fault + status) op" where
  "dyn_main initialized x86_64 fw jh dh dy a ca = probe_main initialized x86_64 fw ''NXDYN: ENTRY''
     (run_cases fw ''NXDYN: PASS'' ''NXDYN: FAIL'' (dyn_case fw jh dh dy a ca) 0 dyn_cases)"

lemma dyn_cases_count: "length dyn_cases = 6"
  by (simp add: dyn_cases_def)

subsection \<open>The tables of a case\<close>

text \<open>
  The buffer has room for eight tables. The first mapping links the tables above its leaf, and the
  others, of the pages behind it, find them linked.
\<close>

lemma tb_read_write:
  assumes "off + 8 \<le> length (tb_bytes t)"
  shows "tb_read (tb_write t off v) off = v mod 2 ^ 64"
    "off' + 8 \<le> length (tb_bytes t) \<Longrightarrow> off' + 8 \<le> off \<or> off + 8 \<le> off' \<Longrightarrow> tb_read (tb_write t off v) off' = tb_read t off'"
proof -
  have "subrange off (off + length (le_bytes 8 v)) (overwrite off (le_bytes 8 v) (tb_bytes t)) = le_bytes 8 v"
    by (rule subrange_overwrite_same) (use assms in simp)
  then show "tb_read (tb_write t off v) off = v mod 2 ^ 64" by (simp add: tb_read_def tb_write_def le_nat_le_bytes)
  show "off' + 8 \<le> length (tb_bytes t) \<Longrightarrow> off' + 8 \<le> off \<or> off + 8 \<le> off' \<Longrightarrow> tb_read (tb_write t off v) off' = tb_read t off'"
    using subrange_overwrite_other [where at = off and ys = "le_bytes 8 v" and xs = "tb_bytes t" and a = off' and b = "off' + 8"] assms by (simp add: tb_read_def tb_write_def)
qed

text \<open>The tables above the leaves of the first two megabytes of RAM are linked.\<close>

definition leaves_linked :: "nat \<Rightarrow> tables \<Rightarrow> bool" where
  "leaves_linked granule t \<longleftrightarrow> tb_granule t = granule \<and> length (tb_bytes t) = 8 * granule \<and>
     (if granule = 16384
      then tb_read t 0 = DYN_TABLE_PA + 2 * granule + 3 \<and> tb_read t (2 * granule + 256) = DYN_TABLE_PA + 3 * granule + 3
      else tb_read t 0 = DYN_TABLE_PA + 2 * granule + 3 \<and> tb_read t (2 * granule + 8) = DYN_TABLE_PA + 3 * granule + 3
        \<and> tb_read t (3 * granule) = DYN_TABLE_PA + 4 * granule + 3)"

lemma level_indices:
  assumes "k < 4"
  shows "level_index 4096 (DYN_RAM_PA + k * 4096) 0 = 0" "level_index 4096 (DYN_RAM_PA + k * 4096) 1 = 1"
    "level_index 4096 (DYN_RAM_PA + k * 4096) 2 = 0" "level_index 4096 (DYN_RAM_PA + k * 4096) 3 = k"
    "level_index 16384 (DYN_RAM_PA + k * 16384) 1 = 0"
    "level_index 16384 (DYN_RAM_PA + k * 16384) 2 = 32" "level_index 16384 (DYN_RAM_PA + k * 16384) 3 = k"
    "root_table 4096 (DYN_RAM_PA + k * 4096) = 0" "root_table 16384 (DYN_RAM_PA + k * 16384) = 0"
proof -
  have "k = 0 \<or> k = 1 \<or> k = 2 \<or> k = 3" using assms by arith
  then show "level_index 4096 (DYN_RAM_PA + k * 4096) 0 = 0" "level_index 4096 (DYN_RAM_PA + k * 4096) 1 = 1"
    "level_index 4096 (DYN_RAM_PA + k * 4096) 2 = 0" "level_index 4096 (DYN_RAM_PA + k * 4096) 3 = k"
    "level_index 16384 (DYN_RAM_PA + k * 16384) 1 = 0"
    "level_index 16384 (DYN_RAM_PA + k * 16384) 2 = 32" "level_index 16384 (DYN_RAM_PA + k * 16384) 3 = k"
    "root_table 4096 (DYN_RAM_PA + k * 4096) = 0" "root_table 16384 (DYN_RAM_PA + k * 16384) = 0"
    by (auto simp: level_index_def root_table_def page_bits_def index_bits_def drop_bit_eq_div DYN_RAM_PA_def)
qed

lemma levels: "[0..<4] = [0, 1, 2, 3 :: nat]" "[1..<4] = [1, 2, 3 :: nat]" "[Suc 0..<4] = [1, 2, 3 :: nat]"
  by (simp_all add: upt_rec)

lemma map_linked:
  assumes g: "granule \<in> {4096, 16384}" and k: "k < 4" and t: "leaves_linked granule t"
  shows "\<exists>t'. map_va DYN_TABLE_PA (DYN_RAM_PA + k * granule) d t = (Inr (), t') \<and> leaves_linked granule t'"
proof -
  note L = level_indices [OF k]
  consider "granule = 4096" | "granule = 16384" using g by auto
  then show ?thesis
  proof cases
    case 1
    with t have r: "tb_granule t = 4096" "length (tb_bytes t) = 32768" "tb_read t 0 = 0x10002003" "tb_read t 8200 = 0x10003003" "tb_read t 12288 = 0x10004003"
      by (simp_all add: leaves_linked_def DYN_TABLE_PA_def)
    have "map_va DYN_TABLE_PA (DYN_RAM_PA + k * 4096) d t = (Inr (), tb_write t (16384 + k * 8) d)"
      using k by (simp add: map_va_def start_level_def r levels L Let_def wrapping_sub_def DYN_TABLE_PA_def
          L [unfolded One_nat_def])
    moreover have "leaves_linked 4096 (tb_write t (16384 + k * 8) d)"
      using k r by (simp add: leaves_linked_def tb_read_write DYN_TABLE_PA_def)
    ultimately show ?thesis using 1 by auto
  next
    case 2
    with t have r: "tb_granule t = 16384" "length (tb_bytes t) = 131072" "tb_read t 0 = 0x10008003" "tb_read t 33024 = 0x1000c003"
      by (simp_all add: leaves_linked_def DYN_TABLE_PA_def)
    have "map_va DYN_TABLE_PA (DYN_RAM_PA + k * 16384) d t = (Inr (), tb_write t (49152 + k * 8) d)"
      using k by (simp add: map_va_def start_level_def r levels L Let_def wrapping_sub_def DYN_TABLE_PA_def
          L [unfolded One_nat_def])
    moreover have "leaves_linked 16384 (tb_write t (49152 + k * 8) d)"
      using k r by (simp add: leaves_linked_def tb_read_write DYN_TABLE_PA_def)
    ultimately show ?thesis using 2 by auto
  qed
qed

lemma map_first:
  assumes g: "granule \<in> {4096, 16384}"
  shows "\<exists>t'. map_va DYN_TABLE_PA DYN_RAM_PA d (empty_tables granule 8) = (Inr (), t') \<and> leaves_linked granule t'"
proof -
  have z: "tb_read (empty_tables g 8) off = 0" for g off
    by (simp add: tb_read_def empty_tables_def subrange_zeros)
  have f: "tb_granule (empty_tables g 8) = g" "tb_next (empty_tables g 8) = 2" "length (tb_bytes (empty_tables g 8)) = 8 * g" for g
    by (simp_all add: empty_tables_def)
  have n: "tb_read (t\<lparr>tb_next := n\<rparr>) off = tb_read t off" for t n off by (simp add: tb_read_def)
  note L = level_indices [of 0, simplified]
  consider "granule = 4096" | "granule = 16384" using g by auto
  then show ?thesis
  proof cases
    case 1
    show ?thesis unfolding 1
      by (simp add: map_va_def start_level_def f z levels L L [unfolded One_nat_def] Let_def tb_read_write tb_write_simps DYN_TABLE_PA_def
          leaves_linked_def n)
  next
    case 2
    show ?thesis unfolding 2
      by (simp add: map_va_def start_level_def f z levels L L [unfolded One_nat_def] Let_def tb_read_write tb_write_simps DYN_TABLE_PA_def
          leaves_linked_def n)
  qed
qed

lemma build_linked:
  assumes "granule \<in> {4096, 16384}"
  shows "leaves_linked granule t \<Longrightarrow> list_all (\<lambda>(k, d). k < 4) ms \<Longrightarrow>
    \<exists>t'. build (\<lambda>(va, d). map_va DYN_TABLE_PA va d) (map (\<lambda>(k, d). (DYN_RAM_PA + k * granule, d)) ms) t = (Inr (), t')"
proof (induction ms arbitrary: t)
  case (Cons m ms)
  obtain k d where m: "m = (k, d)" by fastforce
  with Cons.prems(2) have "k < 4" by simp
  from map_linked [OF assms this Cons.prems(1)]
  obtain t1 where "map_va DYN_TABLE_PA (DYN_RAM_PA + k * granule) d t = (Inr (), t1)" "leaves_linked granule t1" by blast
  with Cons.IH [of t1] Cons.prems(2) m show ?case by simp
qed simp

lemma dyn_maps_numbered:
  "dyn_maps granule kind = (DYN_RAM_PA, DYN_RAM_PA OR 0x403) # map (\<lambda>(k, d). (DYN_RAM_PA + k * granule, d))
     [(1, if kind = 1 then 0 else (DYN_RAM_PA + 3 * granule) OR 0x403), (2, if kind = 2 then 0 else (DYN_RAM_PA + 4 * granule) OR 0x403),
      (3, (DYN_RAM_PA + 2 * granule) OR 0x403)]"
  by (simp add: dyn_maps_def post_va_def target_pa_def)

lemma dyn_build:
  assumes g: "granule \<in> {4096, 16384}"
  shows "\<exists>tb. build (\<lambda>(va, d). map_va DYN_TABLE_PA va d) (dyn_maps granule kind) (empty_tables granule 8) = (Inr (), tb)
    \<and> (\<forall>v. translate 0x0000fffffffff000 DYN_TABLE_PA tb v
         = requested_leaf (\<lambda>(va, d). page_of granule va) snd (dyn_maps granule kind) (page_of granule v) 0)"
proof -
  obtain t1 where t1: "map_va DYN_TABLE_PA DYN_RAM_PA (DYN_RAM_PA OR 0x403) (empty_tables granule 8) = (Inr (), t1)" "leaves_linked granule t1"
    using map_first [OF g] by blast
  let ?ms = "[(1 :: nat, if kind = 1 then 0 else (DYN_RAM_PA + 3 * granule) OR 0x403), (2, if kind = 2 then 0 else (DYN_RAM_PA + 4 * granule) OR 0x403),
      (3, (DYN_RAM_PA + 2 * granule) OR 0x403)]"
  have "list_all (\<lambda>(k, d). k < 4) ?ms" by simp
  from build_linked [OF g t1(2) this] obtain tb where
    "build (\<lambda>(va, d). map_va DYN_TABLE_PA va d) (map (\<lambda>(k, d). (DYN_RAM_PA + k * granule, d)) ?ms) t1 = (Inr (), tb)" by blast
  then have tb: "build (\<lambda>(va, d). map_va DYN_TABLE_PA va d) (dyn_maps granule kind) (empty_tables granule 8) = (Inr (), tb)"
    unfolding dyn_maps_numbered by (simp only: build.simps prod.case t1(1) sum.case)
  have e: "DYN_TABLE_PA mod granule = 0" "DYN_TABLE_PA + 8 * granule \<le> 2 ^ 48" "2 \<le> (8 :: nat)"
    using g by (auto simp: DYN_TABLE_PA_def)
  have d: "list_all (\<lambda>(va, d). d < 2 ^ 64) (dyn_maps granule kind)"
    using g by (auto simp: dyn_maps_def target_pa_def post_va_def DYN_RAM_PA_def)
  note E = empty_tables_ok [OF g e]
  show ?thesis using tb pages.build_translates [OF E(1) d tb] E(2) by auto
qed

subsection \<open>What the probe gives back\<close>

lemma neutral_run_dynamic:
  assumes "\<And>p n x. neutral acq rel (protect p n x)"
  shows "neutral acq rel (run_dynamic data control protect g w)"
proof (induction g arbitrary: w)
  case (Protection p n x k)
  then show ?case unfolding run_dynamic.simps by (intro neutral_intros assms) auto
qed (auto intro!: neutral_intros split: prod.split)

lemma moves_run_dynamic:
  assumes "\<And>p n x q. Q q \<Longrightarrow> moves d (protect p n x) q (\<lambda>_ q'. Q q')"
  shows "Q q \<Longrightarrow> moves d (run_dynamic data control protect g w) q (\<lambda>_ q'. Q q')"
proof (induction g arbitrary: w q)
  case (Protection p n x k)
  then show ?case unfolding run_dynamic.simps by (auto intro!: moves_bindS [OF assms])
qed (auto intro: moves_ret split: prod.split)

lemma dyn_engine_neutral: "neutral page_acq page_rel (dyn_engine jh dh dy ca granule kind ram tables code img table_bytes)"
proof -
  have "neutral page_acq page_rel (jit_protect jh p n x)" for p n x
    unfolding jit_protect_def by (rule page_quiet.calls) blast
  then show ?thesis
    unfolding dyn_engine_def fails_def by (intro page_quiet.quiet_intros page_quiet.opens_protection neutral_run_dynamic)
qed

lemma moves_dyn_engine:
  assumes "placed (64 * 1024) (Inr code)"
  shows "moves guard_step (dyn_engine jh dh dy ca granule kind ram tables code img table_bytes) Unguarded (leaves code (shows_refusal dx_restored))"
  unfolding dyn_engine_def case_prod_beta fails_def
  by (rule moves_touchless [OF neutral_query] moves_bindS [OF moves_protection_open] moves_if moves_case_option moves_case_sum
      moves_bindS [OF moves_run_dynamic [where Q = in_use]] moves_bindS [OF moves_protect] leaves_fail moves_ok
    | erule moves_mono [OF moves_protect] | simp add: leaves_def shows_refusal_def placed_restored [OF assms])+

lemma calm_dyn_engine: "calm (dyn_engine jh dh dy ca granule kind ram tables code img table_bytes)"
  unfolding dyn_engine_def by (auto intro!: calm_after calm_basic split: option.split prod.split)

lemma dyn_built:
  assumes "granule \<in> {4096, 16384}" "ap_memory tables = replicate (8 * granule) 0"
  shows "\<exists>tb. build (\<lambda>(va, d). map_va DYN_TABLE_PA va d) (dyn_maps granule kind)
    \<lparr>tb_bytes = ap_memory tables, tb_granule = granule, tb_next = 2\<rparr> = (Inr (), tb)"
  using dyn_build [OF assms(1), of kind] assms(2) by (auto simp: empty_tables_def)

lemma dyn_case_values: "(granule, kind) \<in> set dyn_cases \<Longrightarrow> granule \<in> {4096, 16384} \<and> kind \<in> {0, 1, 2}"
  by (auto simp: dyn_cases_def)

lemma calm_required: "(\<And>y. calm (k y)) \<Longrightarrow> calm (bindE (lift (require b)) k)"
  by (rule calm_bindE) (auto simp: require_def calm_def lift_def intro: post_ret)

lemma dyn_case_engine:
  "settles (dyn_case fw jh dh dy a ca n c)" "c \<in> set dyn_cases \<Longrightarrow> calm (dyn_case fw jh dh dy a ca n c)"
  "moves guard_step (dyn_case fw jh dh dy a ca n c) Unguarded handed"
proof -
  obtain granule kind where c: "c = (granule, kind)" by fastforce
  show "settles (dyn_case fw jh dh dy a ca n c)"
    unfolding dyn_case_def c prod.case Let_def
    by (intro settles_case_pages settles_intros settles_with_tables settles_judging dyn_engine_neutral)
  show "moves guard_step (dyn_case fw jh dh dy a ca n c) Unguarded handed"
    unfolding dyn_case_def c prod.case Let_def
    by (intro moves_case_pages moves_lift moves_with_tables moves_judging [where restored = dx_restored] moves_dyn_engine)
      (auto simp: dyn_passed_def Let_def)
  assume "c \<in> set dyn_cases"
  with c have "granule \<in> {4096, 16384}" using dyn_case_values by blast
  then show "calm (dyn_case fw jh dh dy a ca n c)"
    unfolding dyn_case_def c prod.case Let_def
    by (intro calm_case_pages calm_required) (use dyn_built in \<open>blast intro: calm_with_tables calm_judging calm_dyn_engine\<close>)
qed

interpretation dynamic_probe: calm_cases "dyn_case fw jh dh dy a ca" dyn_cases for fw jh dh dy a ca
  by unfold_locales (fact dyn_case_engine)+

end
