(* ===== verification/Dynamic_Reference.thy ===== *)
theory Dynamic_Reference
  imports Dynamic_Probe Guest_Programs
begin

text \<open>
  What the probe of enabling translation expects, compared with the reference interpreter: the guest
  starts behind no tables, turns them on and goes on in another page of RAM.
\<close>

subsection \<open>The walk\<close>

text \<open>
  Translation is on when the low bit of the control register is set; otherwise an address is its own
  translation. The reference applies a write of the control register at once, whereas the emulator
  does so after the barrier behind it; the barrier lies in a page that translates to itself.
\<close>

definition dyn_walk :: "nat \<Rightarrow> (nat \<Rightarrow> nat) \<Rightarrow> nat \<Rightarrow> walk" where
  "dyn_walk granule leaf control fetch store va =
     (if odd control then page_walk granule DYN_RAM_PA (8 * granule) leaf fetch store va
      else if DYN_RAM_PA \<le> va \<and> va < DYN_RAM_PA + 8 * granule then Inr (va - DYN_RAM_PA) else Inl No_backing)"

lemma sctlr_parity: "even SCTLR" "odd (SCTLR OR 1)" "SCTLR OR 1 = 0x30d00803"
  by (simp_all add: SCTLR_def)

lemma dyn_page_numbers:
  assumes "k < 4"
  shows "page_of 4096 (DYN_RAM_PA + k * 4096) = (0, 262144 + k)" "page_of 16384 (DYN_RAM_PA + k * 16384) = (0, 65536 + k)"
proof -
  have g: "2 ^ page_bits 4096 = (4096 :: nat)" "2 ^ page_bits 16384 = (16384 :: nat)"
    "2 ^ (index_bits 4096 * (depth 4096 + 1)) = (68719476736 :: nat)" "2 ^ (index_bits 16384 * (depth 16384 + 1)) = (8589934592 :: nat)"
    by (simp_all add: page_bits_def index_bits_def depth_def start_level_def)
  have d: "(DYN_RAM_PA + k * 4096) div 4096 = 262144 + k" "(DYN_RAM_PA + k * 16384) div 16384 = 65536 + k"
    by (simp_all add: DYN_RAM_PA_def)
  have m: "(262144 + k) mod 68719476736 = 262144 + k" "(65536 + k) mod 8589934592 = 65536 + k" using assms by simp_all
  have l: "root_number (DYN_RAM_PA + k * 4096) = 0" "root_number (DYN_RAM_PA + k * 16384) = 0"
    using assms by (simp_all add: root_number_def drop_bit_eq_div DYN_RAM_PA_def)
  show "page_of 4096 (DYN_RAM_PA + k * 4096) = (0, 262144 + k)" unfolding page_of_def g d m l ..
  show "page_of 16384 (DYN_RAM_PA + k * 16384) = (0, 65536 + k)" unfolding page_of_def g d m l ..
qed

lemma dyn_pages_apart:
  assumes "granule \<in> {4096, 16384}" "k < 4" "k' < 4"
  shows "page_of granule (DYN_RAM_PA + k * granule) = page_of granule (DYN_RAM_PA + k' * granule) \<longleftrightarrow> k = k'"
  using assms(1) by (elim insertE emptyE; hypsubst)
    (simp_all only: dyn_page_numbers [OF assms(2)] dyn_page_numbers [OF assms(3)] prod.inject add_left_cancel simp_thms)

definition page_leaf_of :: "nat \<Rightarrow> nat \<Rightarrow> nat \<Rightarrow> nat" where
  "page_leaf_of granule kind k = [DYN_RAM_PA OR 0x403, if kind = 1 then 0 else (DYN_RAM_PA + 3 * granule) OR 0x403,
     if kind = 2 then 0 else (DYN_RAM_PA + 4 * granule) OR 0x403, (DYN_RAM_PA + 2 * granule) OR 0x403] ! k"

lemma dyn_tables:
  assumes g: "granule \<in> {4096, 16384}"
  obtains tb where "build (\<lambda>(va, d). map_va DYN_TABLE_PA va d) (dyn_maps granule kind) (empty_tables granule 8) = (Inr (), tb)"
    "\<And>k. k < 4 \<Longrightarrow> maps_page granule (translate 0x0000fffffffff000 DYN_TABLE_PA tb) (DYN_RAM_PA + k * granule) (page_leaf_of granule kind k)"
proof -
  from dyn_build [OF g, of kind] obtain tb where
    tb: "build (\<lambda>(va, d). map_va DYN_TABLE_PA va d) (dyn_maps granule kind) (empty_tables granule 8) = (Inr (), tb)"
    "\<And>v. translate 0x0000fffffffff000 DYN_TABLE_PA tb v
         = requested_leaf (\<lambda>(va, d). page_of granule va) snd (dyn_maps granule kind) (page_of granule v) 0" by auto
  have z: "(DYN_RAM_PA + k * granule) mod granule = 0" for k using g by (auto simp: DYN_RAM_PA_def)
  have at: "page_of granule (DYN_RAM_PA + k * granule + i) = page_of granule (DYN_RAM_PA + k * granule)" if "i < granule" for k i
    by (rule page_of_offset [OF g z that])
  have m: "dyn_maps granule kind = map (\<lambda>k. (DYN_RAM_PA + k * granule, page_leaf_of granule kind k)) [0, 1, 2, 3]"
    by (simp add: dyn_maps_numbered page_leaf_of_def numeral_2_eq_2 numeral_3_eq_3)
  have r: "requested_leaf (\<lambda>(va, d). page_of granule va) snd (dyn_maps granule kind) (page_of granule (DYN_RAM_PA + k * granule)) 0
      = page_leaf_of granule kind k" if "k < 4" for k
  proof -
    have k: "k = 0 \<or> k = 1 \<or> k = 2 \<or> k = 3" using that by arith
    have n: "(0 :: nat) < 4" "(1 :: nat) < 4" "(2 :: nat) < 4" "(3 :: nat) < 4" by simp_all
    note N = dyn_pages_apart [OF g that n(1)] dyn_pages_apart [OF g that n(2)] dyn_pages_apart [OF g that n(3)] dyn_pages_apart [OF g that n(4)]
    show ?thesis unfolding m list.map requested_leaf.simps prod.case snd_conv N using k by auto
  qed
  show thesis
    by (rule that [OF tb(1)]) (unfold maps_page_def tb(2), intro conjI allI impI z, simp only: at r)
qed

text \<open>Where the accesses of the guest go, before and behind the switch.\<close>

lemma dyn_walk_off: "even control \<Longrightarrow> i < 8 * granule \<Longrightarrow> dyn_walk granule leaf control fetch store (DYN_RAM_PA + i) = Inr i"
  by (simp add: dyn_walk_def)

lemma dyn_walk_on:
  assumes g: "granule \<in> {4096, 16384}" and p: "p < 8" and c: "odd control"
    and leaf: "maps_page granule leaf va ((DYN_RAM_PA + p * granule) OR 0x403)" and i: "i < granule"
  shows "dyn_walk granule leaf control fetch store (va + i) = Inr (p * granule + i)"
proof -
  have b: "DYN_RAM_PA mod 16384 = 0" "DYN_RAM_PA < 2 ^ 40" "(8 :: nat) \<le> 16" by (simp_all add: DYN_RAM_PA_def)
  note L = base_leaf [OF g b(1,2) p b(3)]
  show ?thesis using c by (simp add: dyn_walk_def page_walk_page [OF leaf L(1) L(2) i])
qed

lemma dyn_walk_unmapped:
  assumes "granule \<in> {4096, 16384}" "odd control" "maps_page granule leaf va 0"
  shows "dyn_walk granule leaf control fetch store va = Inl (Fault 7)"
  using assms(2) page_walk_unmapped [OF assms(3), of DYN_RAM_PA "8 * granule" fetch store "Fault 7"] assms(1)
  by (auto simp: dyn_walk_def page_access_def)

subsection \<open>The program\<close>

lemma dyn_decodes:
  "decode 0x91000442 = Some (Add_Immediate 2 2 1)" "decode 0xd5181000 = Some (Write_Control 0)" "decode ISB = Some Barrier"
  "decode 0xd5381000 = Some (Read_Control 0)" "decode 0xf9400023 = Some (Transfer 1 8 0 1 3)"
  "decode 0x91000463 = Some (Add_Immediate 3 3 1)" "decode 0xf9000023 = Some (Transfer 0 8 0 1 3)"
  "decode 0xa9000c22 = Some (Transfer_Pair False 2 0 1 2 3)" "decode 0xa9400823 = Some (Transfer_Pair True 2 0 1 3 2)"
  "decode DSB = Some Barrier" "decode TLBI = Some Barrier" "decode 0xf9400020 = Some (Transfer 1 8 0 1 0)"
  "decode DYN_HLT = Some Halts"
  by (simp_all add: decode_def dynamic_constants)

text \<open>The four registers.\<close>

lemma registers:
  "[a, b, c, d][0 := x] = [x, b, c, d]" "[a, b, c, d][2 := x] = [a, b, x, d]" "[a, b, c, d][3 := x] = [a, b, c, x]" "[a, b, c, d] ! 1 = b" "[a, b, c, d] ! 2 = c" "[a, b, c, d] ! 3 = d"
  by (simp_all add: numeral_2_eq_2 numeral_3_eq_3)

lemma dyn_words_small: "list_all (\<lambda>w. w < 2 ^ 32) stub" "list_all (\<lambda>w. w < 2 ^ 32) (dyn_tail kind)"
  by (simp_all add: stub_def dyn_tail_def OMIT_ENABLE_def dynamic_constants)

lemma length_programs: "length stub = 3" "length (dyn_tail kind) = (if kind = 0 then 12 else 2)"
  by (simp_all add: stub_def dyn_tail_def)

lemma dyn_image_holds:
  assumes g: "granule \<in> {4096, 16384}" and memory: "length memory = 8 * granule"
  shows "length (dyn_image granule kind memory) = 8 * granule"
    "holds_words (dyn_image granule kind memory) (granule - 12) stub"
    "holds_words (dyn_image granule kind memory) (3 * granule) (dyn_tail kind)"
    "subrange (5 * granule - 8) (5 * granule) (dyn_image granule kind memory) = le_bytes 8 41"
proof -
  note s = Let_def dyn_image_def put_words_def length_programs
  show "length (dyn_image granule kind memory) = 8 * granule"
    using g memory by (auto simp: s)
  show "holds_words (dyn_image granule kind memory) (granule - 12) stub"
    unfolding s by (intro holds_words_keep holds_words_overwrite dyn_words_small) (use g memory in \<open>auto simp: length_programs\<close>)
  show "holds_words (dyn_image granule kind memory) (3 * granule) (dyn_tail kind)"
    unfolding s by (intro holds_words_keep holds_words_overwrite dyn_words_small) (use g memory in \<open>auto simp: length_programs\<close>)
  show "subrange (5 * granule - 8) (5 * granule) (dyn_image granule kind memory) = le_bytes 8 41"
    using subrange_overwrite_same [of "5 * granule - 8" "le_bytes 8 41"] g memory by (auto simp: s)
qed

text \<open>The stub switches translation on, behind the last word of the first page.\<close>

lemma dyn_enables:
  assumes g: "granule \<in> {4096, 16384}" and ram: "holds_words ram (granule - 12) stub"
    and leaf: "maps_page granule leaf DYN_RAM_PA (DYN_RAM_PA OR 0x403)"
  shows "guest_runs (dyn_walk granule leaf) (3 + n) (reset_cpu (dyn_initial granule kind) (dyn_start granule) SCTLR ram)
    = guest_runs (dyn_walk granule leaf) n
        (at_word [SCTLR OR 1, data_va granule kind, 9, 99] (dyn_start granule) 3 (SCTLR OR 1) ram 0 0)"
proof -
  let ?tr = "dyn_walk granule leaf" and ?va = "dyn_start granule" and ?on = "SCTLR OR 1"
  let ?x = "[?on, data_va granule kind, 9, 99]"
  have b: "12 \<le> granule" using g by auto
  then have va: "?va + i = DYN_RAM_PA + (granule - 12 + i)" for i by (simp add: dyn_start_def)
  have off: "program_at ?tr ?va SCTLR ram (granule - 12) stub"
    unfolding program_at_def va length_programs by (intro conjI ram allI impI dyn_walk_off sctlr_parity) (use b in auto)
  have on: "program_at ?tr ?va ?on ram (granule - 12) stub"
    unfolding program_at_def va length_programs
  proof (intro conjI ram allI impI)
    show "?tr ?on True False (DYN_RAM_PA + (granule - 12 + i)) = Inr (granule - 12 + i)" if "i < 4 * 3" for i
      using dyn_walk_on [OF g _ sctlr_parity(2), of 0 leaf DYN_RAM_PA "granule - 12 + i" True False] leaf that b by simp
  qed
  have d: "decode (stub ! 0) = Some (Add_Immediate 2 2 1)" "decode (stub ! 1) = Some (Write_Control 0)" "decode (stub ! 2) = Some Barrier"
    by (simp_all add: stub_def OMIT_ENABLE_def dyn_decodes)
  have s0: "guest_step ?tr (at_word [?on, data_va granule kind, 8, 99] ?va 0 SCTLR ram 0 0) = (None, at_word ?x ?va 1 SCTLR ram 0 0)"
    using at_plain(2) [OF off _ d(1) _ refl, of "[?on, data_va granule kind, 8, 99]" 0 0] by (simp add: length_programs registers del: One_nat_def list_update.simps)
  have s1: "guest_step ?tr (at_word ?x ?va 1 SCTLR ram 0 0) = (None, at_word ?x ?va 2 ?on ram 0 0)"
    using at_plain(5) [OF off _ d(2) _ refl, of ?x 0 0] by (simp add: length_programs del: One_nat_def list_update.simps)
  have s2: "guest_step ?tr (at_word ?x ?va 2 ?on ram 0 0) = (None, at_word ?x ?va 3 ?on ram 0 0)"
    using at_plain(1) [OF on _ d(3) _ refl, of ?x 0 0] by (simp add: length_programs del: One_nat_def list_update.simps)
  have r: "reset_cpu (dyn_initial granule kind) ?va SCTLR ram = at_word [?on, data_va granule kind, 8, 99] ?va 0 SCTLR ram 0 0"
    by (simp add: reset_cpu_def at_word_def dyn_initial_def)
  have n: "3 + n = Suc (Suc (Suc n))" by simp
  show ?thesis unfolding r n guest_runs_step [OF s0] guest_runs_step [OF s1] guest_runs_step [OF s2] ..
qed

text \<open>Behind it, the fetch or the first load faults, or the whole program runs.\<close>

lemma dyn_fetch_faults:
  assumes g: "granule \<in> {4096, 16384}" and odd: "odd control" and leaf: "maps_page granule leaf va 0"
  shows "guest_runs (dyn_walk granule leaf) (Suc n) (at_word xs va 0 control ram 0 0)
    = (Aborted True va (Fault 7), at_word xs va 0 control ram 0 0\<lparr>gc_fetches := 1\<rparr>)"
  using guest_step_fault [of "dyn_walk granule leaf" "at_word xs va 0 control ram 0 0" "Fault 7"]
    dyn_walk_unmapped [OF g odd leaf]
  by (simp add: at_word_def guest_runs_stop)

lemma dyn_tail_at:
  assumes g: "granule \<in> {4096, 16384}" and odd: "odd control" and ram: "holds_words ram (3 * granule) (dyn_tail kind)"
    and leaf: "maps_page granule leaf va ((DYN_RAM_PA + 3 * granule) OR 0x403)"
  shows "program_at (dyn_walk granule leaf) va control ram (3 * granule) (dyn_tail kind)"
  unfolding program_at_def length_programs
  using ram dyn_walk_on [OF g _ odd leaf] g by auto

lemma dyn_load_faults:
  assumes g: "granule \<in> {4096, 16384}" and odd: "odd control" and ram: "holds_words ram (3 * granule) (dyn_tail kind)" and kind: "kind \<noteq> 0"
    and leaf: "maps_page granule leaf va ((DYN_RAM_PA + 3 * granule) OR 0x403)" "maps_page granule leaf data 0"
  shows "guest_runs (dyn_walk granule leaf) (Suc n) (at_word [x0, data, x2, x3] va 0 control ram 0 0)
    = (Aborted False data (Fault 7), at_word [x0, data, x2, x3] va 0 control ram 1 0\<lparr>gc_fetches := 1\<rparr>)"
proof -
  have d: "decode (dyn_tail kind ! 0) = Some (Transfer 1 8 0 1 3)" using kind by (simp add: dyn_tail_def dyn_decodes)
  have f: "offsets (dyn_walk granule leaf control False (1 = (0 :: nat))) ([x0, data, x2, x3] ! 1 + 0) 8 = Inl (data, Fault 7)"
    using dyn_walk_unmapped [OF g odd leaf(2)] by (simp add: offsets_fault)
  have "guest_step (dyn_walk granule leaf) (at_word [x0, data, x2, x3] va 0 control ram 0 0)
      = (Some (Aborted False data (Fault 7)), at_word [x0, data, x2, x3] va 0 control ram (0 + 1) 0\<lparr>gc_fetches := 0 + 1\<rparr>)"
    by (rule at_transfer(2) [OF dyn_tail_at [OF g odd ram leaf(1)] _ d]) (use f in \<open>simp_all add: length_programs\<close>)
  from guest_runs_stop [OF this] show ?thesis by simp
qed

text \<open>The pair at the end of the third page goes to two pages that are not neighbours in RAM.\<close>

lemma dyn_data_offsets:
  fixes fetch store :: bool
  assumes g: "granule \<in> {4096, 16384}" and odd: "odd control"
    and leaf: "maps_page granule leaf (DYN_RAM_PA + 2 * granule) ((DYN_RAM_PA + 4 * granule) OR 0x403)"
      "maps_page granule leaf (DYN_RAM_PA + 3 * granule) ((DYN_RAM_PA + 2 * granule) OR 0x403)"
  defines "tr \<equiv> dyn_walk granule leaf control fetch store"
  shows "offsets tr (data_va granule 0) 8 = Inr [5 * granule - 8..<5 * granule - 8 + 8]"
    "offsets tr (data_va granule 0) 16 = Inr ([5 * granule - 8..<5 * granule - 8 + 8] @ [2 * granule..<2 * granule + 8])"
proof -
  have b: "8 \<le> granule" using g by auto
  have a: "data_va granule 0 + i = DYN_RAM_PA + 2 * granule + (granule - 8 + i)"
    "data_va granule 0 + 8 + i = DYN_RAM_PA + 3 * granule + i" for i using b by (simp_all add: data_va_def)
  have lo: "tr (data_va granule 0 + i) = Inr (5 * granule - 8 + i)" if "i < 8" for i
    unfolding a(1) tr_def using dyn_walk_on [OF g _ odd leaf(1), of "granule - 8 + i" fetch store] that b by simp
  have hi: "tr (data_va granule 0 + 8 + i) = Inr (2 * granule + i)" if "i < 8" for i
    unfolding a(2) tr_def by (rule dyn_walk_on [OF g _ odd leaf(2)]) (use that b in simp_all)
  show "offsets tr (data_va granule 0) 8 = Inr [5 * granule - 8..<5 * granule - 8 + 8]" by (rule offsets_linear) (rule lo)
  have "offsets tr (data_va granule 0) (8 + 8) = Inr ([5 * granule - 8..<5 * granule - 8 + 8] @ [2 * granule..<2 * granule + 8])"
    by (rule offsets_across) (fact lo hi)+
  then show "offsets tr (data_va granule 0) 16 = Inr ([5 * granule - 8..<5 * granule - 8 + 8] @ [2 * granule..<2 * granule + 8])" by simp
qed

lemma overwrite_again: "length a = length b \<Longrightarrow> at + length a \<le> length xs \<Longrightarrow> overwrite at b (overwrite at a xs) = overwrite at b xs"
  by (rule nth_equalityI) (auto simp: nth_overwrite)

lemma dyn_tail_decodes:
  "decode (dyn_tail 0 ! 0) = Some (Read_Control 0)" "decode (dyn_tail 0 ! 1) = Some (Transfer 1 8 0 1 3)"
    "decode (dyn_tail 0 ! 2) = Some (Add_Immediate 3 3 1)" "decode (dyn_tail 0 ! 3) = Some (Transfer 0 8 0 1 3)"
    "decode (dyn_tail 0 ! 4) = Some (Transfer_Pair False 2 0 1 2 3)" "decode (dyn_tail 0 ! 5) = Some (Transfer_Pair True 2 0 1 3 2)"
    "decode (dyn_tail 0 ! 6) = Some Barrier" "decode (dyn_tail 0 ! 7) = Some Barrier" "decode (dyn_tail 0 ! 8) = Some Barrier" "decode (dyn_tail 0 ! 9) = Some Barrier"
    "decode (dyn_tail 0 ! 10) = Some (Transfer 1 8 0 1 0)" "decode (dyn_tail 0 ! 11) = Some Halts"
  by (simp_all add: dyn_tail_def dyn_decodes)

lemma read_word:
  assumes "length r = length ram" "at + 8 \<le> length ram" "subrange at (at + 8) r = le_bytes 8 v" "v < 2 ^ 64"
  shows "le_nat (gather [at..<at + 8] r) = v"
  using gather_upt [of at 8 r] assms by (simp add: le_nat_le_bytes)

lemma dyn_stores:
  assumes g: "granule \<in> {4096, 16384}" and odd: "odd control" and ram: "holds_words ram (3 * granule) (dyn_tail 0)" "length ram = 8 * granule"
      "subrange (5 * granule - 8) (5 * granule) ram = le_bytes 8 41"
    and leaf: "maps_page granule leaf va ((DYN_RAM_PA + 3 * granule) OR 0x403)"
      "maps_page granule leaf (DYN_RAM_PA + 2 * granule) ((DYN_RAM_PA + 4 * granule) OR 0x403)"
      "maps_page granule leaf (DYN_RAM_PA + 3 * granule) ((DYN_RAM_PA + 2 * granule) OR 0x403)"
  shows "guest_runs (dyn_walk granule leaf) (5 + n) (at_word [control, data_va granule 0, 9, 99] va 0 control ram 0 0)
    = guest_runs (dyn_walk granule leaf) n (at_word [control, data_va granule 0, 9, 42] va 5 control (dyn_expected_ram granule 0 ram) 3 3)"
proof -
  let ?tr = "dyn_walk granule leaf" and ?a = "data_va granule 0" and ?v = "5 * granule - 8" and ?ws = "dyn_tail 0"
  let ?lo = "[?v..<?v + 8]" and ?hi = "[2 * granule..<2 * granule + 8]"
  let ?r1 = "overwrite ?v (le_bytes 8 42) ram" and ?r2 = "dyn_expected_ram granule 0 ram"
  have b: "64 \<le> granule" using g by auto
  note o' = dyn_data_offsets [OF g odd leaf(2,3)] and l = length_programs(2) [of 0] and d = dyn_tail_decodes
  have P: "program_at ?tr va control r (3 * granule) ?ws" if "r = ram \<or> r = ?r1" for r
    by (rule dyn_tail_at [OF g odd _ leaf(1)])
      (use that ram b in \<open>auto simp: dyn_expected_ram_def l intro!: holds_words_keep\<close>)
  have lr: "?v + 8 \<le> length ram" "2 * granule + 8 \<le> length ram" using b ram(2) by simp_all
  have v1: "subrange ?v (?v + 8) ram = le_bytes 8 41" using ram(3) b by simp
  have s0: "guest_step ?tr (at_word [control, ?a, 9, 99] va 0 control ram 0 0) = (None, at_word [control, ?a, 9, 99] va 1 control ram 0 0)"
    using at_plain(4) [OF P _ d(1) _ refl, of ram "[control, ?a, 9, 99]" 0 0] by (simp add: l registers del: One_nat_def list_update.simps)
  have s1: "guest_step ?tr (at_word [control, ?a, 9, 99] va 1 control ram 0 0) = (None, at_word [control, ?a, 9, 41] va 2 control ram 1 1)"
    using at_transfer(1) [OF P _ d(2), of ram "[control, ?a, 9, 99]" ?lo 0 0] o'(1) read_word [OF refl lr(1) v1]
    by (simp add: l registers extended_def extension_def del: One_nat_def list_update.simps)
  have s2: "guest_step ?tr (at_word [control, ?a, 9, 41] va 2 control ram 1 1) = (None, at_word [control, ?a, 9, 42] va 3 control ram 1 1)"
    using at_plain(2) [OF P _ d(3) _ refl, of ram "[control, ?a, 9, 41]" 1 1] by (simp add: l registers del: One_nat_def list_update.simps)
  have "scatter ?lo (le_bytes 8 42) ram = ?r1"
    using scatter_upt [of ?v "le_bytes 8 42" ram] lr by simp
  then have s3: "guest_step ?tr (at_word [control, ?a, 9, 42] va 3 control ram 1 1) = (None, at_word [control, ?a, 9, 42] va 4 control ?r1 2 2)"
    using at_transfer(1) [OF P _ d(4), of ram "[control, ?a, 9, 42]" ?lo 1 1] o'(1) by (simp add: l registers del: One_nat_def list_update.simps)
  have "scatter (?lo @ ?hi) (le_bytes 8 9 @ le_bytes 8 42) ?r1
      = overwrite (2 * granule) (le_bytes 8 42) (overwrite ?v (le_bytes 8 9) ?r1)"
    using scatter_upt [of ?v "le_bytes 8 9" ?r1] scatter_upt [of "2 * granule" "le_bytes 8 42" "overwrite ?v (le_bytes 8 9) ?r1"] lr
    by (simp add: scatter_append)
  also have "\<dots> = ?r2" using lr by (simp add: overwrite_again dyn_expected_ram_def)
  finally have s4: "guest_step ?tr (at_word [control, ?a, 9, 42] va 4 control ?r1 2 2) = (None, at_word [control, ?a, 9, 42] va 5 control ?r2 3 3)"
    using at_pair(1) [OF P _ d(5) _ _ _ refl refl, of ?r1 "[control, ?a, 9, 42]" "?lo @ ?hi" 2 2] o'(2)
    by (simp add: l registers del: One_nat_def list_update.simps)
  have n: "5 + n = Suc (Suc (Suc (Suc (Suc n))))" by simp
  show ?thesis
    unfolding n guest_runs_step [OF s0] guest_runs_step [OF s1] guest_runs_step [OF s2] guest_runs_step [OF s3] guest_runs_step [OF s4] ..
qed

lemma dyn_runs:
  assumes g: "granule \<in> {4096, 16384}" and odd: "odd control" and ram: "holds_words ram (3 * granule) (dyn_tail 0)" "length ram = 8 * granule"
      "subrange (5 * granule - 8) (5 * granule) ram = le_bytes 8 41"
    and leaf: "maps_page granule leaf va ((DYN_RAM_PA + 3 * granule) OR 0x403)"
      "maps_page granule leaf (DYN_RAM_PA + 2 * granule) ((DYN_RAM_PA + 4 * granule) OR 0x403)"
      "maps_page granule leaf (DYN_RAM_PA + 3 * granule) ((DYN_RAM_PA + 2 * granule) OR 0x403)"
  shows "guest_runs (dyn_walk granule leaf) (12 + n) (at_word [control, data_va granule 0, 9, 99] va 0 control ram 0 0)
    = (Halted, at_word [9, data_va granule 0, 42, 9] va 12 control (dyn_expected_ram granule 0 ram) 5 5)"
proof -
  let ?tr = "dyn_walk granule leaf" and ?a = "data_va granule 0" and ?v = "5 * granule - 8" and ?ws = "dyn_tail 0"
  let ?lo = "[?v..<?v + 8]" and ?hi = "[2 * granule..<2 * granule + 8]"
  let ?r2 = "dyn_expected_ram granule 0 ram"
  have b: "64 \<le> granule" using g by auto
  note o' = dyn_data_offsets [OF g odd leaf(2,3)] and l = length_programs(2) [of 0] and d = dyn_tail_decodes
  have P: "program_at ?tr va control r (3 * granule) ?ws" if "r = ?r2" for r
    by (rule dyn_tail_at [OF g odd _ leaf(1)])
      (use that ram b in \<open>auto simp: dyn_expected_ram_def l intro!: holds_words_keep\<close>)
  have lr: "?v + 8 \<le> length ram" "2 * granule + 8 \<le> length ram" using b ram(2) by simp_all
  have r2: "length ?r2 = length ram" "subrange ?v (?v + 8) ?r2 = le_bytes 8 9" "subrange (2 * granule) (2 * granule + 8) ?r2 = le_bytes 8 42"
    using lr b subrange_overwrite_same [of ?v "le_bytes 8 9" ram] subrange_overwrite_same [of "2 * granule" "le_bytes 8 42"]
    by (simp_all add: dyn_expected_ram_def subrange_overwrite_other)
  have hi: "le_nat (gather ?hi ?r2) = 42" using read_word [OF r2(1) lr(2) r2(3)] by simp
  have s5: "guest_step ?tr (at_word [control, ?a, 9, 42] va 5 control ?r2 3 3) = (None, at_word [control, ?a, 42, 9] va 6 control ?r2 4 4)"
    using at_pair(1) [OF P _ d(6) _ _ _ refl refl, of ?r2 "[control, ?a, 9, 42]" "?lo @ ?hi" 3 3] o'(2) read_word [OF r2(1) lr(1) r2(2)] hi
    by (simp add: l registers del: One_nat_def list_update.simps)
  have barrier: "guest_step ?tr (at_word [control, ?a, 42, 9] va k control ?r2 4 4) = (None, at_word [control, ?a, 42, 9] va (k + 1) control ?r2 4 4)"
    if "k \<in> {6, 7, 8, 9}" for k
    using that at_plain(1) [OF P _ _ _ refl, of ?r2 k "[control, ?a, 42, 9]" 4 4] d(7-10) by (auto simp: l)
  have s10: "guest_step ?tr (at_word [control, ?a, 42, 9] va 10 control ?r2 4 4) = (None, at_word [9, ?a, 42, 9] va 11 control ?r2 5 5)"
    using at_transfer(1) [OF P _ d(11), of ?r2 "[control, ?a, 42, 9]" ?lo 4 4] o'(1) read_word [OF r2(1) lr(1) r2(2)]
    by (simp add: l registers extended_def extension_def del: One_nat_def list_update.simps)
  have s11: "guest_step ?tr (at_word [9, ?a, 42, 9] va 11 control ?r2 5 5) = (Some Halted, at_word [9, ?a, 42, 9] va 12 control ?r2 5 5)"
    using at_halt [OF P _ d(12), of ?r2 "[9, ?a, 42, 9]" 5 5] by (simp add: l del: One_nat_def list_update.simps)
  have s6: "guest_step ?tr (at_word [control, ?a, 42, 9] va 6 control ?r2 4 4) = (None, at_word [control, ?a, 42, 9] va 7 control ?r2 4 4)"
    "guest_step ?tr (at_word [control, ?a, 42, 9] va 7 control ?r2 4 4) = (None, at_word [control, ?a, 42, 9] va 8 control ?r2 4 4)"
    "guest_step ?tr (at_word [control, ?a, 42, 9] va 8 control ?r2 4 4) = (None, at_word [control, ?a, 42, 9] va 9 control ?r2 4 4)"
    "guest_step ?tr (at_word [control, ?a, 42, 9] va 9 control ?r2 4 4) = (None, at_word [control, ?a, 42, 9] va 10 control ?r2 4 4)"
    using barrier [of 6] barrier [of 7] barrier [of 8] barrier [of 9] by simp_all
  have n: "12 + n = 5 + (7 + n)" "7 + n = Suc (Suc (Suc (Suc (Suc (Suc (Suc n))))))" by simp_all
  show ?thesis
    unfolding n(1) dyn_stores [OF g odd ram leaf] n(2) guest_runs_step [OF s5] guest_runs_step [OF s6(1)] guest_runs_step [OF s6(2)] guest_runs_step [OF s6(3)]
      guest_runs_step [OF s6(4)] guest_runs_step [OF s10] guest_runs_stop [OF s11] ..
qed

subsection \<open>The expectations\<close>

text \<open>
  A run of the reference ends as a case wants: with its registers, its counts, its program counter and
  its RAM, translation being on, and with the syndrome that the architecture gives its fault.
\<close>

definition syndrome :: "guest_end \<Rightarrow> nat" where
  "syndrome e = (case e of Aborted fetch far r \<Rightarrow> (case r of Fault f \<Rightarrow> (if fetch then 0x86000000 else 0x96000000) + f | _ \<Rightarrow> 0) | _ \<Rightarrow> 0)"

definition as_wanted :: "nat \<Rightarrow> nat \<Rightarrow> u8 list \<Rightarrow> guest_end \<times> guest_cpu \<Rightarrow> bool" where
  "as_wanted granule kind ram = (\<lambda>(e, c). let want = dyn_wanted granule kind in
     e = (if dw_status want = 1 then Halted else Aborted (dw_status want = 16) (dw_far want) (Fault 7))
     \<and> dw_esr want = syndrome e \<and> gc_x c = dw_x want \<and> gc_pc c = dw_pc want \<and> gc_retired c = dw_retired want
     \<and> gc_fetches c = dw_fetch want \<and> gc_data c = dw_data want \<and> gc_completed c = (if kind = 0 then 5 else 0)
     \<and> gc_control c = SCTLR OR 1 \<and> gc_ram c = dyn_expected_ram granule kind ram)"

lemma dyn_case_runs:
  assumes g: "granule \<in> {4096, 16384}" and kind: "kind \<in> {0, 1, 2}" and memory: "length memory = 8 * granule"
    and leaf: "\<And>k. k < 4 \<Longrightarrow> maps_page granule leaf (DYN_RAM_PA + k * granule) (page_leaf_of granule kind k)"
  shows "as_wanted granule kind (dyn_image granule kind memory) (guest_runs (dyn_walk granule leaf) 32
    (reset_cpu (dyn_initial granule kind) (dyn_start granule) SCTLR (dyn_image granule kind memory)))"
proof -
  let ?ram = "dyn_image granule kind memory" and ?on = "SCTLR OR 1" and ?tr = "dyn_walk granule leaf"
  let ?x = "[?on, data_va granule kind, 9, 99]"
  note I = dyn_image_holds [OF g memory, of kind] and odd = sctlr_parity(2)
  have m0: "maps_page granule leaf DYN_RAM_PA (DYN_RAM_PA OR 0x403)" using leaf [of 0] by (simp add: page_leaf_of_def)
  have m1: "maps_page granule leaf (post_va granule) (if kind = 1 then 0 else (DYN_RAM_PA + 3 * granule) OR 0x403)"
    using leaf [of 1] by (simp add: page_leaf_of_def post_va_def)
  have m2: "maps_page granule leaf (DYN_RAM_PA + 2 * granule) (if kind = 2 then 0 else (DYN_RAM_PA + 4 * granule) OR 0x403)"
    using leaf [of 2] by (simp add: page_leaf_of_def)
  have m3: "maps_page granule leaf (DYN_RAM_PA + 3 * granule) ((DYN_RAM_PA + 2 * granule) OR 0x403)"
    using leaf [of 3] by (simp add: page_leaf_of_def numeral_3_eq_3)
  have va: "dyn_start granule + 4 * 3 = post_va granule" using g by (auto simp: dyn_start_def post_va_def)
  have n: "(32 :: nat) = 3 + 29" by simp
  have run: "guest_runs ?tr 32 (reset_cpu (dyn_initial granule kind) (dyn_start granule) SCTLR ?ram)
      = (case guest_runs ?tr 29 (at_word ?x (post_va granule) 0 ?on ?ram 0 0) of (e, c) \<Rightarrow> (e, later 3 c))"
    unfolding n dyn_enables [OF g I(2) m0] unfolding at_word_later [of _ _ 3] guest_runs_later va ..
  consider "kind = 0" | "kind = 1" | "kind = 2" using kind by auto
  then show ?thesis
  proof cases
    case 1
    have "guest_runs ?tr (12 + 17) (at_word ?x (post_va granule) 0 ?on ?ram 0 0)
        = (Halted, at_word [9, data_va granule kind, 42, 9] (post_va granule) 12 ?on (dyn_expected_ram granule 0 ?ram) 5 5)"
      unfolding 1 by (rule dyn_runs [OF g odd]) (use 1 I m1 m2 m3 in simp_all)
    then show ?thesis unfolding run using 1 length_programs(2) [of 0]
      by (simp add: as_wanted_def dyn_wanted_def syndrome_def at_word_def later_def)
  next
    case 2
    have "guest_runs ?tr (Suc 28) (at_word ?x (post_va granule) 0 ?on ?ram 0 0)
        = (Aborted True (post_va granule) (Fault 7), at_word ?x (post_va granule) 0 ?on ?ram 0 0\<lparr>gc_fetches := 1\<rparr>)"
      by (rule dyn_fetch_faults [OF g odd]) (use 2 m1 in simp)
    then show ?thesis unfolding run using 2
      by (simp add: as_wanted_def dyn_wanted_def syndrome_def at_word_def later_def dyn_initial_def dyn_expected_ram_def)
  next
    case 3
    have "data_va granule kind = DYN_RAM_PA + 2 * granule" using 3 by (simp add: data_va_def)
    then have "guest_runs ?tr (Suc 28) (at_word ?x (post_va granule) 0 ?on ?ram 0 0)
        = (Aborted False (data_va granule kind) (Fault 7), at_word ?x (post_va granule) 0 ?on ?ram 1 0\<lparr>gc_fetches := 1\<rparr>)"
      by (intro dyn_load_faults [OF g odd I(3)]) (use 3 m1 m2 in simp_all)
    then show ?thesis unfolding run using 3
      by (simp add: as_wanted_def dyn_wanted_def syndrome_def at_word_def later_def dyn_initial_def dyn_expected_ram_def)
  qed
qed

text \<open>Property C33: for each of the six cases the tables can be built, and what the case expects of the
  emulator (the end of the run with its syndrome and fault address, the registers, the program
  counter, the numbers of instructions, fetches and data accesses, and the RAM) is what the
  reference interpreter does with its program, image and tables: it starts without translation,
  switches it on at the end of one page and goes on in the page that the tables put behind it.\<close>

theorem cases_follow_the_reference:
  "list_all (\<lambda>(granule, kind). \<exists>tb.
       build (\<lambda>(va, d). map_va DYN_TABLE_PA va d) (dyn_maps granule kind) (empty_tables granule 8) = (Inr (), tb)
       \<and> as_wanted granule kind (dyn_image granule kind (replicate (8 * granule) 0))
           (guest_runs (dyn_walk granule (translate 0x0000fffffffff000 DYN_TABLE_PA tb)) 32
             (reset_cpu (dyn_initial granule kind) (dyn_start granule) SCTLR (dyn_image granule kind (replicate (8 * granule) 0)))))
     dyn_cases"
proof -
  have "\<exists>tb. build (\<lambda>(va, d). map_va DYN_TABLE_PA va d) (dyn_maps granule kind) (empty_tables granule 8) = (Inr (), tb)
      \<and> as_wanted granule kind (dyn_image granule kind (replicate (8 * granule) 0))
          (guest_runs (dyn_walk granule (translate 0x0000fffffffff000 DYN_TABLE_PA tb)) 32
            (reset_cpu (dyn_initial granule kind) (dyn_start granule) SCTLR (dyn_image granule kind (replicate (8 * granule) 0))))"
    if "(granule, kind) \<in> set dyn_cases" for granule kind
  proof -
    from dyn_case_values [OF that] have v: "granule \<in> {4096, 16384}" "kind \<in> {0, 1, 2}" by blast+
    obtain tb where "build (\<lambda>(va, d). map_va DYN_TABLE_PA va d) (dyn_maps granule kind) (empty_tables granule 8) = (Inr (), tb)"
      "\<And>k. k < 4 \<Longrightarrow> maps_page granule (translate 0x0000fffffffff000 DYN_TABLE_PA tb) (DYN_RAM_PA + k * granule) (page_leaf_of granule kind k)"
      using dyn_tables [OF v(1), of kind] by blast
    with dyn_case_runs [OF v length_replicate] show ?thesis by blast
  qed
  then show ?thesis by (auto simp: list_all_iff)
qed

end
