(* ===== verification/Spec2Isabelle.thy ===== *)
theory Spec2Isabelle
  imports Prelude Device_Paths Apfs_Records UEFI Memory_Map Page_Owner Loaded_Kernel Filesystems
    Picker Console_Control Memory_Observation Mapped_Trace Boot_Framebuffer Exit_Data Apfs_Driver
    Firmware_IO Boot_Manager Hal_Tables Kernel_Entry Page_Tables Owned_Pages Kc_Stage Arm_Entry Selected_Boot
    Arm_Jit Probe_Engine Guest_Cpu Guest_Programs Asid_Probe Hierarchy_Probe Mmu_Probe Dt_Probe Dt_Reference
    Dynamic_Probe Dynamic_Reference
begin

text \<open>
  A verification development for NextCore-EFI, a set of UEFI applications written in Rust
  (src/src/*.rs): the boot manager, the loader of a Mach-O kernel at its linked address, the
  jump-start of an APFS driver, the read-only observation of the volumes below a controller, and
  the probes that exercise a generated machine code emulator.

  How the programs are modelled. Every function of the files listed below is a definition of the
  same name in the theory of its file, a long one split into several; the files that are left out
  are named at the end. A pure function is a HOL function. A function that calls the
  firmware is an operation of type \<open>('w, 'a) op\<close> (theory UEFI): it takes the firmware's state and
  the trace of the calls so far and returns its result and the next ones. The firmware itself is
  not part of the repository: it is the parameter \<open>fw\<close>, whose answers are arbitrary, so every
  property holds for a firmware that fails at any call. \<open>Result<T, Status>\<close> is \<open>status + 'a\<close>, the
  question mark operator is \<open>bindE\<close>, and a value with a \<open>Drop\<close> is released by \<open>with_drop\<close> on every
  path. Functions of the crate nextcore\_core, which is a dependency, are parameters of the
  definitions that use them.

  The theories, with the files of src/src they model:
  \<^item> Prelude: generic lemmas on lists, options, words and byte strings.
  \<^item> Device_Paths (apfs\_observation.rs): the bounded parser of UEFI device paths and the test
    that one path is strictly below another.
  \<^item> Apfs_Records (apfs\_observation.rs): the parsers of EFI\_FILE\_INFO and
    EFI\_FILE\_SYSTEM\_INFO replies, the escaped rendering of names, and the read budget.
  \<^item> UEFI: the firmware interface, sequencing, and the proof rules: \<open>extends\<close> (what an operation
    appends to the trace), \<open>shifts\<close> and \<open>neutral\<close> (the multiset of resources it holds, with the
    locale \<open>owner\<close>), \<open>post\<close> (its result) and \<open>moves\<close> (an automaton over its calls).
  \<^item> Memory_Map (loaded\_kernel\_collection.rs, arm\_pages.rs): the bounded map buffer and the checks that an
    allocation is covered by the firmware's memory map.
  \<^item> Page_Owner (loaded\_kernel\_collection.rs, arm\_pages.rs): owners of one firmware allocation,
    freed exactly once; three interpretations of \<open>owner\<close>.
  \<^item> Loaded_Kernel (loaded\_kernel.rs): placing a Mach-O kernel at its linked physical address,
    with the readback of every word before it is reported.
  \<^item> Filesystems (apfs\_filesystems.rs): leases on protocols and directories, the walk over a
    device path in memory, the observation and selection of a volume.
  \<^item> Picker (picker.rs, configuration\_recovery.rs, watchdog.rs): the interactive loops.
  \<^item> Console_Control (console\_control.rs): the published console service and its lease.
  \<^item> Memory_Observation (memory\_observation.rs): the ring of the last 64 memory requests, refined
    against the history; \<open>ring_holds\<close> is the shared representation of a ring.
  \<^item> Mapped_Trace (mapped\_trace.rs): the observed service, its watches and the printed report. A
    guest is a tree of requests, so what it does next depends on the replies.
  \<^item> Boot_Framebuffer (boot\_framebuffer.rs): geometry, pixels, presenting and reading back.
  \<^item> Exit_Data (exit\_data.rs): starting an image and the exit data it leaves.
  \<^item> Apfs_Driver (apfs\_driver.rs, apfs\_probe.rs): reading, loading, starting and connecting the
    driver; \<open>driver_step\<close> is the order of guards and images it keeps.
  \<^item> Firmware_IO (firmware\_io.rs, \<open>read_config\<close> of main.rs): reading a bounded file.
  \<^item> Boot_Manager (main.rs, apfs\_target.rs, linux\_handoff.rs): composes the others. The options of a
    child are followed through its run by \<open>option_step\<close>, with and without the console service: it reads the
    configuration (Firmware_IO), shows the menu or the recovery prompt (Picker), loads the target
    (Apfs_Driver, Filesystems, Device_Paths), publishes the console service (Console_Control) and
    starts the child (Exit_Data).
  \<^item> Hal_Tables (hal\_tables.rs): the dumper of ACPI tables and PCI functions, and the memory map
    it consults before each read of physical memory.
  \<^item> Kernel_Entry (kernel.rs, transition32.rs): loading a kernel (Loaded_Kernel), building its
    boot arguments, leaving boot services, and the 32 bit transition.
  \<^item> Page_Tables (\<open>Tables\<close> of the processor probes): building translation tables in a
    buffer, against the translation walk of the architecture.
  \<^item> Owned_Pages: scopes that own ARM pages in operations that may also panic, and the locale
    \<open>quiet_events\<close> for operations that neither acquire nor release.
  \<^item> Kc_Stage (kc.rs): staging a kernel collection on request and leaving the evidence.
  \<^item> Arm_Entry (arm64.rs, arm\_transition.rs): the application on ARM processors: identity check,
    staging, leaving boot services, entering the kernel.
  \<^item> Selected_Boot (selected\_boot\_efi.rs, selected\_bootkc\_efi.rs, selected\_startup\_efi.rs): the
    sealed inputs of a selected boot.
  \<^item> Arm_Jit (arm\_jit.rs): the application that runs an ARM guest in an emulator. It composes
    Selected_Boot, Page_Owner, Mapped_Trace, Memory_Observation and Boot_Framebuffer.
  \<^item> Probe_Engine: what the processor probes share: the pages of a case, the run of the emulator,
    the main loop, and the locales \<open>probe_cases\<close> and \<open>calm_cases\<close>, the contracts that the probes
    keep: a case gives its pages back, and code pages that the firmware refused to make writable
    again only with a failure.
  \<^item> Guest_Cpu: a reference interpreter of the few instructions that the guest programs of the
    probes consist of, over RAM behind translation tables. It models no source file; it is what the
    expectations of the probes are compared with.
  \<^item> Asid_Probe, Hierarchy_Probe, Mmu_Probe (asid\_probe.rs, hierarchy\_probe.rs, mmu\_probe.rs): the
    probes of address space identifiers, of hierarchical permissions and of loads, stores and
    faults. They compose Page_Tables, Page_Owner and Probe_Engine. What a case expects is compared
    with the permissions of the architecture for the tables it builds, and with Guest_Cpu.
  \<^item> Dt_Probe (dt\_probe.rs): the probe that hands out guest memory from a ledger, binds a device
    tree to a page of it and lets a guest copy words of the tree. Dt_Reference compares its verdict
    with Guest_Cpu, whatever pages the ledger hands out; Guest_Programs holds lemmas on programs
    and pages that the comparisons share.
  \<^item> Dynamic_Probe (dynamic\_probe.rs): the probe whose guest switches translation on, with the two
    observers of the emulator's callbacks. Dynamic_Reference compares its expectations with
    Guest_Cpu.

  Loops and fuel. Loops over data are structural recursion. The directory loop of Filesystems
  stops by its read budget; \<open>directory_loop_terminates\<close> shows that 129 rounds are enough, which
  is the fuel the model passes. The loops that wait for a key may never end: they take fuel, and
  \<open>first_key_is_returned\<close> relates the fuel to the number of rounds after which the firmware
  delivers a key (\<open>delivers\<close>). The reference interpreter runs with a fuel of 32 instructions, more
  than any guest program of the probes has; the comparisons show that each run ends within it.

  Not modelled. The text of reports is represented by a tag and the values printed. The emulator,
  the memory service and the crate nextcore\_core are dependencies, so they are parameters. The
  build script and the small applications that only exercise one component with authored inputs
  (apfs\_fixture.rs, config\_recovery\_probe.rs, console\_probe.rs, picker\_probe.rs,
  watchdog\_probe.rs, test\_child.rs) are left out: the components that they drive are modelled.
  The directory research/ holds older copies of the programs for the record; the build does not
  use them.
\<close>

text \<open>Property C37: the processor probes give everything back. Whatever the firmware, the emulator and the
  memory service answer, every page that a probe allocates is freed exactly once, and code pages
  are freed only after the probe asked, in the last call of the protection function, for the whole
  of them to be made writable again, or when that function was never called. If that call is
  refused the code pages go back as they are; then, and only then, and the probe ends with
  \<open>COMPROMISED_DATA\<close>. The probes of address space identifiers, permissions, the memory management
  unit and of enabling translation never panic. The device tree probe keeps all this unless it
  panics, which it does where a slice of what the ledger or the device tree code returned is out
  of range.\<close>

theorem probes_give_everything_back:
  "neutral page_acq page_rel (asid_main i1 x1 fw jh pc)
    \<and> moves guard_step (asid_main i1 x1 fw jh pc) Unguarded (\<lambda>r q. r \<noteq> Inl Panic \<and> reported_back r q)
    \<and> neutral page_acq page_rel (hier_main i2 fw jh pc a)
    \<and> moves guard_step (hier_main i2 fw jh pc a) Unguarded (\<lambda>r q. r \<noteq> Inl Panic \<and> reported_back r q)
    \<and> neutral page_acq page_rel (mmu_main i3 x3 fw jh pc a)
    \<and> moves guard_step (mmu_main i3 x3 fw jh pc a) Unguarded (\<lambda>r q. r \<noteq> Inl Panic \<and> reported_back r q)
    \<and> neutral page_acq page_rel (dyn_main i5 x5 fw jh dh dy a ca)
    \<and> moves guard_step (dyn_main i5 x5 fw jh dh dy a ca) Unguarded (\<lambda>r q. r \<noteq> Inl Panic \<and> reported_back r q)
    \<and> settles (dt_main i4 x4 fw jh pc d a)
    \<and> moves guard_step (dt_main i4 x4 fw jh pc d a) Unguarded (\<lambda>r q. r = Inl Panic \<or> reported_back r q)"
  unfolding asid_main_def hier_main_def mmu_main_def dyn_main_def dt_main_def
  by (intro conjI asid_probe.sound [THEN conjunct1] asid_probe.sound [THEN conjunct2] hier_probe.sound [THEN conjunct1]
      hier_probe.sound [THEN conjunct2] mmu_probe.sound [THEN conjunct1] mmu_probe.sound [THEN conjunct2]
      dynamic_probe.sound [THEN conjunct1] dynamic_probe.sound [THEN conjunct2] dt_probe.frees dt_probe.guards)

end
